(* ===== verification/Prelude.thy ===== *)
theory Prelude
  imports Complex_Main "HOL-Library.Word" "HOL-Library.Multiset" "HOL-Library.Finite_Map" "HOL-Library.List_Lexorder"
    "HOL-Library.Char_ord"
begin

text \<open>
  What every component shares: the parts of Go and of its standard library that the modelled
  packages use (maps, strings, decimal text, the \<^verbatim>\<open>result, error\<close> return pair), and
  the generic lemmas on them.

  A Go map that the code ranges over is a finite map (\<open>fmap\<close>): a lookup is
  \<open>fmlookup\<close>, a store is \<open>fmupd\<close>, a delete is \<open>fmdrop\<close>. A loop
  over a map whose body only decides a conjunction is \<open>fmpred\<close>, since Go leaves the
  order of the loop open. A pair \<^verbatim>\<open>(T, error)\<close> is a sum: \<open>Inl\<close> the error,
  \<open>Inr\<close> the value. Strings are byte strings, ordered as \<^verbatim>\<open>sort.Strings\<close>
  orders them.
\<close>

named_theorems go_str \<open>string helpers of the Go library\<close>

type_synonym int64 = "64 word"
type_synonym uint64 = "64 word"
type_synonym ('k, 'v) gomap = "('k, 'v) fmap"

section \<open>Results\<close>

text \<open>A call that may panic.\<close>

datatype 'a run = Returns 'a | Panics string

definition is_ok :: "'e + 'a \<Rightarrow> bool" where
  "is_ok r = (case r of Inl _ \<Rightarrow> False | Inr _ \<Rightarrow> True)"

lemma is_ok_simps [simp]: "is_ok (Inr x)" "\<not> is_ok (Inl e)"
  by (simp_all add: is_ok_def)

lemma is_ok_iff: "is_ok r \<longleftrightarrow> (\<exists>x. r = Inr x)"
  by (cases r) auto

text \<open>The guard \<^verbatim>\<open>if err != nil { return err }\<close> in front of the next step.\<close>

definition res_bind :: "'e + 'a \<Rightarrow> ('a \<Rightarrow> 'e + 'b) \<Rightarrow> 'e + 'b" where
  "res_bind r f = (case r of Inl e \<Rightarrow> Inl e | Inr x \<Rightarrow> f x)"

lemma res_bind_simps [simp]: "res_bind (Inl e) f = Inl e" "res_bind (Inr x) f = f x"
  by (simp_all add: res_bind_def)

lemma res_bind_Inr_iff: "res_bind r f = Inr y \<longleftrightarrow> (\<exists>x. r = Inr x \<and> f x = Inr y)"
  by (cases r) auto

lemma res_bind_Inl_iff: "res_bind r f = Inl e \<longleftrightarrow> r = Inl e \<or> (\<exists>x. r = Inr x \<and> f x = Inl e)"
  by (cases r) auto

text \<open>The same guard where the step also returns the state.\<close>

definition st_bind :: "('e + 'a) \<times> 'w \<Rightarrow> ('a \<Rightarrow> 'w \<Rightarrow> ('e + 'b) \<times> 'w) \<Rightarrow> ('e + 'b) \<times> 'w" where
  "st_bind r f = (case r of (Inl e, w) \<Rightarrow> (Inl e, w) | (Inr x, w) \<Rightarrow> f x w)"

lemma st_bind_simps [simp]: "st_bind (Inl e, w) f = (Inl e, w)" "st_bind (Inr x, w) f = f x w"
  by (simp_all add: st_bind_def)

lemma st_bind_Inr_iff: "st_bind r f = (Inr y, w') \<longleftrightarrow> (\<exists>x w. r = (Inr x, w) \<and> f x w = (Inr y, w'))"
  by (cases r; cases "fst r") auto

lemma snd_st_bind_id: "(\<And>x w. snd (f x w) = w) \<Longrightarrow> snd (st_bind r f) = snd r"
  by (cases r; cases "fst r") auto

lemma st_bind_pres:
  assumes "P (snd r)" and "\<And>x w. r = (Inr x, w) \<Longrightarrow> P w \<Longrightarrow> P (snd (f x w))"
  shows "P (snd (st_bind r f))"
  using assms by (cases r; cases "fst r") auto

lemma find_SomeD: "List.find P xs = Some x \<Longrightarrow> x \<in> set xs \<and> P x"
  by (auto simp: find_Some_iff)

lemma in_set_tl: "x \<in> set (tl xs) \<Longrightarrow> x \<in> set xs" by (cases xs) auto

lemma list_all2_backwards:
  assumes "list_all2 R xs ys" "y \<in> set ys"
  shows "\<exists>x \<in> set xs. R x y"
  using assms by (induction rule: list_all2_induct) auto

lemma find_list_all2:
  assumes "list_all2 R xs ys" "\<And>x y. R x y \<Longrightarrow> P x = P y"
  shows "rel_option R (List.find P xs) (List.find P ys)"
  using assms(1) by (induction rule: list_all2_induct) (auto simp: assms(2))

lemma find_distinct_key:
  "distinct (map f xs) \<Longrightarrow> x \<in> set xs \<Longrightarrow> List.find (\<lambda>y. f y = f x) xs = Some x"
  by (induction xs) auto

lemma in_map_filter: "y \<in> set (List.map_filter f xs) \<longleftrightarrow> (\<exists>x \<in> set xs. f x = Some y)"
  by (induction xs) (auto simp: List.map_filter_simps split: option.splits)

lemma case_option_False: "(case x of None \<Rightarrow> False | Some v \<Rightarrow> P v) \<longleftrightarrow> (\<exists>v. x = Some v \<and> P v)"
  by (cases x) simp_all

section \<open>Maps\<close>

text \<open>Go's \<^verbatim>\<open>m[k]\<close> on a map of slices: the zero value, an empty slice, when absent.\<close>

definition slice_at :: "('k, 'v list) gomap \<Rightarrow> 'k \<Rightarrow> 'v list" where
  "slice_at m k = (case fmlookup m k of None \<Rightarrow> [] | Some vs \<Rightarrow> vs)"

text \<open>\<^verbatim>\<open>m[k] = append(m[k], v)\<close>.\<close>

definition slice_append :: "'k \<Rightarrow> 'v \<Rightarrow> ('k, 'v list) gomap \<Rightarrow> ('k, 'v list) gomap" where
  "slice_append k v m = fmupd k (slice_at m k @ [v]) m"

lemma slice_at_empty [simp]: "slice_at fmempty k = []"
  by (simp add: slice_at_def)

lemma slice_at_Some: "fmlookup m k = Some vs \<Longrightarrow> slice_at m k = vs"
  by (simp add: slice_at_def)

lemma slice_at_append: "slice_at (slice_append k v m) k' = (if k' = k then slice_at m k @ [v] else slice_at m k')"
  by (simp add: slice_at_def slice_append_def)

lemma dom_slice_append: "fmdom' (slice_append k v m) = insert k (fmdom' m)"
  by (simp add: slice_append_def)

text \<open>
  \<^verbatim>\<open>sortedKeys\<close> of \<^verbatim>\<open>authz/role.go\<close>, and the idiom of collecting the
  keys of a map and sorting them wherever the code writes it out.
\<close>

definition sortedKeys :: "('k::linorder, 'v) gomap \<Rightarrow> 'k list" where
  "sortedKeys m = sorted_list_of_fset (fmdom m)"

lemma set_sortedKeys [simp]: "set (sortedKeys m) = fmdom' m"
  by (simp add: sortedKeys_def fmdom'_alt_def)

lemma distinct_sortedKeys [simp]: "distinct (sortedKeys m)"
  by (simp add: sortedKeys_def sorted_list_of_fset.rep_eq)

lemma sorted_sortedKeys [simp]: "sorted (sortedKeys m)"
  by (simp add: sortedKeys_def sorted_list_of_fset.rep_eq)

lemma in_fmdom'_iff: "k \<in> fmdom' m \<longleftrightarrow> (\<exists>v. fmlookup m k = Some v)"
  by (simp add: fmlookup_dom'_iff)

lemma concat_sortedKeys_empty:
  "concat (map f (sortedKeys m)) = [] \<longleftrightarrow> (\<forall>k v. fmlookup m k = Some v \<longrightarrow> f k = [])"
proof -
  have "concat (map f (sortedKeys m)) = [] \<longleftrightarrow> (\<forall>k \<in> fmdom' m. f k = [])" by auto
  then show ?thesis by (metis in_fmdom'_iff)
qed

text \<open>
  The values of a map, in the order of the keys. Go leaves the order of a range over a map open;
  the code below either sorts what it collects or folds an operation whose result does not
  depend on the order.
\<close>

definition map_values :: "('k::linorder, 'v) gomap \<Rightarrow> 'v list" where
  "map_values m = map (\<lambda>k. the (fmlookup m k)) (sortedKeys m)"

lemma set_map_values: "v \<in> set (map_values m) \<longleftrightarrow> (\<exists>k. fmlookup m k = Some v)"
  by (force simp: map_values_def in_fmdom'_iff)

lemma map_values_fmempty [simp]: "map_values fmempty = []"
  by (simp add: map_values_def sortedKeys_def sorted_list_of_fset.rep_eq)

lemma sortedKeys_fmupd_last:
  assumes "\<forall>k' \<in> fmdom' m. k' < k"
  shows "sortedKeys (fmupd k v m) = sortedKeys m @ [k]"
proof (rule sorted_distinct_set_unique)
  show "sorted (sortedKeys m @ [k])" using assms by (auto simp: sorted_append)
  show "distinct (sortedKeys m @ [k])" using assms by auto
qed auto

lemma sortedKeys_fmdrop: "sortedKeys (fmdrop k m) = filter (\<lambda>k'. k' \<noteq> k) (sortedKeys m)"
  by (rule sorted_distinct_set_unique) (auto intro: sorted_wrt_filter)

lemma map_values_fmupd_last:
  "\<forall>k' \<in> fmdom' m. k' < k \<Longrightarrow> map_values (fmupd k v m) = map_values m @ [v]"
  by (auto simp: map_values_def sortedKeys_fmupd_last)

text \<open>A map whose values carry their own key.\<close>

lemma map_values_keyed:
  assumes "\<And>k v. fmlookup m k = Some v \<Longrightarrow> f v = k"
  shows "map f (map_values m) = sortedKeys m"
proof -
  have "f (the (fmlookup m k)) = k" if "k \<in> set (sortedKeys m)" for k
    using that assms by (auto simp: in_fmdom'_iff)
  then show ?thesis by (auto simp: map_values_def intro: map_idI)
qed

lemma map_values_fmdrop:
  assumes "\<And>k v. fmlookup m k = Some v \<Longrightarrow> f v = k"
  shows "map_values (fmdrop k m) = filter (\<lambda>v. f v \<noteq> k) (map_values m)"
proof -
  have "f (the (fmlookup m k')) = k'" if "k' \<in> set (sortedKeys m)" for k'
    using that assms by (auto simp: in_fmdom'_iff)
  then have "filter (\<lambda>v. f v \<noteq> k) (map (\<lambda>k'. the (fmlookup m k')) (sortedKeys m))
      = map (\<lambda>k'. the (fmlookup m k')) (filter (\<lambda>k'. k' \<noteq> k) (sortedKeys m))"
    by (auto simp: filter_map intro!: arg_cong [where f = "map _"] filter_cong)
  then show ?thesis by (simp add: map_values_def sortedKeys_fmdrop)
qed

section \<open>Strings\<close>

text \<open>\<^verbatim>\<open>strings.Cut(s, sep)\<close> for a one-byte separator: before, after, found.\<close>

fun go_cut :: "char \<Rightarrow> string \<Rightarrow> string \<times> string \<times> bool" where
  "go_cut c [] = ([], [], False)"
| "go_cut c (x # xs) =
     (if x = c then ([], xs, True)
      else (case go_cut c xs of (before, after, found) \<Rightarrow> (x # before, after, found)))"

text \<open>\<^verbatim>\<open>strings.Split(s, sep)\<close> for a one-byte separator: never empty.\<close>

fun go_split :: "char \<Rightarrow> string \<Rightarrow> string list" where
  "go_split c [] = [[]]"
| "go_split c (x # xs) =
     (if x = c then [] # go_split c xs
      else (case go_split c xs of [] \<Rightarrow> [[x]] | s # ss \<Rightarrow> (x # s) # ss))"

text \<open>\<^verbatim>\<open>strings.Join\<close>.\<close>

fun go_join :: "string \<Rightarrow> string list \<Rightarrow> string" where
  "go_join sep [] = []"
| "go_join sep [s] = s"
| "go_join sep (s # ss) = s @ sep @ go_join sep ss"

definition has_prefix :: "string \<Rightarrow> string \<Rightarrow> bool" where
  "has_prefix p s = (take (length p) s = p)"

lemma go_cut_found: "go_cut c s = (a, b, True) \<Longrightarrow> s = a @ c # b \<and> c \<notin> set a"
  by (induction s arbitrary: a b) (auto split: if_splits prod.splits)

lemma go_cut_notin: "c \<notin> set s \<Longrightarrow> go_cut c s = (s, [], False)"
  by (induction s) auto

lemma go_cut_append [go_str]: "c \<notin> set a \<Longrightarrow> go_cut c (a @ c # b) = (a, b, True)"
  by (induction a) auto

lemma go_cut_not_found: "go_cut c s = (a, b, False) \<Longrightarrow> c \<notin> set s \<and> a = s \<and> b = []"
  by (induction s arbitrary: a b) (auto split: if_splits prod.splits)

lemma go_split_nonempty [simp]: "go_split c s \<noteq> []"
  by (induction s) (auto split: list.splits)

lemma go_join_split: "go_join [c] (go_split c s) = s"
proof (induction s)
  case Nil
  then show ?case by simp
next
  case (Cons x xs)
  obtain t ts where "go_split c xs = t # ts" by (cases "go_split c xs") auto
  with Cons show ?case by (cases ts) auto
qed

lemma go_split_no_sep: "t \<in> set (go_split c s) \<Longrightarrow> c \<notin> set t"
proof (induction s arbitrary: t)
  case Nil
  then show ?case by simp
next
  case (Cons x xs)
  obtain u us where "go_split c xs = u # us" by (cases "go_split c xs") auto
  with Cons show ?case by (auto split: if_splits)
qed

text \<open>The expression \<^verbatim>\<open>^[a-z][a-z0-9]*$\<close> of \<^verbatim>\<open>authz/permission.go\<close>.\<close>

definition lower_char :: "char \<Rightarrow> bool" where
  "lower_char c = (CHR ''a'' \<le> c \<and> c \<le> CHR ''z'')"

definition digit_char :: "char \<Rightarrow> bool" where
  "digit_char c = (CHR ''0'' \<le> c \<and> c \<le> CHR ''9'')"

definition word_match :: "string \<Rightarrow> bool" where
  "word_match s =
     (case s of [] \<Rightarrow> False
      | c # cs \<Rightarrow> lower_char c \<and> list_all (\<lambda>d. lower_char d \<or> digit_char d) cs)"

lemma lower_char_not_sep [simp]:
  "\<not> lower_char CHR ''.''" "\<not> lower_char CHR '':''" "\<not> digit_char CHR ''.''" "\<not> digit_char CHR '':''"
  by (simp_all add: lower_char_def digit_char_def less_eq_char_def)

lemma word_match_no_sep:
  assumes "word_match s"
  shows "CHR ''.'' \<notin> set s" and "CHR '':'' \<notin> set s"
  using assms by (fastforce simp: word_match_def list_all_iff split: list.splits)+

section \<open>Decimal text\<close>

text \<open>\<^verbatim>\<open>%d\<close> of a non-negative and of any integer.\<close>

definition digit_of :: "nat \<Rightarrow> char" where
  "digit_of d = char_of (48 + d)"

fun show_nat :: "nat \<Rightarrow> string" where
  "show_nat n = (if n < 10 then [digit_of n] else show_nat (n div 10) @ [digit_of (n mod 10)])"

declare show_nat.simps [simp del]

definition show_int :: "int \<Rightarrow> string" where
  "show_int i = (if i < 0 then CHR ''-'' # show_nat (nat (- i)) else show_nat (nat i))"

text \<open>
  \<^verbatim>\<open>%q\<close> on the printable ASCII text the code quotes: a quote and a backslash are
  escaped, every other byte stands for itself.
\<close>

definition go_quote :: "string \<Rightarrow> string" where
  "go_quote s =
     CHR 0x22 # concat (map (\<lambda>c. if c = CHR 0x22 \<or> c = CHR 0x5C then [CHR 0x5C, c] else [c]) s) @ [CHR 0x22]"

definition digit_val :: "char \<Rightarrow> nat" where
  "digit_val c = of_char c - 48"

lemma of_char_digit_of: "d < 10 \<Longrightarrow> (of_char (digit_of d) :: nat) = 48 + d"
  by (simp add: digit_of_def)

lemma digit_val_digit_of [simp]: "d < 10 \<Longrightarrow> digit_val (digit_of d) = d"
  by (simp add: digit_val_def of_char_digit_of)

lemma less_eq_char_nat: "c \<le> d \<longleftrightarrow> (of_char c :: nat) \<le> of_char d"
  by (simp add: less_eq_char_def)

lemma digit_char_iff: "digit_char c \<longleftrightarrow> 48 \<le> (of_char c :: nat) \<and> (of_char c :: nat) \<le> 57"
  by (simp add: digit_char_def less_eq_char_nat)

lemma digit_char_digit_of [simp]: "d < 10 \<Longrightarrow> digit_char (digit_of d)"
  by (simp add: digit_char_iff of_char_digit_of)

text \<open>Reading a string of digits, most significant first.\<close>

definition read_nat :: "string \<Rightarrow> nat" where
  "read_nat s = foldl (\<lambda>n c. 10 * n + digit_val c) 0 s"

lemma read_nat_snoc: "read_nat (s @ [c]) = 10 * read_nat s + digit_val c"
  by (simp add: read_nat_def)

lemma foldl_digits: "foldl (\<lambda>n c. 10 * n + digit_val c) k s = k * 10 ^ length s + read_nat s"
proof (induction s rule: rev_induct)
  case Nil
  then show ?case by (simp add: read_nat_def)
next
  case (snoc c s)
  then show ?case by (simp add: read_nat_snoc algebra_simps)
qed

lemma read_nat_append: "read_nat (s @ t) = read_nat s * 10 ^ length t + read_nat t"
  using foldl_digits [of "read_nat s" t] by (simp add: read_nat_def [of "s @ t"] read_nat_def [of s])

lemma read_show_nat [simp]: "read_nat (show_nat n) = n"
proof (induction n rule: show_nat.induct)
  case (1 n)
  then show ?case
    by (cases "n < 10") (simp_all add: show_nat.simps [of n] read_nat_snoc, simp_all add: read_nat_def)
qed

lemma show_nat_digits: "c \<in> set (show_nat n) \<Longrightarrow> digit_char c"
proof (induction n rule: show_nat.induct)
  case (1 n)
  then show ?case
    by (cases "n < 10") (auto simp: show_nat.simps [of n])
qed

lemma show_nat_nonempty [simp]: "show_nat n \<noteq> []"
  by (subst show_nat.simps) simp

end
