(* ===== verification/Apperr.thy ===== *)
theory Apperr
  imports Prelude
begin

text \<open>
  The structured errors of \<^verbatim>\<open>apperr\<close> and the error values \<^verbatim>\<open>authz\<close>
  builds on them (\<^verbatim>\<open>authz/errors.go\<close>).

  A Go error value is a \<open>go_error\<close>: a package-level sentinel (known by its text, which is
  unique), an error made on the spot, \<^verbatim>\<open>fmt.Errorf\<close> with \<^verbatim>\<open>%w\<close>,
  \<^verbatim>\<open>errors.Join\<close>, a \<^verbatim>\<open>*authz.ValidationError\<close> or an
  \<^verbatim>\<open>*apperr.AppError\<close>. The call site an AppError records (file, line, stack) is read
  from the running program's stack and is left out; every other field is kept.
\<close>

section \<open>Data\<close>

type_synonym code = string
type_synonym reason = string
type_synonym problem_code = string

definition CodeInternal :: code where "CodeInternal = ''internal_error''"
definition CodeNotFound :: code where "CodeNotFound = ''not_found''"
definition CodeBadRequest :: code where "CodeBadRequest = ''bad_request''"
definition CodeUnauthenticated :: code where "CodeUnauthenticated = ''unauthenticated''"
definition CodePermissionDenied :: code where "CodePermissionDenied = ''permission_denied''"
definition CodeInvalidArgument :: code where "CodeInvalidArgument = ''invalid_argument''"
definition CodeAlreadyExists :: code where "CodeAlreadyExists = ''already_exists''"
definition CodeValidationError :: code where "CodeValidationError = ''validation_error''"
definition CodePayloadTooLarge :: code where "CodePayloadTooLarge = ''payload_too_large''"

lemmas code_defs = CodeInternal_def CodeNotFound_def CodeBadRequest_def CodeUnauthenticated_def
  CodePermissionDenied_def CodeInvalidArgument_def CodeAlreadyExists_def CodeValidationError_def
  CodePayloadTooLarge_def

datatype level = LevelNone | LevelInfo | LevelWarn | LevelError

record problem =
  prob_Code :: problem_code
  prob_Permission :: string
  prob_Detail :: string

text \<open>The values of \<^verbatim>\<open>map[string]any\<close> params: the ones the modelled code stores.\<close>

datatype go_any = AnyString string | AnyInt int | AnyStrings "string list" | AnyMaps "(string, string) gomap list"

datatype 'e app_error =
  AppError (Err: "'e option") (Code: code) (Reason: reason) (Params: "(string, go_any) gomap")
    (Message: string) (LogLevel: level) (Fields: "(string, string) gomap")

datatype go_error =
    Sentinel string
  | Plain string
  | Wrapf string go_error
  | Joined "go_error list"
  | ValidationError "problem list"
  | App "go_error app_error"

type_synonym 'a result = "go_error + 'a"

section \<open>The error interface: text, Is, As\<close>

lemma size_Err [termination_simp]: "Err a = Some e \<Longrightarrow> size e < Suc (size_app_error size a)"
  by (cases a) simp

definition problem_string :: "problem \<Rightarrow> string" where
  "problem_string p =
     prob_Code p
     @ (if prob_Permission p \<noteq> [] then '' '' @ prob_Permission p else [])
     @ (if prob_Detail p \<noteq> [] then '' ('' @ prob_Detail p @ '')'' else [])"

fun error_text :: "go_error \<Rightarrow> string" where
  "error_text (Sentinel s) = s"
| "error_text (Plain s) = s"
| "error_text (Wrapf s e) = s"
| "error_text (Joined es) = go_join [CHR 0x0A] (map error_text es)"
| "error_text (ValidationError ps) = ''authz: invalid: '' @ go_join ''; '' (map problem_string ps)"
| "error_text (App a) =
     (case Err a of Some e \<Rightarrow> Message a @ '': '' @ error_text e | None \<Rightarrow> Message a)"

text \<open>\<^verbatim>\<open>errors.Is(err, sentinel)\<close>: some error of the tree is the sentinel.\<close>

fun errors_Is :: "go_error \<Rightarrow> string \<Rightarrow> bool" where
  "errors_Is (Sentinel n) s = (n = s)"
| "errors_Is (Plain _) s = False"
| "errors_Is (Wrapf _ e) s = errors_Is e s"
| "errors_Is (Joined es) s = list_ex (\<lambda>e. errors_Is e s) es"
| "errors_Is (ValidationError _) s = False"
| "errors_Is (App a) s = (case Err a of None \<Rightarrow> False | Some e \<Rightarrow> errors_Is e s)"

text \<open>\<^verbatim>\<open>errors.As(err, &appErr)\<close>: the first AppError of the tree, in pre-order.\<close>

fun first_some :: "'a option list \<Rightarrow> 'a option" where
  "first_some [] = None"
| "first_some (None # xs) = first_some xs"
| "first_some (Some x # xs) = Some x"

fun errors_As_app :: "go_error \<Rightarrow> go_error app_error option" where
  "errors_As_app (App a) = Some a"
| "errors_As_app (Wrapf _ e) = errors_As_app e"
| "errors_As_app (Joined es) = first_some (map errors_As_app es)"
| "errors_As_app (Sentinel _) = None"
| "errors_As_app (Plain _) = None"
| "errors_As_app (ValidationError _) = None"

text \<open>
  \<^verbatim>\<open>errors.As(err, &reasoner)\<close>: of the modelled errors the ValidationError has a
  reason of its own.
\<close>

fun errors_As_reasoner :: "go_error \<Rightarrow> problem list option" where
  "errors_As_reasoner (ValidationError ps) = Some ps"
| "errors_As_reasoner (Wrapf _ e) = errors_As_reasoner e"
| "errors_As_reasoner (Joined es) = first_some (map errors_As_reasoner es)"
| "errors_As_reasoner (App a) = (case Err a of None \<Rightarrow> None | Some e \<Rightarrow> errors_As_reasoner e)"
| "errors_As_reasoner (Sentinel _) = None"
| "errors_As_reasoner (Plain _) = None"

section \<open>The reason of a ValidationError\<close>

definition ReasonInvalid :: reason where "ReasonInvalid = ''authz.invalid''"

text \<open>
  The stable sort by code, then permission: a problem goes after the ones it does not precede,
  so equal keys keep their order.
\<close>

definition problem_key :: "problem \<Rightarrow> string \<times> string" where
  "problem_key p = (prob_Code p, prob_Permission p)"

definition problem_le :: "problem \<Rightarrow> problem \<Rightarrow> bool" where
  "problem_le p q =
     (prob_Code p < prob_Code q \<or> prob_Code p = prob_Code q \<and> prob_Permission p \<le> prob_Permission q)"

fun insert_problem :: "problem \<Rightarrow> problem list \<Rightarrow> problem list" where
  "insert_problem p [] = [p]"
| "insert_problem p (q # qs) = (if problem_le p q then p # q # qs else q # insert_problem p qs)"

definition sort_problems :: "problem list \<Rightarrow> problem list" where
  "sort_problems ps = foldr insert_problem ps []"

definition problem_entry :: "problem \<Rightarrow> (string, string) gomap" where
  "problem_entry p =
     (let m = fmupd ''code'' (prob_Code p) fmempty;
          m' = (if prob_Permission p \<noteq> [] then fmupd ''permission'' (prob_Permission p) m else m)
      in if prob_Detail p \<noteq> [] then fmupd ''detail'' (prob_Detail p) m' else m')"

definition ErrorReason :: "problem list \<Rightarrow> reason \<times> (string, go_any) gomap" where
  "ErrorReason ps =
     (ReasonInvalid, fmupd ''problems'' (AnyMaps (map problem_entry (sort_problems ps))) fmempty)"

definition ValidationError_Has :: "problem list \<Rightarrow> problem_code \<Rightarrow> bool" where
  "ValidationError_Has ps c = list_ex (\<lambda>p. prob_Code p = c) ps"

definition asValidation :: "problem list \<Rightarrow> unit result" where
  "asValidation ps = (if ps = [] then Inr () else Inl (ValidationError ps))"

section \<open>Constructors\<close>

definition newWithSkip :: "go_error option \<Rightarrow> string \<Rightarrow> code \<Rightarrow> go_error app_error" where
  "newWithSkip err message code = AppError err code [] fmempty message LevelError fmempty"

definition apperr_Wrap :: "go_error option \<Rightarrow> string \<Rightarrow> code \<Rightarrow> go_error app_error" where
  "apperr_Wrap err message code = newWithSkip err message code"

fun WithLog :: "level \<Rightarrow> 'e app_error \<Rightarrow> 'e app_error" where
  "WithLog l (AppError err code reason params msg _ flds) = AppError err code reason params msg l flds"

fun WithFields :: "(string, string) gomap \<Rightarrow> 'e app_error \<Rightarrow> 'e app_error" where
  "WithFields f (AppError err code reason params msg l _) = AppError err code reason params msg l f"

text \<open>The params of every map are merged, later ones winning.\<close>

fun WithReason :: "reason \<Rightarrow> (string, go_any) gomap list \<Rightarrow> 'e app_error \<Rightarrow> 'e app_error" where
  "WithReason r ps (AppError err code _ params msg l flds) =
     AppError err code r (foldl fmadd params ps) msg l flds"

definition WrapPreserve :: "go_error \<Rightarrow> string \<Rightarrow> go_error app_error" where
  "WrapPreserve err message =
     (case errors_As_app err of
        Some a \<Rightarrow> AppError (Some err) (Code a) (Reason a) (Params a) (message @ '': '' @ Message a) (LogLevel a) fmempty
      | None \<Rightarrow> newWithSkip (Some err) message CodeInternal)"

definition HasCode :: "go_error \<Rightarrow> code \<Rightarrow> bool" where
  "HasCode err c = (case errors_As_app err of None \<Rightarrow> False | Some a \<Rightarrow> Code a = c)"

definition HasReason :: "go_error \<Rightarrow> reason \<Rightarrow> bool" where
  "HasReason err r = (case errors_As_app err of None \<Rightarrow> False | Some a \<Rightarrow> Reason a = r)"

definition fromErr :: "go_error option \<Rightarrow> code \<Rightarrow> go_error app_error" where
  "fromErr err code =
     (let message = (case err of Some e \<Rightarrow> error_text e | None \<Rightarrow> ''unknown error'');
          ae = newWithSkip err message code
      in case Option.bind err errors_As_reasoner of
           Some ps \<Rightarrow>
             (case ErrorReason ps of (reason, params) \<Rightarrow>
                AppError (Err ae) (Code ae) reason params (Message ae) (LogLevel ae) (Fields ae))
         | None \<Rightarrow> ae)"

definition BadRequestFrom :: "go_error \<Rightarrow> go_error" where
  "BadRequestFrom err = App (WithLog LevelWarn (fromErr (Some err) CodeBadRequest))"

definition NotFoundFrom :: "go_error \<Rightarrow> go_error" where
  "NotFoundFrom err = App (WithLog LevelInfo (fromErr (Some err) CodeNotFound))"

definition ForbiddenFrom :: "go_error \<Rightarrow> go_error" where
  "ForbiddenFrom err = App (WithLog LevelWarn (fromErr (Some err) CodePermissionDenied))"

definition ConflictFrom :: "go_error \<Rightarrow> go_error" where
  "ConflictFrom err = App (WithLog LevelWarn (fromErr (Some err) CodeAlreadyExists))"

definition NotFound :: "string \<Rightarrow> go_error app_error" where
  "NotFound message = WithLog LevelInfo (newWithSkip None message CodeNotFound)"

definition Conflict :: "string \<Rightarrow> go_error app_error" where
  "Conflict message = WithLog LevelWarn (newWithSkip None message CodeAlreadyExists)"

definition BadRequest :: "string \<Rightarrow> go_error app_error" where
  "BadRequest message = WithLog LevelWarn (newWithSkip None message CodeBadRequest)"

definition PayloadTooLarge :: "string \<Rightarrow> go_error app_error" where
  "PayloadTooLarge message = WithLog LevelWarn (newWithSkip None message CodePayloadTooLarge)"

definition Internal :: "go_error \<Rightarrow> go_error" where
  "Internal err = App (WithLog LevelError (newWithSkip (Some err) ''internal server error'' CodeInternal))"

definition Unauthorized :: "string \<Rightarrow> go_error app_error" where
  "Unauthorized message = WithLog LevelWarn (newWithSkip None message CodeUnauthenticated)"

definition Forbidden :: "string \<Rightarrow> go_error app_error" where
  "Forbidden message = WithLog LevelWarn (newWithSkip None message CodePermissionDenied)"

section \<open>Translating an error for the edge\<close>

record on_case =
  case_match :: string
  case_mapped :: "go_error app_error"

fun fill_err :: "go_error \<Rightarrow> go_error app_error \<Rightarrow> go_error app_error" where
  "fill_err err (AppError None code reason params msg l flds) = AppError (Some err) code reason params msg l flds"
| "fill_err err a = a"

definition When :: "go_error option \<Rightarrow> on_case list \<Rightarrow> go_error option" where
  "When err cases =
     (case err of
        None \<Rightarrow> None
      | Some e \<Rightarrow>
          (case List.find (\<lambda>c. errors_Is e (case_match c)) cases of
             Some c \<Rightarrow> Some (App (fill_err e (case_mapped c)))
           | None \<Rightarrow> (if errors_As_app e \<noteq> None then Some e else Some (Internal e))))"

definition codeToHTTP :: "(code \<times> int) list" where
  "codeToHTTP =
     [(CodeInternal, 500), (CodeNotFound, 404), (CodeUnauthenticated, 401), (CodePermissionDenied, 403),
      (CodeInvalidArgument, 422), (CodeAlreadyExists, 409), (CodeBadRequest, 400), (CodeValidationError, 422),
      (CodePayloadTooLarge, 413)]"

definition GetHTTPStatus :: "go_error \<Rightarrow> int" where
  "GetHTTPStatus err =
     (case errors_As_app err of
        Some a \<Rightarrow> (case map_of codeToHTTP (Code a) of Some status \<Rightarrow> status | None \<Rightarrow> 500)
      | None \<Rightarrow> 500)"

section \<open>The errors of authz\<close>

definition ErrNoPrincipal :: string where "ErrNoPrincipal = ''authz: no principal in context''"
definition ErrForbidden :: string where "ErrForbidden = ''authz: forbidden''"
definition ErrEscalation :: string where "ErrEscalation = ''authz: escalation''"
definition ErrSelfAssignment :: string where "ErrSelfAssignment = ''authz: cannot assign a role to yourself''"
definition ErrLastAdmin :: string where "ErrLastAdmin = ''authz: would remove last access''"
definition ErrUnknownPermission :: string where "ErrUnknownPermission = ''authz: unknown permission''"
definition ErrRoleNotFound :: string where "ErrRoleNotFound = ''authz: role not found''"
definition ErrBindingNotFound :: string where "ErrBindingNotFound = ''authz: binding not found''"
definition ErrScopeNotFound :: string where "ErrScopeNotFound = ''authz: scope not found''"
definition ErrDuplicateBinding :: string where "ErrDuplicateBinding = ''authz: binding already exists''"
definition ErrRoleInUse :: string where "ErrRoleInUse = ''authz: role is bound''"
definition ErrInvalidScope :: string where "ErrInvalidScope = ''authz: invalid scope''"

lemmas sentinel_defs = ErrNoPrincipal_def ErrForbidden_def ErrEscalation_def ErrSelfAssignment_def
  ErrLastAdmin_def ErrUnknownPermission_def ErrRoleNotFound_def ErrBindingNotFound_def
  ErrScopeNotFound_def ErrDuplicateBinding_def ErrRoleInUse_def ErrInvalidScope_def

text \<open>\<^verbatim>\<open>fmt.Errorf("%w: ...", sentinel)\<close>.\<close>

definition sentinel_with :: "string \<Rightarrow> string \<Rightarrow> go_error" where
  "sentinel_with s detail = Wrapf (s @ '': '' @ detail) (Sentinel s)"

definition forbidden :: "string \<Rightarrow> go_error" where
  "forbidden permission =
     App (WithReason ''authz.forbidden'' [fmupd ''permission'' (AnyString permission) fmempty]
       (WithLog LevelWarn (apperr_Wrap (Some (Sentinel ErrForbidden)) ''access denied'' CodePermissionDenied)))"

definition unauthenticated :: go_error where
  "unauthenticated =
     App (WithLog LevelWarn (apperr_Wrap (Some (Sentinel ErrNoPrincipal)) ''user not authenticated'' CodeUnauthenticated))"

definition escalation :: "string \<Rightarrow> string \<Rightarrow> go_error" where
  "escalation permission why =
     App (WithReason ''authz.escalation''
         [fmupd ''permission'' (AnyString permission) (fmupd ''why'' (AnyString why) fmempty)]
       (WithLog LevelWarn
         (apperr_Wrap (Some (sentinel_with ErrEscalation (permission @ '': '' @ why)))
           ''cannot grant more than you hold'' CodePermissionDenied)))"

lemmas app_constructors = apperr_Wrap_def newWithSkip_def BadRequestFrom_def NotFoundFrom_def
  ForbiddenFrom_def ConflictFrom_def Internal_def NotFound_def Conflict_def BadRequest_def
  PayloadTooLarge_def Unauthorized_def Forbidden_def

section \<open>Lemmas\<close>

lemma Err_WithLog [simp]: "Err (WithLog l a) = Err a" by (cases a) simp
lemma Code_WithLog [simp]: "Code (WithLog l a) = Code a" by (cases a) simp
lemma Err_WithReason [simp]: "Err (WithReason r ps a) = Err a" by (cases a) simp
lemma Code_WithReason [simp]: "Code (WithReason r ps a) = Code a" by (cases a) simp
lemma Err_fromErr [simp]: "Err (fromErr e c) = e"
  by (simp add: fromErr_def newWithSkip_def Let_def split: option.splits prod.splits)
lemma Code_fromErr [simp]: "Code (fromErr e c) = c"
  by (simp add: fromErr_def newWithSkip_def Let_def split: option.splits prod.splits)

lemma errors_Is_Internal [simp]: "errors_Is (Internal e) s = errors_Is e s"
  by (simp add: Internal_def newWithSkip_def)

lemma errors_Is_From [simp]:
  "errors_Is (BadRequestFrom e) s = errors_Is e s"
  "errors_Is (NotFoundFrom e) s = errors_Is e s"
  "errors_Is (ForbiddenFrom e) s = errors_Is e s"
  "errors_Is (ConflictFrom e) s = errors_Is e s"
  by (simp_all add: BadRequestFrom_def NotFoundFrom_def ForbiddenFrom_def ConflictFrom_def)

lemma errors_Is_sentinel_with [simp]: "errors_Is (sentinel_with s d) s' = (s = s')"
  by (simp add: sentinel_with_def)

lemma errors_Is_forbidden [simp]: "errors_Is (forbidden p) s = (s = ErrForbidden)"
  by (auto simp: forbidden_def apperr_Wrap_def newWithSkip_def)

lemma errors_Is_unauthenticated [simp]: "errors_Is unauthenticated s = (s = ErrNoPrincipal)"
  by (auto simp: unauthenticated_def apperr_Wrap_def newWithSkip_def)

lemma errors_Is_escalation [simp]: "errors_Is (escalation p w) s = (s = ErrEscalation)"
  by (auto simp: escalation_def apperr_Wrap_def newWithSkip_def)

lemma asValidation_ok [simp]: "asValidation ps = Inr () \<longleftrightarrow> ps = []" "is_ok (asValidation ps) \<longleftrightarrow> ps = []"
  by (simp_all add: asValidation_def)

lemma asValidation_err: "asValidation ps = Inl e \<longleftrightarrow> ps \<noteq> [] \<and> e = ValidationError ps"
  by (auto simp: asValidation_def)

lemma mset_insert_problem: "mset (insert_problem p qs) = add_mset p (mset qs)"
  by (induction qs) auto

lemma mset_sort_problems: "mset (sort_problems ps) = mset ps"
  by (induction ps) (auto simp: sort_problems_def mset_insert_problem)

lemma problem_le_total: "\<not> problem_le p q \<Longrightarrow> problem_le q p"
  by (auto simp: problem_le_def)

lemma problem_le_trans: "problem_le p q \<Longrightarrow> problem_le q r \<Longrightarrow> problem_le p r"
  by (auto simp: problem_le_def)

lemma sorted_insert_problem:
  "sorted_wrt problem_le qs \<Longrightarrow> sorted_wrt problem_le (insert_problem p qs)"
proof (induction qs)
  case Nil
  then show ?case by simp
next
  case (Cons q qs)
  have "x \<in> set (insert_problem p qs) \<longleftrightarrow> x = p \<or> x \<in> set qs" for x
    using arg_cong [OF mset_insert_problem [of p qs], of set_mset] by auto
  with Cons show ?case by (auto dest: problem_le_total intro: problem_le_trans)
qed

lemma sorted_sort_problems: "sorted_wrt problem_le (sort_problems ps)"
  by (induction ps) (auto simp: sort_problems_def sorted_insert_problem)

lemma errors_Is_fill_err: "errors_Is e s \<Longrightarrow> Err a = None \<Longrightarrow> errors_Is (App (fill_err e a)) s"
  by (cases a) auto

end
