(* ===== verification/Catalogue.thy ===== *)
theory Catalogue
  imports Apperr
begin

text \<open>
  The permission catalogue: \<^verbatim>\<open>authz/permission.go\<close>,
  \<^verbatim>\<open>authz/catalogue.go\<close> and the selectors of \<^verbatim>\<open>authz/computed.go\<close>.
  A \<open>Catalogue\<close> is a record of the source's three fields; \<open>Define\<close> returns the
  new catalogue or the error, the old one being unchanged then. The depth-first search for
  requirement cycles is the function \<open>visit_reqs\<close>, with its termination proof, and is
  shown to find a problem exactly when the requirement graph has a cycle.
\<close>

section \<open>Permissions\<close>

record permission =
  perm_ID :: string
  perm_LabelKey :: string
  perm_DescriptionKey :: string
  perm_Sensitive :: bool
  perm_System :: bool
  perm_OrganizationOnly :: bool
  perm_Requires :: "string list"
  perm_RecordType :: string
  perm_UnownedIsOwn :: bool
  perm_Feature :: string
  perm_Attributes :: "string list"

text \<open>The zero value with its ID set: where \<open>Define\<close> starts.\<close>

definition zero_permission :: "string \<Rightarrow> permission" where
  "zero_permission ident =
     \<lparr>perm_ID = ident, perm_LabelKey = [], perm_DescriptionKey = [], perm_Sensitive = False,
      perm_System = False, perm_OrganizationOnly = False, perm_Requires = [], perm_RecordType = [],
      perm_UnownedIsOwn = False, perm_Feature = [], perm_Attributes = []\<rparr>"

text \<open>
  \<^verbatim>\<open>p.ID[:i]\<close> with \<^verbatim>\<open>i = -1\<close> panics, so \<open>Namespace\<close> is partial;
  \<^verbatim>\<open>p.ID[i+1:]\<close> is the whole identifier then.
\<close>

definition perm_Namespace :: "permission \<Rightarrow> string option" where
  "perm_Namespace p = (case go_cut CHR '':'' (perm_ID p) of (ns, _, found) \<Rightarrow> if found then Some ns else None)"

definition perm_Verb :: "permission \<Rightarrow> string" where
  "perm_Verb p = (case go_cut CHR '':'' (perm_ID p) of (_, verb, found) \<Rightarrow> if found then verb else perm_ID p)"

definition perm_Module :: "permission \<Rightarrow> string option" where
  "perm_Module p = map_option (\<lambda>ns. fst (go_cut CHR ''.'' ns)) (perm_Namespace p)"

definition Ownable :: "permission \<Rightarrow> bool" where
  "Ownable p = (perm_RecordType p \<noteq> [])"

type_synonym define_option = "permission \<Rightarrow> permission"

definition opt_Label :: "string \<Rightarrow> define_option" where
  "opt_Label key p = p\<lparr>perm_LabelKey := key\<rparr>"

definition opt_Description :: "string \<Rightarrow> define_option" where
  "opt_Description key p = p\<lparr>perm_DescriptionKey := key\<rparr>"

definition opt_Sensitive :: define_option where
  "opt_Sensitive p = p\<lparr>perm_Sensitive := True\<rparr>"

definition opt_System :: define_option where
  "opt_System p = p\<lparr>perm_System := True\<rparr>"

definition opt_OrganizationOnly :: define_option where
  "opt_OrganizationOnly p = p\<lparr>perm_OrganizationOnly := True\<rparr>"

definition opt_Requires :: "string list \<Rightarrow> define_option" where
  "opt_Requires ids p = p\<lparr>perm_Requires := perm_Requires p @ ids\<rparr>"

definition opt_Ownable :: "string \<Rightarrow> define_option" where
  "opt_Ownable recordType p = p\<lparr>perm_RecordType := recordType\<rparr>"

definition opt_UnownedIsOwn :: define_option where
  "opt_UnownedIsOwn p = p\<lparr>perm_UnownedIsOwn := True\<rparr>"

definition opt_Feature :: "string \<Rightarrow> define_option" where
  "opt_Feature name p = p\<lparr>perm_Feature := name\<rparr>"

definition opt_Attributes :: "string list \<Rightarrow> define_option" where
  "opt_Attributes keys p = p\<lparr>perm_Attributes := perm_Attributes p @ keys\<rparr>"

lemmas opt_defs = opt_Label_def opt_Description_def opt_Sensitive_def opt_System_def
  opt_OrganizationOnly_def opt_Requires_def opt_Ownable_def opt_UnownedIsOwn_def opt_Feature_def
  opt_Attributes_def

definition maxResourceSegments :: nat where
  "maxResourceSegments = 3"

definition checkIdentifier :: "string \<Rightarrow> unit result" where
  "checkIdentifier ident =
     (case go_cut CHR '':'' ident of (ns, verb, ok) \<Rightarrow>
        if \<not> ok \<or> CHR '':'' \<in> set verb then
          Inl (Plain (''identifier '' @ go_quote ident @ '' must look like module.resource:verb''))
        else if \<not> word_match verb then
          Inl (Plain (''identifier '' @ go_quote ident @ '': verb '' @ go_quote verb @ '' must be a single lowercase word''))
        else let segments = go_split CHR ''.'' ns in
          if length segments > maxResourceSegments then
            Inl (Plain (''identifier '' @ go_quote ident @ '': at most '' @ show_nat maxResourceSegments
              @ '' segments before the colon''))
          else case List.find (\<lambda>s. \<not> word_match s) segments of
            Some s \<Rightarrow> Inl (Plain (''identifier '' @ go_quote ident @ '': segment '' @ go_quote s
              @ '' must be a single lowercase word''))
          | None \<Rightarrow> Inr ())"

definition IsWord :: "string \<Rightarrow> bool" where
  "IsWord s = word_match s"

section \<open>Selectors of computed roles\<close>

type_synonym selector = "permission \<Rightarrow> bool"

definition IsSystem :: selector where "IsSystem p = perm_System p"
definition IsSensitive :: selector where "IsSensitive p = perm_Sensitive p"
definition IsOrganizationOnly :: selector where "IsOrganizationOnly p = perm_OrganizationOnly p"
definition IsView :: selector where "IsView p = (perm_Verb p = ''view'')"
definition sel_All :: selector where "sel_All p = True"

definition AllExcept :: "selector list \<Rightarrow> selector" where
  "AllExcept exclude p = list_all (\<lambda>e. \<not> e p) exclude"

definition Matching :: "selector \<Rightarrow> selector" where
  "Matching pred = pred"

definition sel_Both :: "selector list \<Rightarrow> selector" where
  "sel_Both selectors p = list_all (\<lambda>s. s p) selectors"

section \<open>The catalogue\<close>

record catalogue =
  cat_perms :: "(string, permission) gomap"
  cat_order :: "string list"
  cat_frozen :: bool

definition NewCatalogue :: catalogue where
  "NewCatalogue = \<lparr>cat_perms = fmempty, cat_order = [], cat_frozen = False\<rparr>"

definition mk_problem :: "problem_code \<Rightarrow> string \<Rightarrow> string \<Rightarrow> problem" where
  "mk_problem c p d = \<lparr>prob_Code = c, prob_Permission = p, prob_Detail = d\<rparr>"

text \<open>The loop over the attributes, with the map of the ones already seen.\<close>

fun check_attributes :: "string \<Rightarrow> string set \<Rightarrow> string list \<Rightarrow> problem list" where
  "check_attributes ident seen [] = []"
| "check_attributes ident seen (a # as) =
     (if \<not> word_match a
      then [mk_problem ''inconsistent_metadata'' ident (''attribute '' @ go_quote a @ '' must be a single lowercase word'')]
      else [])
     @ (if a \<in> seen
        then [mk_problem ''inconsistent_metadata'' ident (''attribute '' @ go_quote a @ '' listed twice'')]
        else [])
     @ check_attributes ident (insert a seen) as"

definition check_requirement :: "string \<Rightarrow> string \<Rightarrow> problem list" where
  "check_requirement ident r =
     (case checkIdentifier r of
        Inl e \<Rightarrow> [mk_problem ''inconsistent_metadata'' ident (''requires: '' @ error_text e)]
      | Inr _ \<Rightarrow> [])
     @ (if r = ident then [mk_problem ''inconsistent_metadata'' ident ''requires itself''] else [])"

definition checkPermission :: "permission \<Rightarrow> problem list" where
  "checkPermission p =
     (if perm_UnownedIsOwn p \<and> perm_RecordType p = []
      then [mk_problem ''inconsistent_metadata'' (perm_ID p) ''UnownedIsOwn needs Ownable''] else [])
     @ (if perm_Feature p \<noteq> [] \<and> \<not> word_match (perm_Feature p)
        then [mk_problem ''inconsistent_metadata'' (perm_ID p)
          (''feature '' @ go_quote (perm_Feature p) @ '' must be a single lowercase word'')] else [])
     @ check_attributes (perm_ID p) {} (perm_Attributes p)
     @ concat (map (check_requirement (perm_ID p)) (perm_Requires p))"

definition Define :: "catalogue \<Rightarrow> string \<Rightarrow> define_option list \<Rightarrow> catalogue result" where
  "Define c ident opts =
     (if cat_frozen c then Inl (Plain (''authz: catalogue is frozen, cannot define '' @ go_quote ident))
      else case checkIdentifier ident of
        Inl e \<Rightarrow> Inl (ValidationError [mk_problem ''invalid_identifier'' ident (error_text e)])
      | Inr _ \<Rightarrow>
          if fmlookup (cat_perms c) ident \<noteq> None
          then Inl (ValidationError [mk_problem ''duplicate_permission'' ident []])
          else let p = fold (\<lambda>opt. opt) opts (zero_permission ident); problems = checkPermission p in
            if problems \<noteq> [] then Inl (ValidationError problems)
            else Inr (c\<lparr>cat_perms := fmupd ident p (cat_perms c), cat_order := cat_order c @ [ident]\<rparr>))"

definition cat_Lookup :: "catalogue \<Rightarrow> string \<Rightarrow> permission option" where
  "cat_Lookup c ident = fmlookup (cat_perms c) ident"

text \<open>
  \<^verbatim>\<open>*c.perms[id]\<close> for every id of the order; a missing one would be a nil
  dereference, which \<open>cat_wf\<close> excludes.
\<close>

definition cat_All :: "catalogue \<Rightarrow> permission list" where
  "cat_All c = List.map_filter (cat_Lookup c) (cat_order c)"

definition cat_Len :: "catalogue \<Rightarrow> nat" where
  "cat_Len c = length (cat_order c)"

definition cat_values :: "catalogue \<Rightarrow> permission list" where
  "cat_values c = List.map_filter (cat_Lookup c) (sortedKeys (cat_perms c))"

definition AttributeKeys :: "catalogue \<Rightarrow> string list" where
  "AttributeKeys c = sort (remdups (concat (map perm_Attributes (cat_values c))))"

definition HasFeatures :: "catalogue \<Rightarrow> bool" where
  "HasFeatures c = list_ex (\<lambda>p. perm_Feature p \<noteq> []) (cat_values c)"

definition requires_of :: "catalogue \<Rightarrow> string \<Rightarrow> string list" where
  "requires_of c ident = (case cat_Lookup c ident of None \<Rightarrow> [] | Some p \<Rightarrow> perm_Requires p)"

subsection \<open>Requirement cycles\<close>

datatype dfs_state = Unseen | Visiting | Done

text \<open>\<^verbatim>\<open>state[id]\<close>: the zero value, unseen, when the map has no entry.\<close>

definition st_of :: "(string, dfs_state) gomap \<Rightarrow> string \<Rightarrow> dfs_state" where
  "st_of st x = (case fmlookup st x of None \<Rightarrow> Unseen | Some q \<Rightarrow> q)"

lemma st_of_upd [simp]: "st_of (fmupd r q st) x = (if x = r then q else st_of st x)"
  by (simp add: st_of_def)

lemma st_of_empty [simp]: "st_of fmempty x = Unseen"
  by (simp add: st_of_def)

text \<open>
  The loop of \<^verbatim>\<open>visit(id)\<close> over the requirements of \<open>ident\<close>, with the
  search state and the problems threaded through; the recursive visit of an unseen \<open>r\<close>
  marks it \<open>Visiting\<close> before and \<open>Done\<close> after.
\<close>

function visit_reqs ::
  "catalogue \<Rightarrow> (string, dfs_state) gomap \<Rightarrow> string \<Rightarrow> string list \<Rightarrow> (string, dfs_state) gomap \<times> problem list" where
  "visit_reqs c st ident [] = (st, [])"
| "visit_reqs c st ident (r # rs) =
     (case st_of st r of
        Visiting \<Rightarrow>
          (let v = visit_reqs c st ident rs
           in (fst v, mk_problem ''requirement_cycle'' ident (''requires '' @ r) # snd v))
      | Unseen \<Rightarrow>
          (let v1 = visit_reqs c (fmupd r Visiting st) r (requires_of c r);
               v2 = visit_reqs c (fmupd r Done (fst v1)) ident rs
           in (fst v2, snd v1 @ snd v2))
      | Done \<Rightarrow> visit_reqs c st ident rs)"
  by pat_completeness auto

definition unseen_known :: "catalogue \<Rightarrow> (string, dfs_state) gomap \<Rightarrow> string set" where
  "unseen_known c st = {x \<in> fmdom' (cat_perms c). st_of st x = Unseen}"

lemma finite_unseen_known [simp]: "finite (unseen_known c st)"
  by (simp add: unseen_known_def)

lemma visit_reqs_unseen:
  "visit_reqs_dom (c, st, ident, rs) \<Longrightarrow> st_of (fst (visit_reqs c st ident rs)) x = Unseen \<Longrightarrow> st_of st x = Unseen"
proof (induction c st ident rs rule: visit_reqs.pinduct)
  case (2 c st ident r rs)
  note unfold = visit_reqs.psimps(2) [OF "2.hyps"]
  show ?case
  proof (cases "st_of st r")
    case Unseen
    let ?st1 = "fst (visit_reqs c (fmupd r Visiting st) r (requires_of c r))"
    from "2.prems" have "st_of (fst (visit_reqs c (fmupd r Done ?st1) ident rs)) x = Unseen"
      by (simp add: unfold Unseen Let_def)
    then have "st_of (fmupd r Done ?st1) x = Unseen" by (rule "2.IH"(2) [OF Unseen refl])
    then have "st_of ?st1 x = Unseen" by (cases "x = r") simp_all
    then have "st_of (fmupd r Visiting st) x = Unseen" by (rule "2.IH"(1) [OF Unseen])
    then show ?thesis by (cases "x = r") simp_all
  next
    case Visiting
    with "2.prems" "2.IH"(3) show ?thesis by (simp add: unfold Let_def)
  next
    case Done
    with "2.prems" "2.IH"(4) show ?thesis by (simp add: unfold)
  qed
qed (simp add: visit_reqs.psimps)

termination visit_reqs
proof (relation "inv_image (finite_psubset <*lex*> less_than)
    (\<lambda>(c, st, ident, rs). (unseen_known c st, length rs))", goal_cases)
  case 1
  show ?case by (simp add: wf_inv_image wf_lex_prod wf_finite_psubset)
next
  case (2 c st ident r rs)
  have le: "unseen_known c (fmupd r Visiting st) \<subseteq> unseen_known c st"
    by (auto simp: unseen_known_def)
  show ?case
  proof (cases "r \<in> fmdom' (cat_perms c)")
    case True
    with 2 have "r \<in> unseen_known c st - unseen_known c (fmupd r Visiting st)"
      by (simp add: unseen_known_def)
    with le show ?thesis by auto
  next
    case False
    then have "unseen_known c (fmupd r Visiting st) = unseen_known c st" "requires_of c r = []"
      by (auto simp: unseen_known_def requires_of_def cat_Lookup_def in_fmdom'_iff split: option.splits)
    then show ?thesis by simp
  qed
next
  case (3 c st ident r rs v1)
  have "st_of st x = Unseen" if "st_of (fmupd r Done (fst v1)) x = Unseen" for x
  proof -
    from that have "st_of (fst v1) x = Unseen" "x \<noteq> r" by (simp_all split: if_splits)
    then have "st_of (fmupd r Visiting st) x = Unseen" using 3 by (blast dest: visit_reqs_unseen)
    with \<open>x \<noteq> r\<close> show ?thesis by simp
  qed
  then have "unseen_known c (fmupd r Done (fst v1)) \<subseteq> unseen_known c st"
    by (auto simp: unseen_known_def)
  then show ?case by (auto simp: psubset_eq)
qed auto

text \<open>The outer loop over the definition order.\<close>

fun visit_all :: "catalogue \<Rightarrow> (string, dfs_state) gomap \<Rightarrow> string list \<Rightarrow> (string, dfs_state) gomap \<times> problem list" where
  "visit_all c st [] = (st, [])"
| "visit_all c st (i # is) =
     (if st_of st i = Unseen then
        (let v1 = visit_reqs c (fmupd i Visiting st) i (requires_of c i);
             v2 = visit_all c (fmupd i Done (fst v1)) is
         in (fst v2, snd v1 @ snd v2))
      else visit_all c st is)"

definition requirementCycles :: "catalogue \<Rightarrow> problem list" where
  "requirementCycles c = snd (visit_all c fmempty (cat_order c))"

definition unknown_requirements :: "catalogue \<Rightarrow> problem list" where
  "unknown_requirements c =
     concat (map (\<lambda>ident.
       map (\<lambda>r. mk_problem ''unknown_requirement'' ident (''requires unknown '' @ r))
         (filter (\<lambda>r. cat_Lookup c r = None) (requires_of c ident))) (cat_order c))"

definition cat_Validate :: "catalogue \<Rightarrow> unit result" where
  "cat_Validate c =
     (let problems = unknown_requirements c;
          problems' = (if problems = [] then problems @ requirementCycles c else problems)
      in asValidation problems')"

definition freeze :: "catalogue \<Rightarrow> catalogue result" where
  "freeze c = (case cat_Validate c of Inl e \<Rightarrow> Inl e | Inr _ \<Rightarrow> Inr (c\<lparr>cat_frozen := True\<rparr>))"

section \<open>The invariant\<close>

definition cat_wf :: "catalogue \<Rightarrow> bool" where
  "cat_wf c \<longleftrightarrow>
     distinct (cat_order c) \<and> set (cat_order c) = fmdom' (cat_perms c)
     \<and> (\<forall>k p. fmlookup (cat_perms c) k = Some p \<longrightarrow>
          perm_ID p = k \<and> checkIdentifier k = Inr () \<and> checkPermission p = [])"

text \<open>The options of the package never change the identifier.\<close>

definition keeps_ID :: "define_option \<Rightarrow> bool" where
  "keeps_ID opt \<longleftrightarrow> (\<forall>p. perm_ID (opt p) = perm_ID p)"

lemma keeps_ID_options [simp]:
  "keeps_ID (opt_Label k)" "keeps_ID (opt_Description k)" "keeps_ID opt_Sensitive" "keeps_ID opt_System"
  "keeps_ID opt_OrganizationOnly" "keeps_ID (opt_Requires ids)" "keeps_ID (opt_Ownable k)"
  "keeps_ID opt_UnownedIsOwn" "keeps_ID (opt_Feature k)" "keeps_ID (opt_Attributes ids)"
  by (simp_all add: keeps_ID_def opt_defs)

lemma fold_keeps_ID: "(\<forall>opt \<in> set opts. keeps_ID opt) \<Longrightarrow> perm_ID (fold (\<lambda>opt. opt) opts p) = perm_ID p"
  by (induction opts arbitrary: p) (auto simp: keeps_ID_def)

lemma NewCatalogue_wf [simp]: "cat_wf NewCatalogue"
  by (simp add: cat_wf_def NewCatalogue_def)

lemma cat_wf_ID: "cat_wf c \<Longrightarrow> cat_Lookup c k = Some p \<Longrightarrow> perm_ID p = k"
  by (simp add: cat_wf_def cat_Lookup_def)

lemma cat_wf_order: "cat_wf c \<Longrightarrow> k \<in> set (cat_order c) \<longleftrightarrow> (\<exists>p. cat_Lookup c k = Some p)"
  by (simp add: cat_wf_def cat_Lookup_def in_fmdom'_iff)

lemma set_cat_All: "cat_wf c \<Longrightarrow> p \<in> set (cat_All c) \<longleftrightarrow> cat_Lookup c (perm_ID p) = Some p"
  by (auto simp: cat_All_def List.map_filter_def cat_wf_order image_iff Bex_def dest: cat_wf_ID)

lemma set_cat_values: "cat_wf c \<Longrightarrow> p \<in> set (cat_values c) \<longleftrightarrow> cat_Lookup c (perm_ID p) = Some p"
  by (auto simp: cat_values_def List.map_filter_def in_fmdom'_iff cat_Lookup_def image_iff Bex_def
      dest: cat_wf_ID [unfolded cat_Lookup_def])

lemma map_perm_ID_cat_All:
  assumes "cat_wf c" shows "map perm_ID (cat_All c) = cat_order c"
proof -
  have "map perm_ID (List.map_filter (cat_Lookup c) ks) = ks" if "set ks \<subseteq> set (cat_order c)" for ks
    using that assms by (induction ks) (auto simp: List.map_filter_simps cat_wf_order dest: cat_wf_ID split: option.splits)
  then show ?thesis by (simp add: cat_All_def)
qed

lemma distinct_cat_All: "cat_wf c \<Longrightarrow> distinct (cat_All c)"
  using map_perm_ID_cat_All [of c] by (metis cat_wf_def distinct_map)

lemma set_AttributeKeys:
  "cat_wf c \<Longrightarrow> k \<in> set (AttributeKeys c) \<longleftrightarrow> (\<exists>p. cat_Lookup c (perm_ID p) = Some p \<and> k \<in> set (perm_Attributes p))"
  by (auto simp: AttributeKeys_def set_cat_values)

lemma Define_ok:
  assumes "Define c ident opts = Inr c'"
  shows "\<not> cat_frozen c" and "checkIdentifier ident = Inr ()" and "cat_Lookup c ident = None"
    and "checkPermission (fold (\<lambda>opt. opt) opts (zero_permission ident)) = []"
    and "c' = c\<lparr>cat_perms := fmupd ident (fold (\<lambda>opt. opt) opts (zero_permission ident)) (cat_perms c),
            cat_order := cat_order c @ [ident]\<rparr>"
  using assms by (auto simp: Define_def cat_Lookup_def Let_def split: if_splits sum.splits)

lemma cat_wf_frozen [simp]: "cat_wf (c\<lparr>cat_frozen := b\<rparr>) = cat_wf c"
  by (simp add: cat_wf_def)

section \<open>The search finds exactly the cycles\<close>

definition requires_rel :: "catalogue \<Rightarrow> (string \<times> string) set" where
  "requires_rel c = {(a, b). b \<in> set (requires_of c a)}"

text \<open>The three branches as equations, and the induction that follows them.\<close>

lemma visit_reqs_Visiting: "st_of st r = Visiting \<Longrightarrow> visit_reqs c st ident (r # rs) =
    (fst (visit_reqs c st ident rs),
     mk_problem ''requirement_cycle'' ident (''requires '' @ r) # snd (visit_reqs c st ident rs))"
  by (simp add: Let_def)

lemma visit_reqs_Unseen: "st_of st r = Unseen \<Longrightarrow> visit_reqs c st ident (r # rs) =
    (let v1 = visit_reqs c (fmupd r Visiting st) r (requires_of c r);
         v2 = visit_reqs c (fmupd r Done (fst v1)) ident rs
     in (fst v2, snd v1 @ snd v2))"
  by simp

lemma visit_reqs_Done: "st_of st r = Done \<Longrightarrow> visit_reqs c st ident (r # rs) = visit_reqs c st ident rs"
  by simp

lemmas visit_reqs_branches = visit_reqs_Visiting visit_reqs_Unseen visit_reqs_Done

lemma visit_reqs_induct [case_names Nil Visiting Unseen Done]:
  assumes "\<And>st ident. P st ident []"
    and "\<And>st ident r rs. st_of st r = Visiting \<Longrightarrow> P st ident rs \<Longrightarrow> P st ident (r # rs)"
    and "\<And>st ident r rs. st_of st r = Unseen \<Longrightarrow> P (fmupd r Visiting st) r (requires_of c r)
      \<Longrightarrow> P (fmupd r Done (fst (visit_reqs c (fmupd r Visiting st) r (requires_of c r)))) ident rs
      \<Longrightarrow> P st ident (r # rs)"
    and "\<And>st ident r rs. st_of st r = Done \<Longrightarrow> P st ident rs \<Longrightarrow> P st ident (r # rs)"
  shows "P st ident rs"
proof -
  have "c' = c \<Longrightarrow> P st ident rs" for c'
  proof (induction c' st ident rs rule: visit_reqs.induct)
    case (2 c' st ident r rs)
    note c = \<open>c' = c\<close>
    show ?case
    proof (cases "st_of st r")
      case Unseen
      from "2.IH"(1) [OF Unseen c] "2.IH"(2) [OF Unseen refl c] show ?thesis
        unfolding c by (rule assms(3) [of st r ident rs, OF Unseen])
    next
      case Visiting
      from "2.IH"(3) [OF Visiting c] show ?thesis by (rule assms(2) [of st r ident rs, OF Visiting])
    next
      case Done
      from "2.IH"(4) [OF Done c] show ?thesis by (rule assms(4) [of st r ident rs, OF Done])
    qed
  qed (rule assms(1))
  then show ?thesis by simp
qed

declare visit_reqs.simps(2) [simp del]

lemma visit_reqs_visiting: "st_of (fst (visit_reqs c st ident rs)) x = Visiting \<longleftrightarrow> st_of st x = Visiting"
  by (induction st ident rs rule: visit_reqs_induct [of _ c])
    (auto simp: visit_reqs_branches Let_def split: if_splits)

lemma visit_reqs_done: "st_of st x = Done \<Longrightarrow> st_of (fst (visit_reqs c st ident rs)) x = Done"
  by (induction st ident rs rule: visit_reqs_induct [of _ c])
    (auto simp: visit_reqs_branches Let_def split: if_splits)

text \<open>A topological order of the finished nodes: every requirement of a node follows it.\<close>

fun topo :: "catalogue \<Rightarrow> string list \<Rightarrow> bool" where
  "topo c [] = True"
| "topo c (x # xs) = (x \<notin> set xs \<and> set (requires_of c x) \<subseteq> set xs \<and> topo c xs)"

definition finished :: "catalogue \<Rightarrow> (string, dfs_state) gomap \<Rightarrow> bool" where
  "finished c st \<longleftrightarrow> (\<exists>order. topo c order \<and> set order = {x. st_of st x = Done})"

lemma finished_start [simp]: "finished c fmempty"
  unfolding finished_def by (rule exI [of _ "[]"]) simp

lemma finished_mark: "finished c st \<Longrightarrow> st_of st r \<noteq> Done \<Longrightarrow> finished c (fmupd r Visiting st)"
  by (auto simp: finished_def)

lemma finished_step:
  assumes "finished c st1" "st_of st1 r = Visiting" "\<forall>x \<in> set (requires_of c r). st_of st1 x = Done"
  shows "finished c (fmupd r Done st1)"
proof -
  obtain order where "topo c order" "set order = {x. st_of st1 x = Done}"
    using assms(1) by (auto simp: finished_def)
  with assms(2,3) have "topo c (r # order)" "set (r # order) = {x. st_of (fmupd r Done st1) x = Done}"
    by auto
  then show ?thesis unfolding finished_def by blast
qed

lemma visit_reqs_finished:
  "finished c st \<Longrightarrow> snd (visit_reqs c st ident rs) = [] \<Longrightarrow>
     finished c (fst (visit_reqs c st ident rs)) \<and> (\<forall>r \<in> set rs. st_of (fst (visit_reqs c st ident rs)) r = Done)"
proof (induction st ident rs rule: visit_reqs_induct [of _ c])
  case (Unseen st ident r rs)
  define st1 where "st1 = fst (visit_reqs c (fmupd r Visiting st) r (requires_of c r))"
  have no: "snd (visit_reqs c (fmupd r Visiting st) r (requires_of c r)) = []"
      "snd (visit_reqs c (fmupd r Done st1) ident rs) = []"
    using Unseen.prems(2) Unseen.hyps by (simp_all add: st1_def visit_reqs_branches Let_def)
  have "finished c (fmupd r Visiting st)" using Unseen.prems(1) Unseen.hyps by (simp add: finished_mark)
  then have "finished c st1 \<and> (\<forall>x \<in> set (requires_of c r). st_of st1 x = Done)"
    unfolding st1_def by (rule Unseen.IH(1) [OF _ no(1)])
  moreover have "st_of st1 r = Visiting" by (simp add: st1_def visit_reqs_visiting)
  ultimately have "finished c (fmupd r Done st1)" by (simp add: finished_step)
  then have "finished c (fst (visit_reqs c (fmupd r Done st1) ident rs))
      \<and> (\<forall>x \<in> set rs. st_of (fst (visit_reqs c (fmupd r Done st1) ident rs)) x = Done)"
    using no(2) unfolding st1_def by (rule Unseen.IH(2))
  with Unseen.hyps show ?case
    by (simp add: st1_def [symmetric] visit_reqs_branches Let_def visit_reqs_done)
qed (simp_all add: visit_reqs_branches Let_def visit_reqs_done)

lemma visit_all_done: "st_of st x = Done \<Longrightarrow> st_of (fst (visit_all c st ids)) x = Done"
  by (induction ids arbitrary: st) (auto simp: Let_def visit_reqs_done)

lemma visit_all_finished:
  "finished c st \<Longrightarrow> \<forall>x. st_of st x \<noteq> Visiting \<Longrightarrow> snd (visit_all c st ids) = [] \<Longrightarrow>
     finished c (fst (visit_all c st ids)) \<and> (\<forall>i \<in> set ids. st_of (fst (visit_all c st ids)) i = Done)"
proof (induction ids arbitrary: st)
  case Nil
  then show ?case by simp
next
  case (Cons i ids)
  show ?case
  proof (cases "st_of st i = Unseen")
    case True
    define st1 where "st1 = fst (visit_reqs c (fmupd i Visiting st) i (requires_of c i))"
    have "finished c st1 \<and> (\<forall>x \<in> set (requires_of c i). st_of st1 x = Done)"
      using Cons.prems True visit_reqs_finished [of c "fmupd i Visiting st" i "requires_of c i"]
      by (simp add: st1_def Let_def finished_mark)
    moreover have vis: "st_of st1 x = Visiting \<longleftrightarrow> x = i" for x
      using Cons.prems(2) by (simp add: st1_def visit_reqs_visiting)
    ultimately have "finished c (fmupd i Done st1)" by (simp add: finished_step)
    with Cons.IH [of "fmupd i Done st1"] Cons.prems True vis show ?thesis
      by (auto simp: st1_def [symmetric] Let_def intro: visit_all_done)
  next
    case False
    with Cons.prems(2) have "st_of st i = Done" by (cases "st_of st i") auto
    with Cons show ?thesis by (auto intro: visit_all_done)
  qed
qed

text \<open>A topological order of the sources of a relation makes it acyclic.\<close>

fun rank :: "string list \<Rightarrow> string \<Rightarrow> nat" where
  "rank [] x = 0"
| "rank (y # ys) x = (if x = y then Suc (length ys) else rank ys x)"

lemma rank_le: "rank ys x \<le> length ys"
  by (induction ys) auto

lemma topo_closed: "topo c ys \<Longrightarrow> x \<in> set ys \<Longrightarrow> set (requires_of c x) \<subseteq> set ys"
  by (induction ys) auto

lemma topo_rank: "topo c ys \<Longrightarrow> x \<in> set ys \<Longrightarrow> y \<in> set (requires_of c x) \<Longrightarrow> rank ys y < rank ys x"
proof (induction ys)
  case (Cons z zs)
  then show ?case using rank_le [of zs y] topo_closed [of c zs x] by (auto simp: less_Suc_eq_le)
qed simp

lemma finished_acyclic:
  assumes "finished c st" "\<And>x. requires_of c x \<noteq> [] \<Longrightarrow> st_of st x = Done"
  shows "acyclic (requires_rel c)"
proof -
  obtain order where o: "topo c order" "set order = {x. st_of st x = Done}"
    using assms(1) by (auto simp: finished_def)
  have "x \<in> set order" if "y \<in> set (requires_of c x)" for x y
    using that assms(2) [of x] o(2) by force
  then have "(requires_rel c)\<inverse> \<subseteq> inv_image less_than (rank order)"
    using topo_rank [OF o(1)] by (auto simp: requires_rel_def)
  moreover have "wf (inv_image less_than (rank order))" by (simp add: wf_inv_image)
  ultimately have "acyclic ((requires_rel c)\<inverse>)" by (meson wf_acyclic wf_subset)
  then show ?thesis by simp
qed

text \<open>A problem the search reports closes a cycle: every node being visited reaches the current one.\<close>

lemma visit_reqs_cycle:
  "\<forall>v. st_of st v = Visiting \<longrightarrow> (v, ident) \<in> (requires_rel c)\<^sup>* \<Longrightarrow> set rs \<subseteq> set (requires_of c ident) \<Longrightarrow>
     snd (visit_reqs c st ident rs) \<noteq> [] \<Longrightarrow> \<not> acyclic (requires_rel c)"
proof (induction st ident rs rule: visit_reqs_induct [of _ c])
  case (Visiting st ident r rs)
  then have "(r, ident) \<in> (requires_rel c)\<^sup>*" "(ident, r) \<in> requires_rel c"
    by (auto simp: requires_rel_def)
  then have "(r, r) \<in> (requires_rel c)\<^sup>+" by (rule rtrancl_into_trancl1)
  then show ?case by (auto simp: acyclic_def)
next
  case (Unseen st ident r rs)
  then have edge: "(ident, r) \<in> requires_rel c" by (simp add: requires_rel_def)
  then have "\<forall>v. st_of (fmupd r Visiting st) v = Visiting \<longrightarrow> (v, r) \<in> (requires_rel c)\<^sup>*"
    using Unseen.prems(1) by (auto intro: rtrancl.rtrancl_into_rtrancl)
  note visited = Unseen.IH(1) [OF this order_refl]
  show ?case
  proof (cases "snd (visit_reqs c (fmupd r Visiting st) r (requires_of c r)) = []")
    case True
    have "snd (visit_reqs c (fmupd r Done (fst (visit_reqs c (fmupd r Visiting st) r (requires_of c r)))) ident rs) \<noteq> []"
      using Unseen.prems(3) Unseen.hyps True by (simp add: visit_reqs_branches Let_def)
    moreover have "\<forall>v. st_of (fmupd r Done (fst (visit_reqs c (fmupd r Visiting st) r (requires_of c r)))) v = Visiting
        \<longrightarrow> (v, ident) \<in> (requires_rel c)\<^sup>*"
      using Unseen.prems(1) by (simp add: visit_reqs_visiting)
    ultimately show ?thesis using Unseen.prems(2) by (intro Unseen.IH(2)) auto
  qed (rule visited)
qed (simp_all add: visit_reqs_branches)

lemma visit_all_cycle:
  "\<forall>x. st_of st x \<noteq> Visiting \<Longrightarrow> snd (visit_all c st ids) \<noteq> [] \<Longrightarrow> \<not> acyclic (requires_rel c)"
proof (induction ids arbitrary: st)
  case (Cons i ids)
  show ?case
  proof (cases "st_of st i = Unseen \<and> snd (visit_reqs c (fmupd i Visiting st) i (requires_of c i)) \<noteq> []")
    case True
    with Cons.prems visit_reqs_cycle [of "fmupd i Visiting st" i c "requires_of c i"] show ?thesis by auto
  next
    case False
    let ?st1 = "fst (visit_reqs c (fmupd i Visiting st) i (requires_of c i))"
    have "st_of (fmupd i Done ?st1) x \<noteq> Visiting" for x
      using Cons.prems(1) by (simp add: visit_reqs_visiting)
    with False Cons.IH [of "fmupd i Done ?st1"] Cons.IH [of st] Cons.prems show ?thesis
      by (auto simp: Let_def split: if_splits)
  qed
qed simp

lemma requires_of_nonempty: "cat_wf c \<Longrightarrow> requires_of c x \<noteq> [] \<Longrightarrow> x \<in> set (cat_order c)"
  by (auto simp: requires_of_def cat_wf_order split: option.splits)

lemma requirementCycles_acyclic:
  assumes "cat_wf c"
  shows "requirementCycles c = [] \<longleftrightarrow> acyclic (requires_rel c)"
proof
  assume "requirementCycles c = []"
  then have "finished c (fst (visit_all c fmempty (cat_order c)))"
    and "\<forall>i \<in> set (cat_order c). st_of (fst (visit_all c fmempty (cat_order c))) i = Done"
    using visit_all_finished [of c fmempty "cat_order c"] by (simp_all add: requirementCycles_def)
  with assms show "acyclic (requires_rel c)"
    by (blast intro: finished_acyclic dest: requires_of_nonempty)
next
  assume "acyclic (requires_rel c)"
  then show "requirementCycles c = []"
    using visit_all_cycle [of fmempty c "cat_order c"] by (auto simp: requirementCycles_def)
qed

lemma unknown_requirements_empty:
  "unknown_requirements c = [] \<longleftrightarrow>
     (\<forall>i \<in> set (cat_order c). \<forall>r \<in> set (requires_of c i). cat_Lookup c r \<noteq> None)"
  by (auto simp: unknown_requirements_def filter_empty_conv)

lemma cat_Lookup_frozen [simp]: "cat_Lookup (c\<lparr>cat_frozen := b\<rparr>) = cat_Lookup c"
  by (simp add: fun_eq_iff cat_Lookup_def)

lemma frozen_reads [simp]:
  "requires_of (c\<lparr>cat_frozen := b\<rparr>) = requires_of c"
  "cat_values (c\<lparr>cat_frozen := b\<rparr>) = cat_values c" "requires_rel (c\<lparr>cat_frozen := b\<rparr>) = requires_rel c"
  by (simp_all add: fun_eq_iff requires_of_def cat_values_def requires_rel_def)

lemma cat_Validate_ok: "cat_Validate c = Inr () \<longleftrightarrow> unknown_requirements c = [] \<and> requirementCycles c = []"
  by (simp add: cat_Validate_def Let_def)

lemma cat_Validate_frozen:
  assumes "cat_wf c" "cat_Validate c = Inr ()"
  shows "cat_Validate (c\<lparr>cat_frozen := b\<rparr>) = Inr ()"
  using assms requirementCycles_acyclic [of c] requirementCycles_acyclic [of "c\<lparr>cat_frozen := b\<rparr>"]
  by (simp add: cat_Validate_ok unknown_requirements_empty)

section \<open>Properties\<close>

lemma checkIdentifier_split:
  "checkIdentifier ident = Inr () \<longleftrightarrow>
     (\<exists>ns verb. go_cut CHR '':'' ident = (ns, verb, True) \<and> CHR '':'' \<notin> set verb \<and> word_match verb
        \<and> length (go_split CHR ''.'' ns) \<le> 3 \<and> list_all word_match (go_split CHR ''.'' ns))"
  by (auto simp: checkIdentifier_def maxResourceSegments_def Let_def find_None_iff list_all_iff not_less
      dest: find_SomeD split: prod.splits if_splits option.splits)

lemma go_split_single: "CHR ''.'' \<notin> set s \<Longrightarrow> go_split CHR ''.'' s = [s]"
  by (induction s) auto

lemma go_split_dot: "CHR ''.'' \<notin> set s \<Longrightarrow> go_split CHR ''.'' (s @ CHR ''.'' # u) = s # go_split CHR ''.'' u"
  by (induction s) auto

lemma go_split_join_words:
  "segs \<noteq> [] \<Longrightarrow> list_all word_match segs \<Longrightarrow> go_split CHR ''.'' (go_join ''.'' segs) = segs"
  by (induction segs rule: induct_list012) (auto simp: go_split_single go_split_dot word_match_no_sep)

lemma join_words_no_colon: "list_all word_match segs \<Longrightarrow> CHR '':'' \<notin> set (go_join ''.'' segs)"
  by (induction segs rule: induct_list012) (auto simp: word_match_no_sep)

lemma hd_go_join: "segs \<noteq> [] \<Longrightarrow> list_all word_match segs \<Longrightarrow> fst (go_cut CHR ''.'' (go_join ''.'' segs)) = hd segs"
  by (induction segs rule: induct_list012) (auto simp: go_cut_notin go_cut_append word_match_no_sep)

text \<open>
  C31: \<^verbatim>\<open>Catalogue.Validate\<close> accepts a catalogue exactly when every requirement names a
  defined permission and the requirement graph has no cycle; the depth-first search misses no cycle
  and reports no false one.
\<close>

theorem cat_Validate_iff:
  assumes "cat_wf c"
  shows "cat_Validate c = Inr () \<longleftrightarrow>
    (\<forall>ident r. r \<in> set (requires_of c ident) \<longrightarrow> cat_Lookup c r \<noteq> None) \<and> acyclic (requires_rel c)"
proof -
  have "(\<forall>i \<in> set (cat_order c). \<forall>r \<in> set (requires_of c i). cat_Lookup c r \<noteq> None) \<longleftrightarrow>
      (\<forall>i r. r \<in> set (requires_of c i) \<longrightarrow> cat_Lookup c r \<noteq> None)"
    using requires_of_nonempty [OF assms] by (metis empty_iff list.set(1))
  then have "unknown_requirements c = [] \<longleftrightarrow> (\<forall>i r. r \<in> set (requires_of c i) \<longrightarrow> cat_Lookup c r \<noteq> None)"
    by (simp only: unknown_requirements_empty)
  then show ?thesis
    by (cases "unknown_requirements c = []")
      (auto simp: cat_Validate_def Let_def requirementCycles_acyclic [OF assms])
qed

lemma Define_wf:
  assumes "cat_wf c" and "\<forall>opt \<in> set opts. keeps_ID opt" and "Define c ident opts = Inr c'"
  shows "cat_wf c'"
proof -
  note ok = Define_ok [OF assms(3)]
  have "perm_ID (fold (\<lambda>opt. opt) opts (zero_permission ident)) = ident"
    using fold_keeps_ID [OF assms(2)] by (simp add: zero_permission_def)
  moreover have "ident \<notin> set (cat_order c)" using assms(1) ok(3) by (simp add: cat_wf_order)
  ultimately show ?thesis using assms(1) ok by (auto simp: cat_wf_def)
qed

text \<open>
  A successful \<^verbatim>\<open>Define\<close> keeps the catalogue well formed, makes exactly the new
  permission appear under its identifier, last in the order, and leaves the others as they were.
\<close>

theorem Define_preserves:
  assumes "cat_wf c" and "\<forall>opt \<in> set opts. keeps_ID opt" and "Define c ident opts = Inr c'"
  shows "cat_wf c'
    \<and> cat_Lookup c' = (cat_Lookup c)(ident \<mapsto> fold (\<lambda>opt. opt) opts (zero_permission ident))
    \<and> cat_Lookup c ident = None \<and> map perm_ID (cat_All c') = map perm_ID (cat_All c) @ [ident]"
proof -
  note ok = Define_ok [OF assms(3)]
  have look: "cat_Lookup c' = (cat_Lookup c)(ident \<mapsto> fold (\<lambda>opt. opt) opts (zero_permission ident))"
    by (simp add: ok(5) cat_Lookup_def fun_eq_iff)
  have wf: "cat_wf c'" by (rule Define_wf [OF assms])
  then have "map perm_ID (cat_All c') = map perm_ID (cat_All c) @ [ident]"
    using assms(1) by (simp add: map_perm_ID_cat_All ok(5))
  with look wf ok(3) show ?thesis by blast
qed

text \<open>
  The accepted identifiers are exactly one to three words joined by dots, a colon and a word,
  and the module, the namespace and the verb read back from one are the parts it was written from.
\<close>

theorem checkIdentifier_shape:
  shows "checkIdentifier ident = Inr () \<longleftrightarrow>
    (\<exists>segs verb. ident = go_join ''.'' segs @ '':'' @ verb \<and> segs \<noteq> [] \<and> length segs \<le> 3
       \<and> list_all word_match segs \<and> word_match verb
       \<and> perm_Namespace (zero_permission ident) = Some (go_join ''.'' segs)
       \<and> perm_Verb (zero_permission ident) = verb
       \<and> perm_Module (zero_permission ident) = Some (hd segs))" (is "?L \<longleftrightarrow> ?R")
proof
  assume ?L
  then obtain ns verb where cut: "go_cut CHR '':'' ident = (ns, verb, True)" and w: "word_match verb"
    and segs: "length (go_split CHR ''.'' ns) \<le> 3" "list_all word_match (go_split CHR ''.'' ns)"
    by (auto simp: checkIdentifier_split)
  from cut w segs go_cut_found [OF cut] hd_go_join [of "go_split CHR ''.'' ns"] show ?R
    by (intro exI [of _ "go_split CHR ''.'' ns"] exI [of _ verb])
      (simp add: go_join_split perm_Namespace_def perm_Verb_def perm_Module_def zero_permission_def)
next
  assume ?R
  then obtain segs verb where "ident = go_join ''.'' segs @ '':'' @ verb" "segs \<noteq> []" "length segs \<le> 3"
    "list_all word_match segs" "word_match verb" by blast
  then show ?L
    by (simp add: checkIdentifier_split go_cut_append join_words_no_colon go_split_join_words word_match_no_sep)
qed

section \<open>Concrete catalogues\<close>

text \<open>\<^verbatim>\<open>crm.lead:edit\<close> requires \<^verbatim>\<open>crm.lead:view\<close>.\<close>

definition sample_view :: permission where
  "sample_view = opt_Ownable ''lead'' (zero_permission ''crm.lead:view'')"

definition sample_edit :: permission where
  "sample_edit = opt_Requires [''crm.lead:view''] (opt_Ownable ''lead'' (zero_permission ''crm.lead:edit''))"

definition sample_cat1 :: catalogue where
  "sample_cat1 = \<lparr>cat_perms = fmap_of_list [(''crm.lead:view'', sample_view)],
     cat_order = [''crm.lead:view''], cat_frozen = False\<rparr>"

definition sample_catalogue :: catalogue where
  "sample_catalogue =
     \<lparr>cat_perms = fmap_of_list [(''crm.lead:view'', sample_view), (''crm.lead:edit'', sample_edit)],
      cat_order = [''crm.lead:view'', ''crm.lead:edit''], cat_frozen = False\<rparr>"

lemma sample_cat1_built: "Define NewCatalogue ''crm.lead:view'' [opt_Ownable ''lead''] = Inr sample_cat1"
  by code_simp

lemma sample_catalogue_built:
  "Define sample_cat1 ''crm.lead:edit'' [opt_Ownable ''lead'', opt_Requires [''crm.lead:view'']] = Inr sample_catalogue"
  by code_simp

lemma sample_cat1_wf: "cat_wf sample_cat1"
  by (rule Define_wf [OF _ _ sample_cat1_built]) simp_all

lemma sample_catalogue_wf: "cat_wf sample_catalogue"
  by (rule Define_wf [OF sample_cat1_wf _ sample_catalogue_built]) simp

theorem cat_Validate_iff_witness:
  "cat_wf sample_catalogue \<and> cat_Validate sample_catalogue = Inr () \<and> acyclic (requires_rel sample_catalogue)"
proof -
  have "cat_Validate sample_catalogue = Inr ()" by code_simp
  with cat_Validate_iff [OF sample_catalogue_wf] sample_catalogue_wf show ?thesis by blast
qed

theorem Define_preserves_witness:
  "cat_wf sample_catalogue \<and> cat_Lookup sample_catalogue ''crm.lead:edit'' = Some sample_edit
   \<and> map perm_ID (cat_All sample_catalogue) = [''crm.lead:view'', ''crm.lead:edit'']"
proof -
  have "map perm_ID (cat_All sample_cat1) = [''crm.lead:view'']" by code_simp
  with Define_preserves [OF sample_cat1_wf _ sample_catalogue_built] show ?thesis
    by (simp add: sample_edit_def)
qed

end
