(* ===== verification/Hierarchy.thy ===== *)
theory Hierarchy
  imports Catalogue
begin

text \<open>
  The scope hierarchy of \<^verbatim>\<open>authz/hierarchy.go\<close>: levels, scopes, and the chain from a
  scope up to the root that decides containment. The application's \<^verbatim>\<open>ScopeResolver\<close>
  is the parameter \<open>res\<close> of the operations that call it; it may fail.

  The loop of \<open>Chain\<close> climbs one level per iteration, so it is written by recursion on the
  depth of the current scope; \<open>chain_loop_while\<close> shows that this is the loop
  \<^verbatim>\<open>for !h.IsRoot(cur)\<close> of the source for every hierarchy the constructors build.
\<close>

section \<open>Data\<close>

record scope =
  sc_Level :: string
  sc_ID :: int

abbreviation mk_scope :: "string \<Rightarrow> int \<Rightarrow> scope" where
  "mk_scope l i \<equiv> \<lparr>sc_Level = l, sc_ID = i\<rparr>"

type_synonym chain = "scope list"
type_synonym resolver = "scope \<Rightarrow> scope result"

record hierarchy =
  h_levels :: "string list"
  h_depth :: "(string, nat) gomap"
  h_tenant :: string

definition scope_IsZero :: "scope \<Rightarrow> bool" where
  "scope_IsZero s = (sc_Level s = [] \<and> sc_ID s = 0)"

definition scope_String :: "scope \<Rightarrow> string" where
  "scope_String s = (if sc_ID s = 0 then sc_Level s else sc_Level s @ '':'' @ show_int (sc_ID s))"

section \<open>Construction\<close>

fun depth_loop :: "nat \<Rightarrow> string list \<Rightarrow> (string, nat) gomap \<Rightarrow> (string, nat) gomap result" where
  "depth_loop i [] m = Inr m"
| "depth_loop i (l # ls) m =
     (if \<not> word_match l then Inl (Plain (''authz: level '' @ go_quote l @ '' must be a single lowercase word''))
      else if fmlookup m l \<noteq> None then Inl (Plain (''authz: level '' @ go_quote l @ '' declared twice''))
      else depth_loop (Suc i) ls (fmupd l i m))"

definition NewHierarchy :: "string list \<Rightarrow> hierarchy result" where
  "NewHierarchy levels =
     (if length levels < 1 then
        Inl (Plain (''authz: a hierarchy needs at least a root level, for example NewHierarchy(''
          @ go_quote ''organization'' @ '')''))
      else case depth_loop 0 levels fmempty of
        Inl e \<Rightarrow> Inl e
      | Inr m \<Rightarrow> Inr \<lparr>h_levels = levels, h_depth = m, h_tenant = []\<rparr>)"

definition WithTenantLevel :: "hierarchy \<Rightarrow> string \<Rightarrow> hierarchy result" where
  "WithTenantLevel h level =
     (case fmlookup (h_depth h) level of
        None \<Rightarrow> Inl (Plain (''authz: tenant level '' @ go_quote level @ '' is not a level''))
      | Some d \<Rightarrow>
          if d = 0 then Inl (Plain ''authz: the root level cannot be the tenant level'')
          else Inr (h\<lparr>h_tenant := level\<rparr>))"

section \<open>Reading it\<close>

definition RootLevel :: "hierarchy \<Rightarrow> string" where
  "RootLevel h = hd (h_levels h)"

definition LeafLevel :: "hierarchy \<Rightarrow> string" where
  "LeafLevel h = last (h_levels h)"

definition h_Root :: "hierarchy \<Rightarrow> scope" where
  "h_Root h = mk_scope (hd (h_levels h)) 0"

definition h_Depth :: "hierarchy \<Rightarrow> string \<Rightarrow> nat option" where
  "h_Depth h level = fmlookup (h_depth h) level"

definition IsRoot :: "hierarchy \<Rightarrow> scope \<Rightarrow> bool" where
  "IsRoot h s = (sc_Level s = hd (h_levels h))"

definition h_Check :: "hierarchy \<Rightarrow> scope \<Rightarrow> unit result" where
  "h_Check h s =
     (case fmlookup (h_depth h) (sc_Level s) of
        None \<Rightarrow> Inl (sentinel_with ErrInvalidScope (''unknown level '' @ go_quote (sc_Level s)))
      | Some d \<Rightarrow>
          if d = 0 \<and> sc_ID s \<noteq> 0
          then Inl (sentinel_with ErrInvalidScope (''the '' @ sc_Level s @ '' scope has no ID''))
          else if d > 0 \<and> sc_ID s \<le> 0
          then Inl (sentinel_with ErrInvalidScope (sc_Level s @ '' needs a positive ID''))
          else Inr ())"

text \<open>A level that is not declared reads as depth 0, as a Go map does.\<close>

definition depth_or_zero :: "hierarchy \<Rightarrow> string \<Rightarrow> nat" where
  "depth_or_zero h l = (case fmlookup (h_depth h) l of None \<Rightarrow> 0 | Some d \<Rightarrow> d)"

definition Wider :: "hierarchy \<Rightarrow> string \<Rightarrow> string \<Rightarrow> bool" where
  "Wider h a b = (depth_or_zero h a < depth_or_zero h b)"

section \<open>Chains\<close>

definition chain_Scope :: "chain \<Rightarrow> scope" where
  "chain_Scope c = (case c of [] \<Rightarrow> mk_scope [] 0 | s # _ \<Rightarrow> s)"

definition Within :: "chain \<Rightarrow> scope \<Rightarrow> bool" where
  "Within c s = (s \<in> set c)"

definition findLevel :: "scope list \<Rightarrow> string \<Rightarrow> scope option" where
  "findLevel scopes level = List.find (\<lambda>s. sc_Level s = level) scopes"

definition chain_At :: "chain \<Rightarrow> string \<Rightarrow> scope option" where
  "chain_At c level = List.find (\<lambda>x. sc_Level x = level) c"

text \<open>One iteration: the next scope up, and whether the caller knew it (\<^verbatim>\<open>ok\<close>).\<close>

definition chain_next :: "hierarchy \<Rightarrow> resolver \<Rightarrow> scope list \<Rightarrow> string \<Rightarrow> scope \<Rightarrow> bool \<Rightarrow> (scope \<times> bool) result" where
  "chain_next h res known want cur curKnown =
     (case findLevel known want of
        Some k \<Rightarrow> Inr (k, True)
      | None \<Rightarrow>
          if curKnown \<and> want = hd (h_levels h) then Inr (h_Root h, True)
          else case res cur of
            Inl e \<Rightarrow> Inl (Wrapf (''authz: parent of '' @ scope_String cur @ '': '' @ error_text e) e)
          | Inr nxt \<Rightarrow>
              if sc_Level nxt \<noteq> want
              then Inl (sentinel_with ErrInvalidScope (''parent of '' @ scope_String cur @ '' is '' @ scope_String nxt
                @ '', expected level '' @ go_quote want))
              else (case h_Check h nxt of Inl e \<Rightarrow> Inl e | Inr _ \<Rightarrow> Inr (nxt, False)))"

fun chain_loop :: "hierarchy \<Rightarrow> resolver \<Rightarrow> scope list \<Rightarrow> nat \<Rightarrow> scope \<Rightarrow> bool \<Rightarrow> chain result" where
  "chain_loop h res known 0 cur curKnown = Inr []"
| "chain_loop h res known (Suc d) cur curKnown =
     (case chain_next h res known (h_levels h ! d) cur curKnown of
        Inl e \<Rightarrow> Inl e
      | Inr (nxt, ok) \<Rightarrow> (case chain_loop h res known d nxt ok of Inl e \<Rightarrow> Inl e | Inr c \<Rightarrow> Inr (nxt # c)))"

fun check_all :: "hierarchy \<Rightarrow> scope list \<Rightarrow> unit result" where
  "check_all h [] = Inr ()"
| "check_all h (k # ks) = (case h_Check h k of Inl e \<Rightarrow> Inl e | Inr _ \<Rightarrow> check_all h ks)"

definition h_Chain :: "hierarchy \<Rightarrow> resolver \<Rightarrow> scope \<Rightarrow> scope list \<Rightarrow> chain result" where
  "h_Chain h res s known =
     (case h_Check h s of
        Inl e \<Rightarrow> Inl e
      | Inr _ \<Rightarrow>
          (case check_all h known of
             Inl e \<Rightarrow> Inl e
           | Inr _ \<Rightarrow>
               (case chain_loop h res known (depth_or_zero h (sc_Level s)) s False of
                  Inl e \<Rightarrow> Inl e
                | Inr c \<Rightarrow> Inr (s # c))))"

definition tenantOf :: "hierarchy \<Rightarrow> chain \<Rightarrow> scope option" where
  "tenantOf h c = (if h_tenant h = [] then None else chain_At c (h_tenant h))"

section \<open>The invariant of a built hierarchy\<close>

definition hier_wf :: "hierarchy \<Rightarrow> bool" where
  "hier_wf h \<longleftrightarrow>
     h_levels h \<noteq> [] \<and> distinct (h_levels h) \<and> list_all word_match (h_levels h)
     \<and> (\<forall>l d. fmlookup (h_depth h) l = Some d \<longleftrightarrow> d < length (h_levels h) \<and> h_levels h ! d = l)
     \<and> (h_tenant h \<noteq> [] \<longrightarrow> (\<exists>d > 0. fmlookup (h_depth h) (h_tenant h) = Some d))"

lemma depth_loop_ok:
  assumes "depth_loop i ls m = Inr m'"
  shows "distinct ls \<and> list_all word_match ls \<and> (\<forall>l \<in> set ls. fmlookup m l = None) \<and>
    (\<forall>l d. fmlookup m' l = Some d \<longleftrightarrow>
       fmlookup m l = Some d \<or> (i \<le> d \<and> d < i + length ls \<and> ls ! (d - i) = l))"
  using assms
proof (induction i ls m arbitrary: m' rule: depth_loop.induct)
  case (2 i l ls m)
  then have IH: "distinct ls \<and> list_all word_match ls \<and> (\<forall>x \<in> set ls. fmlookup (fmupd l i m) x = None)"
    "\<And>x d. fmlookup m' x = Some d \<longleftrightarrow> fmlookup (fmupd l i m) x = Some d
       \<or> (Suc i \<le> d \<and> d < Suc i + length ls \<and> ls ! (d - Suc i) = x)"
    and new: "fmlookup m l = None" "word_match l"
    by (auto split: if_splits)
  have shift: "(i \<le> d \<and> d < i + length (l # ls) \<and> (l # ls) ! (d - i) = x) \<longleftrightarrow>
      (d = i \<and> x = l) \<or> (Suc i \<le> d \<and> d < Suc i + length ls \<and> ls ! (d - Suc i) = x)" for d x
  proof (cases "d - i")
    case (Suc n)
    then have "d - Suc i = n" "Suc i \<le> d" "d \<noteq> i" by simp_all
    with Suc show ?thesis by auto
  qed auto
  have "fmlookup m' x = Some d \<longleftrightarrow>
      fmlookup m x = Some d \<or> (i \<le> d \<and> d < i + length (l # ls) \<and> (l # ls) ! (d - i) = x)" for x d
    unfolding shift IH(2) using IH(1) new by auto
  with IH(1) new show ?case by (auto split: if_splits)
qed auto

lemma NewHierarchy_wf: "NewHierarchy levels = Inr h \<Longrightarrow> hier_wf h \<and> h_levels h = levels"
  using depth_loop_ok [of 0 levels fmempty]
  by (cases levels) (auto simp: NewHierarchy_def hier_wf_def simp del: depth_loop.simps split: if_splits sum.splits)

lemma WithTenantLevel_wf: "hier_wf h \<Longrightarrow> WithTenantLevel h l = Inr h' \<Longrightarrow> hier_wf h'"
  by (auto simp: WithTenantLevel_def hier_wf_def split: option.splits if_splits)

lemma hier_wf_root [simp]: "hier_wf h \<Longrightarrow> fmlookup (h_depth h) (hd (h_levels h)) = Some 0"
  by (cases "h_levels h") (auto simp: hier_wf_def)

lemma hier_wf_nth: "hier_wf h \<Longrightarrow> d < length (h_levels h) \<Longrightarrow> fmlookup (h_depth h) (h_levels h ! d) = Some d"
  by (simp add: hier_wf_def)

lemma hier_wf_depth: "hier_wf h \<Longrightarrow> fmlookup (h_depth h) l = Some d \<Longrightarrow> d < length (h_levels h) \<and> h_levels h ! d = l"
  by (simp add: hier_wf_def)

lemma IsRoot_iff_depth:
  "hier_wf h \<Longrightarrow> fmlookup (h_depth h) (sc_Level s) = Some d \<Longrightarrow> IsRoot h s \<longleftrightarrow> d = 0"
proof -
  assume wf: "hier_wf h" and d: "fmlookup (h_depth h) (sc_Level s) = Some d"
  show ?thesis
  proof
    assume "IsRoot h s"
    with hier_wf_root [OF wf] d show "d = 0" by (simp add: IsRoot_def)
  next
    assume "d = 0"
    with hier_wf_depth [OF wf d] show "IsRoot h s" by (auto simp: IsRoot_def hd_conv_nth)
  qed
qed

definition valid_scope :: "hierarchy \<Rightarrow> scope \<Rightarrow> bool" where
  "valid_scope h s = is_ok (h_Check h s)"

lemma valid_scope_iff:
  "valid_scope h s \<longleftrightarrow> (\<exists>d. fmlookup (h_depth h) (sc_Level s) = Some d \<and> (if d = 0 then sc_ID s = 0 else 0 < sc_ID s))"
  by (auto simp: valid_scope_def h_Check_def not_le split: option.splits)

lemma valid_scope_depth:
  "hier_wf h \<Longrightarrow> valid_scope h s \<Longrightarrow> fmlookup (h_depth h) (sc_Level s) = Some (depth_or_zero h (sc_Level s))"
  by (auto simp: valid_scope_iff depth_or_zero_def)

lemma valid_scope_root: "hier_wf h \<Longrightarrow> valid_scope h s \<Longrightarrow> IsRoot h s \<Longrightarrow> s = h_Root h"
  by (cases s) (auto simp: valid_scope_iff IsRoot_def h_Root_def)

lemma h_Root_valid [simp]: "hier_wf h \<Longrightarrow> valid_scope h (h_Root h)"
  by (simp add: valid_scope_iff h_Root_def)

lemma sc_Level_h_Root [simp]: "sc_Level (h_Root h) = hd (h_levels h)"
  by (simp add: h_Root_def)

lemma valid_scope_Check: "valid_scope h s \<Longrightarrow> h_Check h s = Inr ()"
  by (auto simp: valid_scope_def is_ok_iff)

lemma check_all_ok: "check_all h ks = Inr () \<longleftrightarrow> list_all (valid_scope h) ks"
  by (induction ks) (auto simp: valid_scope_def split: sum.splits)

lemma h_Check_unit: "h_Check h s = Inr u \<longleftrightarrow> valid_scope h s"
  by (auto simp: valid_scope_def is_ok_iff)

section \<open>Lemmas on chains\<close>

lemma findLevel_Some: "findLevel ks l = Some k \<Longrightarrow> k \<in> set ks \<and> sc_Level k = l"
  by (auto simp: findLevel_def dest: find_SomeD)

lemma chain_next_ok:
  assumes "hier_wf h" "list_all (valid_scope h) known" "chain_next h res known want cur b = Inr (nxt, ok)"
  shows "sc_Level nxt = want \<and> valid_scope h nxt"
  using assms findLevel_Some [of known want]
  by (auto simp: chain_next_def list_all_iff h_Check_unit split: option.splits if_splits sum.splits)

text \<open>The recursion is the loop of the source: stop at the root, else climb to the level above.\<close>

lemma chain_loop_while:
  assumes "hier_wf h" "list_all (valid_scope h) known" "valid_scope h cur"
  shows "chain_loop h res known (depth_or_zero h (sc_Level cur)) cur b =
    (if IsRoot h cur then Inr []
     else case chain_next h res known (h_levels h ! (depth_or_zero h (sc_Level cur) - 1)) cur b of
         Inl e \<Rightarrow> Inl e
       | Inr (nxt, ok) \<Rightarrow>
           (case chain_loop h res known (depth_or_zero h (sc_Level nxt)) nxt ok of Inl e \<Rightarrow> Inl e | Inr c \<Rightarrow> Inr (nxt # c)))"
proof (cases "depth_or_zero h (sc_Level cur)")
  case 0
  then show ?thesis using IsRoot_iff_depth [OF assms(1) valid_scope_depth [OF assms(1,3)]] by simp
next
  case (Suc d)
  note dep = valid_scope_depth [OF assms(1,3)]
  have "depth_or_zero h (sc_Level nxt) = d" if "chain_next h res known (h_levels h ! d) cur b = Inr (nxt, ok)" for nxt ok
  proof -
    have "fmlookup (h_depth h) (h_levels h ! d) = Some d"
      using hier_wf_depth [OF assms(1) dep] Suc by (simp add: hier_wf_nth [OF assms(1)])
    with chain_next_ok [OF assms(1,2) that] show ?thesis by (simp add: depth_or_zero_def)
  qed
  with Suc show ?thesis using IsRoot_iff_depth [OF assms(1) dep]
    by (auto split: sum.splits prod.splits)
qed

lemma chain_loop_shape:
  assumes "hier_wf h" "list_all (valid_scope h) known" "d < length (h_levels h)"
    and "chain_loop h res known d cur b = Inr c"
  shows "map sc_Level c = rev (take d (h_levels h)) \<and> list_all (valid_scope h) c"
  using assms(3,4)
proof (induction d arbitrary: cur b c)
  case (Suc d)
  then obtain nxt ok c' where n: "chain_next h res known (h_levels h ! d) cur b = Inr (nxt, ok)"
    and l: "chain_loop h res known d nxt ok = Inr c'" and c: "c = nxt # c'"
    by (auto split: sum.splits prod.splits)
  from Suc.IH [OF _ l] chain_next_ok [OF assms(1,2) n] Suc.prems(1) c show ?case
    by (simp add: take_Suc_conv_app_nth)
qed simp

lemma h_Chain_shape:
  assumes "hier_wf h" "h_Chain h res s known = Inr c"
  shows "\<exists>c'. c = s # c' \<and> valid_scope h s
    \<and> map sc_Level c = rev (take (Suc (depth_or_zero h (sc_Level s))) (h_levels h)) \<and> list_all (valid_scope h) c"
proof -
  obtain c' where v: "valid_scope h s" "list_all (valid_scope h) known" and c: "c = s # c'"
    and l: "chain_loop h res known (depth_or_zero h (sc_Level s)) s False = Inr c'"
    using assms(2) by (auto simp: h_Chain_def h_Check_unit check_all_ok split: sum.splits)
  note dep = hier_wf_depth [OF assms(1) valid_scope_depth [OF assms(1) v(1)]]
  from chain_loop_shape [OF assms(1) v(2) conjunct1 [OF dep] l] dep v c show ?thesis
    by (simp add: take_Suc_conv_app_nth)
qed

lemma h_Chain_last:
  assumes "hier_wf h" "h_Chain h res s known = Inr c"
  shows "c \<noteq> [] \<and> hd c = s \<and> last c = h_Root h"
proof -
  obtain c' where c: "c = s # c'"
    and m: "map sc_Level c = rev (take (Suc (depth_or_zero h (sc_Level s))) (h_levels h))"
    and v: "list_all (valid_scope h) c"
    using h_Chain_shape [OF assms] by blast
  have "sc_Level (last c) = hd (h_levels h)"
  proof -
    have "sc_Level (last c) = last (map sc_Level c)" using c by (simp add: last_map)
    also have "\<dots> = hd (h_levels h)" using assms(1) by (simp add: m last_rev hier_wf_def)
    finally show ?thesis .
  qed
  moreover have "valid_scope h (last c)" using v c by (simp add: list_all_iff)
  ultimately have "last c = h_Root h" using valid_scope_root [OF assms(1)] by (simp add: IsRoot_def)
  with c show ?thesis by simp
qed

lemma distinct_chain_levels:
  assumes "hier_wf h" "h_Chain h res s known = Inr c"
  shows "distinct (map sc_Level c)"
  using h_Chain_shape [OF assms] assms(1) by (auto simp: hier_wf_def)

lemma root_within: "hier_wf h \<Longrightarrow> h_Chain h res s known = Inr c \<Longrightarrow> Within c (h_Root h)"
  using h_Chain_last [of h res s known c] by (metis Within_def last_in_set)

lemma chain_At_iff:
  assumes "distinct (map sc_Level c)"
  shows "chain_At c l = Some x \<longleftrightarrow> x \<in> set c \<and> sc_Level x = l"
proof
  assume "x \<in> set c \<and> sc_Level x = l"
  then have "chain_At c l \<noteq> None" by (auto simp: chain_At_def find_None_iff)
  then obtain y where "chain_At c l = Some y" by blast
  moreover from this have "y \<in> set c" "sc_Level y = l" by (auto simp: chain_At_def dest: find_SomeD)
  ultimately show "chain_At c l = Some x"
    using assms \<open>x \<in> set c \<and> sc_Level x = l\<close> by (metis distinct_map inj_onD)
qed (auto simp: chain_At_def dest: find_SomeD)

text \<open>With no known ancestors the chain of a scope on a chain is the rest of that chain.\<close>

lemma chain_next_nil_ok: "chain_next h res [] want cur False = Inr (nxt, ok) \<Longrightarrow> \<not> ok"
  by (auto simp: chain_next_def findLevel_def split: sum.splits if_splits)

lemma h_Chain_tail:
  assumes "hier_wf h" "h_Chain h res s [] = Inr (s # t # c)"
  shows "h_Chain h res t [] = Inr (t # c)"
proof -
  obtain d where v: "valid_scope h s" and d: "depth_or_zero h (sc_Level s) = Suc d"
    and l: "chain_loop h res [] (Suc d) s False = Inr (t # c)"
    using assms(2) by (cases "depth_or_zero h (sc_Level s)") (auto simp: h_Chain_def h_Check_unit split: sum.splits)
  obtain ok where n: "chain_next h res [] (h_levels h ! d) s False = Inr (t, ok)"
    and l': "chain_loop h res [] d t ok = Inr c"
    using l by (auto split: sum.splits prod.splits)
  have "\<not> ok" using chain_next_nil_ok [OF n] .
  moreover have t: "sc_Level t = h_levels h ! d" "valid_scope h t"
    using chain_next_ok [OF assms(1) _ n] by simp_all
  moreover have "depth_or_zero h (sc_Level t) = d"
  proof -
    have "Suc d < length (h_levels h)" using hier_wf_depth [OF assms(1) valid_scope_depth [OF assms(1) v]] d by simp
    then show ?thesis using hier_wf_nth [OF assms(1), of d] t by (simp add: depth_or_zero_def)
  qed
  ultimately show ?thesis using l' by (simp add: h_Chain_def valid_scope_Check)
qed

lemma h_Chain_suffix:
  assumes "hier_wf h" "h_Chain h res s [] = Inr c" "t \<in> set c" "h_Chain h res t [] = Inr c'"
  shows "set c' \<subseteq> set c"
  using assms(2,3)
proof (induction c arbitrary: s)
  case (Cons u c)
  then have u: "u = s" using h_Chain_last [OF assms(1) Cons.prems(1)] by simp
  show ?case
  proof (cases "t = u")
    case True
    with Cons.prems(1) assms(4) u show ?thesis by simp
  next
    case False
    with Cons.prems(2) have t: "t \<in> set c" by simp
    then obtain v c2 where c: "c = v # c2" by (cases c) simp_all
    with Cons.prems(1) u have "h_Chain h res v [] = Inr c" using h_Chain_tail [OF assms(1)] by blast
    then have "set c' \<subseteq> set c" using t by (rule Cons.IH)
    then show ?thesis by (simp add: subset_insertI2)
  qed
qed simp

text \<open>Ancestors that the caller knows and the resolver would give change nothing.\<close>

lemma chain_loop_known:
  assumes "hier_wf h" "d < length (h_levels h)" "chain_loop h res [] d cur False = Inr c"
    and "\<forall>k \<in> set known. \<forall>x \<in> set c. sc_Level k = sc_Level x \<longrightarrow> k = x"
  shows "chain_loop h res known d cur b = Inr c"
  using assms(2-4)
proof (induction d arbitrary: cur b c)
  case (Suc d)
  obtain nxt ok c' where n: "chain_next h res [] (h_levels h ! d) cur False = Inr (nxt, ok)"
    and l: "chain_loop h res [] d nxt ok = Inr c'" and c: "c = nxt # c'"
    using Suc.prems(2) by (auto split: sum.splits prod.splits)
  have nxt: "sc_Level nxt = h_levels h ! d" "valid_scope h nxt" using chain_next_ok [OF assms(1) _ n] by simp_all
  have ok: "\<not> ok" using chain_next_nil_ok [OF n] .
  have "\<exists>ok'. chain_next h res known (h_levels h ! d) cur b = Inr (nxt, ok')"
  proof (cases "findLevel known (h_levels h ! d)")
    case (Some k)
    then have "k = nxt" using findLevel_Some [OF Some] Suc.prems(3) c nxt(1) by auto
    then show ?thesis using Some by (intro exI [of _ True]) (simp add: chain_next_def)
  next
    case None
    have "nxt = h_Root h" if "h_levels h ! d = hd (h_levels h)"
      using valid_scope_root [OF assms(1) nxt(2)] nxt(1) that by (simp add: IsRoot_def)
    then show ?thesis using n None by (auto simp: chain_next_def findLevel_def split: sum.splits if_splits)
  qed
  moreover have "chain_loop h res known d nxt ok' = Inr c'" for ok' using Suc.IH [of nxt c' ok'] l ok Suc.prems(1,3) c by simp
  ultimately show ?case using c by auto
qed simp

lemma h_Chain_known:
  assumes "hier_wf h" "h_Chain h res s [] = Inr c" "set known \<subseteq> set c"
  shows "h_Chain h res s known = Inr c"
proof -
  obtain c' where v: "valid_scope h s" and c: "c = s # c'" and l: "chain_loop h res [] (depth_or_zero h (sc_Level s)) s False = Inr c'"
    using assms(2) by (auto simp: h_Chain_def h_Check_unit split: sum.splits)
  have levels: "distinct (map sc_Level c)" by (rule distinct_chain_levels [OF assms(1,2)])
  have "k = x" if "k \<in> set known" "x \<in> set c'" "sc_Level k = sc_Level x" for k x
    using that assms(3) c levels by (intro inj_onD [of sc_Level "set c"]) (auto simp: distinct_map)
  moreover have "depth_or_zero h (sc_Level s) < length (h_levels h)"
    using hier_wf_depth [OF assms(1) valid_scope_depth [OF assms(1) v]] by simp
  ultimately have "chain_loop h res known (depth_or_zero h (sc_Level s)) s False = Inr c'"
    using chain_loop_known [OF assms(1) _ l] by blast
  moreover have "list_all (valid_scope h) known" using h_Chain_shape [OF assms(1,2)] assms(3) by (auto simp: list_all_iff)
  ultimately show ?thesis using c check_all_ok [of h known] by (simp add: h_Chain_def valid_scope_Check [OF v])
qed

section \<open>Properties\<close>

text \<open>
  A resolved chain runs from the scope up to the root, through every level in between exactly
  once and in order, and every scope on it is a valid scope of its level; so the root contains every
  scope.
\<close>

theorem h_Chain_correct:
  assumes "hier_wf h" and "h_Chain h res s known = Inr c"
  shows "hd c = s \<and> last c = h_Root h
    \<and> map sc_Level c = rev (take (Suc (depth_or_zero h (sc_Level s))) (h_levels h))
    \<and> list_all (valid_scope h) c \<and> Within c (h_Root h)"
  using h_Chain_shape [OF assms] h_Chain_last [OF assms] root_within [OF assms] by blast

text \<open>
  Containment is transitive: when a scope lies within a second one and that within a third, by
  their resolved chains, the first lies within the third.
\<close>

theorem Within_trans:
  assumes "hier_wf h" and "h_Chain h res s [] = Inr c" and "h_Chain h res t [] = Inr c'"
    and "Within c t" and "Within c' u"
  shows "Within c u"
  using h_Chain_suffix [OF assms(1,2) _ assms(3)] assms(4,5) by (auto simp: Within_def)

section \<open>A concrete hierarchy\<close>

definition sample_hierarchy :: hierarchy where
  "sample_hierarchy =
     \<lparr>h_levels = [''organization'', ''dealer'', ''location''],
      h_depth = fmap_of_list [(''organization'', 0), (''dealer'', 1), (''location'', 2)], h_tenant = ''dealer''\<rparr>"

definition sample_resolver :: resolver where
  "sample_resolver s =
     (if sc_Level s = ''location'' then Inr (mk_scope ''dealer'' 3)
      else if sc_Level s = ''dealer'' then Inr (mk_scope ''organization'' 0)
      else Inl (Sentinel ErrScopeNotFound))"

lemma sample_hierarchy_built:
  "res_bind (NewHierarchy [''organization'', ''dealer'', ''location'']) (\<lambda>h. WithTenantLevel h ''dealer'') =
     Inr sample_hierarchy"
  by code_simp

lemma sample_hierarchy_wf: "hier_wf sample_hierarchy"
  using sample_hierarchy_built by (auto simp: res_bind_Inr_iff dest: NewHierarchy_wf WithTenantLevel_wf)

lemma sample_chain:
  "h_Chain sample_hierarchy sample_resolver (mk_scope ''location'' 7) [] =
     Inr [mk_scope ''location'' 7, mk_scope ''dealer'' 3, mk_scope ''organization'' 0]"
  "h_Chain sample_hierarchy sample_resolver (mk_scope ''dealer'' 3) [] =
     Inr [mk_scope ''dealer'' 3, mk_scope ''organization'' 0]"
  by code_simp+

theorem h_Chain_correct_witness:
  "hier_wf sample_hierarchy
   \<and> [''location'', ''dealer'', ''organization''] =
       rev (take (Suc (depth_or_zero sample_hierarchy ''location'')) (h_levels sample_hierarchy))"
  using h_Chain_correct [OF sample_hierarchy_wf sample_chain(1)] sample_hierarchy_wf by auto

theorem Within_trans_witness:
  "Within [mk_scope ''location'' 7, mk_scope ''dealer'' 3, mk_scope ''organization'' 0] (mk_scope ''organization'' 0)"
  by (rule Within_trans [OF sample_hierarchy_wf sample_chain]) (simp_all add: Within_def)

end
