(* ===== verification/Roles.thy ===== *)
theory Roles
  imports Hierarchy
begin

text \<open>
  Who, what and where: \<^verbatim>\<open>authz/qualifier.go\<close>, \<^verbatim>\<open>authz/role.go\<close>,
  \<^verbatim>\<open>authz/principal.go\<close> and \<^verbatim>\<open>authz/binding.go\<close>. A qualifier is an
  integer, as in the source, so that the invalid values a caller can store are in the model. The
  main result is that \<open>Role_Validate\<close> reports no problem exactly for the roles that meet
  the rules, written out as \<open>role_ok\<close>.
\<close>

section \<open>Qualifiers\<close>

type_synonym qualifier = int

definition QualifierOwn :: qualifier where "QualifierOwn = 1"
definition QualifierOwnLocation :: qualifier where "QualifierOwnLocation = 2"
definition QualifierAll :: qualifier where "QualifierAll = 3"

lemmas qualifier_defs = QualifierOwn_def QualifierOwnLocation_def QualifierAll_def

definition qualifier_String :: "qualifier \<Rightarrow> string" where
  "qualifier_String q =
     (if q = QualifierOwn then ''own'' else if q = QualifierOwnLocation then ''own_location''
      else if q = QualifierAll then ''all'' else ''invalid'')"

definition qualifier_Valid :: "qualifier \<Rightarrow> bool" where
  "qualifier_Valid q = (QualifierOwn \<le> q \<and> q \<le> QualifierAll)"

definition Covers :: "qualifier \<Rightarrow> qualifier \<Rightarrow> bool" where
  "Covers q other = (q = QualifierAll \<or> q = other)"

definition ParseQualifier :: "string \<Rightarrow> qualifier result" where
  "ParseQualifier s =
     (case List.find (\<lambda>q. qualifier_String q = s) [QualifierOwn, QualifierOwnLocation, QualifierAll] of
        Some q \<Rightarrow> Inr q
      | None \<Rightarrow> Inl (Plain (''authz: unknown qualifier '' @ go_quote s)))"

definition qualifier_MarshalText :: "qualifier \<Rightarrow> string result" where
  "qualifier_MarshalText q =
     (if \<not> qualifier_Valid q then Inl (Plain (''authz: invalid qualifier '' @ show_int q))
      else Inr (qualifier_String q))"

text \<open>The receiver is left as it was when the text does not parse.\<close>

definition qualifier_UnmarshalText :: "qualifier \<Rightarrow> string \<Rightarrow> (go_error option) \<times> qualifier" where
  "qualifier_UnmarshalText q b = (case ParseQualifier b of Inl e \<Rightarrow> (Some e, q) | Inr v \<Rightarrow> (None, v))"

section \<open>Principals\<close>

definition KindUser :: string where "KindUser = ''user''"
definition KindServiceAccount :: string where "KindServiceAccount = ''service''"

definition kind_Valid :: "string \<Rightarrow> bool" where
  "kind_Valid k = (k = KindUser \<or> k = KindServiceAccount)"

record subject =
  sub_Kind :: string
  sub_ID :: int

definition subject_String :: "subject \<Rightarrow> string" where
  "subject_String s = sub_Kind s @ '':'' @ show_int (sub_ID s)"

definition subject_Valid :: "subject \<Rightarrow> bool" where
  "subject_Valid s = (kind_Valid (sub_Kind s) \<and> sub_ID s > 0)"

record principal =
  pr_Subject :: subject
  pr_Location :: int

definition User :: "int \<Rightarrow> int \<Rightarrow> principal" where
  "User i location = \<lparr>pr_Subject = \<lparr>sub_Kind = KindUser, sub_ID = i\<rparr>, pr_Location = location\<rparr>"

definition ServiceAccount :: "int \<Rightarrow> principal" where
  "ServiceAccount i = \<lparr>pr_Subject = \<lparr>sub_Kind = KindServiceAccount, sub_ID = i\<rparr>, pr_Location = 0\<rparr>"

text \<open>What the modelled code reads of a \<^verbatim>\<open>context.Context\<close>: the principal stored in it.\<close>

type_synonym ctx = "principal option"

definition WithPrincipal :: "ctx \<Rightarrow> principal \<Rightarrow> ctx" where
  "WithPrincipal c p = Some p"

definition PrincipalFrom :: "ctx \<Rightarrow> principal option" where
  "PrincipalFrom c = (case c of None \<Rightarrow> None | Some p \<Rightarrow> if subject_Valid (pr_Subject p) then Some p else None)"

section \<open>Roles and bindings\<close>

record grant =
  g_Permission :: string
  g_Qualifier :: qualifier

definition Grants :: "qualifier \<Rightarrow> string list \<Rightarrow> grant list" where
  "Grants q permissions = map (\<lambda>p. \<lparr>g_Permission = p, g_Qualifier = q\<rparr>) permissions"

definition CheckQualifiers :: "grant list \<Rightarrow> unit result" where
  "CheckQualifiers gs =
     (let problems = map (\<lambda>g. mk_problem ''invalid_qualifier'' (g_Permission g) (''qualifier '' @ show_int (g_Qualifier g)))
            (filter (\<lambda>g. \<not> qualifier_Valid (g_Qualifier g)) gs)
      in if problems = [] then Inr () else Inl (BadRequestFrom (ValidationError problems)))"

record role_ref =
  ref_ID :: int
  ref_Key :: string

definition ref_Valid :: "role_ref \<Rightarrow> bool" where
  "ref_Valid r = ((ref_ID r > 0) \<noteq> (ref_Key r \<noteq> []))"

record role =
  role_ID :: int
  role_Key :: string
  role_Name :: string
  role_Description :: string
  role_Grants :: "grant list"
  role_Attrs :: "(string, string list) gomap"
  role_Computed :: "selector option"

definition role_Predefined :: "role \<Rightarrow> bool" where
  "role_Predefined r = (role_Key r \<noteq> [])"

definition role_Ref :: "role \<Rightarrow> role_ref" where
  "role_Ref r = \<lparr>ref_ID = role_ID r, ref_Key = role_Key r\<rparr>"

definition ComputedRole :: "string \<Rightarrow> string \<Rightarrow> selector \<Rightarrow> role" where
  "ComputedRole key name sel =
     \<lparr>role_ID = 0, role_Key = key, role_Name = name, role_Description = [], role_Grants = [],
      role_Attrs = fmempty, role_Computed = Some sel\<rparr>"

definition Resolve :: "role \<Rightarrow> catalogue \<Rightarrow> grant list" where
  "Resolve r cat =
     (case role_Computed r of
        None \<Rightarrow> role_Grants r
      | Some sel \<Rightarrow> map (\<lambda>p. \<lparr>g_Permission = perm_ID p, g_Qualifier = QualifierAll\<rparr>) (filter sel (cat_All cat)))"

subsection \<open>Validation\<close>

text \<open>The problems one grant adds, given what earlier grants hold, and what is held after it.\<close>

definition validate_grant ::
  "catalogue \<Rightarrow> (string, qualifier) gomap \<Rightarrow> grant \<Rightarrow> problem list \<times> (string, qualifier) gomap" where
  "validate_grant cat held g =
     (case cat_Lookup cat (g_Permission g) of
        None \<Rightarrow> ([mk_problem ''unknown_permission'' (g_Permission g) []], held)
      | Some p \<Rightarrow>
          if \<not> qualifier_Valid (g_Qualifier g)
          then ([mk_problem ''invalid_qualifier'' (g_Permission g) (''qualifier '' @ show_int (g_Qualifier g))], held)
          else
            let notAllowed = (if \<not> Ownable p \<and> g_Qualifier g \<noteq> QualifierAll
                  then [mk_problem ''qualifier_not_allowed'' (g_Permission g)
                    (qualifier_String (g_Qualifier g) @ '' on a permission that is not ownable'')] else [])
            in if fmlookup held (g_Permission g) \<noteq> None
               then (notAllowed @ [mk_problem ''duplicate_grant'' (g_Permission g) []], held)
               else (notAllowed, fmupd (g_Permission g) (g_Qualifier g) held))"

fun validate_grants ::
  "catalogue \<Rightarrow> (string, qualifier) gomap \<Rightarrow> grant list \<Rightarrow> problem list \<times> (string, qualifier) gomap" where
  "validate_grants cat held [] = ([], held)"
| "validate_grants cat held (g # gs) =
     (let r1 = validate_grant cat held g; r2 = validate_grants cat (snd r1) gs in (fst r1 @ fst r2, snd r2))"

text \<open>The problems of one requirement of a held permission.\<close>

definition validate_requirement ::
  "catalogue \<Rightarrow> (string, qualifier) gomap \<Rightarrow> string \<Rightarrow> permission \<Rightarrow> qualifier \<Rightarrow> string \<Rightarrow> problem list" where
  "validate_requirement cat held ident p q req =
     (case fmlookup held req of
        None \<Rightarrow> [mk_problem ''missing_required'' ident (''requires '' @ req)]
      | Some rq \<Rightarrow>
          (case cat_Lookup cat req of
             None \<Rightarrow> []
           | Some rp \<Rightarrow>
               if Ownable p \<and> Ownable rp \<and> \<not> Covers rq q
               then [mk_problem ''required_too_narrow'' ident
                 (req @ '' is '' @ qualifier_String rq @ '' but '' @ ident @ '' is '' @ qualifier_String q)]
               else []))"

definition validate_requires :: "catalogue \<Rightarrow> (string, qualifier) gomap \<Rightarrow> problem list" where
  "validate_requires cat held =
     concat (map (\<lambda>ident.
       (case (cat_Lookup cat ident, fmlookup held ident) of
          (Some p, Some q) \<Rightarrow> concat (map (validate_requirement cat held ident p q) (perm_Requires p))
        | _ \<Rightarrow> [])) (sortedKeys held))"

definition validate_attrs :: "catalogue \<Rightarrow> (string, string list) gomap \<Rightarrow> problem list" where
  "validate_attrs cat attrs =
     concat (map (\<lambda>key.
       if key \<notin> set (AttributeKeys cat) then [mk_problem ''unknown_attribute'' [] key]
       else if slice_at attrs key = [] then
         [mk_problem ''empty_attribute'' []
           (key @ '': an empty list would match nothing; leave the key out to allow all'')]
       else []) (sortedKeys attrs))"

definition role_problems :: "catalogue \<Rightarrow> role \<Rightarrow> problem list" where
  "role_problems cat r =
     (if role_Name r = [] then [mk_problem ''invalid_role'' [] ''name is required''] else [])
     @ (if role_Key r \<noteq> [] \<and> \<not> word_match (role_Key r)
        then [mk_problem ''invalid_role'' [] (''key '' @ go_quote (role_Key r) @ '' must be a single lowercase word'')] else [])
     @ (if role_Computed r \<noteq> None \<and> role_Grants r \<noteq> []
        then [mk_problem ''computed_with_grants'' [] ''a computed role has no explicit grants''] else [])
     @ (let v = validate_grants cat fmempty (Resolve r cat) in fst v @ validate_requires cat (snd v))
     @ validate_attrs cat (role_Attrs r)"

definition Role_Validate :: "catalogue \<Rightarrow> role \<Rightarrow> unit result" where
  "Role_Validate cat r = asValidation (role_problems cat r)"

subsection \<open>Bindings\<close>

record binding =
  b_ID :: int
  b_Subject :: subject
  b_Role :: role_ref
  b_Scope :: scope
  b_CreatedBy :: int
  b_CreatedAt :: int

section \<open>What Validate accepts\<close>

text \<open>A grant on its own, and a list of grants, each permission once.\<close>

definition grant_ok :: "catalogue \<Rightarrow> grant \<Rightarrow> bool" where
  "grant_ok cat g \<longleftrightarrow>
     (\<exists>p. cat_Lookup cat (g_Permission g) = Some p \<and> qualifier_Valid (g_Qualifier g)
        \<and> (g_Qualifier g = QualifierAll \<or> Ownable p))"

definition held_of :: "grant list \<Rightarrow> string \<rightharpoonup> qualifier" where
  "held_of gs = map_of (map (\<lambda>g. (g_Permission g, g_Qualifier g)) gs)"

definition requirements_met :: "catalogue \<Rightarrow> (string \<rightharpoonup> qualifier) \<Rightarrow> bool" where
  "requirements_met cat held \<longleftrightarrow>
     (\<forall>ident q p req. held ident = Some q \<longrightarrow> cat_Lookup cat ident = Some p \<longrightarrow> req \<in> set (perm_Requires p) \<longrightarrow>
        (\<exists>rq. held req = Some rq \<and>
           (\<forall>rp. cat_Lookup cat req = Some rp \<longrightarrow> Ownable p \<longrightarrow> Ownable rp \<longrightarrow> Covers rq q)))"

definition role_ok :: "catalogue \<Rightarrow> role \<Rightarrow> bool" where
  "role_ok cat r \<longleftrightarrow>
     role_Name r \<noteq> [] \<and> (role_Key r \<noteq> [] \<longrightarrow> word_match (role_Key r))
     \<and> (role_Computed r \<noteq> None \<longrightarrow> role_Grants r = [])
     \<and> list_all (grant_ok cat) (Resolve r cat) \<and> distinct (map g_Permission (Resolve r cat))
     \<and> requirements_met cat (held_of (Resolve r cat))
     \<and> (\<forall>key values. fmlookup (role_Attrs r) key = Some values \<longrightarrow> key \<in> set (AttributeKeys cat) \<and> values \<noteq> [])"

lemma Covers_refl [simp]: "Covers q q" by (simp add: Covers_def)
lemma Covers_trans: "Covers a b \<Longrightarrow> Covers b c \<Longrightarrow> Covers a c" by (auto simp: Covers_def)

lemma qualifier_Valid_iff: "qualifier_Valid q \<longleftrightarrow> q \<in> {QualifierOwn, QualifierOwnLocation, QualifierAll}"
  by (auto simp: qualifier_Valid_def qualifier_defs)

lemma validate_grant_ok:
  "fst (validate_grant cat held g) = [] \<longleftrightarrow> grant_ok cat g \<and> fmlookup held (g_Permission g) = None"
  by (auto simp: validate_grant_def grant_ok_def Let_def split: option.splits)

lemma validate_grant_held:
  "fst (validate_grant cat held g) = [] \<Longrightarrow> snd (validate_grant cat held g) = fmupd (g_Permission g) (g_Qualifier g) held"
  by (auto simp: validate_grant_def Let_def split: option.splits if_splits)

lemma validate_grants_ok:
  "fst (validate_grants cat held gs) = [] \<longleftrightarrow>
     list_all (grant_ok cat) gs \<and> distinct (map g_Permission gs) \<and> (\<forall>g \<in> set gs. fmlookup held (g_Permission g) = None)"
proof (induction gs arbitrary: held)
  case (Cons g gs)
  then show ?case
    by (auto simp: Let_def validate_grant_ok validate_grant_held split: if_splits)
qed simp

lemma validate_grants_held:
  "fst (validate_grants cat held gs) = [] \<Longrightarrow>
     fmlookup (snd (validate_grants cat held gs)) k = (case held_of gs k of Some q \<Rightarrow> Some q | None \<Rightarrow> fmlookup held k)"
proof (induction gs arbitrary: held)
  case (Cons g gs)
  have "map_of (map (\<lambda>g. (g_Permission g, g_Qualifier g)) gs) (g_Permission g) = None"
    using Cons.prems validate_grants_ok [of cat held "g # gs"] by (auto simp: map_of_eq_None_iff)
  with Cons show ?case
    by (auto simp: Let_def validate_grant_held held_of_def split: option.splits)
qed (simp add: held_of_def)

lemma validate_requires_ok:
  assumes "\<And>k. fmlookup held k = f k" "\<And>k q. f k = Some q \<Longrightarrow> cat_Lookup cat k \<noteq> None"
  shows "validate_requires cat held = [] \<longleftrightarrow> requirements_met cat f"
proof -
  have one: "validate_requirement cat held ident p q req = [] \<longleftrightarrow>
      (\<exists>rq. f req = Some rq \<and> (\<forall>rp. cat_Lookup cat req = Some rp \<longrightarrow> Ownable p \<longrightarrow> Ownable rp \<longrightarrow> Covers rq q))"
    for ident p q req
    by (auto simp: validate_requirement_def assms(1) split: option.splits)
  have "validate_requires cat held = [] \<longleftrightarrow>
      (\<forall>ident q p. f ident = Some q \<longrightarrow> cat_Lookup cat ident = Some p \<longrightarrow>
         (\<forall>req \<in> set (perm_Requires p). validate_requirement cat held ident p q req = []))"
    unfolding validate_requires_def concat_sortedKeys_empty assms(1) by (auto split: option.splits)
  then show ?thesis unfolding one requirements_met_def by blast
qed

lemma validate_attrs_ok:
  "validate_attrs cat attrs = [] \<longleftrightarrow>
     (\<forall>key values. fmlookup attrs key = Some values \<longrightarrow> key \<in> set (AttributeKeys cat) \<and> values \<noteq> [])"
proof -
  have "(\<forall>k v. fmlookup attrs k = Some v \<longrightarrow> k \<in> set (AttributeKeys cat) \<and> slice_at attrs k \<noteq> []) \<longleftrightarrow>
      (\<forall>k v. fmlookup attrs k = Some v \<longrightarrow> k \<in> set (AttributeKeys cat) \<and> v \<noteq> [])"
    by (metis slice_at_Some)
  moreover have "validate_attrs cat attrs = [] \<longleftrightarrow>
      (\<forall>k v. fmlookup attrs k = Some v \<longrightarrow> k \<in> set (AttributeKeys cat) \<and> slice_at attrs k \<noteq> [])"
    unfolding validate_attrs_def concat_sortedKeys_empty by (metis list.distinct(1))
  ultimately show ?thesis by simp
qed

lemma Role_Validate_role_ok: "Role_Validate cat r = Inr () \<longleftrightarrow> role_ok cat r"
proof (cases "fst (validate_grants cat fmempty (Resolve r cat)) = []")
  case True
  let ?gs = "Resolve r cat" and ?held = "snd (validate_grants cat fmempty (Resolve r cat))"
  have gs: "list_all (grant_ok cat) ?gs" "distinct (map g_Permission ?gs)"
    using True by (simp_all add: validate_grants_ok)
  have "fmlookup ?held k = held_of ?gs k" for k
    using validate_grants_held [OF True] by (simp split: option.splits)
  moreover have "cat_Lookup cat k \<noteq> None" if "held_of ?gs k = Some q" for k q
    using that gs(1) by (fastforce simp: held_of_def grant_ok_def list_all_iff dest!: map_of_SomeD)
  ultimately have "validate_requires cat ?held = [] \<longleftrightarrow> requirements_met cat (held_of ?gs)"
    by (rule validate_requires_ok)
  with True gs show ?thesis
    by (auto simp: Role_Validate_def role_problems_def role_ok_def Let_def validate_attrs_ok)
next
  case False
  then show ?thesis
    by (auto simp: Role_Validate_def role_problems_def role_ok_def Let_def validate_grants_ok)
qed

lemma Resolve_lookup: "role_ok cat r \<Longrightarrow> g \<in> set (Resolve r cat) \<Longrightarrow> \<exists>p. cat_Lookup cat (g_Permission g) = Some p"
  by (auto simp: role_ok_def list_all_iff grant_ok_def)

section \<open>Properties\<close>

text \<open>
  \<^verbatim>\<open>Role.Validate\<close> accepts a role exactly when it has a name, a well-formed key, no
  explicit grants beside a selector, known permissions each granted once with a qualifier it may
  carry, every required permission granted at least as widely, and only declared, non-empty
  attribute constraints.
\<close>

theorem Role_Validate_iff: "Role_Validate cat r = Inr () \<longleftrightarrow> role_ok cat r"
  by (rule Role_Validate_role_ok)

lemma ParseQualifier_String: "qualifier_Valid q \<Longrightarrow> ParseQualifier (qualifier_String q) = Inr q"
  by (auto simp: qualifier_Valid_iff ParseQualifier_def qualifier_String_def qualifier_defs)

lemma ParseQualifier_Inr: "ParseQualifier s = Inr v \<Longrightarrow> qualifier_Valid v \<and> qualifier_String v = s"
  by (auto simp: ParseQualifier_def qualifier_Valid_iff split: option.splits if_splits)

text \<open>
  The three valid qualifiers, and only they, marshal to text and read back as themselves; a
  text that is none of theirs is refused and changes nothing.
\<close>

theorem qualifier_roundtrip:
  shows "(qualifier_Valid q \<longrightarrow> qualifier_MarshalText q = Inr (qualifier_String q)
      \<and> qualifier_UnmarshalText q' (qualifier_String q) = (None, q))
    \<and> (\<not> qualifier_Valid q \<longrightarrow> \<not> is_ok (qualifier_MarshalText q))
    \<and> (fst (qualifier_UnmarshalText q' s) = None \<longrightarrow> (\<exists>v. qualifier_Valid v \<and> qualifier_String v = s))
    \<and> (fst (qualifier_UnmarshalText q' s) \<noteq> None \<longrightarrow> snd (qualifier_UnmarshalText q' s) = q')"
  using ParseQualifier_String [of q] ParseQualifier_Inr [of s]
  by (auto simp: qualifier_MarshalText_def qualifier_UnmarshalText_def split: sum.splits)

theorem qualifier_roundtrip_witness:
  "qualifier_MarshalText QualifierOwnLocation = Inr ''own_location''
   \<and> qualifier_UnmarshalText 0 ''own_location'' = (None, QualifierOwnLocation)
   \<and> \<not> is_ok (qualifier_MarshalText 4) \<and> snd (qualifier_UnmarshalText 1 ''none'') = 1"
proof -
  have "qualifier_Valid QualifierOwnLocation" "\<not> qualifier_Valid 4"
      "qualifier_String QualifierOwnLocation = ''own_location''" "fst (qualifier_UnmarshalText 1 ''none'') \<noteq> None"
    by code_simp+
  with qualifier_roundtrip [of QualifierOwnLocation 0 "[]"] qualifier_roundtrip [of 4 1 "''none''"] show ?thesis
    by simp
qed

end
