(* ===== verification/Effective.thy ===== *)
theory Effective
  imports Roles
begin

text \<open>
  Clauses and what they reach: \<^verbatim>\<open>authz/effective.go\<close>, and the record side of
  \<^verbatim>\<open>authz/access.go\<close> (\<open>resource\<close>, \<open>matchRecord\<close>, the access set).

  The locale \<open>coverage\<close> states what pruning relies on, a covering relation that is
  reflexive and transitive on well-formed clauses, and proves the contract of the pruning once;
  it is interpreted on the source's \<open>covers\<close>.
\<close>

section \<open>Data\<close>

record source =
  src_BindingID :: int
  src_Role :: role_ref
  src_RoleName :: string

record clause =
  cl_Scope :: scope
  cl_Chain :: chain
  cl_Qualifier :: qualifier
  cl_Attrs :: "(string, string list) gomap"
  cl_Source :: source

record effective =
  eff_subject :: subject
  eff_grants :: "(string, clause list) gomap"
  eff_roleIDs :: "int set"
  eff_tenants :: "int set"
  eff_hasRoot :: bool
  eff_unpinned :: bool

record resource =
  res_Scope :: scope
  res_Ancestors :: "scope list"
  res_Owner :: int
  res_CoOwner :: int
  res_OwnerLocation :: int
  res_Attrs :: "(string, string) gomap"

record access_set =
  as_Permission :: string
  as_RecordType :: string
  as_UnownedIsOwn :: bool
  as_Principal :: principal
  as_Clauses :: "clause list"

section \<open>Operations\<close>

definition subset :: "string list \<Rightarrow> string list \<Rightarrow> bool" where
  "subset narrow wide = list_all (\<lambda>n. n \<in> set wide) narrow"

definition attrsCover :: "(string, string list) gomap \<Rightarrow> (string, string list) gomap \<Rightarrow> bool" where
  "attrsCover a b =
     fmpred (\<lambda>key allowed. case fmlookup b key of None \<Rightarrow> False | Some narrow \<Rightarrow> subset narrow allowed) a"

definition covers :: "clause \<Rightarrow> clause \<Rightarrow> bool" where
  "covers a b =
     (if \<not> Within (cl_Chain b) (cl_Scope a) \<or> \<not> Covers (cl_Qualifier a) (cl_Qualifier b) then False
      else attrsCover (cl_Attrs a) (cl_Attrs b))"

definition Clauses :: "effective \<Rightarrow> string \<Rightarrow> clause list" where
  "Clauses e permission = slice_at (eff_grants e) permission"

definition Permissions :: "effective \<Rightarrow> string list" where
  "Permissions e = sortedKeys (eff_grants e)"

definition usesRole :: "effective \<Rightarrow> int \<Rightarrow> bool" where
  "usesRole e i = (i \<in> eff_roleIDs e)"

definition Tenants :: "effective \<Rightarrow> int list \<times> bool" where
  "Tenants e = (sorted_list_of_set (eff_tenants e), eff_hasRoot e)"

definition Tenant :: "effective \<Rightarrow> int option" where
  "Tenant e =
     (if eff_hasRoot e \<or> eff_unpinned e \<or> card (eff_tenants e) \<noteq> 1 then None
      else case sorted_list_of_set (eff_tenants e) of [] \<Rightarrow> None | i # _ \<Rightarrow> Some i)"

text \<open>
  The two nested loops of \<open>prune\<close>: clause \<open>i\<close> is redundant when another clause
  covers it, except that of two clauses covering each other the earlier one stays.
\<close>

definition redundant_by :: "('a \<Rightarrow> 'a \<Rightarrow> bool) \<Rightarrow> 'a list \<Rightarrow> nat \<Rightarrow> nat \<Rightarrow> bool" where
  "redundant_by cov cs i j = (i \<noteq> j \<and> cov (cs ! j) (cs ! i) \<and> \<not> (cov (cs ! i) (cs ! j) \<and> i < j))"

definition kept_indices :: "('a \<Rightarrow> 'a \<Rightarrow> bool) \<Rightarrow> 'a list \<Rightarrow> nat list" where
  "kept_indices cov cs = filter (\<lambda>i. \<not> list_ex (redundant_by cov cs i) [0..<length cs]) [0..<length cs]"

definition prune_by :: "('a \<Rightarrow> 'a \<Rightarrow> bool) \<Rightarrow> 'a list \<Rightarrow> 'a list" where
  "prune_by cov cs = map ((!) cs) (kept_indices cov cs)"

definition prune :: "clause list \<Rightarrow> clause list" where
  "prune clauses = prune_by covers clauses"

definition AccessSet_Empty :: "access_set \<Rightarrow> bool" where
  "AccessSet_Empty a = (as_Clauses a = [])"

definition Unrestricted :: "hierarchy \<Rightarrow> access_set \<Rightarrow> bool" where
  "Unrestricted h a =
     list_ex (\<lambda>c. IsRoot h (cl_Scope c) \<and> cl_Qualifier c = QualifierAll \<and> fmdom' (cl_Attrs c) = {}) (as_Clauses a)"

definition Widest :: "access_set \<Rightarrow> qualifier" where
  "Widest a = foldl (\<lambda>w c. if cl_Qualifier c > w then cl_Qualifier c else w) 0 (as_Clauses a)"

definition attrsMatch :: "(string, string list) gomap \<Rightarrow> (string, string) gomap \<Rightarrow> bool" where
  "attrsMatch constraint attrs =
     fmpred (\<lambda>key allowed. case fmlookup attrs key of None \<Rightarrow> False | Some v \<Rightarrow> v \<in> set allowed) constraint"

text \<open>The switch on the qualifier, then the loop over the attribute constraints.\<close>

definition qualifierMatch :: "qualifier \<Rightarrow> principal \<Rightarrow> permission \<Rightarrow> resource \<Rightarrow> bool" where
  "qualifierMatch q p perm res =
     (if q = QualifierAll then True
      else if q = QualifierOwnLocation then
        \<not> (pr_Location p = 0 \<or> res_OwnerLocation res \<noteq> pr_Location p)
      else if q = QualifierOwn then
        (if sub_Kind (pr_Subject p) \<noteq> KindUser then False
         else if res_Owner res = sub_ID (pr_Subject p)
              \<or> (res_CoOwner res \<noteq> 0 \<and> res_CoOwner res = sub_ID (pr_Subject p)) then True
         else \<not> (\<not> perm_UnownedIsOwn perm \<or> res_Owner res \<noteq> 0))
      else False)"

definition matchRecord :: "clause \<Rightarrow> principal \<Rightarrow> permission \<Rightarrow> resource \<Rightarrow> bool" where
  "matchRecord c p perm res =
     (qualifierMatch (cl_Qualifier c) p perm res \<and> attrsMatch (cl_Attrs c) (res_Attrs res))"

section \<open>Pruning by any covering relation\<close>

locale coverage =
  fixes cov :: "'a \<Rightarrow> 'a \<Rightarrow> bool" and good :: "'a \<Rightarrow> bool"
  assumes cov_refl: "good a \<Longrightarrow> cov a a"
    and cov_trans: "good a \<Longrightarrow> good b \<Longrightarrow> good c \<Longrightarrow> cov a b \<Longrightarrow> cov b c \<Longrightarrow> cov a c"
begin

definition dom_idx :: "'a list \<Rightarrow> nat \<Rightarrow> nat set" where
  "dom_idx cs i = {j. j < length cs \<and> redundant_by cov cs i j}"

lemma redundant_trans:
  assumes "\<forall>c \<in> set cs. good c" "i < length cs" "j < length cs" "k < length cs"
    and "redundant_by cov cs i j" "redundant_by cov cs j k"
  shows "redundant_by cov cs i k"
proof -
  have g: "good (cs ! i)" "good (cs ! j)" "good (cs ! k)" using assms(1-4) by simp_all
  have ki: "cov (cs ! k) (cs ! i)"
    using assms(5,6) cov_trans [OF g(3,2,1)] by (auto simp: redundant_by_def)
  show ?thesis
  proof (cases "cov (cs ! i) (cs ! k)")
    case True
    have "cov (cs ! i) (cs ! j)" "cov (cs ! j) (cs ! k)"
      using True assms(5,6) cov_trans [OF g(1,3,2)] cov_trans [OF g(2,1,3)] by (auto simp: redundant_by_def)
    with assms(5,6) have "j < i" "k < j" by (auto simp: redundant_by_def)
    with ki show ?thesis by (auto simp: redundant_by_def)
  next
    case False
    with ki show ?thesis by (auto simp: redundant_by_def)
  qed
qed

lemma kept_covers:
  assumes "\<forall>c \<in> set cs. good c" "i < length cs"
  shows "\<exists>m \<in> set (kept_indices cov cs). cov (cs ! m) (cs ! i)"
  using assms(2)
proof (induction "card (dom_idx cs i)" arbitrary: i rule: less_induct)
  case less
  show ?case
  proof (cases "dom_idx cs i = {}")
    case True
    with less.prems have "i \<in> set (kept_indices cov cs)"
      by (auto simp: kept_indices_def dom_idx_def list_ex_iff)
    moreover have "cov (cs ! i) (cs ! i)" using assms(1) less.prems by (simp add: cov_refl)
    ultimately show ?thesis by blast
  next
    case False
    then obtain j where j: "j < length cs" "redundant_by cov cs i j" by (auto simp: dom_idx_def)
    have "dom_idx cs j \<subseteq> dom_idx cs i"
      using redundant_trans [OF assms(1) less.prems j(1) _ j(2)] by (auto simp: dom_idx_def)
    moreover have "j \<in> dom_idx cs i" "j \<notin> dom_idx cs j" using j by (auto simp: dom_idx_def redundant_by_def)
    ultimately have "dom_idx cs j \<subset> dom_idx cs i" by blast
    then have "card (dom_idx cs j) < card (dom_idx cs i)" by (simp add: dom_idx_def psubset_card_mono)
    from less.hyps [OF this j(1)] obtain m where m: "m \<in> set (kept_indices cov cs)" "cov (cs ! m) (cs ! j)"
      by blast
    have "m < length cs" using m(1) by (simp add: kept_indices_def)
    then have "good (cs ! m)" "good (cs ! j)" "good (cs ! i)" using assms(1) j(1) less.prems by simp_all
    then have "cov (cs ! m) (cs ! i)"
      using m(2) j(2) by (auto simp: redundant_by_def intro: cov_trans)
    with m(1) show ?thesis by blast
  qed
qed

lemma prune_subset: "set (prune_by cov cs) \<subseteq> set cs"
  by (auto simp: prune_by_def kept_indices_def)

lemma prune_covers:
  assumes "\<forall>c \<in> set cs. good c" "c \<in> set cs"
  shows "\<exists>k \<in> set (prune_by cov cs). cov k c"
proof -
  obtain i where "i < length cs" "cs ! i = c" using assms(2) by (auto simp: in_set_conv_nth)
  with kept_covers [OF assms(1)] show ?thesis by (auto simp: prune_by_def)
qed

lemma prune_irredundant:
  assumes "i < length (prune_by cov cs)" "j < length (prune_by cov cs)" "i \<noteq> j"
  shows "\<not> cov (prune_by cov cs ! i) (prune_by cov cs ! j)"
proof
  assume c: "cov (prune_by cov cs ! i) (prune_by cov cs ! j)"
  let ?ks = "kept_indices cov cs"
  have len: "i < length ?ks" "j < length ?ks" using assms by (simp_all add: prune_by_def)
  have "distinct ?ks" by (simp add: kept_indices_def)
  with len assms(3) have ne: "?ks ! i \<noteq> ?ks ! j" by (simp add: nth_eq_iff_index_eq)
  have kept: "?ks ! i < length cs" "?ks ! j < length cs"
      "\<not> redundant_by cov cs (?ks ! j) (?ks ! i)" "\<not> redundant_by cov cs (?ks ! i) (?ks ! j)"
    using nth_mem [OF len(1)] nth_mem [OF len(2)] by (auto simp: kept_indices_def list_ex_iff)
  have cij: "cov (cs ! (?ks ! i)) (cs ! (?ks ! j))" using c len by (simp add: prune_by_def)
  with kept(3) ne have "cov (cs ! (?ks ! j)) (cs ! (?ks ! i))" "?ks ! j < ?ks ! i"
    by (auto simp: redundant_by_def)
  with kept(4) cij ne show False by (auto simp: redundant_by_def)
qed

end

section \<open>The source's covering relation\<close>

lemma subset_iff_set: "subset a b \<longleftrightarrow> set a \<subseteq> set b"
  by (auto simp: subset_def list_all_iff)

lemma attrsCover_iff:
  "attrsCover a b \<longleftrightarrow>
     (\<forall>key allowed. fmlookup a key = Some allowed \<longrightarrow> (\<exists>narrow. fmlookup b key = Some narrow \<and> set narrow \<subseteq> set allowed))"
  by (simp add: attrsCover_def fmpred_iff subset_iff_set case_option_False)

lemma attrsMatch_iff:
  "attrsMatch a attrs \<longleftrightarrow>
     (\<forall>key allowed. fmlookup a key = Some allowed \<longrightarrow> (\<exists>v. fmlookup attrs key = Some v \<and> v \<in> set allowed))"
  by (simp add: attrsMatch_def fmpred_iff case_option_False)

lemma attrsCover_refl [simp]: "attrsCover a a"
  by (simp add: attrsCover_iff)

lemma attrsCover_trans: "attrsCover a b \<Longrightarrow> attrsCover b c \<Longrightarrow> attrsCover a c"
  unfolding attrsCover_iff by (meson order_trans)

lemma attrsMatch_cover: "attrsCover a b \<Longrightarrow> attrsMatch b attrs \<Longrightarrow> attrsMatch a attrs"
  unfolding attrsCover_iff attrsMatch_iff by (metis option.inject subsetD)

lemma covers_iff:
  "covers a b \<longleftrightarrow> Within (cl_Chain b) (cl_Scope a) \<and> Covers (cl_Qualifier a) (cl_Qualifier b)
     \<and> attrsCover (cl_Attrs a) (cl_Attrs b)"
  by (auto simp: covers_def)

text \<open>The invariant of the clauses an engine builds: the chain is the resolved chain of the scope.\<close>

definition clause_wf :: "hierarchy \<Rightarrow> resolver \<Rightarrow> clause \<Rightarrow> bool" where
  "clause_wf h res c \<longleftrightarrow> hier_wf h \<and> h_Chain h res (cl_Scope c) [] = Inr (cl_Chain c)"

interpretation cl: coverage covers "clause_wf h res" for h res
proof
  fix a assume "clause_wf h res a"
  then have "cl_Scope a \<in> set (cl_Chain a)"
    using h_Chain_last [of h res "cl_Scope a" "[]" "cl_Chain a"] hd_in_set by (fastforce simp: clause_wf_def)
  then show "covers a a" by (simp add: covers_iff Within_def)
next
  fix a b c assume wf: "clause_wf h res a" "clause_wf h res b" "clause_wf h res c"
    and ab: "covers a b" and bc: "covers b c"
  have "set (cl_Chain b) \<subseteq> set (cl_Chain c)"
    using wf bc h_Chain_suffix [of h res "cl_Scope c" "cl_Chain c" "cl_Scope b" "cl_Chain b"]
    by (auto simp: clause_wf_def covers_iff Within_def)
  with ab bc show "covers a c"
    by (auto simp: covers_iff Within_def intro: Covers_trans attrsCover_trans)
qed

section \<open>What a clause reaches\<close>

text \<open>
  A record's chain is closed when it holds the ancestors of each of its scopes; a chain resolved
  without known ancestors is.
\<close>

definition chain_closed :: "hierarchy \<Rightarrow> resolver \<Rightarrow> chain \<Rightarrow> bool" where
  "chain_closed h res rc \<longleftrightarrow>
     (\<forall>t c. t \<in> set rc \<longrightarrow> h_Chain h res t [] = Inr c \<longrightarrow> set c \<subseteq> set rc)"

lemma h_Chain_closed: "hier_wf h \<Longrightarrow> h_Chain h res s [] = Inr rc \<Longrightarrow> chain_closed h res rc"
  using h_Chain_suffix by (auto simp: chain_closed_def)

definition reaches :: "chain \<Rightarrow> clause \<Rightarrow> principal \<Rightarrow> permission \<Rightarrow> resource \<Rightarrow> bool" where
  "reaches rc c p perm res \<longleftrightarrow> Within rc (cl_Scope c) \<and> matchRecord c p perm res"

lemma matchRecord_cover:
  "Covers (cl_Qualifier a) (cl_Qualifier b) \<Longrightarrow> attrsCover (cl_Attrs a) (cl_Attrs b) \<Longrightarrow>
     matchRecord b p perm res \<Longrightarrow> matchRecord a p perm res"
  by (auto simp: matchRecord_def Covers_def qualifierMatch_def [of QualifierAll] intro: attrsMatch_cover)

lemma covers_reaches:
  assumes "clause_wf h resolver b" "chain_closed h resolver rc" "covers a b" "reaches rc b p perm res"
  shows "reaches rc a p perm res"
proof -
  have "set (cl_Chain b) \<subseteq> set rc"
    using assms(1,2,4) by (auto simp: chain_closed_def clause_wf_def reaches_def Within_def)
  with assms(3,4) show ?thesis
    by (auto simp: reaches_def covers_iff Within_def intro: matchRecord_cover)
qed

lemma prune_reaches:
  assumes "\<forall>c \<in> set cs. clause_wf h resolver c" and "chain_closed h resolver rc"
  shows "(\<exists>c \<in> set (prune cs). reaches rc c p perm res) \<longleftrightarrow> (\<exists>c \<in> set cs. reaches rc c p perm res)"
proof -
  have "\<exists>k \<in> set (prune cs). reaches rc k p perm res" if "c \<in> set cs" "reaches rc c p perm res" for c
    using cl.prune_covers [OF assms(1) that(1)] covers_reaches [OF _ assms(2) _ that(2)] assms(1) that(1)
    by (auto simp: prune_def)
  then show ?thesis using cl.prune_subset [of cs] unfolding prune_def by blast
qed

lemma Tenant_singleton: "Tenant e = Some t \<Longrightarrow> \<not> eff_hasRoot e \<and> \<not> eff_unpinned e \<and> eff_tenants e = {t}"
proof -
  assume *: "Tenant e = Some t"
  then have "card (eff_tenants e) = 1" by (simp add: Tenant_def split: if_splits)
  then obtain x where "eff_tenants e = {x}" by (rule card_1_singletonE)
  with * show ?thesis by (auto simp: Tenant_def split: if_splits)
qed

section \<open>Properties\<close>

text \<open>
  C30: pruning keeps only clauses of the list, leaves no clause that another kept clause covers, and
  changes no decision: a record is reached by some clause of the list exactly when it is reached by
  some clause that is kept.
\<close>

theorem prune_correct:
  assumes "\<forall>c \<in> set cs. clause_wf h resolver c" and "chain_closed h resolver rc"
  shows "set (prune cs) \<subseteq> set cs
    \<and> (\<forall>i < length (prune cs). \<forall>j < length (prune cs). i \<noteq> j \<longrightarrow> \<not> covers (prune cs ! i) (prune cs ! j))
    \<and> ((\<exists>c \<in> set (prune cs). reaches rc c p perm res) \<longleftrightarrow> (\<exists>c \<in> set cs. reaches rc c p perm res))"
  using prune_reaches [OF assms] cl.prune_subset [of cs] cl.prune_irredundant [of _ cs] unfolding prune_def by blast

text \<open>
  A clause that covers another reaches every record the other reaches, for every principal,
  permission and record.
\<close>

theorem covers_sound:
  assumes "clause_wf h resolver b" and "chain_closed h resolver rc" and "covers a b"
  shows "reaches rc b p perm res \<longrightarrow> reaches rc a p perm res"
  using covers_reaches [OF assms] by blast

text \<open>
  \<^verbatim>\<open>Tenant\<close> answers a tenant exactly when every grant of the subject is pinned to
  that one tenant: no root binding, no unpinned one, and no second tenant.
\<close>

theorem Tenant_iff:
  "Tenant e = Some t \<longleftrightarrow> \<not> eff_hasRoot e \<and> \<not> eff_unpinned e \<and> eff_tenants e = {t}"
proof
  show "Tenant e = Some t" if "\<not> eff_hasRoot e \<and> \<not> eff_unpinned e \<and> eff_tenants e = {t}"
    using that by (simp add: Tenant_def)
qed (rule Tenant_singleton)

section \<open>Concrete clauses\<close>

definition sample_source :: source where
  "sample_source = \<lparr>src_BindingID = 1, src_Role = \<lparr>ref_ID = 1, ref_Key = []\<rparr>, src_RoleName = ''sales''\<rparr>"

definition dealer_clause :: clause where
  "dealer_clause =
     \<lparr>cl_Scope = mk_scope ''dealer'' 3, cl_Chain = [mk_scope ''dealer'' 3, mk_scope ''organization'' 0],
      cl_Qualifier = QualifierAll, cl_Attrs = fmempty, cl_Source = sample_source\<rparr>"

definition location_clause :: clause where
  "location_clause =
     \<lparr>cl_Scope = mk_scope ''location'' 7,
      cl_Chain = [mk_scope ''location'' 7, mk_scope ''dealer'' 3, mk_scope ''organization'' 0],
      cl_Qualifier = QualifierOwn, cl_Attrs = fmempty, cl_Source = sample_source\<rparr>"

definition sample_record :: resource where
  "sample_record = \<lparr>res_Scope = mk_scope ''location'' 7, res_Ancestors = [], res_Owner = 42, res_CoOwner = 0,
     res_OwnerLocation = 0, res_Attrs = fmempty\<rparr>"

abbreviation sample_record_chain :: chain where
  "sample_record_chain \<equiv> [mk_scope ''location'' 7, mk_scope ''dealer'' 3, mk_scope ''organization'' 0]"

lemma sample_clauses_wf:
  "clause_wf sample_hierarchy sample_resolver dealer_clause" "clause_wf sample_hierarchy sample_resolver location_clause"
  by (simp_all add: clause_wf_def sample_hierarchy_wf dealer_clause_def location_clause_def sample_chain)

lemma sample_record_closed: "chain_closed sample_hierarchy sample_resolver sample_record_chain"
  by (rule h_Chain_closed [OF sample_hierarchy_wf sample_chain(1)])

theorem prune_correct_witness:
  "set (prune [location_clause, dealer_clause]) = {dealer_clause}
   \<and> (\<exists>c \<in> set (prune [location_clause, dealer_clause]). reaches sample_record_chain c (User 42 0) sample_view sample_record)"
proof -
  have "prune [location_clause, dealer_clause] = [dealer_clause]"
    by (simp add: prune_def prune_by_def kept_indices_def redundant_by_def upt_rec covers_def Within_def Covers_def
        dealer_clause_def location_clause_def qualifier_defs)
  moreover have "reaches sample_record_chain location_clause (User 42 0) sample_view sample_record"
    by (simp add: reaches_def Within_def matchRecord_def location_clause_def sample_record_def User_def qualifier_defs
        qualifierMatch_def attrsMatch_def)
  moreover note prune_correct [of "[location_clause, dealer_clause]", OF _ sample_record_closed]
  ultimately show ?thesis using sample_clauses_wf by (metis (no_types, lifting) list.set empty_iff insert_iff)
qed

theorem covers_sound_witness:
  "reaches sample_record_chain location_clause (User 42 0) sample_view sample_record
   \<and> reaches sample_record_chain dealer_clause (User 42 0) sample_view sample_record"
proof -
  have "covers dealer_clause location_clause"
    by (simp add: covers_def Within_def Covers_def dealer_clause_def location_clause_def)
  moreover have "reaches sample_record_chain location_clause (User 42 0) sample_view sample_record"
    by (simp add: reaches_def Within_def matchRecord_def location_clause_def sample_record_def User_def qualifier_defs
        qualifierMatch_def attrsMatch_def)
  ultimately show ?thesis
    using covers_sound [OF sample_clauses_wf(2) sample_record_closed] by blast
qed

end
