(* ===== verification/Store.thy ===== *)
theory Store
  imports Effective
begin

text \<open>
  Where roles and bindings are kept: the interfaces \<^verbatim>\<open>Reader\<close>,
  \<^verbatim>\<open>Store\<close> and \<^verbatim>\<open>HolderStore\<close> of \<^verbatim>\<open>authz/store.go\<close>
  as records of operations over a state type, their documented contract as the locale
  \<open>authz_store\<close>, and the in-memory store of \<^verbatim>\<open>authz/authztest/memstore.go\<close>,
  which is shown to meet it.
\<close>

section \<open>The interfaces\<close>

record 's reader_ops =
  rd_BindingsFor :: "'s \<Rightarrow> subject \<Rightarrow> binding list result"
  rd_Role :: "'s \<Rightarrow> int \<Rightarrow> role result"

record 's store_ops = "'s reader_ops" +
  st_ListRoles :: "'s \<Rightarrow> role list result"
  st_SaveRole :: "'s \<Rightarrow> subject \<Rightarrow> role \<Rightarrow> role result \<times> 's"
  st_DeleteRole :: "'s \<Rightarrow> subject \<Rightarrow> int \<Rightarrow> unit result \<times> 's"
  st_Binding :: "'s \<Rightarrow> int \<Rightarrow> binding result"
  st_BindingsForRole :: "'s \<Rightarrow> int \<Rightarrow> binding list result"
  st_Bind :: "'s \<Rightarrow> subject \<Rightarrow> binding \<Rightarrow> binding result \<times> 's"
  st_Unbind :: "'s \<Rightarrow> subject \<Rightarrow> int \<Rightarrow> unit result \<times> 's"

record holder_counts =
  hc_ByID :: "(int, nat) gomap"
  hc_ByKey :: "(string, nat) gomap"

definition count_at :: "('k, nat) gomap \<Rightarrow> 'k \<Rightarrow> nat" where
  "count_at m k = (case fmlookup m k of None \<Rightarrow> 0 | Some n \<Rightarrow> n)"

definition counts_Of :: "holder_counts \<Rightarrow> role_ref \<Rightarrow> nat" where
  "counts_Of c r = (if ref_ID r > 0 then count_at (hc_ByID c) (ref_ID r) else count_at (hc_ByKey c) (ref_Key r))"

section \<open>The contract\<close>

text \<open>
  What the interface's comments promise, for the states \<open>inv\<close> of an implementation: what a
  read answers after each write, which sentinel a refused write wraps, and that a refused write
  changes nothing. An implementation may fail for reasons of its own (a lost connection); such an
  error wraps none of the sentinels.
\<close>

definition same_roles :: "'s store_ops \<Rightarrow> 's \<Rightarrow> 's \<Rightarrow> bool" where
  "same_roles ops s s' \<longleftrightarrow> (\<forall>i. rd_Role ops s' i = rd_Role ops s i)"

definition same_bindings :: "'s store_ops \<Rightarrow> 's \<Rightarrow> 's \<Rightarrow> bool" where
  "same_bindings ops s s' \<longleftrightarrow> (\<forall>sub. rd_BindingsFor ops s' sub = rd_BindingsFor ops s sub)"

locale authz_store =
  fixes ops :: "'s store_ops" and inv :: "'s \<Rightarrow> bool"
  assumes inv_SaveRole: "inv s \<Longrightarrow> inv (snd (st_SaveRole ops s a r))"
    and inv_DeleteRole: "inv s \<Longrightarrow> inv (snd (st_DeleteRole ops s a i))"
    and inv_Bind: "inv s \<Longrightarrow> inv (snd (st_Bind ops s a b))"
    and inv_Unbind: "inv s \<Longrightarrow> inv (snd (st_Unbind ops s a i))"
    and SaveRole_ok: "inv s \<Longrightarrow> st_SaveRole ops s a r = (Inr saved, s') \<Longrightarrow>
        saved = r\<lparr>role_ID := role_ID saved, role_Key := [], role_Computed := None\<rparr>
        \<and> role_ID saved > 0 \<and> (role_ID r \<noteq> 0 \<longrightarrow> role_ID saved = role_ID r)
        \<and> rd_Role ops s' (role_ID saved) = Inr saved
        \<and> (\<forall>i. i \<noteq> role_ID saved \<longrightarrow> rd_Role ops s' i = rd_Role ops s i) \<and> same_bindings ops s s'"
    and SaveRole_new: "inv s \<Longrightarrow> st_SaveRole ops s a r = (Inr saved, s') \<Longrightarrow> role_ID r = 0 \<Longrightarrow>
        \<not> is_ok (rd_Role ops s (role_ID saved))"
    and SaveRole_err: "inv s \<Longrightarrow> st_SaveRole ops s a r = (Inl e, s') \<Longrightarrow>
        same_roles ops s s' \<and> same_bindings ops s s'"
    and DeleteRole_ok: "inv s \<Longrightarrow> st_DeleteRole ops s a i = (Inr u, s') \<Longrightarrow>
        is_ok (rd_Role ops s i) \<and> (\<exists>e. rd_Role ops s' i = Inl e \<and> errors_Is e ErrRoleNotFound)
        \<and> (\<forall>j. j \<noteq> i \<longrightarrow> rd_Role ops s' j = rd_Role ops s j) \<and> same_bindings ops s s'
        \<and> (\<forall>sub bs b. rd_BindingsFor ops s sub = Inr bs \<longrightarrow> b \<in> set bs \<longrightarrow> ref_ID (b_Role b) \<noteq> i)"
    and DeleteRole_err: "inv s \<Longrightarrow> st_DeleteRole ops s a i = (Inl e, s') \<Longrightarrow>
        same_roles ops s s' \<and> same_bindings ops s s'"
    and Bind_ok: "inv s \<Longrightarrow> st_Bind ops s a b = (Inr stored, s') \<Longrightarrow>
        b_Subject stored = b_Subject b \<and> b_Role stored = b_Role b \<and> b_Scope stored = b_Scope b
        \<and> b_CreatedBy stored = sub_ID a \<and> st_Binding ops s' (b_ID stored) = Inr stored \<and> same_roles ops s s'
        \<and> (\<forall>sub bs. rd_BindingsFor ops s sub = Inr bs \<longrightarrow>
             rd_BindingsFor ops s' sub = Inr (if sub = b_Subject b then bs @ [stored] else bs))"
    and Bind_duplicate: "inv s \<Longrightarrow> rd_BindingsFor ops s (b_Subject b) = Inr bs \<Longrightarrow> x \<in> set bs \<Longrightarrow>
        b_Role x = b_Role b \<Longrightarrow> b_Scope x = b_Scope b \<Longrightarrow> \<not> is_ok (fst (st_Bind ops s a b))"
    and Bind_err: "inv s \<Longrightarrow> st_Bind ops s a b = (Inl e, s') \<Longrightarrow> same_roles ops s s' \<and> same_bindings ops s s'"
    and Binding_ok: "inv s \<Longrightarrow> st_Binding ops s i = Inr b \<Longrightarrow>
        b_ID b = i \<and> (\<forall>bs. rd_BindingsFor ops s (b_Subject b) = Inr bs \<longrightarrow> b \<in> set bs)"
    and BindingsFor_ok: "inv s \<Longrightarrow> rd_BindingsFor ops s sub = Inr bs \<Longrightarrow>
        sorted (map b_ID bs) \<and> distinct (map b_ID bs)
        \<and> (\<forall>b \<in> set bs. b_ID b \<noteq> 0 \<and> b_Subject b = sub \<and> st_Binding ops s (b_ID b) = Inr b)"
    and Unbind_ok: "inv s \<Longrightarrow> st_Unbind ops s a i = (Inr u, s') \<Longrightarrow>
        is_ok (st_Binding ops s i) \<and> same_roles ops s s'
        \<and> (\<forall>sub bs. rd_BindingsFor ops s sub = Inr bs \<longrightarrow>
             rd_BindingsFor ops s' sub = Inr (filter (\<lambda>b. b_ID b \<noteq> i) bs))"
    and Unbind_err: "inv s \<Longrightarrow> st_Unbind ops s a i = (Inl e, s') \<Longrightarrow> same_roles ops s s' \<and> same_bindings ops s s'"
begin

text \<open>Saving a role and reading it back, and the writes that undo each other.\<close>

lemma save_then_read:
  assumes "inv s" "st_SaveRole ops s a r = (Inr saved, s')"
  shows "rd_Role ops s' (role_ID saved) = Inr saved" "role_Grants saved = role_Grants r" "role_Attrs saved = role_Attrs r"
proof -
  note ok = SaveRole_ok [OF assms]
  then have s: "saved = r\<lparr>role_ID := role_ID saved, role_Key := [], role_Computed := None\<rparr>" by blast
  show "rd_Role ops s' (role_ID saved) = Inr saved" using ok by blast
  show "role_Grants saved = role_Grants r" "role_Attrs saved = role_Attrs r" by (subst s, simp)+
qed

lemma bind_unbind:
  assumes "inv s" "st_Bind ops s a b = (Inr saved, s1)" "st_Unbind ops s1 a' (b_ID saved) = (Inr u, s2)"
    and "rd_BindingsFor ops s sub = Inr bs"
  shows "rd_BindingsFor ops s2 sub = Inr bs"
proof -
  have inv1: "inv s1" using inv_Bind [OF assms(1), of a b] assms(2) by simp
  have b1: "rd_BindingsFor ops s1 sub = Inr (if sub = b_Subject b then bs @ [saved] else bs)"
    using Bind_ok [OF assms(1,2)] assms(4) by blast
  have saved: "st_Binding ops s1 (b_ID saved) = Inr saved" "b_Subject saved = b_Subject b"
    using Bind_ok [OF assms(1,2)] by blast+
  have "b_ID x \<noteq> b_ID saved" if "x \<in> set bs" for x
  proof (cases "sub = b_Subject b")
    case True
    have "distinct (map b_ID (if sub = b_Subject b then bs @ [saved] else bs))"
      using BindingsFor_ok [OF inv1 b1] by blast
    with True have "distinct (map b_ID (bs @ [saved]))" by simp
    with that show ?thesis by (auto simp: image_iff)
  next
    case False
    then have "x \<in> set (if sub = b_Subject b then bs @ [saved] else bs)" using that by (simp only: if_False)
    then have "st_Binding ops s1 (b_ID x) = Inr x" "b_Subject x = sub"
      using BindingsFor_ok [OF inv1 b1] by blast+
    with saved False show ?thesis by (metis sum.inject(2))
  qed
  then have "filter (\<lambda>x. b_ID x \<noteq> b_ID saved) bs = bs" by (simp add: filter_True)
  with Unbind_ok [OF inv1 assms(3)] b1 show ?thesis by simp
qed

end

section \<open>The in-memory store\<close>

record mem_store =
  ms_roles :: "(int, role) gomap"
  ms_bindings :: "(int, binding) gomap"
  ms_nextRole :: int
  ms_nextBind :: int
  ms_now :: int

definition NewMemoryStore :: "int \<Rightarrow> mem_store" where
  "NewMemoryStore now =
     \<lparr>ms_roles = fmempty, ms_bindings = fmempty, ms_nextRole = 0, ms_nextBind = 0, ms_now = now\<rparr>"

definition filterBindings :: "mem_store \<Rightarrow> (binding \<Rightarrow> bool) \<Rightarrow> binding list" where
  "filterBindings m keep = sort_key b_ID (filter keep (map_values (ms_bindings m)))"

definition ms_BindingsFor :: "mem_store \<Rightarrow> subject \<Rightarrow> binding list result" where
  "ms_BindingsFor m s = Inr (filterBindings m (\<lambda>b. b_Subject b = s))"

definition ms_Role :: "mem_store \<Rightarrow> int \<Rightarrow> role result" where
  "ms_Role m i =
     (case fmlookup (ms_roles m) i of
        None \<Rightarrow> Inl (sentinel_with ErrRoleNotFound (''id '' @ show_int i))
      | Some r \<Rightarrow> Inr r)"

definition ms_ListRoles :: "mem_store \<Rightarrow> role list result" where
  "ms_ListRoles m = Inr (sort_key role_ID (map_values (ms_roles m)))"

definition ms_SaveRole :: "mem_store \<Rightarrow> subject \<Rightarrow> role \<Rightarrow> role result \<times> mem_store" where
  "ms_SaveRole m actor role =
     (case CheckQualifiers (role_Grants role) of
        Inl err \<Rightarrow> (Inl err, m)
      | Inr _ \<Rightarrow>
          if role_ID role \<noteq> 0 \<and> fmlookup (ms_roles m) (role_ID role) = None
          then (Inl (sentinel_with ErrRoleNotFound (''id '' @ show_int (role_ID role))), m)
          else
            let m' = (if role_ID role = 0 then m\<lparr>ms_nextRole := ms_nextRole m + 1\<rparr> else m);
                ident = (if role_ID role = 0 then ms_nextRole m' else role_ID role);
                stored = role\<lparr>role_ID := ident, role_Key := [], role_Computed := None\<rparr>
            in (Inr stored, m'\<lparr>ms_roles := fmupd ident stored (ms_roles m')\<rparr>))"

definition ms_DeleteRole :: "mem_store \<Rightarrow> subject \<Rightarrow> int \<Rightarrow> unit result \<times> mem_store" where
  "ms_DeleteRole m actor i =
     (if fmlookup (ms_roles m) i = None
      then (Inl (sentinel_with ErrRoleNotFound (''id '' @ show_int i)), m)
      else if filterBindings m (\<lambda>b. ref_ID (b_Role b) = i) \<noteq> []
      then (Inl (sentinel_with ErrRoleInUse (''id '' @ show_int i)), m)
      else (Inr (), m\<lparr>ms_roles := fmdrop i (ms_roles m)\<rparr>))"

definition ms_Binding :: "mem_store \<Rightarrow> int \<Rightarrow> binding result" where
  "ms_Binding m i =
     (case fmlookup (ms_bindings m) i of
        None \<Rightarrow> Inl (sentinel_with ErrBindingNotFound (''id '' @ show_int i))
      | Some b \<Rightarrow> Inr b)"

definition ms_BindingsForRole :: "mem_store \<Rightarrow> int \<Rightarrow> binding list result" where
  "ms_BindingsForRole m roleID = Inr (filterBindings m (\<lambda>b. ref_ID (b_Role b) = roleID))"

definition ms_Bind :: "mem_store \<Rightarrow> subject \<Rightarrow> binding \<Rightarrow> binding result \<times> mem_store" where
  "ms_Bind m actor b =
     (if list_ex (\<lambda>x. b_Subject x = b_Subject b \<and> b_Role x = b_Role b \<and> b_Scope x = b_Scope b)
           (map_values (ms_bindings m))
      then (Inl (Sentinel ErrDuplicateBinding), m)
      else
        let n = ms_nextBind m + 1; saved = b\<lparr>b_ID := n, b_CreatedBy := sub_ID actor, b_CreatedAt := ms_now m\<rparr>
        in (Inr saved, m\<lparr>ms_nextBind := n, ms_bindings := fmupd n saved (ms_bindings m)\<rparr>))"

definition ms_Unbind :: "mem_store \<Rightarrow> subject \<Rightarrow> int \<Rightarrow> unit result \<times> mem_store" where
  "ms_Unbind m actor i =
     (if fmlookup (ms_bindings m) i = None
      then (Inl (sentinel_with ErrBindingNotFound (''id '' @ show_int i)), m)
      else (Inr (), m\<lparr>ms_bindings := fmdrop i (ms_bindings m)\<rparr>))"

text \<open>The loop of \<^verbatim>\<open>HolderCounts\<close>: the pairs already seen, and the counts so far.\<close>

fun holder_step ::
  "binding \<Rightarrow> (role_ref \<times> subject) set \<times> holder_counts \<Rightarrow> (role_ref \<times> subject) set \<times> holder_counts" where
  "holder_step b (seen, out) =
     (let who = (b_Role b, b_Subject b) in
      if who \<in> seen then (seen, out)
      else (insert who seen,
        if ref_ID (b_Role b) > 0
        then out\<lparr>hc_ByID := fmupd (ref_ID (b_Role b)) (count_at (hc_ByID out) (ref_ID (b_Role b)) + 1) (hc_ByID out)\<rparr>
        else out\<lparr>hc_ByKey := fmupd (ref_Key (b_Role b)) (count_at (hc_ByKey out) (ref_Key (b_Role b)) + 1) (hc_ByKey out)\<rparr>))"

definition ms_HolderCounts :: "mem_store \<Rightarrow> holder_counts result" where
  "ms_HolderCounts m =
     Inr (snd (fold holder_step (map_values (ms_bindings m)) ({}, \<lparr>hc_ByID = fmempty, hc_ByKey = fmempty\<rparr>)))"

definition ms_HoldersOf :: "mem_store \<Rightarrow> role_ref \<Rightarrow> binding list result" where
  "ms_HoldersOf m ref = (if \<not> ref_Valid ref then Inr [] else Inr (filterBindings m (\<lambda>b. b_Role b = ref)))"

definition mem_reader :: "mem_store reader_ops" where
  "mem_reader = \<lparr>rd_BindingsFor = ms_BindingsFor, rd_Role = ms_Role\<rparr>"

definition mem_ops :: "mem_store store_ops" where
  "mem_ops = reader_ops.extend mem_reader
     \<lparr>st_ListRoles = ms_ListRoles, st_SaveRole = ms_SaveRole, st_DeleteRole = ms_DeleteRole,
      st_Binding = ms_Binding, st_BindingsForRole = ms_BindingsForRole, st_Bind = ms_Bind, st_Unbind = ms_Unbind\<rparr>"

lemmas mem_defs = mem_ops_def mem_reader_def reader_ops.extend_def

section \<open>It meets the contract\<close>

definition mem_inv :: "mem_store \<Rightarrow> bool" where
  "mem_inv m \<longleftrightarrow>
     fmpred (\<lambda>k b. b_ID b = k \<and> 0 < k \<and> k \<le> ms_nextBind m) (ms_bindings m)
     \<and> fmpred (\<lambda>k r. role_ID r = k \<and> 0 < k \<and> k \<le> ms_nextRole m \<and> role_Key r = []) (ms_roles m)
     \<and> 0 \<le> ms_nextBind m \<and> 0 \<le> ms_nextRole m"

lemma mem_inv_binding: "mem_inv m \<Longrightarrow> fmlookup (ms_bindings m) k = Some b \<Longrightarrow> b_ID b = k \<and> 0 < k \<and> k \<le> ms_nextBind m"
  by (simp add: mem_inv_def fmpred_iff)

lemma mem_inv_role: "mem_inv m \<Longrightarrow> fmlookup (ms_roles m) k = Some r \<Longrightarrow> role_ID r = k \<and> 0 < k \<and> k \<le> ms_nextRole m \<and> role_Key r = []"
  by (simp add: mem_inv_def fmpred_iff)

lemma NewMemoryStore_inv [simp]: "mem_inv (NewMemoryStore now)"
  by (simp add: mem_inv_def NewMemoryStore_def)

lemma filterBindings_eq:
  assumes "mem_inv m"
  shows "filterBindings m keep = filter keep (map_values (ms_bindings m))"
proof -
  have "map b_ID (map_values (ms_bindings m)) = sortedKeys (ms_bindings m)"
    by (rule map_values_keyed) (simp add: mem_inv_binding [OF assms])
  then have "sorted (map b_ID (map_values (ms_bindings m)))" by simp
  then show ?thesis
    by (simp add: filterBindings_def sort_key_id_if_sorted sorted_filter)
qed

lemma filterBindings_sorted:
  assumes "mem_inv m"
  shows "sorted (map b_ID (filterBindings m keep))" "distinct (map b_ID (filterBindings m keep))"
proof -
  have "map b_ID (map_values (ms_bindings m)) = sortedKeys (ms_bindings m)"
    by (rule map_values_keyed) (simp add: mem_inv_binding [OF assms])
  then show "sorted (map b_ID (filterBindings m keep))" "distinct (map b_ID (filterBindings m keep))"
    by (simp_all add: filterBindings_eq [OF assms] sorted_filter distinct_map_filter)
qed

lemma set_filterBindings:
  "b \<in> set (filterBindings m keep) \<longleftrightarrow> keep b \<and> (\<exists>k. fmlookup (ms_bindings m) k = Some b)"
  by (auto simp: filterBindings_def set_map_values)

lemma filterBindings_empty:
  "filterBindings m keep = [] \<longleftrightarrow> (\<forall>k b. fmlookup (ms_bindings m) k = Some b \<longrightarrow> \<not> keep b)"
  unfolding set_empty [symmetric] by (auto simp: set_filterBindings set_eq_iff simp del: set_empty)

lemma filterBindings_add:
  assumes "mem_inv m" "mem_inv (m\<lparr>ms_nextBind := n, ms_bindings := fmupd n b (ms_bindings m)\<rparr>)" "n = ms_nextBind m + 1"
  shows "filterBindings (m\<lparr>ms_nextBind := n, ms_bindings := fmupd n b (ms_bindings m)\<rparr>) keep
    = filterBindings m keep @ (if keep b then [b] else [])"
proof -
  have "\<forall>k' \<in> fmdom' (ms_bindings m). k' < n"
    using mem_inv_binding [OF assms(1)] assms(3) by (force simp: in_fmdom'_iff)
  then show ?thesis
    using assms(1,2) by (simp add: filterBindings_eq map_values_fmupd_last)
qed

lemma filterBindings_drop:
  assumes "mem_inv m" "mem_inv (m\<lparr>ms_bindings := fmdrop i (ms_bindings m)\<rparr>)"
  shows "filterBindings (m\<lparr>ms_bindings := fmdrop i (ms_bindings m)\<rparr>) keep
    = filter (\<lambda>b. b_ID b \<noteq> i) (filterBindings m keep)"
proof -
  have "map_values (fmdrop i (ms_bindings m)) = filter (\<lambda>b. b_ID b \<noteq> i) (map_values (ms_bindings m))"
    by (rule map_values_fmdrop) (simp add: mem_inv_binding [OF assms(1)])
  then show ?thesis using assms by (simp add: filterBindings_eq conj_commute cong: filter_cong)
qed

lemma mem_inv_writes:
  assumes "mem_inv m"
  shows "mem_inv (snd (ms_SaveRole m a r))" "mem_inv (snd (ms_DeleteRole m a i))"
    "mem_inv (snd (ms_Bind m a b))" "mem_inv (snd (ms_Unbind m a i))"
  using assms
  by (auto simp: ms_SaveRole_def ms_DeleteRole_def ms_Bind_def ms_Unbind_def mem_inv_def Let_def fmpred_iff
      split: sum.split if_splits intro: add_increasing2)

interpretation mem: authz_store mem_ops mem_inv
proof
  fix m :: mem_store and a r saved m'
  assume inv: "mem_inv m" and save: "st_SaveRole mem_ops m a r = (Inr saved, m')"
  show "saved = r\<lparr>role_ID := role_ID saved, role_Key := [], role_Computed := None\<rparr>
        \<and> role_ID saved > 0 \<and> (role_ID r \<noteq> 0 \<longrightarrow> role_ID saved = role_ID r)
        \<and> rd_Role mem_ops m' (role_ID saved) = Inr saved
        \<and> (\<forall>i. i \<noteq> role_ID saved \<longrightarrow> rd_Role mem_ops m' i = rd_Role mem_ops m i) \<and> same_bindings mem_ops m m'"
    using save mem_inv_role [OF inv] inv
    by (auto simp: mem_defs ms_SaveRole_def ms_Role_def same_bindings_def ms_BindingsFor_def filterBindings_def Let_def
        mem_inv_def split: sum.splits if_splits)
  show "\<not> is_ok (rd_Role mem_ops m (role_ID saved))" if "role_ID r = 0"
    using that save mem_inv_role [OF inv, of "ms_nextRole m + 1"]
    by (cases "fmlookup (ms_roles m) (ms_nextRole m + 1)") (auto simp: mem_defs ms_SaveRole_def ms_Role_def Let_def split: sum.splits if_splits option.splits)
next
  fix m :: mem_store and a i u m'
  assume inv: "mem_inv m" and del: "st_DeleteRole mem_ops m a i = (Inr u, m')"
  show "is_ok (rd_Role mem_ops m i) \<and> (\<exists>e. rd_Role mem_ops m' i = Inl e \<and> errors_Is e ErrRoleNotFound)
        \<and> (\<forall>j. j \<noteq> i \<longrightarrow> rd_Role mem_ops m' j = rd_Role mem_ops m j) \<and> same_bindings mem_ops m m'
        \<and> (\<forall>sub bs b. rd_BindingsFor mem_ops m sub = Inr bs \<longrightarrow> b \<in> set bs \<longrightarrow> ref_ID (b_Role b) \<noteq> i)"
    using del by (auto simp: mem_defs ms_DeleteRole_def ms_Role_def same_bindings_def ms_BindingsFor_def
        filterBindings_empty set_filterBindings filterBindings_def [of "_\<lparr>ms_roles := _\<rparr>"]
        filterBindings_def [of m "\<lambda>b. b_Subject b = _"] set_map_values split: if_splits)
next
  fix m :: mem_store and a b stored m'
  assume inv: "mem_inv m" and bind: "st_Bind mem_ops m a b = (Inr stored, m')"
  have "mem_inv m'" using mem_inv_writes(3) [OF inv, of a b] bind by (simp add: mem_defs)
  then show "b_Subject stored = b_Subject b \<and> b_Role stored = b_Role b \<and> b_Scope stored = b_Scope b
        \<and> b_CreatedBy stored = sub_ID a \<and> st_Binding mem_ops m' (b_ID stored) = Inr stored \<and> same_roles mem_ops m m'
        \<and> (\<forall>sub bs. rd_BindingsFor mem_ops m sub = Inr bs \<longrightarrow>
             rd_BindingsFor mem_ops m' sub = Inr (if sub = b_Subject b then bs @ [stored] else bs))"
    using bind inv
    by (auto simp: mem_defs ms_Bind_def ms_Binding_def same_roles_def ms_Role_def ms_BindingsFor_def Let_def
        filterBindings_add split: if_splits)
next
  fix m :: mem_store and a i u m'
  assume inv: "mem_inv m" and unbind: "st_Unbind mem_ops m a i = (Inr u, m')"
  have "mem_inv m'" using mem_inv_writes(4) [OF inv, of a i] unbind by (simp add: mem_defs)
  then show "is_ok (st_Binding mem_ops m i) \<and> same_roles mem_ops m m'
        \<and> (\<forall>sub bs. rd_BindingsFor mem_ops m sub = Inr bs \<longrightarrow>
             rd_BindingsFor mem_ops m' sub = Inr (filter (\<lambda>b. b_ID b \<noteq> i) bs))"
    using unbind inv
    by (auto simp: mem_defs ms_Unbind_def ms_Binding_def same_roles_def ms_Role_def ms_BindingsFor_def
        filterBindings_drop split: if_splits)
next
  fix m :: mem_store and sub bs
  assume inv: "mem_inv m" and bs: "rd_BindingsFor mem_ops m sub = Inr bs"
  have "b_ID b \<noteq> 0 \<and> b_Subject b = sub \<and> st_Binding mem_ops m (b_ID b) = Inr b" if "b \<in> set bs" for b
    using bs that mem_inv_binding [OF inv]
    by (fastforce simp: mem_defs ms_BindingsFor_def set_filterBindings ms_Binding_def)
  then show "sorted (map b_ID bs) \<and> distinct (map b_ID bs)
        \<and> (\<forall>b \<in> set bs. b_ID b \<noteq> 0 \<and> b_Subject b = sub \<and> st_Binding mem_ops m (b_ID b) = Inr b)"
    using bs filterBindings_sorted [OF inv] by (auto simp: mem_defs ms_BindingsFor_def)
next
  fix m :: mem_store and i b
  assume inv: "mem_inv m" and b: "st_Binding mem_ops m i = Inr b"
  then show "b_ID b = i \<and> (\<forall>bs. rd_BindingsFor mem_ops m (b_Subject b) = Inr bs \<longrightarrow> b \<in> set bs)"
    using mem_inv_binding [OF inv]
    by (auto simp: mem_defs ms_Binding_def ms_BindingsFor_def set_filterBindings split: option.splits)
next
  fix m :: mem_store and a and b :: binding and bs x
  assume "rd_BindingsFor mem_ops m (b_Subject b) = Inr bs" "x \<in> set bs" "b_Role x = b_Role b" "b_Scope x = b_Scope b"
  then have "list_ex (\<lambda>x. b_Subject x = b_Subject b \<and> b_Role x = b_Role b \<and> b_Scope x = b_Scope b) (map_values (ms_bindings m))"
    by (auto simp: mem_defs ms_BindingsFor_def filterBindings_def list_ex_iff)
  then show "\<not> is_ok (fst (st_Bind mem_ops m a b))" by (simp add: mem_defs ms_Bind_def)
qed (use mem_inv_writes in \<open>auto simp: mem_defs same_roles_def same_bindings_def ms_SaveRole_def ms_DeleteRole_def
      ms_Bind_def ms_Unbind_def Let_def split: sum.splits if_splits\<close>)

section \<open>Counting holders\<close>

text \<open>The counts are those of the pairs seen so far.\<close>

definition counts_match :: "(role_ref \<times> subject) set \<Rightarrow> holder_counts \<Rightarrow> bool" where
  "counts_match seen out \<longleftrightarrow> finite seen
     \<and> (\<forall>i. count_at (hc_ByID out) i = card {w \<in> seen. ref_ID (fst w) > 0 \<and> ref_ID (fst w) = i})
     \<and> (\<forall>k. count_at (hc_ByKey out) k = card {w \<in> seen. \<not> ref_ID (fst w) > 0 \<and> ref_Key (fst w) = k})"

lemma count_at_upd [simp]: "count_at (fmupd k v m) j = (if j = k then v else count_at m j)"
  by (simp add: count_at_def)

lemma card_insert_sel:
  "finite A \<Longrightarrow> x \<notin> A \<Longrightarrow> card {w \<in> insert x A. P w} = (if P x then card {w \<in> A. P w} + 1 else card {w \<in> A. P w})"
proof -
  assume "finite A" "x \<notin> A"
  moreover have "{w \<in> insert x A. P w} = (if P x then insert x {w \<in> A. P w} else {w \<in> A. P w})" by auto
  ultimately show ?thesis by simp
qed

lemma holder_step_match:
  "counts_match seen out \<Longrightarrow> holder_step b (seen, out) = (seen', out') \<Longrightarrow>
     counts_match seen' out' \<and> seen' = insert (b_Role b, b_Subject b) seen"
  unfolding counts_match_def holder_step.simps Let_def
  by (elim conjE, simp only: split: if_splits) (auto simp: card_insert_sel simp del: insert_iff)

lemma holder_fold_match:
  "counts_match seen out \<Longrightarrow> fold holder_step bs (seen, out) = (seen', out') \<Longrightarrow>
     counts_match seen' out' \<and> seen' = seen \<union> (\<lambda>b. (b_Role b, b_Subject b)) ` set bs"
proof (induction bs arbitrary: seen out)
  case (Cons b bs)
  obtain s1 o1 where "holder_step b (seen, out) = (s1, o1)" by force
  with holder_step_match [OF Cons.prems(1) this] Cons.IH [of s1 o1] Cons.prems(2) show ?case by auto
qed auto

section \<open>Properties\<close>

text \<open>
  \<^verbatim>\<open>HolderCounts\<close> and \<^verbatim>\<open>HoldersOf\<close> agree: the count of a role is the
  number of distinct subjects among the bindings of that role, however many scopes each is bound
  at, as long as every stored binding names its role by exactly one of ID and key.
\<close>

theorem HolderCounts_of_HoldersOf:
  assumes "\<forall>b \<in> set (map_values (ms_bindings m)). ref_Valid (b_Role b) \<and> ref_ID (b_Role b) \<ge> 0" and "ref_Valid ref" and "ref_ID ref \<ge> 0"
    and "ms_HolderCounts m = Inr c" and "ms_HoldersOf m ref = Inr bs"
  shows "counts_Of c ref = card (b_Subject ` set bs)"
proof -
  let ?vs = "map_values (ms_bindings m)" and ?pair = "\<lambda>b. (b_Role b, b_Subject b)"
  obtain seen' out' where f: "fold holder_step ?vs ({}, \<lparr>hc_ByID = fmempty, hc_ByKey = fmempty\<rparr>) = (seen', out')" by force
  have m: "counts_match seen' out'" "seen' = ?pair ` set ?vs"
    using holder_fold_match [OF _ f] by (auto simp: counts_match_def count_at_def)
  have c: "c = out'" using assms(4) f by (simp add: ms_HolderCounts_def)
  have key: "r = ref \<longleftrightarrow> (if ref_ID ref > 0 then ref_ID r > 0 \<and> ref_ID r = ref_ID ref else \<not> ref_ID r > 0 \<and> ref_Key r = ref_Key ref)"
    if "ref_Valid r" "ref_ID r \<ge> 0" for r
    using that assms(2,3) by (cases r, cases ref) (auto simp: ref_Valid_def)
  have "counts_Of c ref = card {w \<in> seen'. fst w = ref}"
  proof -
    have "{w \<in> seen'. fst w = ref} = {w \<in> seen'. if ref_ID ref > 0 then ref_ID (fst w) > 0 \<and> ref_ID (fst w) = ref_ID ref
        else \<not> ref_ID (fst w) > 0 \<and> ref_Key (fst w) = ref_Key ref}"
      using assms(1) key unfolding m(2) by (intro Collect_cong) auto
    with m(1) show ?thesis unfolding c counts_match_def counts_Of_def by (simp cong: if_cong split: if_splits)
  qed
  also have "{w \<in> seen'. fst w = ref} = Pair ref ` b_Subject ` set bs"
    using assms(2,5) unfolding m(2) by (auto simp: ms_HoldersOf_def filterBindings_def)
  also have "card \<dots> = card (b_Subject ` set bs)" by (simp add: card_image inj_on_def)
  finally show ?thesis .
qed

text \<open>
  Binding a subject to a role and removing that binding leaves what every subject holds as
  it was, in the in-memory store.
\<close>

theorem Bind_Unbind_roundtrip:
  assumes "mem_inv m" and "ms_Bind m a b = (Inr saved, m1)" and "ms_Unbind m1 a' (b_ID saved) = (Inr u, m2)"
  shows "ms_BindingsFor m2 sub = ms_BindingsFor m sub"
  using mem.bind_unbind [OF assms(1), of a b saved m1 a' u m2 sub] assms(2,3)
  by (simp add: mem_defs ms_BindingsFor_def)

section \<open>A concrete store\<close>

definition sample_binding :: binding where
  "sample_binding = \<lparr>b_ID = 0, b_Subject = \<lparr>sub_Kind = KindUser, sub_ID = 42\<rparr>, b_Role = \<lparr>ref_ID = 0, ref_Key = ''admin''\<rparr>,
     b_Scope = mk_scope ''dealer'' 3, b_CreatedBy = 0, b_CreatedAt = 0\<rparr>"

abbreviation admin_subject :: subject where
  "admin_subject \<equiv> \<lparr>sub_Kind = KindUser, sub_ID = 1\<rparr>"

definition sample_store :: mem_store where
  "sample_store = snd (ms_Bind (NewMemoryStore 0) admin_subject sample_binding)"

lemma sample_store_bindings:
  "map_values (ms_bindings sample_store) = [sample_binding\<lparr>b_ID := 1, b_CreatedBy := 1, b_CreatedAt := 0\<rparr>]"
  by code_simp

theorem HolderCounts_of_HoldersOf_witness:
  "counts_Of (snd (fold holder_step (map_values (ms_bindings sample_store))
     ({}, \<lparr>hc_ByID = fmempty, hc_ByKey = fmempty\<rparr>))) (b_Role sample_binding) = 1"
  by (subst HolderCounts_of_HoldersOf [of sample_store "b_Role sample_binding" _ "[sample_binding\<lparr>b_ID := 1, b_CreatedBy := 1, b_CreatedAt := 0\<rparr>]"])
    (simp_all add: sample_store_bindings ms_HolderCounts_def ms_HoldersOf_def filterBindings_def, simp_all add: sample_binding_def ref_Valid_def)

theorem Bind_Unbind_roundtrip_witness:
  "ms_BindingsFor (snd (ms_Unbind sample_store admin_subject 1)) (b_Subject sample_binding) = Inr []"
proof -
  have b: "ms_Bind (NewMemoryStore 0) admin_subject sample_binding
      = (Inr (sample_binding\<lparr>b_ID := 1, b_CreatedBy := 1, b_CreatedAt := 0\<rparr>), sample_store)"
    by (simp add: sample_store_def ms_Bind_def NewMemoryStore_def Let_def)
  have u: "ms_Unbind sample_store admin_subject (b_ID (sample_binding\<lparr>b_ID := 1, b_CreatedBy := 1, b_CreatedAt := 0\<rparr>))
      = (Inr (), snd (ms_Unbind sample_store admin_subject 1))"
    by (simp add: sample_store_def ms_Bind_def ms_Unbind_def NewMemoryStore_def Let_def)
  show ?thesis
    using Bind_Unbind_roundtrip [OF NewMemoryStore_inv b u]
    by (simp add: ms_BindingsFor_def filterBindings_def NewMemoryStore_def)
qed

end
