(* ===== verification/Cache.thy ===== *)
theory Cache
  imports Store
begin

text \<open>
  The cache of effective access, \<^verbatim>\<open>authz/cache.go\<close>, and what its epoch is for.

  Every method holds the mutex for its whole body, so a method is one atomic step. The times that
  \<^verbatim>\<open>c.now()\<close> answers are arguments, in nanoseconds. The step relation
  \<open>cache_step\<close> interleaves the loads of \<^verbatim>\<open>Engine.Effective\<close>, read by read,
  with writes to the store and the evictions that follow them; the locale
  \<open>effective_loader\<close> says what is needed of the function that computes an effective
  access from what a load has read.
\<close>

section \<open>Data and operations\<close>

record cache_entry =
  ce_eff :: effective
  ce_expires :: int

record cache =
  ch_entries :: "(subject, cache_entry) gomap"
  ch_epoch :: uint64
  ch_ttl :: int

definition DefaultCacheTTL :: int where
  "DefaultCacheTTL = 5 * 60 * 1000000000"

definition NewCache :: "int \<Rightarrow> cache" where
  "NewCache ttl = \<lparr>ch_entries = fmempty, ch_epoch = 0, ch_ttl = (if ttl \<le> 0 then DefaultCacheTTL else ttl)\<rparr>"

definition cache_get :: "cache \<Rightarrow> int \<Rightarrow> subject \<Rightarrow> effective option \<times> cache" where
  "cache_get c now s =
     (case fmlookup (ch_entries c) s of
        None \<Rightarrow> (None, c)
      | Some e \<Rightarrow>
          if \<not> now < ce_expires e then (None, c\<lparr>ch_entries := fmdrop s (ch_entries c)\<rparr>)
          else (Some (ce_eff e), c))"

definition cache_begin :: "cache \<Rightarrow> uint64" where
  "cache_begin c = ch_epoch c"

definition cache_put :: "cache \<Rightarrow> int \<Rightarrow> subject \<Rightarrow> effective \<Rightarrow> uint64 \<Rightarrow> cache" where
  "cache_put c now s eff epoch =
     (if epoch \<noteq> ch_epoch c then c
      else c\<lparr>ch_entries := fmupd s \<lparr>ce_eff = eff, ce_expires = now + ch_ttl c\<rparr> (ch_entries c)\<rparr>)"

definition Evict :: "cache \<Rightarrow> subject \<Rightarrow> cache" where
  "Evict c s = c\<lparr>ch_epoch := ch_epoch c + 1, ch_entries := fmdrop s (ch_entries c)\<rparr>"

definition EvictRole :: "cache \<Rightarrow> int \<Rightarrow> cache" where
  "EvictRole c roleID =
     c\<lparr>ch_epoch := ch_epoch c + 1,
       ch_entries := fmfilter (\<lambda>s. case fmlookup (ch_entries c) s of
           None \<Rightarrow> False | Some e \<Rightarrow> \<not> usesRole (ce_eff e) roleID) (ch_entries c)\<rparr>"

definition EvictAll :: "cache \<Rightarrow> cache" where
  "EvictAll c = c\<lparr>ch_epoch := ch_epoch c + 1, ch_entries := fmempty\<rparr>"

definition cache_Len :: "cache \<Rightarrow> nat" where
  "cache_Len c = fcard (fmdom (ch_entries c))"

section \<open>Functional behaviour\<close>

lemma cache_get_hit:
  "fst (cache_get c now s) = Some eff \<longleftrightarrow> (\<exists>e. fmlookup (ch_entries c) s = Some e \<and> now < ce_expires e \<and> eff = ce_eff e)"
  by (auto simp: cache_get_def split: option.splits if_splits)

lemma cache_get_sub: "fmlookup (ch_entries (snd (cache_get c now s))) s' = Some e \<Longrightarrow> fmlookup (ch_entries c) s' = Some e"
  by (auto simp: cache_get_def split: option.splits if_splits)

lemma cache_get_epoch [simp]: "ch_epoch (snd (cache_get c now s)) = ch_epoch c"
  by (auto simp: cache_get_def split: option.splits)

lemma cache_put_lookup:
  "fmlookup (ch_entries (cache_put c now s eff epoch)) s' =
     (if epoch = ch_epoch c \<and> s' = s then Some \<lparr>ce_eff = eff, ce_expires = now + ch_ttl c\<rparr>
      else fmlookup (ch_entries c) s')"
  by (simp add: cache_put_def)

lemma cache_put_epoch [simp]: "ch_epoch (cache_put c now s eff epoch) = ch_epoch c"
  by (simp add: cache_put_def)

lemma Evict_lookup: "fmlookup (ch_entries (Evict c s)) s' = (if s' = s then None else fmlookup (ch_entries c) s')"
  by (simp add: Evict_def)

lemma EvictRole_lookup:
  "fmlookup (ch_entries (EvictRole c i)) s = Some e \<longleftrightarrow> fmlookup (ch_entries c) s = Some e \<and> \<not> usesRole (ce_eff e) i"
  by (auto simp: EvictRole_def split: option.splits)

lemma evict_epoch [simp]:
  "ch_epoch (Evict c s) = ch_epoch c + 1" "ch_epoch (EvictRole c i) = ch_epoch c + 1" "ch_epoch (EvictAll c) = ch_epoch c + 1"
  by (simp_all add: Evict_def EvictRole_def EvictAll_def)

section \<open>Interleaved loads, writes and evictions\<close>

text \<open>
  An eviction that is still to come, a load in progress (what it has read so far), and the whole
  system: the stored bindings and roles, the cache, the loads, the evictions that writes already
  committed still owe, and the number of evictions done. The loads are a multiset, since
  two requests of one subject can load side by side.
\<close>

datatype eviction = EvSubject subject | EvRole int

record load =
  ld_subject :: subject
  ld_epoch :: uint64
  ld_bindings :: "binding list option"
  ld_roles :: "int \<rightharpoonup> role result"

record system =
  sy_bindings :: "subject \<Rightarrow> binding list"
  sy_roles :: "int \<Rightarrow> role result"
  sy_cache :: cache
  sy_loads :: "load multiset"
  sy_owed :: "eviction multiset"
  sy_evictions :: nat

definition do_evict :: "eviction \<Rightarrow> cache \<Rightarrow> cache" where
  "do_evict ev c = (case ev of EvSubject s \<Rightarrow> Evict c s | EvRole i \<Rightarrow> EvictRole c i)"

lemma do_evict_epoch [simp]: "ch_epoch (do_evict ev c) = ch_epoch c + 1"
  by (cases ev) (simp_all add: do_evict_def)

lemma do_evict_lookup:
  "fmlookup (ch_entries (do_evict ev c)) s = Some e \<Longrightarrow> fmlookup (ch_entries c) s = Some e
     \<and> ev \<noteq> EvSubject s \<and> (\<forall>i. usesRole (ce_eff e) i \<longrightarrow> ev \<noteq> EvRole i)"
  by (cases ev) (auto simp: do_evict_def Evict_lookup EvictRole_lookup split: if_splits)

text \<open>
  \<open>mk\<close> computes an effective access from the bindings and the roles a load has read, and
  \<open>ids\<close> are the custom roles it needs for them.
\<close>

inductive cache_step ::
  "(subject \<Rightarrow> binding list \<Rightarrow> (int \<Rightarrow> role result) \<Rightarrow> effective option) \<Rightarrow> (binding list \<Rightarrow> int set)
    \<Rightarrow> system \<Rightarrow> system \<Rightarrow> bool"
  for mk ids where
  Get: "cache_step mk ids \<sigma> (\<sigma>\<lparr>sy_cache := snd (cache_get (sy_cache \<sigma>) now s)\<rparr>)"
| Begin: "cache_step mk ids \<sigma> (\<sigma>\<lparr>sy_loads := add_mset \<lparr>ld_subject = s, ld_epoch = cache_begin (sy_cache \<sigma>),
      ld_bindings = None, ld_roles = Map.empty\<rparr> (sy_loads \<sigma>)\<rparr>)"
| ReadBindings: "l \<in># sy_loads \<sigma> \<Longrightarrow> ld_bindings l = None \<Longrightarrow>
    cache_step mk ids \<sigma> (\<sigma>\<lparr>sy_loads := add_mset (l\<lparr>ld_bindings := Some (sy_bindings \<sigma> (ld_subject l))\<rparr>) (sy_loads \<sigma> - {#l#})\<rparr>)"
| ReadRole: "l \<in># sy_loads \<sigma> \<Longrightarrow> ld_bindings l = Some bs \<Longrightarrow> i \<in> ids bs \<Longrightarrow> ld_roles l i = None \<Longrightarrow>
    cache_step mk ids \<sigma> (\<sigma>\<lparr>sy_loads := add_mset (l\<lparr>ld_roles := (ld_roles l)(i \<mapsto> sy_roles \<sigma> i)\<rparr>) (sy_loads \<sigma> - {#l#})\<rparr>)"
| Put: "l \<in># sy_loads \<sigma> \<Longrightarrow> ld_bindings l = Some bs \<Longrightarrow> \<forall>i \<in> ids bs. ld_roles l i \<noteq> None \<Longrightarrow>
    mk (ld_subject l) bs (\<lambda>i. the (ld_roles l i)) = Some eff \<Longrightarrow>
    cache_step mk ids \<sigma> (\<sigma>\<lparr>sy_loads := sy_loads \<sigma> - {#l#},
      sy_cache := cache_put (sy_cache \<sigma>) now (ld_subject l) eff (ld_epoch l)\<rparr>)"
| Fail: "l \<in># sy_loads \<sigma> \<Longrightarrow> cache_step mk ids \<sigma> (\<sigma>\<lparr>sy_loads := sy_loads \<sigma> - {#l#}\<rparr>)"
| WriteBindings: "cache_step mk ids \<sigma> (\<sigma>\<lparr>sy_bindings := (sy_bindings \<sigma>)(s := bs), sy_owed := add_mset (EvSubject s) (sy_owed \<sigma>)\<rparr>)"
| WriteRole: "cache_step mk ids \<sigma> (\<sigma>\<lparr>sy_roles := (sy_roles \<sigma>)(i := r), sy_owed := add_mset (EvRole i) (sy_owed \<sigma>)\<rparr>)"
| DoEvict: "ev \<in># sy_owed \<sigma> \<Longrightarrow> sy_evictions \<sigma> + 1 < 2 ^ 64 \<Longrightarrow>
    cache_step mk ids \<sigma> (\<sigma>\<lparr>sy_cache := do_evict ev (sy_cache \<sigma>), sy_owed := sy_owed \<sigma> - {#ev#},
      sy_evictions := sy_evictions \<sigma> + 1\<rparr>)"

definition cache_start :: "system \<Rightarrow> bool" where
  "cache_start \<sigma> \<longleftrightarrow> ch_entries (sy_cache \<sigma>) = fmempty \<and> ch_epoch (sy_cache \<sigma>) = 0 \<and> sy_loads \<sigma> = {#}
     \<and> sy_owed \<sigma> = {#} \<and> sy_evictions \<sigma> = 0"

inductive cache_reachable ::
  "(subject \<Rightarrow> binding list \<Rightarrow> (int \<Rightarrow> role result) \<Rightarrow> effective option) \<Rightarrow> (binding list \<Rightarrow> int set) \<Rightarrow> system \<Rightarrow> bool"
  for mk ids where
  start: "cache_start \<sigma> \<Longrightarrow> cache_reachable mk ids \<sigma>"
| step: "cache_reachable mk ids \<sigma> \<Longrightarrow> cache_step mk ids \<sigma> \<sigma>' \<Longrightarrow> cache_reachable mk ids \<sigma>'"

section \<open>No stale entry survives its eviction\<close>

text \<open>A value read earlier is still current, or the eviction for the write that changed it is still owed.\<close>

definition bindings_ok :: "system \<Rightarrow> subject \<Rightarrow> binding list \<Rightarrow> bool" where
  "bindings_ok \<sigma> s bs \<longleftrightarrow> bs = sy_bindings \<sigma> s \<or> EvSubject s \<in># sy_owed \<sigma>"

definition role_read_ok :: "system \<Rightarrow> int \<Rightarrow> role result \<Rightarrow> bool" where
  "role_read_ok \<sigma> i r \<longleftrightarrow> r = sy_roles \<sigma> i \<or> EvRole i \<in># sy_owed \<sigma>"

definition load_ok :: "system \<Rightarrow> load \<Rightarrow> bool" where
  "load_ok \<sigma> l \<longleftrightarrow> unat (ld_epoch l) \<le> sy_evictions \<sigma> \<and>
     (ld_epoch l = ch_epoch (sy_cache \<sigma>) \<longrightarrow>
       (\<forall>bs. ld_bindings l = Some bs \<longrightarrow> bindings_ok \<sigma> (ld_subject l) bs)
       \<and> (\<forall>i r. ld_roles l i = Some r \<longrightarrow> role_read_ok \<sigma> i r))"

definition entry_ok ::
  "(subject \<Rightarrow> binding list \<Rightarrow> (int \<Rightarrow> role result) \<Rightarrow> effective option) \<Rightarrow> (binding list \<Rightarrow> int set)
    \<Rightarrow> system \<Rightarrow> subject \<Rightarrow> effective \<Rightarrow> bool" where
  "entry_ok mk ids \<sigma> s eff \<longleftrightarrow>
     (\<exists>bs rs. mk s bs rs = Some eff \<and> bindings_ok \<sigma> s bs \<and> (\<forall>i \<in> ids bs. role_read_ok \<sigma> i (rs i)))"

definition cache_inv ::
  "(subject \<Rightarrow> binding list \<Rightarrow> (int \<Rightarrow> role result) \<Rightarrow> effective option) \<Rightarrow> (binding list \<Rightarrow> int set) \<Rightarrow> system \<Rightarrow> bool" where
  "cache_inv mk ids \<sigma> \<longleftrightarrow>
     unat (ch_epoch (sy_cache \<sigma>)) = sy_evictions \<sigma> \<and> sy_evictions \<sigma> < 2 ^ 64
     \<and> (\<forall>l \<in># sy_loads \<sigma>. load_ok \<sigma> l)
     \<and> (\<forall>s e. fmlookup (ch_entries (sy_cache \<sigma>)) s = Some e \<longrightarrow> entry_ok mk ids \<sigma> s (ce_eff e))"

lemmas cache_ok_defs = bindings_ok_def role_read_ok_def

locale effective_loader =
  fixes mk :: "subject \<Rightarrow> binding list \<Rightarrow> (int \<Rightarrow> role result) \<Rightarrow> effective option"
    and ids :: "binding list \<Rightarrow> int set"
  assumes mk_uses: "mk s bs rs = Some eff \<Longrightarrow> usesRole eff i \<longleftrightarrow> i \<in> ids bs"
    and mk_cong: "\<forall>i \<in> ids bs. rs i = rs' i \<Longrightarrow> mk s bs rs = mk s bs rs'"
begin

lemma inv_start: "cache_start \<sigma> \<Longrightarrow> cache_inv mk ids \<sigma>"
  by (simp add: cache_inv_def cache_start_def)

lemma entry_ok_mono:
  assumes "entry_ok mk ids \<sigma> s eff"
    and "\<And>bs. bindings_ok \<sigma> s bs \<Longrightarrow> bindings_ok \<sigma>' s bs" and "\<And>i r. usesRole eff i \<Longrightarrow> role_read_ok \<sigma> i r \<Longrightarrow> role_read_ok \<sigma>' i r"
  shows "entry_ok mk ids \<sigma>' s eff"
proof -
  obtain bs rs where e: "mk s bs rs = Some eff" "bindings_ok \<sigma> s bs" "\<forall>i \<in> ids bs. role_read_ok \<sigma> i (rs i)"
    using assms(1) by (auto simp: entry_ok_def)
  then have "\<forall>i \<in> ids bs. role_read_ok \<sigma>' i (rs i)" using assms(3) mk_uses by blast
  with e assms(2) show ?thesis by (auto simp: entry_ok_def)
qed

text \<open>A write adds the eviction it owes, so what was excused stays excused.\<close>

lemma inv_write:
  assumes "cache_inv mk ids \<sigma>" "sy_cache \<sigma>' = sy_cache \<sigma>" "sy_loads \<sigma>' = sy_loads \<sigma>" "sy_evictions \<sigma>' = sy_evictions \<sigma>"
    and "\<And>s bs. bindings_ok \<sigma> s bs \<Longrightarrow> bindings_ok \<sigma>' s bs" and "\<And>i r. role_read_ok \<sigma> i r \<Longrightarrow> role_read_ok \<sigma>' i r"
  shows "cache_inv mk ids \<sigma>'"
proof -
  have "entry_ok mk ids \<sigma>' s x" if "entry_ok mk ids \<sigma> s x" for s x
    by (rule entry_ok_mono [OF that]) (use assms(5,6) in auto)
  with assms show ?thesis unfolding cache_inv_def load_ok_def by auto
qed

lemma inv_evict:
  assumes "cache_inv mk ids \<sigma>" "sy_evictions \<sigma> + 1 < 2 ^ 64"
  shows "cache_inv mk ids (\<sigma>\<lparr>sy_cache := do_evict ev (sy_cache \<sigma>), sy_owed := sy_owed \<sigma> - {#ev#},
      sy_evictions := sy_evictions \<sigma> + 1\<rparr>)" (is "cache_inv mk ids ?\<sigma>")
proof -
  have ep: "unat (ch_epoch (sy_cache \<sigma>) + 1) = sy_evictions \<sigma> + 1"
    using assms by (simp add: cache_inv_def unat_add_lem [symmetric] unat_word_ariths)
  have "load_ok ?\<sigma> l" if "l \<in># sy_loads \<sigma>" for l
  proof -
    have le: "unat (ld_epoch l) \<le> sy_evictions \<sigma>" using assms(1) that by (simp add: cache_inv_def load_ok_def)
    with ep have "ld_epoch l \<noteq> ch_epoch (sy_cache \<sigma>) + 1" by auto
    with le show ?thesis by (simp add: load_ok_def)
  qed
  moreover have "entry_ok mk ids ?\<sigma> s (ce_eff e)"
    if look: "fmlookup (ch_entries (do_evict ev (sy_cache \<sigma>))) s = Some e" for s e
  proof (rule entry_ok_mono)
    show "entry_ok mk ids \<sigma> s (ce_eff e)" using assms(1) do_evict_lookup [OF look] by (simp add: cache_inv_def)
  qed (use do_evict_lookup [OF look] in \<open>auto simp: cache_ok_defs in_diff_count\<close>)
  ultimately show ?thesis using ep assms(2) by (simp add: cache_inv_def)
qed

lemma inv_put:
  assumes "cache_inv mk ids \<sigma>" "l \<in># sy_loads \<sigma>" "ld_bindings l = Some bs" "\<forall>i \<in> ids bs. ld_roles l i \<noteq> None"
    and "mk (ld_subject l) bs (\<lambda>i. the (ld_roles l i)) = Some eff"
  shows "cache_inv mk ids (\<sigma>\<lparr>sy_loads := sy_loads \<sigma> - {#l#},
      sy_cache := cache_put (sy_cache \<sigma>) now (ld_subject l) eff (ld_epoch l)\<rparr>)" (is "cache_inv mk ids ?\<sigma>")
proof -
  have "entry_ok mk ids \<sigma> (ld_subject l) eff" if "ld_epoch l = ch_epoch (sy_cache \<sigma>)"
  proof -
    have "bindings_ok \<sigma> (ld_subject l) bs" "\<And>i r. ld_roles l i = Some r \<Longrightarrow> role_read_ok \<sigma> i r"
      using assms(1-3) that by (auto simp: cache_inv_def load_ok_def)
    with assms(4,5) show ?thesis unfolding entry_ok_def by fastforce
  qed
  moreover have "entry_ok mk ids ?\<sigma> s x \<longleftrightarrow> entry_ok mk ids \<sigma> s x" "load_ok ?\<sigma> l' \<longleftrightarrow> load_ok \<sigma> l'" for s x l'
    by (simp_all add: entry_ok_def load_ok_def cache_ok_defs)
  ultimately show ?thesis
    using assms(1) unfolding cache_inv_def by (auto simp: cache_put_lookup dest: in_diffD split: if_splits)
qed

lemma inv_step: "cache_step mk ids \<sigma> \<sigma>' \<Longrightarrow> cache_inv mk ids \<sigma> \<Longrightarrow> cache_inv mk ids \<sigma>'"
proof (induction rule: cache_step.induct)
  case (Get \<sigma> now s)
  then show ?case
    by (auto simp: cache_inv_def load_ok_def entry_ok_def cache_ok_defs dest!: cache_get_sub)
next
  case (WriteBindings \<sigma> s bs)
  then show ?case by (rule inv_write) (auto simp: cache_ok_defs)
next
  case (WriteRole \<sigma> i r)
  then show ?case by (rule inv_write) (auto simp: cache_ok_defs)
next
  case (Put l \<sigma> bs eff now)
  then show ?case by (intro inv_put)
next
  case (DoEvict ev \<sigma>)
  then show ?case by (intro inv_evict)
next
  case (Begin \<sigma> s)
  then show ?case by (auto simp: cache_inv_def load_ok_def entry_ok_def cache_ok_defs cache_begin_def)
next
  case (ReadBindings l \<sigma>)
  then show ?case by (auto simp: cache_inv_def load_ok_def entry_ok_def cache_ok_defs dest!: in_diffD)
next
  case (ReadRole l \<sigma> bs i)
  then show ?case by (auto simp: cache_inv_def load_ok_def entry_ok_def cache_ok_defs dest!: in_diffD)
next
  case (Fail l \<sigma>)
  then show ?case by (auto simp: cache_inv_def load_ok_def entry_ok_def cache_ok_defs dest!: in_diffD)
qed

lemma inv_reachable: "cache_reachable mk ids \<sigma> \<Longrightarrow> cache_inv mk ids \<sigma>"
  by (induction rule: cache_reachable.induct) (auto intro: inv_start inv_step)

text \<open>With no eviction owed that concerns a subject, its entry is what the store now yields.\<close>

lemma hit_fresh:
  assumes "cache_reachable mk ids \<sigma>" "fst (cache_get (sy_cache \<sigma>) now s) = Some eff"
    and "EvSubject s \<notin># sy_owed \<sigma>" "\<forall>i. usesRole eff i \<longrightarrow> EvRole i \<notin># sy_owed \<sigma>"
  shows "mk s (sy_bindings \<sigma> s) (sy_roles \<sigma>) = Some eff"
proof -
  have "entry_ok mk ids \<sigma> s eff"
    using inv_reachable [OF assms(1)] assms(2) by (auto simp: cache_inv_def cache_get_hit)
  then obtain bs rs where e: "mk s bs rs = Some eff" "bindings_ok \<sigma> s bs" "\<forall>i \<in> ids bs. role_read_ok \<sigma> i (rs i)"
    by (auto simp: entry_ok_def)
  then have "bs = sy_bindings \<sigma> s" "\<forall>i \<in> ids bs. rs i = sy_roles \<sigma> i"
    using assms(3,4) mk_uses by (auto simp: cache_ok_defs)
  with e(1) mk_cong show ?thesis by metis
qed

end

end
