(* ===== verification/Engine.thy ===== *)
theory Engine
  imports Cache
begin

text \<open>
  The engine that decides access: \<^verbatim>\<open>authz/engine.go\<close>,
  \<^verbatim>\<open>authz/features.go\<close>, the checks of \<^verbatim>\<open>authz/access.go\<close>,
  \<^verbatim>\<open>authz/payload.go\<close> and \<^verbatim>\<open>authz/holders.go\<close>.

  The \<open>engine\<close> record holds what does not change after \<open>NewEngine\<close>; what changes
  (the store, the cache, the clock) is the \<open>world\<close>, which every operation returns. The
  scope resolver and the feature resolver are interfaces the application implements; they are
  functions in the record. The warning \<^verbatim>\<open>skip\<close> logs is not kept.
\<close>

section \<open>Data\<close>

type_synonym feature_resolver = "scope \<Rightarrow> string \<Rightarrow> bool result"

text \<open>
  \<open>eng_lister\<close> and \<open>eng_holders\<close> are what the dynamic type of the store offers
  besides \<^verbatim>\<open>Reader\<close> (the two type assertions of \<^verbatim>\<open>HoldersOf\<close>).
\<close>

record 's engine =
  eng_cat :: catalogue
  eng_h :: hierarchy
  eng_roles :: "(string, role) gomap"
  eng_store :: "'s reader_ops"
  eng_lister :: "('s \<Rightarrow> role list result) option"
  eng_holders :: "('s \<Rightarrow> role_ref \<Rightarrow> binding list result) option"
  eng_resolver :: resolver
  eng_features :: "feature_resolver option"

record 's config =
  cfg_Catalogue :: "catalogue option"
  cfg_Hierarchy :: "hierarchy option"
  cfg_Roles :: "role list"
  cfg_Store :: "'s reader_ops option"
  cfg_Lister :: "('s \<Rightarrow> role list result) option"
  cfg_Holders :: "('s \<Rightarrow> role_ref \<Rightarrow> binding list result) option"
  cfg_Resolver :: "resolver option"
  cfg_Features :: "feature_resolver option"
  cfg_Cache :: "cache option"

text \<open>The clock answers a time for each reading; \<open>w_ticks\<close> counts the readings.\<close>

record 's world =
  w_store :: 's
  w_cache :: cache
  w_clock :: "nat \<Rightarrow> int"
  w_ticks :: nat

definition now :: "'s world \<Rightarrow> int" where
  "now w = w_clock w (w_ticks w)"

definition tick :: "'s world \<Rightarrow> 's world" where
  "tick w = w\<lparr>w_ticks := w_ticks w + 1\<rparr>"

section \<open>Construction\<close>

fun add_predefined :: "catalogue \<Rightarrow> role list \<Rightarrow> (string, role) gomap \<Rightarrow> (string, role) gomap result" where
  "add_predefined cat [] m = Inr m"
| "add_predefined cat (r # rs) m =
     (if role_Key r = [] \<or> role_ID r \<noteq> 0
      then Inl (Plain (''authz: predefined role '' @ go_quote (role_Name r) @ '' needs a Key and no ID''))
      else if fmlookup m (role_Key r) \<noteq> None
      then Inl (Plain (''authz: predefined role '' @ go_quote (role_Key r) @ '' defined twice''))
      else case Role_Validate cat r of
        Inl err \<Rightarrow> Inl (Wrapf (''authz: predefined role '' @ go_quote (role_Key r) @ '': '' @ error_text err) err)
      | Inr _ \<Rightarrow> add_predefined cat rs (fmupd (role_Key r) r m))"

definition NewEngine :: "'s config \<Rightarrow> ('s engine \<times> cache) result" where
  "NewEngine cfg =
     (case cfg_Catalogue cfg of None \<Rightarrow> Inl (Plain ''authz: catalogue is required'') | Some cat \<Rightarrow>
      case cfg_Hierarchy cfg of None \<Rightarrow> Inl (Plain ''authz: hierarchy is required'') | Some h \<Rightarrow>
      case cfg_Store cfg of None \<Rightarrow> Inl (Plain ''authz: store is required'') | Some store \<Rightarrow>
      case cfg_Resolver cfg of None \<Rightarrow> Inl (Plain ''authz: scope resolver is required'') | Some resolver \<Rightarrow>
      if HasFeatures cat \<and> cfg_Features cfg = None
      then Inl (Plain ''authz: a permission has a Feature but no FeatureResolver is configured'')
      else res_bind (freeze cat) (\<lambda>cat'.
        res_bind (add_predefined cat' (cfg_Roles cfg) fmempty) (\<lambda>roles.
          Inr (\<lparr>eng_cat = cat', eng_h = h, eng_roles = roles, eng_store = store, eng_lister = cfg_Lister cfg,
                eng_holders = cfg_Holders cfg, eng_resolver = resolver, eng_features = cfg_Features cfg\<rparr>,
               case cfg_Cache cfg of None \<Rightarrow> NewCache DefaultCacheTTL | Some c \<Rightarrow> c))))"

definition PredefinedRole :: "'s engine \<Rightarrow> string \<Rightarrow> role option" where
  "PredefinedRole e key = fmlookup (eng_roles e) key"

definition PredefinedRoles :: "'s engine \<Rightarrow> role list" where
  "PredefinedRoles e = map_values (eng_roles e)"

section \<open>Effective access\<close>

definition lookupRole :: "'s engine \<Rightarrow> 's \<Rightarrow> role_ref \<Rightarrow> role result" where
  "lookupRole e st ref =
     (if ref_Key ref \<noteq> [] then
        (case fmlookup (eng_roles e) (ref_Key ref) of
           None \<Rightarrow> Inl (sentinel_with ErrRoleNotFound (''key '' @ go_quote (ref_Key ref)))
         | Some r \<Rightarrow> Inr r)
      else rd_Role (eng_store e) st (ref_ID ref))"

definition attrsFor :: "permission \<Rightarrow> (string, string list) gomap \<Rightarrow> (string, string list) gomap" where
  "attrsFor p roleAttrs =
     fold (\<lambda>key out. case fmlookup roleAttrs key of None \<Rightarrow> out | Some values \<Rightarrow> fmupd key values out)
       (perm_Attributes p) fmempty"

fun add_grants :: "'s engine \<Rightarrow> binding \<Rightarrow> role \<Rightarrow> chain \<Rightarrow> grant list \<Rightarrow> effective \<Rightarrow> bool \<Rightarrow> effective \<times> bool" where
  "add_grants e b role chain [] eff added = (eff, added)"
| "add_grants e b role chain (g # gs) eff added =
     (case cat_Lookup (eng_cat e) (g_Permission g) of
        None \<Rightarrow> add_grants e b role chain gs eff added
      | Some p \<Rightarrow>
          if \<not> qualifier_Valid (g_Qualifier g) \<or> (\<not> Ownable p \<and> g_Qualifier g \<noteq> QualifierAll)
          then add_grants e b role chain gs eff added
          else if perm_OrganizationOnly p \<and> \<not> IsRoot (eng_h e) (b_Scope b)
          then add_grants e b role chain gs eff added
          else
            let c = \<lparr>cl_Scope = b_Scope b, cl_Chain = chain, cl_Qualifier = g_Qualifier g,
                     cl_Attrs = attrsFor p (role_Attrs role),
                     cl_Source = \<lparr>src_BindingID = b_ID b, src_Role = b_Role b, src_RoleName = role_Name role\<rparr>\<rparr>
            in add_grants e b role chain gs
                 (eff\<lparr>eff_grants := slice_append (perm_ID p) c (eff_grants eff)\<rparr>) True)"

definition addClauses :: "'s engine \<Rightarrow> effective \<Rightarrow> binding \<Rightarrow> role \<Rightarrow> chain \<Rightarrow> effective \<times> bool" where
  "addClauses e eff b role chain = add_grants e b role chain (Resolve role (eng_cat e)) eff False"

text \<open>The switch that records where a binding that granted something reaches.\<close>

definition note_reach :: "'s engine \<Rightarrow> binding \<Rightarrow> chain \<Rightarrow> effective \<Rightarrow> effective" where
  "note_reach e b chain eff =
     (if IsRoot (eng_h e) (b_Scope b) then eff\<lparr>eff_hasRoot := True\<rparr>
      else case tenantOf (eng_h e) chain of
        Some tenant \<Rightarrow> eff\<lparr>eff_tenants := insert (sc_ID tenant) (eff_tenants eff)\<rparr>
      | None \<Rightarrow> eff\<lparr>eff_unpinned := True\<rparr>)"

text \<open>
  The loop of \<^verbatim>\<open>build\<close>. \<open>memo\<close> is its local map of roles already loaded;
  \<open>find_role\<close> answers \<open>Inr None\<close> for a role that is not found, which skips the
  binding.
\<close>

definition ref_text :: "role_ref \<Rightarrow> string" where
  "ref_text r = ''{ID:'' @ show_int (ref_ID r) @ '' Key:'' @ ref_Key r @ ''}''"

definition find_role ::
  "(role_ref \<Rightarrow> role result) \<Rightarrow> (role_ref, role) gomap \<Rightarrow> role_ref \<Rightarrow> role option result" where
  "find_role lookup memo ref =
     (case fmlookup memo ref of
        Some role \<Rightarrow> Inr (Some role)
      | None \<Rightarrow>
          (case lookup ref of
             Inr role \<Rightarrow> Inr (Some role)
           | Inl err \<Rightarrow>
               if errors_Is err ErrRoleNotFound then Inr None
               else Inl (Wrapf (''authz: load role '' @ ref_text ref @ '': '' @ error_text err) err)))"

fun build_loop ::
  "'s engine \<Rightarrow> (role_ref \<Rightarrow> role result) \<Rightarrow> binding list \<Rightarrow> (role_ref, role) gomap \<Rightarrow> effective \<Rightarrow> effective result" where
  "build_loop e lookup [] memo eff = Inr eff"
| "build_loop e lookup (b # bs) memo eff =
     (if \<not> ref_Valid (b_Role b) then build_loop e lookup bs memo eff
      else
        let eff1 = (if ref_ID (b_Role b) > 0 then eff\<lparr>eff_roleIDs := insert (ref_ID (b_Role b)) (eff_roleIDs eff)\<rparr> else eff)
        in case find_role lookup memo (b_Role b) of
             Inl err \<Rightarrow> Inl err
           | Inr None \<Rightarrow> build_loop e lookup bs memo eff1
           | Inr (Some role) \<Rightarrow>
               let memo' = fmupd (b_Role b) role memo
               in case h_Chain (eng_h e) (eng_resolver e) (b_Scope b) [] of
                    Inl err \<Rightarrow>
                      if errors_Is err ErrScopeNotFound \<or> errors_Is err ErrInvalidScope
                      then build_loop e lookup bs memo' eff1
                      else Inl (Wrapf (''authz: resolve scope '' @ scope_String (b_Scope b) @ '': '' @ error_text err) err)
                  | Inr chain \<Rightarrow>
                      (case addClauses e eff1 b role chain of (eff2, added) \<Rightarrow>
                         build_loop e lookup bs memo' (if added then note_reach e b chain eff2 else eff2)))"

definition empty_effective :: "subject \<Rightarrow> effective" where
  "empty_effective s =
     \<lparr>eff_subject = s, eff_grants = fmempty, eff_roleIDs = {}, eff_tenants = {}, eff_hasRoot = False, eff_unpinned = False\<rparr>"

definition build :: "'s engine \<Rightarrow> subject \<Rightarrow> binding list \<Rightarrow> (role_ref \<Rightarrow> role result) \<Rightarrow> effective result" where
  "build e s bindings lookup = build_loop e lookup bindings fmempty (empty_effective s)"

definition load_bindings :: "'s engine \<Rightarrow> 's \<Rightarrow> subject \<Rightarrow> binding list result" where
  "load_bindings e st s =
     (case rd_BindingsFor (eng_store e) st s of
        Inl err \<Rightarrow> Inl (Internal (Wrapf (''authz: load bindings of '' @ subject_String s @ '': '' @ error_text err) err))
      | Inr bs \<Rightarrow> Inr bs)"

definition eng_Effective :: "'s engine \<Rightarrow> 's world \<Rightarrow> subject \<Rightarrow> effective result \<times> 's world" where
  "eng_Effective e w s =
     (case cache_get (w_cache w) (now w) s of (hit, c1) \<Rightarrow>
        let w1 = (tick w)\<lparr>w_cache := c1\<rparr> in
        case hit of
          Some eff \<Rightarrow> (Inr eff, w1)
        | None \<Rightarrow>
            let epoch = cache_begin c1 in
            (case load_bindings e (w_store w1) s of
               Inl err \<Rightarrow> (Inl err, w1)
             | Inr bindings \<Rightarrow>
                 (case build e s bindings (lookupRole e (w_store w1)) of
                    Inl err \<Rightarrow> (Inl (Internal err), w1)
                  | Inr eff \<Rightarrow>
                      (Inr eff, (tick w1)\<lparr>w_cache := cache_put c1 (now w1) s eff epoch\<rparr>))))"

definition eng_Evict :: "'s world \<Rightarrow> subject \<Rightarrow> 's world" where
  "eng_Evict w s = w\<lparr>w_cache := Evict (w_cache w) s\<rparr>"

definition eng_EvictRole :: "'s world \<Rightarrow> int \<Rightarrow> 's world" where
  "eng_EvictRole w i = w\<lparr>w_cache := EvictRole (w_cache w) i\<rparr>"

definition eng_EvictAll :: "'s world \<Rightarrow> 's world" where
  "eng_EvictAll w = w\<lparr>w_cache := EvictAll (w_cache w)\<rparr>"

definition prepare ::
  "'s engine \<Rightarrow> 's world \<Rightarrow> ctx \<Rightarrow> string \<Rightarrow> (principal \<times> permission \<times> effective) result \<times> 's world" where
  "prepare e w ctx permission =
     (case PrincipalFrom ctx of
        None \<Rightarrow> (Inl unauthenticated, w)
      | Some p \<Rightarrow>
          (case cat_Lookup (eng_cat e) permission of
             None \<Rightarrow> (Inl (Internal (sentinel_with ErrUnknownPermission (go_quote permission))), w)
           | Some perm \<Rightarrow>
               (case eng_Effective e w (pr_Subject p) of
                  (Inl err, w') \<Rightarrow> (Inl err, w')
                | (Inr eff, w') \<Rightarrow> (Inr (p, perm, eff), w'))))"

section \<open>Checks\<close>

text \<open>
  \<open>NewEngine\<close> refuses a catalogue with features and no resolver, so the call on a nil
  resolver, which would panic, is not reached (\<open>engine_wf\<close> below); its value here is an error.
\<close>

definition featureOn :: "'s engine \<Rightarrow> permission \<Rightarrow> scope \<Rightarrow> chain \<Rightarrow> bool result" where
  "featureOn e perm fallback chain =
     (if perm_Feature perm = [] then Inr True
      else
        let tenant = (case tenantOf (eng_h e) chain of Some t \<Rightarrow> t | None \<Rightarrow> fallback)
        in case eng_features e of
             Some enabled \<Rightarrow> enabled tenant (perm_Feature perm)
           | None \<Rightarrow> Inl (Plain ''runtime error: invalid memory address or nil pointer dereference''))"

definition feature_error :: "permission \<Rightarrow> go_error \<Rightarrow> go_error" where
  "feature_error perm err =
     Internal (Wrapf (''authz: feature '' @ go_quote (perm_Feature perm) @ '': '' @ error_text err) err)"

fun require_loop :: "'s engine \<Rightarrow> permission \<Rightarrow> string \<Rightarrow> clause list \<Rightarrow> unit result" where
  "require_loop e perm permission [] = Inl (forbidden permission)"
| "require_loop e perm permission (c # cs) =
     (case featureOn e perm (cl_Scope c) (cl_Chain c) of
        Inl err \<Rightarrow> Inl (feature_error perm err)
      | Inr ok \<Rightarrow> if ok then Inr () else require_loop e perm permission cs)"

definition Require :: "'s engine \<Rightarrow> 's world \<Rightarrow> ctx \<Rightarrow> string \<Rightarrow> unit result \<times> 's world" where
  "Require e w ctx permission =
     (case prepare e w ctx permission of
        (Inl err, w') \<Rightarrow> (Inl err, w')
      | (Inr (p, perm, eff), w') \<Rightarrow> (require_loop e perm permission (slice_at (eff_grants eff) permission), w'))"

definition resourceChain :: "'s engine \<Rightarrow> resource \<Rightarrow> chain result" where
  "resourceChain e res =
     (if scope_IsZero (res_Scope res) then Inr [h_Root (eng_h e)]
      else case h_Chain (eng_h e) (eng_resolver e) (res_Scope res) (res_Ancestors res) of
        Inl err \<Rightarrow>
          if errors_Is err ErrScopeNotFound \<or> errors_Is err ErrInvalidScope then Inr [] else Inl (Internal err)
      | Inr chain \<Rightarrow> Inr chain)"

text \<open>The chain of the record is resolved at the first clause that needs it; \<open>None\<close> is a chain not yet resolved.\<close>

fun require_on_loop ::
  "'s engine \<Rightarrow> principal \<Rightarrow> permission \<Rightarrow> string \<Rightarrow> resource \<Rightarrow> chain option \<Rightarrow> clause list \<Rightarrow> unit result" where
  "require_on_loop e p perm permission res rc [] = Inl (forbidden permission)"
| "require_on_loop e p perm permission res rc (c # cs) =
     (let needs = (\<not> IsRoot (eng_h e) (cl_Scope c) \<or> perm_Feature perm \<noteq> []) in
      case (if needs \<and> rc = None then map_sum id Some (resourceChain e res) else Inr rc) of
        Inl err \<Rightarrow> Inl err
      | Inr rc' \<Rightarrow>
          if needs \<and> \<not> Within (case rc' of None \<Rightarrow> [] | Some ch \<Rightarrow> ch) (cl_Scope c)
          then require_on_loop e p perm permission res rc' cs
          else if \<not> matchRecord c p perm res
          then require_on_loop e p perm permission res rc' cs
          else
            let place = (case rc' of
                  Some ch \<Rightarrow> if scope_IsZero (res_Scope res) then (cl_Scope c, cl_Chain c) else (res_Scope res, ch)
                | None \<Rightarrow> (cl_Scope c, cl_Chain c))
            in case featureOn e perm (fst place) (snd place) of
                 Inl err \<Rightarrow> Inl (feature_error perm err)
               | Inr ok \<Rightarrow> if ok then Inr () else require_on_loop e p perm permission res rc' cs)"

definition RequireOn :: "'s engine \<Rightarrow> 's world \<Rightarrow> ctx \<Rightarrow> string \<Rightarrow> resource \<Rightarrow> unit result \<times> 's world" where
  "RequireOn e w ctx permission res =
     (case prepare e w ctx permission of
        (Inl err, w') \<Rightarrow> (Inl err, w')
      | (Inr (p, perm, eff), w') \<Rightarrow>
          (require_on_loop e p perm permission res None (slice_at (eff_grants eff) permission), w'))"

text \<open>\<^verbatim>\<open>RequireRecord\<close> takes an \<^verbatim>\<open>Authorizer\<close>; here it is the engine.\<close>

definition RequireRecord ::
  "'s engine \<Rightarrow> 's world \<Rightarrow> ctx \<Rightarrow> resource \<Rightarrow> string \<Rightarrow> string \<Rightarrow> go_error \<Rightarrow> unit result \<times> 's world" where
  "RequireRecord e w ctx res view action notFound =
     (case RequireOn e w ctx view res of
        (Inl err, w') \<Rightarrow> (Inl (if errors_Is err ErrForbidden then notFound else err), w')
      | (Inr _, w') \<Rightarrow> if action = view then (Inr (), w') else RequireOn e w' ctx action res)"

fun open_clauses :: "'s engine \<Rightarrow> permission \<Rightarrow> clause list \<Rightarrow> clause list result" where
  "open_clauses e perm [] = Inr []"
| "open_clauses e perm (c # cs) =
     (case featureOn e perm (cl_Scope c) (cl_Chain c) of
        Inl err \<Rightarrow> Inl (feature_error perm err)
      | Inr ok \<Rightarrow> res_bind (open_clauses e perm cs) (\<lambda>rest. Inr (if ok then c # rest else rest)))"

definition Access :: "'s engine \<Rightarrow> 's world \<Rightarrow> ctx \<Rightarrow> string \<Rightarrow> access_set result \<times> 's world" where
  "Access e w ctx permission =
     (case prepare e w ctx permission of
        (Inl err, w') \<Rightarrow> (Inl err, w')
      | (Inr (p, perm, eff), w') \<Rightarrow>
          (res_bind (open_clauses e perm (slice_at (eff_grants eff) permission)) (\<lambda>opened.
             Inr \<lparr>as_Permission = permission, as_RecordType = perm_RecordType perm,
                  as_UnownedIsOwn = perm_UnownedIsOwn perm, as_Principal = p, as_Clauses = prune opened\<rparr>), w'))"

section \<open>The access payload\<close>

record clause_info =
  ci_Scope :: scope
  ci_Qualifier :: qualifier
  ci_Attrs :: "(string, string list) gomap"
  ci_Role :: string
  ci_BindingID :: int

record permission_access =
  pa_Scope :: scope
  pa_Qualifier :: qualifier
  pa_Clauses :: "clause_info list"

record my_access =
  ma_Subject :: subject
  ma_Root :: bool
  ma_Permissions :: "(string, permission_access) gomap"
  ma_Unavailable :: "string list"

definition clause_info_of :: "clause \<Rightarrow> clause_info" where
  "clause_info_of c =
     \<lparr>ci_Scope = cl_Scope c, ci_Qualifier = cl_Qualifier c, ci_Attrs = cl_Attrs c,
      ci_Role = src_RoleName (cl_Source c), ci_BindingID = src_BindingID (cl_Source c)\<rparr>"

text \<open>It is only called on a non-empty list; \<^verbatim>\<open>clauses[0]\<close> of an empty one would panic.\<close>

definition describe :: "'s engine \<Rightarrow> clause list \<Rightarrow> permission_access" where
  "describe e clauses =
     foldl (\<lambda>pa c. \<lparr>pa_Scope = (if Wider (eng_h e) (sc_Level (cl_Scope c)) (sc_Level (pa_Scope pa)) then cl_Scope c else pa_Scope pa),
         pa_Qualifier = (if cl_Qualifier c > pa_Qualifier pa then cl_Qualifier c else pa_Qualifier pa),
         pa_Clauses = pa_Clauses pa @ [clause_info_of c]\<rparr>)
       \<lparr>pa_Scope = cl_Scope (hd clauses), pa_Qualifier = 0, pa_Clauses = []\<rparr> clauses"

fun my_access_loop :: "'s engine \<Rightarrow> effective \<Rightarrow> string list \<Rightarrow> my_access \<Rightarrow> my_access result" where
  "my_access_loop e eff [] out = Inr out"
| "my_access_loop e eff (ident # idents) out =
     (let perm = (case cat_Lookup (eng_cat e) ident of Some p \<Rightarrow> p | None \<Rightarrow> zero_permission []) in
      res_bind (open_clauses e perm (slice_at (eff_grants eff) ident)) (\<lambda>opened.
        if opened = [] then my_access_loop e eff idents (out\<lparr>ma_Unavailable := ma_Unavailable out @ [ident]\<rparr>)
        else my_access_loop e eff idents
          (out\<lparr>ma_Permissions := fmupd ident (describe e (prune opened)) (ma_Permissions out)\<rparr>)))"

definition MyAccess :: "'s engine \<Rightarrow> 's world \<Rightarrow> ctx \<Rightarrow> my_access result \<times> 's world" where
  "MyAccess e w ctx =
     (case PrincipalFrom ctx of
        None \<Rightarrow> (Inl unauthenticated, w)
      | Some p \<Rightarrow>
          (case eng_Effective e w (pr_Subject p) of
             (Inl err, w') \<Rightarrow> (Inl err, w')
           | (Inr eff, w') \<Rightarrow>
               (res_bind (my_access_loop e eff (Permissions eff)
                   \<lparr>ma_Subject = pr_Subject p, ma_Root = snd (Tenants eff), ma_Permissions = fmempty, ma_Unavailable = []\<rparr>)
                 (\<lambda>out. Inr (out\<lparr>ma_Unavailable := sort (ma_Unavailable out)\<rparr>)), w')))"

section \<open>Who holds a permission\<close>

definition grants_perm :: "role \<Rightarrow> catalogue \<Rightarrow> string \<Rightarrow> bool" where
  "grants_perm role cat permission = list_ex (\<lambda>g. g_Permission g = permission) (Resolve role cat)"

fun collect_holders :: "('s \<Rightarrow> role_ref \<Rightarrow> binding list result) \<Rightarrow> 's \<Rightarrow> catalogue \<Rightarrow> string \<Rightarrow> role list \<Rightarrow> binding list result" where
  "collect_holders holders st cat permission [] = Inr []"
| "collect_holders holders st cat permission (role # roles) =
     (if \<not> grants_perm role cat permission then collect_holders holders st cat permission roles
      else case holders st (role_Ref role) of
        Inl err \<Rightarrow> Inl (Wrapf (''authz: holders of role '' @ role_Name role @ '': '' @ error_text err) err)
      | Inr held \<Rightarrow> res_bind (collect_holders holders st cat permission roles) (\<lambda>rest. Inr (held @ rest)))"

text \<open>The loop that keeps the first occurrence of each subject.\<close>

definition first_subjects :: "binding list \<Rightarrow> subject list" where
  "first_subjects bs = foldl (\<lambda>out b. if b_Subject b \<in> set out then out else out @ [b_Subject b]) [] bs"

definition HoldersOf :: "'s engine \<Rightarrow> 's \<Rightarrow> string \<Rightarrow> subject list result" where
  "HoldersOf e st permission =
     (if cat_Lookup (eng_cat e) permission = None
      then Inl (sentinel_with ErrUnknownPermission (go_quote permission))
      else case (eng_lister e, eng_holders e) of
        (Some lister, Some holders) \<Rightarrow>
          (case lister st of
             Inl err \<Rightarrow> Inl (Wrapf (''authz: list custom roles: '' @ error_text err) err)
           | Inr custom \<Rightarrow>
               res_bind (collect_holders holders st (eng_cat e) permission (PredefinedRoles e @ custom)) (\<lambda>bindings.
                 Inr (first_subjects (sort_key b_ID bindings))))
      | _ \<Rightarrow> Inl (Plain ''authz: HoldersOf needs a store that lists custom roles and their holders''))"

end
