(* ===== verification/Decisions.thy ===== *)
theory Decisions
  imports Engine
begin

text \<open>
  What the engine's decisions mean. The first part describes an effective access by the stored
  bindings it comes from (\<open>binding_clauses\<close>) and shows that the loop that builds it
  computes just that; the second shows that an engine with a fresh cache answers what the store
  says; the properties then read the checks off the stored bindings.
\<close>

section \<open>The engine's invariant\<close>

definition engine_wf :: "'s engine \<Rightarrow> bool" where
  "engine_wf e \<longleftrightarrow> cat_wf (eng_cat e) \<and> hier_wf (eng_h e)
     \<and> (HasFeatures (eng_cat e) \<longrightarrow> eng_features e \<noteq> None)
     \<and> (\<forall>k r. fmlookup (eng_roles e) k = Some r \<longrightarrow>
          k \<noteq> [] \<and> role_Key r = k \<and> role_ID r = 0 \<and> Role_Validate (eng_cat e) r = Inr ())"

lemma engine_wf_cat [simp]: "engine_wf e \<Longrightarrow> cat_wf (eng_cat e)"
  and engine_wf_hier [simp]: "engine_wf e \<Longrightarrow> hier_wf (eng_h e)"
  by (simp_all add: engine_wf_def)

lemma engine_wf_role:
  "engine_wf e \<Longrightarrow> fmlookup (eng_roles e) k = Some r \<Longrightarrow> k \<noteq> [] \<and> role_Ref r = \<lparr>ref_ID = 0, ref_Key = k\<rparr>"
  unfolding engine_wf_def role_Ref_def by metis

definition predefined_ok :: "catalogue \<Rightarrow> (string, role) gomap \<Rightarrow> bool" where
  "predefined_ok cat m \<longleftrightarrow>
     (\<forall>k r. fmlookup m k = Some r \<longrightarrow> k \<noteq> [] \<and> role_Key r = k \<and> role_ID r = 0 \<and> Role_Validate cat r = Inr ())"

lemma add_predefined_ok:
  "add_predefined cat rs m = Inr m' \<Longrightarrow> predefined_ok cat m \<Longrightarrow>
     predefined_ok cat m' \<and> distinct (map role_Key rs) \<and> (\<forall>r \<in> set rs. fmlookup m (role_Key r) = None)
     \<and> (\<forall>k. fmlookup m' k = (case List.find (\<lambda>r. role_Key r = k) rs of Some r \<Rightarrow> Some r | None \<Rightarrow> fmlookup m k))"
proof (induction rs arbitrary: m)
  case (Cons r rs)
  let ?m = "fmupd (role_Key r) r m"
  have r: "role_Key r \<noteq> []" "role_ID r = 0" "fmlookup m (role_Key r) = None" "Role_Validate cat r = Inr ()"
    "add_predefined cat rs ?m = Inr m'"
    using Cons.prems(1) by (auto split: if_splits sum.splits)
  have "predefined_ok cat ?m" using r Cons.prems(2) by (simp add: predefined_ok_def)
  note IH = Cons.IH [OF r(5) this]
  have "role_Key r \<notin> role_Key ` set rs" using IH by (auto dest: bspec)
  moreover have "fmlookup m (role_Key x) = None" if "x \<in> set rs" for x
    using IH that by (auto split: if_splits)
  moreover have "List.find (\<lambda>x. role_Key x = role_Key r) rs = None"
    unfolding find_None_iff using calculation(1) by (metis image_eqI)
  ultimately show ?case using IH r by (auto split: option.splits)
qed (simp add: predefined_ok_def)

section \<open>What a binding grants\<close>

definition grant_clause :: "'s engine \<Rightarrow> binding \<Rightarrow> role \<Rightarrow> chain \<Rightarrow> string \<Rightarrow> grant \<Rightarrow> clause option" where
  "grant_clause e b role chain permission g =
     (case cat_Lookup (eng_cat e) permission of
        None \<Rightarrow> None
      | Some p \<Rightarrow>
          if g_Permission g = permission \<and> qualifier_Valid (g_Qualifier g) \<and> (Ownable p \<or> g_Qualifier g = QualifierAll)
             \<and> (perm_OrganizationOnly p \<longrightarrow> IsRoot (eng_h e) (b_Scope b))
          then Some \<lparr>cl_Scope = b_Scope b, cl_Chain = chain, cl_Qualifier = g_Qualifier g,
                     cl_Attrs = attrsFor p (role_Attrs role),
                     cl_Source = \<lparr>src_BindingID = b_ID b, src_Role = b_Role b, src_RoleName = role_Name role\<rparr>\<rparr>
          else None)"

definition binding_clauses :: "'s engine \<Rightarrow> (role_ref \<Rightarrow> role result) \<Rightarrow> binding \<Rightarrow> string \<Rightarrow> clause list" where
  "binding_clauses e lookup b permission =
     (if \<not> ref_Valid (b_Role b) then []
      else case (lookup (b_Role b), h_Chain (eng_h e) (eng_resolver e) (b_Scope b) []) of
        (Inr role, Inr chain) \<Rightarrow> List.map_filter (grant_clause e b role chain permission) (Resolve role (eng_cat e))
      | _ \<Rightarrow> [])"

definition bound_ids :: "binding list \<Rightarrow> int set" where
  "bound_ids bs = {ref_ID (b_Role b) | b. b \<in> set bs \<and> ref_Valid (b_Role b) \<and> ref_ID (b_Role b) > 0}"

lemma bound_ids_simps [simp]:
  "bound_ids [] = {}"
  "bound_ids (b # bs) =
     (if ref_Valid (b_Role b) \<and> ref_ID (b_Role b) > 0 then insert (ref_ID (b_Role b)) (bound_ids bs) else bound_ids bs)"
  by (auto simp: bound_ids_def)

lemma add_grants_spec:
  assumes "cat_wf (eng_cat e)"
  shows "add_grants e b role chain gs eff added = (eff', added') \<Longrightarrow>
    (\<forall>perm. slice_at (eff_grants eff') perm
        = slice_at (eff_grants eff) perm @ List.map_filter (grant_clause e b role chain perm) gs)
    \<and> eff' = eff\<lparr>eff_grants := eff_grants eff'\<rparr>
    \<and> (added' \<longleftrightarrow> added \<or> (\<exists>perm. List.map_filter (grant_clause e b role chain perm) gs \<noteq> []))"
proof (induction gs arbitrary: eff added)
  case Nil
  then show ?case by (simp add: List.map_filter_def)
next
  case (Cons g gs)
  show ?case
  proof (cases "grant_clause e b role chain (g_Permission g) g")
    case None
    then have eq: "add_grants e b role chain (g # gs) eff added = add_grants e b role chain gs eff added"
      by (auto simp: grant_clause_def split: option.splits if_splits)
    have "grant_clause e b role chain perm g = None" for perm
      using None by (cases "perm = g_Permission g") (auto simp: grant_clause_def split: option.splits)
    with Cons eq show ?thesis by (simp add: List.map_filter_simps)
  next
    case (Some c)
    obtain p where p: "cat_Lookup (eng_cat e) (g_Permission g) = Some p"
      using Some by (auto simp: grant_clause_def split: option.splits)
    then have pid: "perm_ID p = g_Permission g" by (rule cat_wf_ID [OF assms])
    let ?eff = "eff\<lparr>eff_grants := slice_append (g_Permission g) c (eff_grants eff)\<rparr>"
    have eq: "add_grants e b role chain (g # gs) eff added = add_grants e b role chain gs ?eff True"
      using Some p pid by (auto simp: grant_clause_def split: if_splits)
    have other: "grant_clause e b role chain perm g = (if perm = g_Permission g then Some c else None)" for perm
      using Some by (auto simp: grant_clause_def split: option.splits)
    have "\<forall>perm. slice_at (eff_grants eff') perm = slice_at (eff_grants ?eff) perm @ List.map_filter (grant_clause e b role chain perm) gs"
      and "eff' = ?eff\<lparr>eff_grants := eff_grants eff'\<rparr>" and "added'"
      using Cons.IH [of ?eff True] Cons.prems eq by auto
    moreover have "\<exists>perm. List.map_filter (grant_clause e b role chain perm) (g # gs) \<noteq> []"
      using other by (auto simp: List.map_filter_simps intro: exI [of _ "g_Permission g"])
    ultimately show ?thesis by (simp add: other slice_at_append List.map_filter_simps)
  qed
qed

text \<open>The memo of roles is not observable: it holds what the lookup answers.\<close>

definition memo_ok :: "(role_ref \<Rightarrow> role result) \<Rightarrow> (role_ref, role) gomap \<Rightarrow> bool" where
  "memo_ok lookup memo \<longleftrightarrow> (\<forall>r role. fmlookup memo r = Some role \<longrightarrow> lookup r = Inr role)"

lemma memo_ok_empty [simp]: "memo_ok lookup fmempty"
  by (simp add: memo_ok_def)

lemma memo_ok_upd: "memo_ok lookup memo \<Longrightarrow> lookup r = Inr role \<Longrightarrow> memo_ok lookup (fmupd r role memo)"
  by (simp add: memo_ok_def)

lemma find_role_memo:
  "memo_ok lookup memo \<Longrightarrow> find_role lookup memo r = find_role lookup fmempty r"
  by (auto simp: find_role_def memo_ok_def split: option.splits sum.splits)

lemma find_role_Some: "memo_ok lookup memo \<Longrightarrow> find_role lookup memo r = Inr (Some role) \<longleftrightarrow> lookup r = Inr role"
  unfolding find_role_memo by (auto simp: find_role_def split: sum.splits)

lemma find_role_None: "memo_ok lookup memo \<Longrightarrow> find_role lookup memo r = Inr None \<longleftrightarrow> (\<exists>err. lookup r = Inl err \<and> errors_Is err ErrRoleNotFound)"
  unfolding find_role_memo by (auto simp: find_role_def split: sum.splits)

lemma note_reach_keeps [simp]:
  "eff_grants (note_reach e b chain eff) = eff_grants eff" "eff_roleIDs (note_reach e b chain eff) = eff_roleIDs eff"
  "eff_subject (note_reach e b chain eff) = eff_subject eff"
  by (simp_all add: note_reach_def split: option.splits)

text \<open>One iteration of the loop, as a case rule: the binding is skipped or its clauses are added.\<close>

lemma build_loop_Cons:
  assumes "cat_wf (eng_cat e)" "memo_ok lookup memo" "build_loop e lookup (b # bs) memo eff = Inr eff'"
  obtains (skip) memo' eff1 where "memo_ok lookup memo'" "build_loop e lookup bs memo' eff1 = Inr eff'"
      "\<And>perm. binding_clauses e lookup b perm = []" "eff1 = eff\<lparr>eff_roleIDs := eff_roleIDs eff1\<rparr>"
      "eff_roleIDs eff1 = eff_roleIDs eff \<union> bound_ids [b]"
    | (add) memo' eff1 chain where "memo_ok lookup memo'" "build_loop e lookup bs memo' eff1 = Inr eff'"
      "h_Chain (eng_h e) (eng_resolver e) (b_Scope b) [] = Inr chain"
      "\<And>perm. slice_at (eff_grants eff1) perm = slice_at (eff_grants eff) perm @ binding_clauses e lookup b perm"
      "eff_roleIDs eff1 = eff_roleIDs eff \<union> bound_ids [b]"
      "eff1 = (if \<exists>perm. binding_clauses e lookup b perm \<noteq> [] then note_reach e b chain (eff\<lparr>eff_roleIDs := eff_roleIDs eff1, eff_grants := eff_grants eff1\<rparr>)
        else eff\<lparr>eff_roleIDs := eff_roleIDs eff1, eff_grants := eff_grants eff1\<rparr>)"
proof (cases "ref_Valid (b_Role b)")
  case False
  with assms(2,3) skip [of memo eff] show ?thesis by (simp add: binding_clauses_def)
next
  case valid: True
  define eff1 where "eff1 = (if ref_ID (b_Role b) > 0 then eff\<lparr>eff_roleIDs := insert (ref_ID (b_Role b)) (eff_roleIDs eff)\<rparr> else eff)"
  have ids: "eff1 = eff\<lparr>eff_roleIDs := eff_roleIDs eff1\<rparr>" "eff_roleIDs eff1 = eff_roleIDs eff \<union> bound_ids [b]"
    using valid by (simp_all add: eff1_def)
  note loop = assms(3) [unfolded build_loop.simps Let_def, folded eff1_def]
  show ?thesis
  proof (cases "find_role lookup memo (b_Role b)")
    case (Inl err)
    with valid loop show ?thesis by simp
  next
    case (Inr found)
    show ?thesis
    proof (cases found)
      case None
      with Inr have "\<exists>err. lookup (b_Role b) = Inl err" using find_role_None [OF assms(2)] by blast
      then have "binding_clauses e lookup b perm = []" for perm by (auto simp: binding_clauses_def)
      with None Inr valid loop assms(2) ids skip [of memo eff1] show ?thesis by simp
    next
      case (Some role)
      with Inr have role: "lookup (b_Role b) = Inr role" using find_role_Some [OF assms(2)] by blast
      let ?memo = "fmupd (b_Role b) role memo"
      have memo: "memo_ok lookup ?memo" by (rule memo_ok_upd [OF assms(2) role])
      show ?thesis
      proof (cases "h_Chain (eng_h e) (eng_resolver e) (b_Scope b) []")
        case (Inl err)
        then have "binding_clauses e lookup b perm = []" for perm by (simp add: binding_clauses_def role)
        with Inl Inr Some valid loop memo ids skip [of ?memo eff1] show ?thesis by (simp split: if_splits)
      next
        case chain: (Inr chain)
        obtain eff2 added where ac: "addClauses e eff1 b role chain = (eff2, added)" by force
        note spec = add_grants_spec [OF assms(1) ac [unfolded addClauses_def]]
        have bc: "binding_clauses e lookup b perm = List.map_filter (grant_clause e b role chain perm) (Resolve role (eng_cat e))" for perm
          using chain valid by (simp add: binding_clauses_def role)
        let ?eff = "if added then note_reach e b chain eff2 else eff2"
        have rest: "build_loop e lookup bs ?memo ?eff = Inr eff'" using Inr Some valid chain ac loop by simp
        have added: "added \<longleftrightarrow> (\<exists>perm. binding_clauses e lookup b perm \<noteq> [])" using spec bc by simp
        have e2: "eff2 = eff\<lparr>eff_roleIDs := eff_roleIDs eff1, eff_grants := eff_grants eff2\<rparr>"
          using conjunct1 [OF conjunct2 [OF spec]] ids(1) by (metis effective.surjective effective.update_convs effective.select_convs(3))
        have g: "eff_grants eff1 = eff_grants eff" by (subst ids(1)) simp
        have "eff_roleIDs eff2 = eff_roleIDs eff1" by (subst e2) simp
        then have k: "eff_grants ?eff = eff_grants eff2" "eff_roleIDs ?eff = eff_roleIDs eff1" by simp_all
        show ?thesis
        proof (rule add [OF memo rest chain])
          show "slice_at (eff_grants ?eff) perm = slice_at (eff_grants eff) perm @ binding_clauses e lookup b perm" for perm
            using spec bc g k(1) by simp
          show "eff_roleIDs ?eff = eff_roleIDs eff \<union> bound_ids [b]" using k(2) ids(2) by simp
          show "?eff = (if \<exists>perm. binding_clauses e lookup b perm \<noteq> []
              then note_reach e b chain (eff\<lparr>eff_roleIDs := eff_roleIDs ?eff, eff_grants := eff_grants ?eff\<rparr>)
              else eff\<lparr>eff_roleIDs := eff_roleIDs ?eff, eff_grants := eff_grants ?eff\<rparr>)"
            unfolding k added [symmetric] e2 [symmetric] ..
        qed
      qed
    qed
  qed
qed

text \<open>The loop as a whole: the clauses of each permission are those of the bindings, in order.\<close>

lemma build_loop_grants:
  assumes "cat_wf (eng_cat e)"
  shows "build_loop e lookup bs memo eff = Inr eff' \<Longrightarrow> memo_ok lookup memo \<Longrightarrow>
    slice_at (eff_grants eff') perm = slice_at (eff_grants eff) perm @ concat (map (\<lambda>b. binding_clauses e lookup b perm) bs)
    \<and> eff_roleIDs eff' = eff_roleIDs eff \<union> bound_ids bs"
proof (induction bs arbitrary: memo eff)
  case (Cons b bs)
  from Cons.prems show ?case
  proof (cases rule: build_loop_Cons [OF assms Cons.prems(2,1), case_names skip add])
    case (skip memo' eff1)
    have "eff_grants eff1 = eff_grants eff" by (subst skip(4)) simp
    with Cons.IH [OF skip(2,1)] skip(3,5) show ?thesis by auto
  next
    case (add memo' eff1 chain)
    with Cons.IH [OF add(2,1)] show ?thesis by auto
  qed
qed simp

lemma build_grants:
  assumes "cat_wf (eng_cat e)" "build e s bs lookup = Inr eff"
  shows "slice_at (eff_grants eff) perm = concat (map (\<lambda>b. binding_clauses e lookup b perm) bs)"
    and "eff_roleIDs eff = bound_ids bs"
  using build_loop_grants [OF assms(1) assms(2) [unfolded build_def]] by (simp_all add: empty_effective_def)

lemma binding_clauses_D:
  assumes "c \<in> set (binding_clauses e lookup b perm)"
  shows "\<exists>role p g. ref_Valid (b_Role b) \<and> lookup (b_Role b) = Inr role \<and> cat_Lookup (eng_cat e) perm = Some p
    \<and> g \<in> set (Resolve role (eng_cat e)) \<and> g_Permission g = perm \<and> qualifier_Valid (g_Qualifier g)
    \<and> (Ownable p \<or> g_Qualifier g = QualifierAll) \<and> (perm_OrganizationOnly p \<longrightarrow> IsRoot (eng_h e) (b_Scope b))
    \<and> h_Chain (eng_h e) (eng_resolver e) (b_Scope b) [] = Inr (cl_Chain c)
    \<and> cl_Scope c = b_Scope b \<and> cl_Qualifier c = g_Qualifier g \<and> cl_Attrs c = attrsFor p (role_Attrs role)"
proof -
  obtain role chain g where b: "ref_Valid (b_Role b)" "lookup (b_Role b) = Inr role"
      "h_Chain (eng_h e) (eng_resolver e) (b_Scope b) [] = Inr chain"
    and g: "g \<in> set (Resolve role (eng_cat e))" "grant_clause e b role chain perm g = Some c"
    using assms
    by (cases "lookup (b_Role b)"; cases "h_Chain (eng_h e) (eng_resolver e) (b_Scope b) []")
      (auto simp: binding_clauses_def in_map_filter split: if_splits)
  moreover obtain p where "cat_Lookup (eng_cat e) perm = Some p"
    using g(2) by (auto simp: grant_clause_def split: option.splits)
  ultimately show ?thesis by (fastforce simp: grant_clause_def split: if_splits)
qed

lemma binding_clauses_wf: "hier_wf (eng_h e) \<Longrightarrow> c \<in> set (binding_clauses e lookup b perm) \<Longrightarrow> clause_wf (eng_h e) (eng_resolver e) c"
  using binding_clauses_D [of c e lookup b perm] by (auto simp: clause_wf_def)

lemma build_clause_wf:
  assumes "engine_wf e" "build e s bs lookup = Inr eff" "c \<in> set (slice_at (eff_grants eff) perm)"
  shows "clause_wf (eng_h e) (eng_resolver e) c"
  using assms(3) binding_clauses_wf [OF engine_wf_hier [OF assms(1)]]
  by (auto simp: build_grants(1) [OF engine_wf_cat [OF assms(1)] assms(2)])

lemma build_known:
  assumes "engine_wf e" "build e s bs lookup = Inr eff" "slice_at (eff_grants eff) perm \<noteq> []"
  shows "\<exists>p. cat_Lookup (eng_cat e) perm = Some p"
proof -
  have "hd (slice_at (eff_grants eff) perm) \<in> set (slice_at (eff_grants eff) perm)" using assms(3) by simp
  then obtain b where "hd (slice_at (eff_grants eff) perm) \<in> set (binding_clauses e lookup b perm)"
    by (auto simp: build_grants(1) [OF engine_wf_cat [OF assms(1)] assms(2)])
  from binding_clauses_D [OF this] show ?thesis by blast
qed

text \<open>When the build succeeds: every failure of a lookup or of a chain is one that denies the binding.\<close>

lemma build_loop_ok:
  assumes "\<And>r err. lookup r = Inl err \<Longrightarrow> errors_Is err ErrRoleNotFound"
    and "\<And>s err. h_Chain (eng_h e) (eng_resolver e) s [] = Inl err \<Longrightarrow> errors_Is err ErrScopeNotFound \<or> errors_Is err ErrInvalidScope"
  shows "is_ok (build_loop e lookup bs memo eff)"
proof (induction bs arbitrary: memo eff)
  case (Cons b bs)
  have "is_ok (find_role lookup memo (b_Role b))"
    using assms(1) by (auto simp: find_role_def split: option.splits sum.splits)
  with Cons assms(2) show ?case
    by (auto simp: Let_def is_ok_iff split: sum.splits option.splits prod.splits)
qed simp

section \<open>Tenants\<close>

text \<open>Every clause is accounted for: at the root, pinned to a recorded tenant, or unpinned.\<close>

definition reach_ok :: "'s engine \<Rightarrow> effective \<Rightarrow> clause \<Rightarrow> bool" where
  "reach_ok e eff c \<longleftrightarrow>
     (if IsRoot (eng_h e) (cl_Scope c) then eff_hasRoot eff
      else case tenantOf (eng_h e) (cl_Chain c) of
        Some t \<Rightarrow> sc_ID t \<in> eff_tenants eff
      | None \<Rightarrow> eff_unpinned eff)"

definition reach_inv :: "'s engine \<Rightarrow> effective \<Rightarrow> bool" where
  "reach_inv e eff \<longleftrightarrow> finite (eff_tenants eff) \<and> (\<forall>perm. \<forall>c \<in> set (slice_at (eff_grants eff) perm). reach_ok e eff c)"

lemma reach_ok_note:
  "reach_ok e eff c \<Longrightarrow> reach_ok e (note_reach e b chain eff) c"
  "cl_Scope c = b_Scope b \<Longrightarrow> cl_Chain c = chain \<Longrightarrow> reach_ok e (note_reach e b chain eff) c"
  "finite (eff_tenants eff) \<Longrightarrow> finite (eff_tenants (note_reach e b chain eff))"
  by (auto simp: reach_ok_def note_reach_def split: option.splits if_splits)

lemma reach_ok_cong:
  "eff_hasRoot eff = eff_hasRoot eff' \<Longrightarrow> eff_tenants eff = eff_tenants eff' \<Longrightarrow> eff_unpinned eff = eff_unpinned eff' \<Longrightarrow>
     reach_ok e eff c = reach_ok e eff' c"
  by (simp add: reach_ok_def split: option.split)

lemma build_loop_reach:
  assumes "cat_wf (eng_cat e)"
  shows "build_loop e lookup bs memo eff = Inr eff' \<Longrightarrow> memo_ok lookup memo \<Longrightarrow> reach_inv e eff \<Longrightarrow> reach_inv e eff'"
proof (induction bs arbitrary: memo eff)
  case (Cons b bs)
  from Cons.prems(1) show ?case
  proof (cases rule: build_loop_Cons [OF assms Cons.prems(2,1), case_names skip add])
    case (skip memo' eff1)
    have eqs: "eff_grants eff1 = eff_grants eff" "eff_tenants eff1 = eff_tenants eff" "eff_hasRoot eff1 = eff_hasRoot eff"
      "eff_unpinned eff1 = eff_unpinned eff"
      by (subst skip(4), simp)+
    have "reach_ok e eff1 c = reach_ok e eff c" for c by (rule reach_ok_cong) (fact eqs)+
    with eqs Cons.prems(3) have "reach_inv e eff1" by (simp add: reach_inv_def)
    with Cons.IH [OF skip(2,1)] show ?thesis by blast
  next
    case (add memo' eff1 chain)
    let ?base = "eff\<lparr>eff_roleIDs := eff_roleIDs eff1, eff_grants := eff_grants eff1\<rparr>"
    have base: "reach_ok e ?base c = reach_ok e eff c" for c by (rule reach_ok_cong) simp_all
    have "reach_inv e eff1"
    proof (cases "\<exists>perm. binding_clauses e lookup b perm \<noteq> []")
      case True
      then have e1: "eff1 = note_reach e b chain ?base" using add(6) by simp
      have "reach_ok e eff1 c" if "c \<in> set (slice_at (eff_grants eff1) perm)" for c perm
      proof (cases "c \<in> set (binding_clauses e lookup b perm)")
        case True
        then have "cl_Scope c = b_Scope b" "cl_Chain c = chain"
          using binding_clauses_D [OF True] add(3) by auto
        then show ?thesis by (subst e1) (rule reach_ok_note(2))
      next
        case False
        then have "reach_ok e ?base c" using that add(4) Cons.prems(3) by (auto simp: base reach_inv_def)
        then show ?thesis by (subst e1) (rule reach_ok_note(1))
      qed
      moreover have "finite (eff_tenants eff1)"
        by (subst e1) (rule reach_ok_note(3), use Cons.prems(3) in \<open>simp add: reach_inv_def\<close>)
      ultimately show ?thesis by (simp add: reach_inv_def)
    next
      case False
      then have e1: "eff1 = ?base" using add(6) by simp
      have "reach_ok e eff1 c = reach_ok e eff c" "eff_tenants eff1 = eff_tenants eff" for c
        by (subst e1, simp add: base)+
      with False add(4) Cons.prems(3) show ?thesis by (simp add: reach_inv_def)
    qed
    with Cons.IH [OF add(2,1)] show ?thesis by blast
  qed
qed simp

lemma build_reach:
  assumes "engine_wf e" "build e s bs lookup = Inr eff"
  shows "reach_inv e eff"
  by (rule build_loop_reach [OF engine_wf_cat [OF assms(1)] assms(2) [unfolded build_def] memo_ok_empty])
    (simp add: reach_inv_def empty_effective_def)

section \<open>The engine loads what the cache needs\<close>

text \<open>\<^verbatim>\<open>lookupRole\<close> over any reading of the custom roles.\<close>

definition lookup_with :: "'s engine \<Rightarrow> (int \<Rightarrow> role result) \<Rightarrow> role_ref \<Rightarrow> role result" where
  "lookup_with e roles ref =
     (if ref_Key ref \<noteq> [] then
        (case fmlookup (eng_roles e) (ref_Key ref) of
           None \<Rightarrow> Inl (sentinel_with ErrRoleNotFound (''key '' @ go_quote (ref_Key ref)))
         | Some r \<Rightarrow> Inr r)
      else roles (ref_ID ref))"

lemma lookupRole_with: "lookupRole e st = lookup_with e (rd_Role (eng_store e) st)"
  by (simp add: fun_eq_iff lookupRole_def lookup_with_def)

lemma build_loop_cong:
  "(\<And>b. b \<in> set bs \<Longrightarrow> ref_Valid (b_Role b) \<Longrightarrow> lookup (b_Role b) = lookup' (b_Role b)) \<Longrightarrow>
     build_loop e lookup bs memo eff = build_loop e lookup' bs memo eff"
proof (induction bs arbitrary: memo eff)
  case (Cons b bs)
  have IH: "build_loop e lookup bs = build_loop e lookup' bs"
    by (intro ext Cons.IH) (simp add: Cons.prems)
  show ?case
  proof (cases "ref_Valid (b_Role b)")
    case True
    then have "find_role lookup memo (b_Role b) = find_role lookup' memo (b_Role b)"
      using Cons.prems [of b] by (simp add: find_role_def split: option.split)
    then show ?thesis by (simp only: build_loop.simps IH)
  qed (simp only: build_loop.simps IH if_True not_False_eq_True)
qed simp

definition loads_as :: "'s engine \<Rightarrow> subject \<Rightarrow> binding list \<Rightarrow> (int \<Rightarrow> role result) \<Rightarrow> effective option" where
  "loads_as e s bs roles = (case build e s bs (lookup_with e roles) of Inl _ \<Rightarrow> None | Inr eff \<Rightarrow> Some eff)"

lemma loads_as_Some: "loads_as e s bs roles = Some eff \<longleftrightarrow> build e s bs (lookup_with e roles) = Inr eff"
  by (simp add: loads_as_def split: sum.splits)

lemma build_with_cong:
  assumes "\<forall>i \<in> bound_ids bs. roles i = roles' i"
  shows "build e s bs (lookup_with e roles) = build e s bs (lookup_with e roles')"
  unfolding build_def
proof (rule build_loop_cong)
  fix b assume "b \<in> set bs" "ref_Valid (b_Role b)"
  then have "ref_Key (b_Role b) = [] \<Longrightarrow> ref_ID (b_Role b) \<in> bound_ids bs"
    by (auto simp: bound_ids_def ref_Valid_def)
  with assms show "lookup_with e roles (b_Role b) = lookup_with e roles' (b_Role b)" by (simp add: lookup_with_def)
qed

text \<open>The roles an effective access records are those of its bindings, whatever the catalogue says.\<close>

lemma build_loop_roleIDs: "build_loop e lookup bs memo eff = Inr eff' \<Longrightarrow> eff_roleIDs eff' = eff_roleIDs eff \<union> bound_ids bs"
proof (induction bs arbitrary: memo eff)
  case (Cons b bs)
  have keep: "eff_roleIDs (fst (add_grants e b role chain gs eff1 added)) = eff_roleIDs eff1" for role chain gs eff1 added
    by (induction gs arbitrary: eff1 added) (auto simp: Let_def split: option.splits)
  have keep': "addClauses e eff1 b role chain = (eff2, added) \<Longrightarrow> eff_roleIDs eff2 = eff_roleIDs eff1" for eff1 role chain eff2 added
    using keep [of role chain "Resolve role (eng_cat e)" eff1 False] by (simp add: addClauses_def)
  define eff1 where "eff1 = (if ref_ID (b_Role b) > 0 then eff\<lparr>eff_roleIDs := insert (ref_ID (b_Role b)) (eff_roleIDs eff)\<rparr> else eff)"
  note loop = Cons.prems [unfolded build_loop.simps Let_def, folded eff1_def]
  show ?case
  proof (cases "ref_Valid (b_Role b)")
    case False
    with loop Cons.IH show ?thesis by simp
  next
    case True
    then have ids: "eff_roleIDs eff \<union> bound_ids (b # bs) = eff_roleIDs eff1 \<union> bound_ids bs" by (simp add: eff1_def)
    obtain memo' eff2 where "build_loop e lookup bs memo' eff2 = Inr eff'" "eff_roleIDs eff2 = eff_roleIDs eff1"
    proof (cases "find_role lookup memo (b_Role b)")
      case (Inr found)
      show ?thesis
      proof (cases found)
        case (Some role)
        consider err where "h_Chain (eng_h e) (eng_resolver e) (b_Scope b) [] = Inl err"
          | chain eff2 added where "h_Chain (eng_h e) (eng_resolver e) (b_Scope b) [] = Inr chain"
            "addClauses e eff1 b role chain = (eff2, added)"
          by (metis obj_sumE surj_pair)
        then show ?thesis using that loop True Inr Some by cases (auto simp: keep' split: if_splits)
      qed (use that loop True Inr in simp)
    qed (use loop True in simp)
    with Cons.IH ids show ?thesis by metis
  qed
qed simp

interpretation eng: effective_loader "loads_as e" bound_ids for e :: "'s engine"
proof
  show "usesRole eff i \<longleftrightarrow> i \<in> bound_ids bs" if "loads_as e s bs rs = Some eff" for s bs rs eff i
    using build_loop_roleIDs that by (fastforce simp: loads_as_Some build_def usesRole_def empty_effective_def)
  show "loads_as e s bs rs = loads_as e s bs rs'" if "\<forall>i \<in> bound_ids bs. rs i = rs' i" for s bs rs rs'
    unfolding loads_as_def build_with_cong [OF that] ..
qed

section \<open>A fresh cache is not observable\<close>

definition current_access :: "'s engine \<Rightarrow> 's \<Rightarrow> subject \<Rightarrow> effective result" where
  "current_access e st s =
     res_bind (load_bindings e st s) (\<lambda>bs. map_sum Internal id (build e s bs (lookupRole e st)))"

definition cache_fresh :: "'s engine \<Rightarrow> 's world \<Rightarrow> bool" where
  "cache_fresh e w \<longleftrightarrow>
     (\<forall>s entry. fmlookup (ch_entries (w_cache w)) s = Some entry \<longrightarrow> current_access e (w_store w) s = Inr (ce_eff entry))"

lemma w_simps [simp]:
  "w_store (tick w) = w_store w" "w_cache (tick w) = w_cache w" "w_store (eng_Evict w s) = w_store w"
  "w_store (eng_EvictRole w i) = w_store w" "w_store (eng_EvictAll w) = w_store w"
  by (simp_all add: tick_def eng_Evict_def eng_EvictRole_def eng_EvictAll_def)

lemma eng_Effective_cases:
  assumes "cache_fresh e w"
  shows "fst (eng_Effective e w s) = current_access e (w_store w) s
    \<and> w_store (snd (eng_Effective e w s)) = w_store w \<and> cache_fresh e (snd (eng_Effective e w s))"
proof -
  obtain hit c1 where g: "cache_get (w_cache w) (now w) s = (hit, c1)" by force
  have sub: "\<And>s' x. fmlookup (ch_entries c1) s' = Some x \<Longrightarrow> current_access e (w_store w) s' = Inr (ce_eff x)"
    using assms cache_get_sub [of "w_cache w" "now w" s] g by (auto simp: cache_fresh_def)
  show ?thesis
  proof (cases hit)
    case (Some eff)
    then have "current_access e (w_store w) s = Inr eff"
      using assms g cache_get_hit [of "w_cache w" "now w" s eff] by (auto simp: cache_fresh_def)
    with Some g sub show ?thesis by (simp add: eng_Effective_def cache_fresh_def)
  next
    case None
    note unf = eng_Effective_def current_access_def [of e "w_store w" s] cache_fresh_def Let_def
    show ?thesis
    proof (cases "load_bindings e (w_store w) s")
      case (Inl err)
      with None g sub show ?thesis by (simp add: unf)
    next
      case load: (Inr bs)
      show ?thesis
      proof (cases "build e s bs (lookupRole e (w_store w))")
        case (Inl err)
        with load None g sub show ?thesis by (simp add: unf)
      next
        case (Inr eff)
        then have "current_access e (w_store w) s = Inr eff" by (simp add: current_access_def load)
        with Inr load None g sub show ?thesis by (simp add: eng_Effective_def cache_fresh_def Let_def cache_put_lookup)
      qed
    qed
  qed
qed

lemmas eng_Effective_fst = conjunct1 [OF eng_Effective_cases]
lemmas eng_Effective_store = conjunct1 [OF conjunct2 [OF eng_Effective_cases]]
lemmas eng_Effective_fresh = conjunct2 [OF conjunct2 [OF eng_Effective_cases]]

definition prepared :: "'s engine \<Rightarrow> 's \<Rightarrow> ctx \<Rightarrow> string \<Rightarrow> (principal \<times> permission \<times> effective) result" where
  "prepared e st ctx permission =
     (case PrincipalFrom ctx of
        None \<Rightarrow> Inl unauthenticated
      | Some p \<Rightarrow>
          (case cat_Lookup (eng_cat e) permission of
             None \<Rightarrow> Inl (Internal (sentinel_with ErrUnknownPermission (go_quote permission)))
           | Some perm \<Rightarrow> res_bind (current_access e st (pr_Subject p)) (\<lambda>eff. Inr (p, perm, eff))))"

lemma prepare_cases:
  assumes "cache_fresh e w"
  shows "fst (prepare e w ctx permission) = prepared e (w_store w) ctx permission
    \<and> w_store (snd (prepare e w ctx permission)) = w_store w \<and> cache_fresh e (snd (prepare e w ctx permission))"
proof (cases "PrincipalFrom ctx")
  case (Some p)
  obtain r w' where ew: "eng_Effective e w (pr_Subject p) = (r, w')" by force
  then have "r = current_access e (w_store w) (pr_Subject p)" "w_store w' = w_store w" "cache_fresh e w'"
    using eng_Effective_cases [OF assms, of "pr_Subject p"] by simp_all
  with Some ew assms show ?thesis
    by (cases "current_access e (w_store w) (pr_Subject p)") (auto simp: prepare_def prepared_def split: option.splits)
qed (simp add: prepare_def prepared_def assms)

end
