(* ===== verification/Authorize.thy ===== *)
theory Authorize
  imports Decisions
begin

text \<open>
  The properties of the engine's checks, over the stored bindings: what \<open>Require\<close>,
  \<open>RequireOn\<close>, \<open>Access\<close>, \<open>MyAccess\<close> and \<open>HoldersOf\<close>
  answer, that the answers agree with one another, and that a tenant's users stay in their tenant.
\<close>

section \<open>The loops of the checks\<close>

lemma require_loop_spec:
  "\<forall>c \<in> set cs. is_ok (featureOn e perm (cl_Scope c) (cl_Chain c)) \<Longrightarrow>
     require_loop e perm permission cs =
       (if \<exists>c \<in> set cs. featureOn e perm (cl_Scope c) (cl_Chain c) = Inr True then Inr () else Inl (forbidden permission))"
  by (induction cs) (auto simp: is_ok_iff)

lemma require_loop_ok:
  "require_loop e perm permission cs = Inr u \<Longrightarrow> \<exists>c \<in> set cs. featureOn e perm (cl_Scope c) (cl_Chain c) = Inr True"
  by (induction cs) (auto split: sum.splits if_splits)

text \<open>The feature gate of a clause for a record whose chain is \<open>rc\<close>, and what makes a clause pass.\<close>

definition gate :: "'s engine \<Rightarrow> permission \<Rightarrow> resource \<Rightarrow> chain \<Rightarrow> clause \<Rightarrow> bool result" where
  "gate e perm res rc c =
     (if scope_IsZero (res_Scope res) then featureOn e perm (cl_Scope c) (cl_Chain c)
      else featureOn e perm (res_Scope res) rc)"

definition passes :: "'s engine \<Rightarrow> principal \<Rightarrow> permission \<Rightarrow> resource \<Rightarrow> chain \<Rightarrow> clause \<Rightarrow> bool" where
  "passes e p perm res rc c \<longleftrightarrow>
     (IsRoot (eng_h e) (cl_Scope c) \<and> perm_Feature perm = [] \<or> Within rc (cl_Scope c))
     \<and> matchRecord c p perm res \<and> gate e perm res rc c = Inr True"

lemma featureOn_none [simp]: "perm_Feature perm = [] \<Longrightarrow> featureOn e perm s ch = Inr True"
  by (simp add: featureOn_def)

lemma gate_none [simp]: "perm_Feature perm = [] \<Longrightarrow> gate e perm res rc c = Inr True"
  by (simp add: gate_def)

lemma require_on_loop_spec:
  assumes "resourceChain e res = Inr rc" and "rc0 = None \<or> rc0 = Some rc" and "\<forall>c \<in> set cs. is_ok (gate e perm res rc c)"
  shows "require_on_loop e p perm permission res rc0 cs =
    (if \<exists>c \<in> set cs. passes e p perm res rc c then Inr () else Inl (forbidden permission))"
  using assms(2,3)
proof (induction cs arbitrary: rc0)
  case (Cons c cs)
  let ?loop = "\<lambda>rc0 cs. require_on_loop e p perm permission res rc0 cs"
  let ?needs = "\<not> IsRoot (eng_h e) (cl_Scope c) \<or> perm_Feature perm \<noteq> []"
  let ?rest = "if \<exists>c \<in> set cs. passes e p perm res rc c then Inr () else Inl (forbidden permission)"
  have IH: "?loop None cs = ?rest" "?loop (Some rc) cs = ?rest" using Cons by simp_all
  obtain ok where ok: "gate e perm res rc c = Inr ok" using Cons.prems by (auto simp: is_ok_iff)
  show ?case
  proof (cases ?needs)
    case True
    then have "?loop rc0 (c # cs) =
        (if \<not> Within rc (cl_Scope c) then ?loop (Some rc) cs
         else if \<not> matchRecord c p perm res then ?loop (Some rc) cs
         else if ok then Inr () else ?loop (Some rc) cs)"
      using assms(1) Cons.prems(1) ok by (auto simp: gate_def split: if_splits)
    with True ok show ?thesis by (auto simp: IH passes_def)
  next
    case False
    then have "?loop rc0 (c # cs) = (if \<not> matchRecord c p perm res then ?loop rc0 cs else Inr ())"
      by (auto split: option.splits)
    with False Cons.prems(1) show ?thesis by (auto simp: IH passes_def)
  qed
qed simp

lemma open_clauses_ok: "open_clauses e perm cs = Inr opened \<Longrightarrow>
    opened = filter (\<lambda>c. featureOn e perm (cl_Scope c) (cl_Chain c) = Inr True) cs
    \<and> (\<forall>c \<in> set cs. is_ok (featureOn e perm (cl_Scope c) (cl_Chain c)))"
  by (induction cs arbitrary: opened) (auto simp: res_bind_Inr_iff split: sum.splits if_splits)

lemma open_clauses_feature_free [simp]: "perm_Feature perm = [] \<Longrightarrow> open_clauses e perm cs = Inr cs"
  by (induction cs) simp_all

section \<open>From the checks to the stored bindings\<close>

text \<open>What a subject's bindings grant, and that nothing kept the engine from reading them.\<close>

definition stored_access :: "'s engine \<Rightarrow> 's \<Rightarrow> subject \<Rightarrow> binding list \<Rightarrow> bool" where
  "stored_access e st s bs \<longleftrightarrow>
     rd_BindingsFor (eng_store e) st s = Inr bs \<and> is_ok (build e s bs (lookupRole e st))"

definition stored_clauses :: "'s engine \<Rightarrow> 's \<Rightarrow> binding list \<Rightarrow> string \<Rightarrow> clause list" where
  "stored_clauses e st bs permission = concat (map (\<lambda>b. binding_clauses e (lookupRole e st) b permission) bs)"

lemma current_access_ok:
  "current_access e st s = Inr eff \<longleftrightarrow>
     (\<exists>bs. rd_BindingsFor (eng_store e) st s = Inr bs \<and> build e s bs (lookupRole e st) = Inr eff)"
proof (cases "rd_BindingsFor (eng_store e) st s")
  case (Inr bs)
  then show ?thesis
    by (cases "build e s bs (lookupRole e st)") (auto simp: current_access_def load_bindings_def)
qed (simp add: current_access_def load_bindings_def)

lemma stored_access_eff:
  assumes "engine_wf e" "stored_access e st s bs"
  obtains eff where "current_access e st s = Inr eff" "build e s bs (lookupRole e st) = Inr eff"
    "\<And>perm. slice_at (eff_grants eff) perm = stored_clauses e st bs perm"
  using assms build_grants(1) [OF engine_wf_cat [OF assms(1)]]
  by (metis current_access_ok is_ok_iff stored_access_def stored_clauses_def)

lemma prepare_ok:
  assumes "cache_fresh e w" "fst (prepare e w ctx permission) = Inr (p, perm, eff)"
  shows "PrincipalFrom ctx = Some p" "cat_Lookup (eng_cat e) permission = Some perm"
    "current_access e (w_store w) (pr_Subject p) = Inr eff"
  using assms(2) prepare_cases [OF assms(1), of ctx permission]
  by (auto simp: prepared_def res_bind_Inr_iff split: option.splits)

lemma prepare_stored:
  assumes "engine_wf e" "cache_fresh e w" "PrincipalFrom ctx = Some p" "cat_Lookup (eng_cat e) permission = Some perm"
    and "stored_access e (w_store w) (pr_Subject p) bs"
  obtains eff w' where "prepare e w ctx permission = (Inr (p, perm, eff), w')" "w_store w' = w_store w" "cache_fresh e w'"
    "slice_at (eff_grants eff) permission = stored_clauses e (w_store w) bs permission"
proof -
  obtain eff where eff: "current_access e (w_store w) (pr_Subject p) = Inr eff"
      "slice_at (eff_grants eff) permission = stored_clauses e (w_store w) bs permission"
    using stored_access_eff [OF assms(1,5)] by metis
  then have "prepared e (w_store w) ctx permission = Inr (p, perm, eff)" by (simp add: prepared_def assms(3,4))
  with prepare_cases [OF assms(2), of ctx permission] that [of eff "snd (prepare e w ctx permission)"] eff(2)
  show ?thesis by (metis prod.collapse)
qed

lemma stored_clauses_wf: "engine_wf e \<Longrightarrow> c \<in> set (stored_clauses e st bs perm) \<Longrightarrow> clause_wf (eng_h e) (eng_resolver e) c"
  by (auto simp: stored_clauses_def intro: binding_clauses_wf)

lemma RequireOn_stored:
  assumes "engine_wf e" "cache_fresh e w" "PrincipalFrom ctx = Some p" "cat_Lookup (eng_cat e) permission = Some perm"
    and "stored_access e (w_store w) (pr_Subject p) bs" and "resourceChain e res = Inr rc"
    and "\<forall>c. is_ok (gate e perm res rc c)"
  shows "fst (RequireOn e w ctx permission res) =
    (if \<exists>c \<in> set (stored_clauses e (w_store w) bs permission). passes e p perm res rc c
     then Inr () else Inl (forbidden permission))"
proof -
  obtain eff w' where "prepare e w ctx permission = (Inr (p, perm, eff), w')"
      "slice_at (eff_grants eff) permission = stored_clauses e (w_store w) bs permission"
    using prepare_stored [OF assms(1-5)] by metis
  then show ?thesis using assms(6,7) by (simp add: RequireOn_def require_on_loop_spec)
qed

text \<open>A chain resolved without known ancestors holds the ancestors of each of its scopes.\<close>

lemma resourceChain_closed:
  assumes "engine_wf e" "resourceChain e res = Inr rc" "res_Ancestors res = []"
  shows "chain_closed (eng_h e) (eng_resolver e) rc"
proof (cases "scope_IsZero (res_Scope res)")
  case True
  have "h_Chain (eng_h e) (eng_resolver e) (h_Root (eng_h e)) [] = Inr [h_Root (eng_h e)]"
    using assms(1) by (simp add: h_Chain_def valid_scope_Check depth_or_zero_def)
  with True assms(2) show ?thesis by (auto simp: resourceChain_def chain_closed_def)
next
  case False
  show ?thesis
  proof (cases "h_Chain (eng_h e) (eng_resolver e) (res_Scope res) []")
    case (Inl err)
    with False assms(2,3) have "rc = []" by (auto simp: resourceChain_def split: if_splits)
    then show ?thesis by (simp add: chain_closed_def)
  next
    case (Inr c)
    with False assms have "h_Chain (eng_h e) (eng_resolver e) (res_Scope res) [] = Inr rc"
      by (simp add: resourceChain_def)
    then show ?thesis by (rule h_Chain_closed [OF engine_wf_hier [OF assms(1)]])
  qed
qed

text \<open>
  The ancestors that the caller passes along with a record are right when they are scopes above it; then its chain is the one the
  resolver gives.
\<close>

lemma resourceChain_known:
  assumes "engine_wf e" "resourceChain e (res\<lparr>res_Ancestors := []\<rparr>) = Inr rc" "set (res_Ancestors res) \<subseteq> set rc"
  shows "resourceChain e res = Inr rc"
proof (cases "scope_IsZero (res_Scope res) \<or> rc = []")
  case True
  then show ?thesis using assms(2,3) by (auto simp: resourceChain_def)
next
  case False
  then have "h_Chain (eng_h e) (eng_resolver e) (res_Scope res) [] = Inr rc"
    using assms(2) by (auto simp: resourceChain_def split: sum.splits if_splits)
  from h_Chain_known [OF engine_wf_hier [OF assms(1)] this assms(3)] show ?thesis using False by (simp add: resourceChain_def)
qed

lemma resourceChain_root:
  assumes "engine_wf e" "resourceChain e res = Inr rc" "rc \<noteq> []"
  shows "Within rc (h_Root (eng_h e))"
proof (cases "scope_IsZero (res_Scope res)")
  case True
  then show ?thesis using assms by (auto simp: resourceChain_def Within_def)
next
  case False
  then have "h_Chain (eng_h e) (eng_resolver e) (res_Scope res) (res_Ancestors res) = Inr rc"
    using assms(2,3) by (auto simp: resourceChain_def split: sum.splits if_splits)
  then show ?thesis by (rule root_within [OF engine_wf_hier [OF assms(1)]])
qed

lemma clause_wf_root: "clause_wf h r c \<Longrightarrow> IsRoot h (cl_Scope c) \<Longrightarrow> cl_Scope c = h_Root h"
  using h_Chain_shape by (fastforce simp: clause_wf_def intro: valid_scope_root)

text \<open>For a permission without a feature, passing is reaching.\<close>

lemma passes_reaches:
  assumes "engine_wf e" "clause_wf (eng_h e) (eng_resolver e) c" "resourceChain e res = Inr rc" "rc \<noteq> []" "perm_Feature perm = []"
  shows "passes e p perm res rc c \<longleftrightarrow> reaches rc c p perm res"
  using clause_wf_root [OF assms(2)] resourceChain_root [OF assms(1,3,4)] assms(5)
  by (auto simp: passes_def reaches_def)

lemma resourceChain_levels:
  assumes "engine_wf e" "resourceChain e res = Inr rc"
  shows "distinct (map sc_Level rc)"
proof (cases "scope_IsZero (res_Scope res)")
  case True
  then show ?thesis using assms(2) by (auto simp: resourceChain_def)
next
  case False
  show ?thesis
  proof (cases "rc = []")
    case False
    then have "h_Chain (eng_h e) (eng_resolver e) (res_Scope res) (res_Ancestors res) = Inr rc"
      using assms(2) \<open>\<not> scope_IsZero (res_Scope res)\<close> by (auto simp: resourceChain_def split: sum.splits if_splits)
    then show ?thesis by (rule distinct_chain_levels [OF engine_wf_hier [OF assms(1)]])
  qed simp
qed

lemma clause_levels: "clause_wf h r c \<Longrightarrow> distinct (map sc_Level (cl_Chain c))"
  using distinct_chain_levels by (auto simp: clause_wf_def)

section \<open>Properties\<close>

text \<open>
  C32: an engine that \<open>NewEngine\<close> returns is well-formed: its catalogue is frozen and
  consistent, every predefined role is valid and known by its own key, each configured role is
  found under its key, and a catalogue with feature gates has a feature resolver.
\<close>

theorem NewEngine_wf:
  assumes "NewEngine cfg = Inr (e, c)" and "cfg_Catalogue cfg = Some cat" and "cat_wf cat"
    and "cfg_Hierarchy cfg = Some h" and "hier_wf h"
  shows "engine_wf e \<and> cat_frozen (eng_cat e) \<and> cat_Validate (eng_cat e) = Inr () \<and> eng_h e = h
    \<and> (\<forall>r \<in> set (cfg_Roles cfg). PredefinedRole e (role_Key r) = Some r)"
proof -
  obtain cat' roles where f: "freeze cat = Inr cat'" and a: "add_predefined cat' (cfg_Roles cfg) fmempty = Inr roles"
    and feat: "HasFeatures cat \<longrightarrow> cfg_Features cfg \<noteq> None"
    and e: "eng_cat e = cat'" "eng_h e = h" "eng_roles e = roles" "eng_features e = cfg_Features cfg"
    using assms(1,2,4) by (auto simp: NewEngine_def res_bind_Inr_iff split: option.splits if_splits)
  have cat': "cat' = cat\<lparr>cat_frozen := True\<rparr>" "cat_Validate cat = Inr ()"
    using f by (auto simp: freeze_def res_bind_Inr_iff split: sum.splits)
  have same: "HasFeatures cat' = HasFeatures cat" "cat_Validate cat' = Inr ()"
    using cat_Validate_frozen [OF assms(3) cat'(2)] by (simp_all add: cat'(1) HasFeatures_def)
  note p = add_predefined_ok [OF a]
  have "predefined_ok cat' fmempty" by (simp add: predefined_ok_def)
  from p [OF this] have po: "predefined_ok cat' roles" and d: "distinct (map role_Key (cfg_Roles cfg))"
    and look: "\<And>k. fmlookup roles k = List.find (\<lambda>r. role_Key r = k) (cfg_Roles cfg)"
    by (simp_all split: option.splits)
  have "fmlookup roles (role_Key r) = Some r" if "r \<in> set (cfg_Roles cfg)" for r
    using find_distinct_key [OF d that] by (simp add: look)
  then show ?thesis
    using po feat e cat' same assms(3,5) by (auto simp: engine_wf_def predefined_ok_def PredefinedRole_def)
qed

text \<open>
  C2: the cache is not observable. On a world whose cached entries are what the store now yields,
  \<^verbatim>\<open>Effective\<close> answers exactly what it would compute without a cache, for every
  subject and on every error path, and leaves the store as it was and the cache fresh.
\<close>

theorem Effective_equals_uncached:
  assumes "cache_fresh e w"
  shows "fst (eng_Effective e w s) = current_access e (w_store w) s
    \<and> w_store (snd (eng_Effective e w s)) = w_store w \<and> cache_fresh e (snd (eng_Effective e w s))"
  by (rule eng_Effective_cases [OF assms])

text \<open>
  C3: loads interleaved with writes never leave stale access behind. In every reachable state of
  the system in which loads read bindings and roles one at a time, while writes commit and evict
  in any order, a cache hit of a subject is the access the store now yields, unless an eviction
  that concerns the subject is still owed by a write that has already committed.
\<close>

theorem cache_never_stale:
  assumes "cache_reachable (loads_as e) bound_ids \<sigma>" and "fst (cache_get (sy_cache \<sigma>) time s) = Some eff"
    and "EvSubject s \<notin># sy_owed \<sigma>" and "\<forall>i. usesRole eff i \<longrightarrow> EvRole i \<notin># sy_owed \<sigma>"
  shows "build e s (sy_bindings \<sigma> s) (lookup_with e (sy_roles \<sigma>)) = Inr eff"
  using eng.hit_fresh [OF assms] by (simp add: loads_as_Some)

text \<open>
  C1: \<^verbatim>\<open>RequireOn\<close> decides by the stored bindings. It passes exactly when some
  binding of the principal yields a clause of the permission that contains the record, reaches it
  by its qualifier and attribute constraints and whose feature gate is open; otherwise it answers
  \<open>forbidden\<close>. A root clause of a permission without a feature contains every record.
\<close>

theorem RequireOn_iff:
  assumes "engine_wf e" and "cache_fresh e w" and "PrincipalFrom ctx = Some p"
    and "cat_Lookup (eng_cat e) permission = Some perm" and "stored_access e (w_store w) (pr_Subject p) bs"
    and "resourceChain e res = Inr rc" and "\<forall>c. is_ok (gate e perm res rc c)"
  shows "fst (RequireOn e w ctx permission res) =
    (if \<exists>b \<in> set bs. \<exists>c \<in> set (binding_clauses e (lookupRole e (w_store w)) b permission). passes e p perm res rc c
     then Inr () else Inl (forbidden permission))"
  using RequireOn_stored [OF assms] by (simp add: stored_clauses_def)

text \<open>
  Deny by default. Whatever the resolvers answer, when \<^verbatim>\<open>Require\<close> passes, the
  context has a valid principal and one of its stored bindings names a role whose grants include
  the permission, at a scope that resolves; an organization-only permission is held through a
  binding at the root.
\<close>

theorem Require_needs_binding:
  assumes "engine_wf e" and "cache_fresh e w" and "fst (Require e w ctx permission) = Inr ()"
  shows "\<exists>p perm bs b role g. PrincipalFrom ctx = Some p \<and> subject_Valid (pr_Subject p)
    \<and> cat_Lookup (eng_cat e) permission = Some perm
    \<and> rd_BindingsFor (eng_store e) (w_store w) (pr_Subject p) = Inr bs \<and> b \<in> set bs
    \<and> lookupRole e (w_store w) (b_Role b) = Inr role \<and> g \<in> set (Resolve role (eng_cat e)) \<and> g_Permission g = permission
    \<and> is_ok (h_Chain (eng_h e) (eng_resolver e) (b_Scope b) [])
    \<and> (perm_OrganizationOnly perm \<longrightarrow> IsRoot (eng_h e) (b_Scope b))"
proof -
  obtain p perm eff w' where prep: "prepare e w ctx permission = (Inr (p, perm, eff), w')"
    and loop: "require_loop e perm permission (slice_at (eff_grants eff) permission) = Inr ()"
    using assms(3) by (auto simp: Require_def split: prod.splits sum.splits)
  have P: "PrincipalFrom ctx = Some p" "cat_Lookup (eng_cat e) permission = Some perm"
    "current_access e (w_store w) (pr_Subject p) = Inr eff"
    using prepare_ok [OF assms(2), of ctx permission] prep by simp_all
  then obtain bs where bs: "rd_BindingsFor (eng_store e) (w_store w) (pr_Subject p) = Inr bs"
      "build e (pr_Subject p) bs (lookupRole e (w_store w)) = Inr eff"
    by (auto simp: current_access_ok)
  obtain c where "c \<in> set (slice_at (eff_grants eff) permission)" using require_loop_ok [OF loop] by blast
  then obtain b where "b \<in> set bs" "c \<in> set (binding_clauses e (lookupRole e (w_store w)) b permission)"
    by (auto simp: build_grants(1) [OF engine_wf_cat [OF assms(1)] bs(2)])
  moreover have "subject_Valid (pr_Subject p)" using P(1) by (auto simp: PrincipalFrom_def split: option.splits if_splits)
  ultimately show ?thesis using binding_clauses_D P bs(1) by (fastforce simp: is_ok_iff)
qed

lemma RequireOn_reaches:
  assumes "engine_wf e" and "cache_fresh e w" and "PrincipalFrom ctx = Some p"
    and "cat_Lookup (eng_cat e) permission = Some perm" and "perm_Feature perm = []"
    and "stored_access e (w_store w) (pr_Subject p) bs"
    and "resourceChain e (res\<lparr>res_Ancestors := []\<rparr>) = Inr rc" and "rc \<noteq> []" and "set (res_Ancestors res) \<subseteq> set rc"
  shows "\<exists>set'. fst (Access e w ctx permission) = Inr set' \<and> as_Principal set' = p
    \<and> (fst (RequireOn e w ctx permission res) = Inr () \<longleftrightarrow> (\<exists>c \<in> set (as_Clauses set'). reaches rc c p perm res))"
proof -
  let ?cs = "stored_clauses e (w_store w) bs permission"
  have rc: "resourceChain e res = Inr rc" by (rule resourceChain_known [OF assms(1,7,9)])
  have closed: "chain_closed (eng_h e) (eng_resolver e) rc" by (rule resourceChain_closed [OF assms(1,7)]) simp
  obtain eff w' where prep: "prepare e w ctx permission = (Inr (p, perm, eff), w')"
      "slice_at (eff_grants eff) permission = ?cs"
    using prepare_stored [OF assms(1-4,6)] by metis
  have wf: "\<forall>c \<in> set ?cs. clause_wf (eng_h e) (eng_resolver e) c" using stored_clauses_wf [OF assms(1)] by blast
  have "fst (RequireOn e w ctx permission res) = Inr () \<longleftrightarrow> (\<exists>c \<in> set ?cs. passes e p perm res rc c)"
    using RequireOn_stored [OF assms(1-4,6) rc] assms(5) by simp
  also have "\<dots> \<longleftrightarrow> (\<exists>c \<in> set ?cs. reaches rc c p perm res)"
    using passes_reaches [OF assms(1) _ rc assms(8,5)] wf by blast
  also have "\<dots> \<longleftrightarrow> (\<exists>c \<in> set (prune ?cs). reaches rc c p perm res)"
    by (rule prune_reaches [OF wf closed, symmetric])
  finally show ?thesis using prep assms(5) by (simp add: Access_def)
qed

text \<open>
  C24: lists and records agree. For a permission without a feature, the clauses
  \<^verbatim>\<open>Access\<close> returns to filter a list reach a record exactly when
  \<^verbatim>\<open>RequireOn\<close> passes on it, for every record whose place resolves, described by its scope alone or with ancestors
  that are scopes above it as the resolver has them.
\<close>

theorem Access_agrees_with_RequireOn:
  assumes "engine_wf e" and "cache_fresh e w" and "PrincipalFrom ctx = Some p"
    and "cat_Lookup (eng_cat e) permission = Some perm" and "perm_Feature perm = []"
    and "stored_access e (w_store w) (pr_Subject p) bs"
    and "resourceChain e (res\<lparr>res_Ancestors := []\<rparr>) = Inr rc" and "rc \<noteq> []" and "set (res_Ancestors res) \<subseteq> set rc"
  shows "\<exists>set'. fst (Access e w ctx permission) = Inr set' \<and> as_Principal set' = p
    \<and> (fst (RequireOn e w ctx permission res) = Inr () \<longleftrightarrow> (\<exists>c \<in> set (as_Clauses set'). reaches rc c p perm res))"
  by (rule RequireOn_reaches [OF assms])

text \<open>
  C23: tenants are isolated. When \<^verbatim>\<open>Tenant\<close> says that all of a subject's access is
  in one tenant, \<^verbatim>\<open>RequireOn\<close> passes only on records of that tenant, described by their scope alone or with
  ancestors that are scopes above it as the resolver has them (the code takes the caller's word for them).
\<close>

theorem tenant_isolation:
  assumes "engine_wf e" and "cache_fresh e w" and "PrincipalFrom ctx = Some p"
    and "cat_Lookup (eng_cat e) permission = Some perm" and "stored_access e (w_store w) (pr_Subject p) bs"
    and "build e (pr_Subject p) bs (lookupRole e (w_store w)) = Inr eff" and "Tenant eff = Some t"
    and "resourceChain e (res\<lparr>res_Ancestors := []\<rparr>) = Inr rc" and "set (res_Ancestors res) \<subseteq> set rc"
    and "\<forall>c. is_ok (gate e perm res rc c)" and "fst (RequireOn e w ctx permission res) = Inr ()"
  shows "\<exists>ten. tenantOf (eng_h e) rc = Some ten \<and> sc_ID ten = t"
proof -
  have rc: "resourceChain e res = Inr rc" by (rule resourceChain_known [OF assms(1,8,9)])
  have closed: "chain_closed (eng_h e) (eng_resolver e) rc" by (rule resourceChain_closed [OF assms(1,8)]) simp
  obtain c where c: "c \<in> set (stored_clauses e (w_store w) bs permission)" "passes e p perm res rc c"
    using RequireOn_stored [OF assms(1-5) rc assms(10)] assms(11) by (auto split: if_splits)
  have wf: "clause_wf (eng_h e) (eng_resolver e) c" by (rule stored_clauses_wf [OF assms(1) c(1)])
  have inv: "reach_inv e eff" by (rule build_reach [OF assms(1,6)])
  have "reach_ok e eff c"
    using inv c(1) build_grants(1) [OF engine_wf_cat [OF assms(1)] assms(6)] by (auto simp: reach_inv_def stored_clauses_def)
  moreover have "\<not> eff_hasRoot eff" "\<not> eff_unpinned eff" "eff_tenants eff = {t}"
    using Tenant_singleton assms(7) by blast+
  ultimately obtain ten where ten: "tenantOf (eng_h e) (cl_Chain c) = Some ten" "sc_ID ten = t"
      and nroot: "\<not> IsRoot (eng_h e) (cl_Scope c)"
    by (auto simp: reach_ok_def split: if_splits option.splits)
  have within: "Within rc (cl_Scope c)" using c(2) nroot by (simp add: passes_def)
  then have sub: "set (cl_Chain c) \<subseteq> set rc"
    using closed wf by (auto simp: chain_closed_def clause_wf_def Within_def)
  have "tenantOf (eng_h e) rc = Some ten"
    using ten(1) sub resourceChain_levels [OF assms(1) rc] by (auto simp: tenantOf_def chain_At_iff clause_levels [OF wf] split: if_splits)
  with ten(2) show ?thesis by blast
qed

text \<open>
  \<^verbatim>\<open>RequireRecord\<close> tells nobody that a record exists which they may not view:
  it passes exactly when both the view and the action pass, and answers \<open>forbidden\<close>
  only after the view has passed (given that \<^verbatim>\<open>notFound\<close> itself is not a refusal).
\<close>

theorem RequireRecord_hides:
  assumes "fst (RequireRecord e w ctx res view action notFound) = r" and "\<not> errors_Is notFound ErrForbidden"
  shows "(r = Inr () \<longrightarrow> fst (RequireOn e w ctx view res) = Inr ())
    \<and> (r = Inr () \<longrightarrow> action \<noteq> view \<longrightarrow> fst (RequireOn e (snd (RequireOn e w ctx view res)) ctx action res) = Inr ())
    \<and> (\<forall>err. r = Inl err \<and> errors_Is err ErrForbidden \<longrightarrow> fst (RequireOn e w ctx view res) = Inr ())
    \<and> (\<forall>err. fst (RequireOn e w ctx view res) = Inl err \<and> errors_Is err ErrForbidden \<longrightarrow> r = Inl notFound)"
proof -
  obtain v w1 where v: "RequireOn e w ctx view res = (v, w1)" by force
  show ?thesis
    using assms v by (cases v) (auto simp: RequireRecord_def split: if_splits)
qed

section \<open>The payload agrees with the checks\<close>

lemma my_access_loop_spec:
  "my_access_loop e eff idents out = Inr out' \<Longrightarrow> distinct idents \<Longrightarrow>
     (\<forall>i. i \<in> fmdom' (ma_Permissions out') \<longleftrightarrow> i \<in> fmdom' (ma_Permissions out) \<or> (i \<in> set idents
        \<and> (\<exists>opened. open_clauses e (case cat_Lookup (eng_cat e) i of Some p \<Rightarrow> p | None \<Rightarrow> zero_permission [])
              (slice_at (eff_grants eff) i) = Inr opened \<and> opened \<noteq> [])))
     \<and> (\<forall>i \<in> set idents. is_ok (open_clauses e (case cat_Lookup (eng_cat e) i of Some p \<Rightarrow> p | None \<Rightarrow> zero_permission [])
          (slice_at (eff_grants eff) i)))
     \<and> set (ma_Unavailable out') = set (ma_Unavailable out) \<union> {i \<in> set idents. i \<notin> fmdom' (ma_Permissions out') \<or> i \<in> fmdom' (ma_Permissions out) \<and>
          open_clauses e (case cat_Lookup (eng_cat e) i of Some p \<Rightarrow> p | None \<Rightarrow> zero_permission []) (slice_at (eff_grants eff) i) = Inr []}"
proof (induction idents arbitrary: out)
  case (Cons i idents)
  let ?op = "\<lambda>i. open_clauses e (case cat_Lookup (eng_cat e) i of Some p \<Rightarrow> p | None \<Rightarrow> zero_permission []) (slice_at (eff_grants eff) i)"
  obtain opened where o: "?op i = Inr opened"
    using Cons.prems(1) by (auto simp: Let_def res_bind_Inr_iff)
  show ?case
  proof (cases "opened = []")
    case True
    then have step: "my_access_loop e eff idents (out\<lparr>ma_Unavailable := ma_Unavailable out @ [i]\<rparr>) = Inr out'"
      using Cons.prems(1) o by (simp add: Let_def)
    from Cons.IH [OF step] Cons.prems(2) True o show ?thesis by auto
  next
    case False
    then have step: "my_access_loop e eff idents
        (out\<lparr>ma_Permissions := fmupd i (describe e (prune opened)) (ma_Permissions out)\<rparr>) = Inr out'"
      using Cons.prems(1) o by (simp add: Let_def)
    from Cons.IH [OF step] Cons.prems(2) False o show ?thesis by auto
  qed
qed simp

lemma eff_grants_dom: "slice_at (eff_grants eff) i \<noteq> [] \<Longrightarrow> i \<in> set (Permissions eff)"
  by (auto simp: Permissions_def slice_at_def in_fmdom'_iff split: option.splits)

text \<open>
  The frontend sees what the backend decides. A permission is listed in the
  \<^verbatim>\<open>MyAccess\<close> payload exactly when \<^verbatim>\<open>Require\<close> passes for it.
\<close>

theorem MyAccess_lists_Require:
  assumes "engine_wf e" and "cache_fresh e w" and "fst (MyAccess e w ctx) = Inr out"
  shows "permission \<in> fmdom' (ma_Permissions out) \<longleftrightarrow> fst (Require e w ctx permission) = Inr ()"
proof -
  obtain p eff w' out0 where p: "PrincipalFrom ctx = Some p" and ew: "eng_Effective e w (pr_Subject p) = (Inr eff, w')"
    and loop: "my_access_loop e eff (Permissions eff) \<lparr>ma_Subject = pr_Subject p, ma_Root = snd (Tenants eff),
        ma_Permissions = fmempty, ma_Unavailable = []\<rparr> = Inr out0"
    and out: "out = out0\<lparr>ma_Unavailable := sort (ma_Unavailable out0)\<rparr>"
    using assms(3) by (auto simp: MyAccess_def res_bind_Inr_iff split: option.splits prod.splits sum.splits)
  have cur: "current_access e (w_store w) (pr_Subject p) = Inr eff"
    using eng_Effective_fst [OF assms(2), of "pr_Subject p"] ew by simp
  let ?perm = "case cat_Lookup (eng_cat e) permission of Some p \<Rightarrow> p | None \<Rightarrow> zero_permission []"
  let ?cs = "slice_at (eff_grants eff) permission"
  have dom: "permission \<in> fmdom' (ma_Permissions out) \<longleftrightarrow> permission \<in> set (Permissions eff)
      \<and> (\<exists>opened. open_clauses e ?perm ?cs = Inr opened \<and> opened \<noteq> [])"
    and ok: "permission \<in> set (Permissions eff) \<Longrightarrow> is_ok (open_clauses e ?perm ?cs)"
    using my_access_loop_spec [OF loop] out by (auto simp: Permissions_def)
  show ?thesis
  proof (cases "?cs = []")
    case True
    have "fst (Require e w ctx permission) \<noteq> Inr ()"
    proof
      assume "fst (Require e w ctx permission) = Inr ()"
      then obtain p' perm eff' w'' where pr: "prepare e w ctx permission = (Inr (p', perm, eff'), w'')"
        and l: "require_loop e perm permission (slice_at (eff_grants eff') permission) = Inr ()"
        by (auto simp: Require_def split: prod.splits sum.splits)
      have "eff' = eff" using prepare_ok [OF assms(2), of ctx permission p' perm eff'] pr p cur by simp
      with l True show False by simp
    qed
    with True dom show ?thesis by simp
  next
    case False
    obtain bs where "build e (pr_Subject p) bs (lookupRole e (w_store w)) = Inr eff" using cur current_access_ok by metis
    then obtain perm where perm: "cat_Lookup (eng_cat e) permission = Some perm" using build_known [OF assms(1) _ False] by blast
    obtain opened where o: "open_clauses e perm ?cs = Inr opened"
      using ok [OF eff_grants_dom [OF False]] perm by (auto simp: is_ok_iff)
    note oc = open_clauses_ok [OF o]
    have "prepared e (w_store w) ctx permission = Inr (p, perm, eff)" by (simp add: prepared_def p perm cur)
    then have "fst (prepare e w ctx permission) = Inr (p, perm, eff)" using prepare_cases [OF assms(2)] by simp
    then have "fst (Require e w ctx permission) = require_loop e perm permission ?cs"
      by (cases "prepare e w ctx permission") (simp add: Require_def)
    then have "fst (Require e w ctx permission) = Inr () \<longleftrightarrow> (\<exists>c \<in> set ?cs. featureOn e perm (cl_Scope c) (cl_Chain c) = Inr True)"
      using oc by (simp add: require_loop_spec)
    also have "\<dots> \<longleftrightarrow> opened \<noteq> []" using oc by (simp add: filter_empty_conv)
    finally show ?thesis using dom perm o eff_grants_dom [OF False] by simp
  qed
qed

section \<open>Holders\<close>

lemma collect_holders_ok:
  "collect_holders holders st cat permission roles = Inr bs \<Longrightarrow>
     b \<in> set bs \<longleftrightarrow> (\<exists>role \<in> set roles. grants_perm role cat permission \<and> (\<exists>held. holders st (role_Ref role) = Inr held \<and> b \<in> set held))"
proof (induction roles arbitrary: bs)
  case (Cons r roles)
  show ?case
  proof (cases "grants_perm r cat permission")
    case True
    with Cons.prems obtain held rest where "holders st (role_Ref r) = Inr held"
        "collect_holders holders st cat permission roles = Inr rest" "bs = held @ rest"
      by (auto simp: res_bind_Inr_iff split: sum.splits)
    with Cons.IH [of rest] True show ?thesis by fastforce
  next
    case False
    with Cons show ?thesis by simp
  qed
qed simp

lemma ms_HoldersOf_mem:
  "(\<exists>held. ms_HoldersOf m ref = Inr held \<and> b \<in> set held) \<longleftrightarrow> ref_Valid ref \<and> b \<in> set (map_values (ms_bindings m)) \<and> b_Role b = ref"
  by (auto simp: ms_HoldersOf_def set_filterBindings set_map_values)

lemma first_subjects_snoc:
  "first_subjects (bs @ [b]) = (if b_Subject b \<in> set (first_subjects bs) then first_subjects bs else first_subjects bs @ [b_Subject b])"
  by (simp add: first_subjects_def)

lemma first_subjects_spec: "distinct (first_subjects bs) \<and> set (first_subjects bs) = b_Subject ` set bs"
  by (induction bs rule: rev_induct) (auto simp: first_subjects_snoc, simp_all add: first_subjects_def)

text \<open>
  \<^verbatim>\<open>HoldersOf\<close> finds everyone who can do it. Over the in-memory store it answers
  each subject once, and exactly those with a stored binding whose role, as the engine looks it up,
  grants the permission.
\<close>

theorem HoldersOf_iff:
  assumes "engine_wf e" and "mem_inv m" and "eng_store e = mem_reader"
    and "eng_lister e = Some ms_ListRoles" and "eng_holders e = Some ms_HoldersOf"
    and "\<forall>b \<in> set (map_values (ms_bindings m)). ref_Valid (b_Role b) \<and> ref_ID (b_Role b) \<ge> 0"
    and "HoldersOf e m permission = Inr out"
  shows "distinct out \<and> (\<forall>s. s \<in> set out \<longleftrightarrow>
    (\<exists>b \<in> set (map_values (ms_bindings m)). b_Subject b = s
       \<and> (\<exists>role. lookupRole e m (b_Role b) = Inr role \<and> grants_perm role (eng_cat e) permission)))"
proof -
  let ?roles = "PredefinedRoles e @ sort_key role_ID (map_values (ms_roles m))"
  obtain bs where bs: "collect_holders ms_HoldersOf m (eng_cat e) permission ?roles = Inr bs"
    and out: "out = first_subjects (sort_key b_ID bs)"
    using assms(4,5,7) by (auto simp: HoldersOf_def ms_ListRoles_def res_bind_Inr_iff split: if_splits)
  have known: "(\<exists>role \<in> set ?roles. role_Ref role = ref \<and> G role) \<longleftrightarrow> (\<exists>role. lookupRole e m ref = Inr role \<and> G role)"
    if r: "ref_Valid ref" "ref_ID ref \<ge> 0" for ref G
  proof -
    have "role \<in> set ?roles \<and> role_Ref role = ref \<longleftrightarrow> lookupRole e m ref = Inr role" for role
    proof (cases "ref_Key ref = []")
      case True
      have "role \<in> set (PredefinedRoles e) \<Longrightarrow> role_Ref role \<noteq> ref"
        using True by (auto simp: PredefinedRoles_def set_map_values dest!: engine_wf_role [OF assms(1)])
      moreover have "(\<exists>k. fmlookup (ms_roles m) k = Some role) \<and> role_Ref role = ref \<longleftrightarrow> fmlookup (ms_roles m) (ref_ID ref) = Some role"
        using mem_inv_role [OF assms(2)] True by (cases ref) (auto simp: role_Ref_def)
      ultimately show ?thesis
        using True by (auto simp: lookupRole_def assms(3) mem_reader_def ms_Role_def set_map_values split: option.splits)
    next
      case False
      then have "ref_ID ref = 0" using r by (auto simp: ref_Valid_def)
      then have "(\<exists>k. fmlookup (eng_roles e) k = Some role) \<and> role_Ref role = ref \<longleftrightarrow> fmlookup (eng_roles e) (ref_Key ref) = Some role"
        using engine_wf_role [OF assms(1), of _ role] by (cases ref) fastforce
      moreover have "role \<in> set (map_values (ms_roles m)) \<Longrightarrow> role_Ref role \<noteq> ref"
        using mem_inv_role [OF assms(2)] False by (auto simp: set_map_values role_Ref_def)
      ultimately show ?thesis
        using False by (auto simp: lookupRole_def PredefinedRoles_def set_map_values split: option.splits)
    qed
    then show ?thesis by blast
  qed
  have "b \<in> set bs \<longleftrightarrow> b \<in> set (map_values (ms_bindings m))
      \<and> (\<exists>role. lookupRole e m (b_Role b) = Inr role \<and> grants_perm role (eng_cat e) permission)" for b
  proof -
    have "b \<in> set bs \<longleftrightarrow> b \<in> set (map_values (ms_bindings m))
        \<and> (\<exists>role \<in> set ?roles. role_Ref role = b_Role b \<and> grants_perm role (eng_cat e) permission)"
      unfolding collect_holders_ok [OF bs] ms_HoldersOf_mem using assms(6) by metis
    then show ?thesis
      using known [of "b_Role b" "\<lambda>role. grants_perm role (eng_cat e) permission"] assms(6) by (metis (no_types, lifting))
  qed
  then show ?thesis using first_subjects_spec [of "sort_key b_ID bs"] by (auto simp: out)
qed

section \<open>A concrete engine\<close>

definition sample_role :: role where
  "sample_role = \<lparr>role_ID = 0, role_Key = ''admin'', role_Name = ''Administrator'', role_Description = [],
     role_Grants = Grants QualifierAll [''crm.lead:view''], role_Attrs = fmempty, role_Computed = None\<rparr>"

definition sample_config :: "mem_store config" where
  "sample_config = \<lparr>cfg_Catalogue = Some sample_catalogue, cfg_Hierarchy = Some sample_hierarchy, cfg_Roles = [sample_role],
     cfg_Store = Some mem_reader, cfg_Lister = Some ms_ListRoles, cfg_Holders = Some ms_HoldersOf,
     cfg_Resolver = Some sample_resolver, cfg_Features = None, cfg_Cache = None\<rparr>"

definition sample_engine :: "mem_store engine" where
  "sample_engine = \<lparr>eng_cat = sample_catalogue\<lparr>cat_frozen := True\<rparr>, eng_h = sample_hierarchy,
     eng_roles = fmupd ''admin'' sample_role fmempty, eng_store = mem_reader, eng_lister = Some ms_ListRoles,
     eng_holders = Some ms_HoldersOf, eng_resolver = sample_resolver, eng_features = None\<rparr>"

lemma sample_evaluations:
  "cat_Validate sample_catalogue = Inr ()" "HasFeatures sample_catalogue = False"
  "Role_Validate (sample_catalogue\<lparr>cat_frozen := True\<rparr>) sample_role = Inr ()"
  by code_simp+

lemma sample_engine_built: "NewEngine sample_config = Inr (sample_engine, NewCache DefaultCacheTTL)"
  by (simp add: NewEngine_def sample_config_def sample_evaluations freeze_def sample_engine_def)
    (simp add: sample_role_def)

lemma sample_lookup: "cat_Lookup sample_catalogue ''crm.lead:view'' = Some sample_view"
  by code_simp

definition sample_world :: "mem_store world" where
  "sample_world = \<lparr>w_store = sample_store, w_cache = NewCache DefaultCacheTTL, w_clock = (\<lambda>n. int n), w_ticks = 0\<rparr>"

definition stored_binding :: binding where
  "stored_binding = sample_binding\<lparr>b_ID := 1, b_CreatedBy := 1, b_CreatedAt := 0\<rparr>"

text \<open>The clause user 42 holds at dealer 3, and the record at location 7 of that dealer.\<close>

definition sample_held :: clause where
  "sample_held = dealer_clause\<lparr>cl_Source := \<lparr>src_BindingID = 1, src_Role = b_Role sample_binding, src_RoleName = ''Administrator''\<rparr>\<rparr>"

theorem NewEngine_wf_witness: "engine_wf sample_engine \<and> PredefinedRole sample_engine ''admin'' = Some sample_role"
proof -
  have "cfg_Catalogue sample_config = Some sample_catalogue" "cfg_Hierarchy sample_config = Some sample_hierarchy"
    "sample_role \<in> set (cfg_Roles sample_config)" "role_Key sample_role = ''admin''"
    by (simp_all add: sample_config_def sample_role_def)
  with NewEngine_wf [OF sample_engine_built _ sample_catalogue_wf _ sample_hierarchy_wf] show ?thesis by metis
qed

lemma sample_engine_wf: "engine_wf sample_engine"
  using sample_catalogue_wf sample_hierarchy_wf sample_evaluations
  by (auto simp: engine_wf_def sample_engine_def HasFeatures_def sample_role_def split: if_splits)

lemma sample_engine_fields [simp]:
  "eng_cat sample_engine = sample_catalogue\<lparr>cat_frozen := True\<rparr>" "eng_h sample_engine = sample_hierarchy"
  "eng_store sample_engine = mem_reader" "eng_resolver sample_engine = sample_resolver"
  "eng_lister sample_engine = Some ms_ListRoles" "eng_holders sample_engine = Some ms_HoldersOf"
  by (simp_all add: sample_engine_def)

lemma sample_world_fresh: "cache_fresh sample_engine sample_world"
  by (simp add: cache_fresh_def sample_world_def NewCache_def)

lemma sample_bindings: "rd_BindingsFor mem_reader sample_store (pr_Subject (User 42 0)) = Inr [stored_binding]"
  by (simp add: mem_reader_def ms_BindingsFor_def filterBindings_def sample_store_bindings stored_binding_def)
    (simp add: sample_binding_def User_def)

lemma sample_lookupRole: "lookupRole sample_engine st (b_Role sample_binding) = Inr sample_role"
  by (simp add: lookupRole_def sample_engine_def sample_binding_def)

lemma sample_build:
  "build sample_engine (pr_Subject (User 42 0)) [stored_binding] (lookupRole sample_engine sample_store) =
     Inr \<lparr>eff_subject = pr_Subject (User 42 0), eff_grants = fmupd ''crm.lead:view'' [sample_held] fmempty,
       eff_roleIDs = {}, eff_tenants = {3}, eff_hasRoot = False, eff_unpinned = False\<rparr>"
proof -
  have r: "ref_Valid (b_Role sample_binding)" "ref_ID (b_Role sample_binding) = 0" "b_Scope stored_binding = mk_scope ''dealer'' 3"
    "b_Role stored_binding = b_Role sample_binding" "b_ID stored_binding = 1"
    by (simp_all add: stored_binding_def sample_binding_def ref_Valid_def)
  have g: "Resolve sample_role cat = [\<lparr>g_Permission = ''crm.lead:view'', g_Qualifier = QualifierAll\<rparr>]" for cat
    by (simp add: Resolve_def sample_role_def Grants_def)
  have t: "tenantOf sample_hierarchy [mk_scope ''dealer'' 3, mk_scope ''organization'' 0] = Some (mk_scope ''dealer'' 3)"
    "IsRoot sample_hierarchy (mk_scope ''dealer'' 3) = False"
    by code_simp+
  have p: "perm_ID sample_view = ''crm.lead:view''" "perm_OrganizationOnly sample_view = False" "attrsFor sample_view a = fmempty" for a
    by (simp_all add: sample_view_def opt_Ownable_def zero_permission_def attrsFor_def)
  show ?thesis
    by (simp add: build_def find_role_def sample_lookupRole r sample_chain addClauses_def g sample_lookup Let_def
        qualifier_Valid_def note_reach_def t p empty_effective_def slice_append_def sample_held_def dealer_clause_def)
      (simp add: qualifier_defs sample_role_def)
qed

lemma sample_store_inv: "mem_inv sample_store"
  using mem_inv_writes(3) [OF NewMemoryStore_inv] by (simp add: sample_store_def)

lemma sample_access: "stored_access sample_engine (w_store sample_world) (pr_Subject (User 42 0)) [stored_binding]"
  by (simp add: stored_access_def sample_world_def sample_bindings sample_build)

lemma sample_principal: "PrincipalFrom (Some (User 42 0)) = Some (User 42 0)"
  by code_simp

lemma sample_view_known: "cat_Lookup (eng_cat sample_engine) ''crm.lead:view'' = Some sample_view"
  by (simp add: sample_lookup)

lemma sample_view_free: "perm_Feature sample_view = []"
  by code_simp

text \<open>The record as its repository describes it, with the dealer it knows.\<close>

definition known_record :: resource where
  "known_record = sample_record\<lparr>res_Ancestors := [mk_scope ''dealer'' 3]\<rparr>"

lemma sample_resource: "resourceChain sample_engine sample_record = Inr sample_record_chain"
  "resourceChain sample_engine (known_record\<lparr>res_Ancestors := []\<rparr>) = Inr sample_record_chain"
  "set (res_Ancestors known_record) \<subseteq> set sample_record_chain"
  by (simp_all add: resourceChain_def known_record_def sample_record_def sample_chain scope_IsZero_def)

lemma sample_clauses:
  "binding_clauses sample_engine (lookupRole sample_engine sample_store) stored_binding ''crm.lead:view'' = [sample_held]"
  using build_grants(1) [OF engine_wf_cat [OF sample_engine_wf] sample_build, of "''crm.lead:view''"]
  by (simp add: slice_at_def)

lemma sample_passes: "passes sample_engine (User 42 0) sample_view sample_record sample_record_chain sample_held"
  by (simp add: passes_def sample_held_def dealer_clause_def Within_def matchRecord_def qualifierMatch_def attrsMatch_def
      gate_def sample_view_free)

lemma known_passes: "passes sample_engine (User 42 0) sample_view known_record sample_record_chain sample_held"
  by (simp add: passes_def sample_held_def dealer_clause_def Within_def matchRecord_def qualifierMatch_def attrsMatch_def
      gate_def sample_view_free)

theorem Effective_equals_uncached_witness:
  "fst (eng_Effective sample_engine sample_world (pr_Subject (User 42 0)))
   = current_access sample_engine sample_store (pr_Subject (User 42 0))"
  using Effective_equals_uncached [OF sample_world_fresh, of "pr_Subject (User 42 0)"]
  by (simp add: sample_world_def)

theorem RequireOn_iff_witness:
  "fst (RequireOn sample_engine sample_world (Some (User 42 0)) ''crm.lead:view'' sample_record) = Inr ()"
  by (subst RequireOn_iff [OF sample_engine_wf sample_world_fresh sample_principal sample_view_known sample_access sample_resource(1)])
    (use sample_passes in \<open>simp_all add: sample_view_free sample_world_def sample_clauses\<close>)

lemma sample_Require: "fst (Require sample_engine sample_world (Some (User 42 0)) ''crm.lead:view'') = Inr ()"
proof -
  obtain eff w' where "prepare sample_engine sample_world (Some (User 42 0)) ''crm.lead:view'' = (Inr (User 42 0, sample_view, eff), w')"
      "slice_at (eff_grants eff) ''crm.lead:view'' = stored_clauses sample_engine (w_store sample_world) [stored_binding] ''crm.lead:view''"
    using prepare_stored [OF sample_engine_wf sample_world_fresh sample_principal sample_view_known sample_access] by metis
  then show ?thesis
    by (simp add: Require_def stored_clauses_def sample_world_def sample_clauses sample_view_free)
qed

theorem Require_needs_binding_witness:
  "\<exists>(b :: binding) role g. lookupRole sample_engine (w_store sample_world) (b_Role b) = Inr role
     \<and> g \<in> set (Resolve role (eng_cat sample_engine)) \<and> g_Permission g = ''crm.lead:view''"
  using Require_needs_binding [OF sample_engine_wf sample_world_fresh sample_Require] by blast

theorem Access_agrees_with_RequireOn_witness:
  "\<exists>set'. fst (Access sample_engine sample_world (Some (User 42 0)) ''crm.lead:view'') = Inr set'
     \<and> (fst (RequireOn sample_engine sample_world (Some (User 42 0)) ''crm.lead:view'' known_record) = Inr ()
        \<longleftrightarrow> (\<exists>c \<in> set (as_Clauses set'). reaches sample_record_chain c (User 42 0) sample_view known_record))"
  using Access_agrees_with_RequireOn [OF sample_engine_wf sample_world_fresh sample_principal sample_view_known
      sample_view_free sample_access sample_resource(2) _ sample_resource(3)] by blast

theorem RequireRecord_hides_witness:
  "fst (RequireRecord sample_engine sample_world None sample_record ''crm.lead:view'' ''crm.lead:edit'' (Sentinel ErrRoleNotFound))
     = Inl unauthenticated
   \<and> fst (RequireOn sample_engine sample_world None ''crm.lead:view'' sample_record) \<noteq> Inr ()"
proof -
  have "fst (RequireRecord sample_engine sample_world None sample_record ''crm.lead:view'' ''crm.lead:edit'' (Sentinel ErrRoleNotFound))
      = Inl unauthenticated"
    by (simp add: RequireRecord_def RequireOn_def prepare_def PrincipalFrom_def sentinel_defs)
  moreover from RequireRecord_hides [OF this] have "fst (RequireOn sample_engine sample_world None ''crm.lead:view'' sample_record) \<noteq> Inr ()"
    by (auto simp: sentinel_defs RequireOn_def prepare_def PrincipalFrom_def)
  ultimately show ?thesis by blast
qed

theorem tenant_isolation_witness: "\<exists>ten. tenantOf sample_hierarchy sample_record_chain = Some ten \<and> sc_ID ten = 3"
proof -
  note req = RequireOn_stored [OF sample_engine_wf sample_world_fresh sample_principal sample_view_known sample_access
      resourceChain_known [OF sample_engine_wf sample_resource(2,3)]]
  have "fst (RequireOn sample_engine sample_world (Some (User 42 0)) ''crm.lead:view'' known_record) = Inr ()"
    using req known_passes by (simp add: sample_view_free stored_clauses_def sample_world_def sample_clauses)
  with tenant_isolation [OF sample_engine_wf sample_world_fresh sample_principal sample_view_known sample_access
      _ _ sample_resource(2,3), of _ 3] sample_build
  show ?thesis by (simp add: sample_world_def sample_view_free Tenant_def)
qed

lemma sample_MyAccess: "is_ok (fst (MyAccess sample_engine sample_world (Some (User 42 0))))"
proof -
  have cur: "fst (eng_Effective sample_engine sample_world (pr_Subject (User 42 0))) =
      Inr \<lparr>eff_subject = pr_Subject (User 42 0), eff_grants = fmupd ''crm.lead:view'' [sample_held] fmempty,
       eff_roleIDs = {}, eff_tenants = {3}, eff_hasRoot = False, eff_unpinned = False\<rparr>"
    using eng_Effective_fst [OF sample_world_fresh, of "pr_Subject (User 42 0)"]
    by (simp add: sample_world_def current_access_def load_bindings_def sample_bindings sample_build)
  have keys: "sortedKeys (fmupd ''crm.lead:view'' v fmempty) = [''crm.lead:view'']" for v :: "clause list"
    by (simp add: sortedKeys_def sorted_list_of_fset.rep_eq)
  have "prune [sample_held] \<noteq> []"
    using cl.prune_covers [of "[sample_held]" sample_hierarchy sample_resolver sample_held] sample_clauses_wf(1)
    by (auto simp: prune_def clause_wf_def sample_held_def)
  with cur show ?thesis
    by (cases "eng_Effective sample_engine sample_world (pr_Subject (User 42 0))")
      (simp add: MyAccess_def sample_principal Permissions_def keys sample_lookup slice_at_def sample_view_free)
qed

theorem MyAccess_lists_Require_witness:
  "\<exists>out. fst (MyAccess sample_engine sample_world (Some (User 42 0))) = Inr out \<and> ''crm.lead:view'' \<in> fmdom' (ma_Permissions out)"
proof -
  obtain out where out: "fst (MyAccess sample_engine sample_world (Some (User 42 0))) = Inr out"
    using sample_MyAccess by (auto simp: is_ok_iff)
  with MyAccess_lists_Require [OF sample_engine_wf sample_world_fresh out] sample_Require show ?thesis by blast
qed

lemma sample_HoldersOf: "is_ok (HoldersOf sample_engine sample_store ''crm.lead:view'')"
proof -
  have "is_ok (collect_holders ms_HoldersOf sample_store cat permission roles)" for cat permission roles
    by (induction roles) (auto simp: ms_HoldersOf_def is_ok_iff)
  then show ?thesis by (auto simp: HoldersOf_def sample_lookup ms_ListRoles_def is_ok_iff res_bind_Inr_iff)
qed

theorem HoldersOf_iff_witness:
  "\<exists>out. HoldersOf sample_engine sample_store ''crm.lead:view'' = Inr out \<and> b_Subject sample_binding \<in> set out"
proof -
  obtain out where out: "HoldersOf sample_engine sample_store ''crm.lead:view'' = Inr out"
    using sample_HoldersOf by (auto simp: is_ok_iff)
  have "\<forall>b \<in> set (map_values (ms_bindings sample_store)). ref_Valid (b_Role b) \<and> ref_ID (b_Role b) \<ge> 0"
    by (simp add: sample_store_bindings) (simp add: sample_binding_def ref_Valid_def)
  note iff = HoldersOf_iff [OF sample_engine_wf sample_store_inv _ _ _ this out]
  have "grants_perm sample_role cat ''crm.lead:view''" for cat
    by (simp add: grants_perm_def Resolve_def sample_role_def Grants_def)
  then show ?thesis
    using iff out by (simp add: sample_store_bindings sample_lookupRole)
qed

subsection \<open>A run of the system with the cache\<close>

definition sample_start :: system where
  "sample_start = \<lparr>sy_bindings = (\<lambda>s. if s = pr_Subject (User 42 0) then [stored_binding] else []),
     sy_roles = (\<lambda>i. Inl (Sentinel ErrRoleNotFound)), sy_cache = NewCache 100, sy_loads = {#}, sy_owed = {#}, sy_evictions = 0\<rparr>"

definition sample_load :: "binding list option \<Rightarrow> load" where
  "sample_load bs = \<lparr>ld_subject = pr_Subject (User 42 0), ld_epoch = 0, ld_bindings = bs, ld_roles = Map.empty\<rparr>"

lemma sample_loads:
  "\<exists>eff. loads_as sample_engine (pr_Subject (User 42 0)) [stored_binding] roles = Some eff"
proof -
  have "bound_ids [stored_binding] = {}" by (simp add: stored_binding_def sample_binding_def)
  then have "build sample_engine s [stored_binding] (lookup_with sample_engine roles)
      = build sample_engine s [stored_binding] (lookupRole sample_engine sample_store)" for s
    unfolding lookupRole_with by (intro build_with_cong) simp
  then show ?thesis using sample_build by (auto simp: loads_as_Some)
qed

lemma sample_run:
  "\<exists>\<sigma> eff. cache_reachable (loads_as sample_engine) bound_ids \<sigma> \<and> sy_owed \<sigma> = {#}
     \<and> sy_bindings \<sigma> = sy_bindings sample_start \<and> sy_roles \<sigma> = sy_roles sample_start
     \<and> fst (cache_get (sy_cache \<sigma>) 0 (pr_Subject (User 42 0))) = Some eff"
proof -
  let ?step = "cache_step (loads_as sample_engine) bound_ids" and ?u = "pr_Subject (User 42 0)"
  let ?\<sigma>1 = "sample_start\<lparr>sy_loads := {#sample_load None#}\<rparr>" and ?\<sigma>2 = "sample_start\<lparr>sy_loads := {#sample_load (Some [stored_binding])#}\<rparr>"
  obtain eff where eff: "loads_as sample_engine ?u [stored_binding] (\<lambda>i. the (None :: role result option)) = Some eff"
    using sample_loads by blast
  let ?\<sigma>3 = "sample_start\<lparr>sy_loads := {#}, sy_cache := cache_put (NewCache 100) 0 ?u eff 0\<rparr>"
  have s1: "?step sample_start ?\<sigma>1"
    using cache_step.Begin [of _ _ sample_start ?u] by (simp add: sample_start_def sample_load_def cache_begin_def NewCache_def)
  have s2: "?step ?\<sigma>1 ?\<sigma>2"
    using cache_step.ReadBindings [of "sample_load None" ?\<sigma>1] by (simp add: sample_start_def sample_load_def)
  have s3: "?step ?\<sigma>2 ?\<sigma>3"
    using cache_step.Put [of "sample_load (Some [stored_binding])" ?\<sigma>2 "[stored_binding]" bound_ids "loads_as sample_engine" eff 0] eff
    by (simp add: sample_start_def sample_load_def stored_binding_def sample_binding_def NewCache_def)
  have "cache_start sample_start" by (simp add: cache_start_def sample_start_def NewCache_def)
  then have "cache_reachable (loads_as sample_engine) bound_ids ?\<sigma>3"
    using s1 s2 s3 by (blast intro: cache_reachable.intros)
  moreover have "fst (cache_get (sy_cache ?\<sigma>3) 0 ?u) = Some eff"
    by (simp add: cache_get_def cache_put_lookup NewCache_def)
  ultimately show ?thesis by (intro exI [of _ ?\<sigma>3] exI [of _ eff]) (simp add: sample_start_def)
qed

theorem cache_never_stale_witness:
  "\<exists>eff. build sample_engine (pr_Subject (User 42 0)) (sy_bindings sample_start (pr_Subject (User 42 0)))
     (lookup_with sample_engine (sy_roles sample_start)) = Inr eff"
proof -
  obtain \<sigma> eff where "cache_reachable (loads_as sample_engine) bound_ids \<sigma>" "sy_owed \<sigma> = {#}"
      "sy_bindings \<sigma> = sy_bindings sample_start" "sy_roles \<sigma> = sy_roles sample_start"
      "fst (cache_get (sy_cache \<sigma>) 0 (pr_Subject (User 42 0))) = Some eff"
    using sample_run by blast
  with cache_never_stale [of sample_engine \<sigma> 0 "pr_Subject (User 42 0)" eff] show ?thesis by auto
qed

end
