(* ===== verification/Admin.thy ===== *)
theory Admin
  imports Authorize
begin

text \<open>
  The write side of authorization: the delegation rules of \<^verbatim>\<open>authz/delegation.go\<close> and
  the handlers of \<^verbatim>\<open>authz/admin.go\<close>. A handler runs its checks on the engine, writes
  to the store and evicts the cache; it returns the new world. The per-subject mutex
  \<^verbatim>\<open>ownLock\<close> makes the last-admin check and the write that follows it one step for
  the acting subject, which is how they are modelled.

  The properties hold for every store that meets the contract \<open>authz_store\<close>.
\<close>

section \<open>Delegation\<close>

definition known_or_zero :: "'s engine \<Rightarrow> string \<Rightarrow> permission" where
  "known_or_zero e permission = (case cat_Lookup (eng_cat e) permission of Some p \<Rightarrow> p | None \<Rightarrow> zero_permission [])"

definition holdsWithin :: "effective \<Rightarrow> string \<Rightarrow> (scope \<Rightarrow> bool) \<Rightarrow> bool" where
  "holdsWithin eff permission inside = list_ex (\<lambda>c. inside (cl_Scope c)) (slice_at (eff_grants eff) permission)"

fun holds_grants :: "'s engine \<Rightarrow> effective \<Rightarrow> role \<Rightarrow> grant list \<Rightarrow> unit result" where
  "holds_grants e eff role [] = Inr ()"
| "holds_grants e eff role (g # gs) =
     (let wanted = attrsFor (known_or_zero e (g_Permission g)) (role_Attrs role);
          clauses = slice_at (eff_grants eff) (g_Permission g)
      in if clauses = [] then Inl (escalation (g_Permission g) ''not held'')
         else if \<not> list_ex (\<lambda>c. Covers (cl_Qualifier c) (g_Qualifier g) \<and> attrsCover (cl_Attrs c) wanted) clauses
         then Inl (escalation (g_Permission g) ''held more narrowly'')
         else holds_grants e eff role gs)"

definition holdsAll :: "'s engine \<Rightarrow> effective \<Rightarrow> role \<Rightarrow> unit result" where
  "holdsAll e eff role = holds_grants e eff role (Resolve role (eng_cat e))"

definition CanSaveRole :: "'s engine \<Rightarrow> 's world \<Rightarrow> principal \<Rightarrow> role \<Rightarrow> unit result \<times> 's world" where
  "CanSaveRole e w actor role =
     (if role_Computed role \<noteq> None
      then (Inl (BadRequestFrom (ValidationError [mk_problem ''invalid_role'' [] ''a stored role cannot be computed''])), w)
      else case Role_Validate (eng_cat e) role of
        Inl err \<Rightarrow> (Inl (BadRequestFrom err), w)
      | Inr _ \<Rightarrow> st_bind (eng_Effective e w (pr_Subject actor)) (\<lambda>eff w'. (holdsAll e eff role, w')))"

text \<open>The problems of check (4), and the loop of checks (2) and (3).\<close>

definition organization_problems :: "'s engine \<Rightarrow> grant list \<Rightarrow> problem list" where
  "organization_problems e gs =
     List.map_filter (\<lambda>g. case cat_Lookup (eng_cat e) (g_Permission g) of
        None \<Rightarrow> None
      | Some p \<Rightarrow> if perm_OrganizationOnly p
          then Some (mk_problem ''organization_only'' (perm_ID p) (''can only be bound at '' @ RootLevel (eng_h e))) else None) gs"

fun bind_grants :: "'s engine \<Rightarrow> effective \<Rightarrow> chain \<Rightarrow> string \<Rightarrow> bool \<Rightarrow> grant list \<Rightarrow> unit result" where
  "bind_grants e eff chain manageBindings atRoot [] = Inr ()"
| "bind_grants e eff chain manageBindings atRoot (g # gs) =
     (let p = known_or_zero e (g_Permission g) in
      if perm_System p \<and> \<not> holdsWithin eff (perm_ID p) (Within chain)
      then Inl (escalation (perm_ID p) ''a system permission the actor does not hold'')
      else if perm_OrganizationOnly p \<and> \<not> atRoot
      then Inl (escalation (perm_ID p)
        (''organization-only permissions need '' @ manageBindings @ '' at '' @ RootLevel (eng_h e)))
      else bind_grants e eff chain manageBindings atRoot gs)"

definition CanBind :: "'s engine \<Rightarrow> 's world \<Rightarrow> principal \<Rightarrow> role \<Rightarrow> scope \<Rightarrow> string \<Rightarrow> unit result \<times> 's world" where
  "CanBind e w actor role scope manageBindings =
     (case Role_Validate (eng_cat e) role of
        Inl err \<Rightarrow> (Inl (BadRequestFrom err), w)
      | Inr _ \<Rightarrow>
          (case h_Chain (eng_h e) (eng_resolver e) scope [] of
             Inl err \<Rightarrow>
               (Inl (if errors_Is err ErrScopeNotFound \<or> errors_Is err ErrInvalidScope then BadRequestFrom err else Internal err), w)
           | Inr chain \<Rightarrow>
               let grants = Resolve role (eng_cat e) in
               (case (if \<not> IsRoot (eng_h e) scope then asValidation (organization_problems e grants) else Inr ()) of
                  Inl err \<Rightarrow> (Inl (BadRequestFrom err), w)
                | Inr _ \<Rightarrow>
                    st_bind (eng_Effective e w (pr_Subject actor)) (\<lambda>eff w'.
                      if \<not> holdsWithin eff manageBindings (Within chain) then (Inl (forbidden manageBindings), w')
                      else
                        let atRoot = holdsWithin eff manageBindings (IsRoot (eng_h e))
                        in (bind_grants e eff chain manageBindings atRoot grants, w')))))"

definition lookup_override :: "'s engine \<Rightarrow> 's \<Rightarrow> role option \<Rightarrow> role_ref \<Rightarrow> role result" where
  "lookup_override e st override ref =
     (case override of
        Some r \<Rightarrow> if ref_ID ref > 0 \<and> ref_ID ref = role_ID r then Inr r else lookupRole e st ref
      | None \<Rightarrow> lookupRole e st ref)"

definition last_admin :: "string \<Rightarrow> go_error" where
  "last_admin perm =
     App (WithReason ''authz.last_admin'' [fmupd ''permission'' (AnyString perm) fmempty]
       (WithLog LevelWarn (apperr_Wrap (Some (sentinel_with ErrLastAdmin perm))
         (''this would remove your own last access to '' @ perm) CodePermissionDenied)))"

definition keepsAccess ::
  "'s engine \<Rightarrow> 's world \<Rightarrow> subject \<Rightarrow> string list \<Rightarrow> int \<Rightarrow> role option \<Rightarrow> unit result \<times> 's world" where
  "keepsAccess e w s protected dropped override =
     (if protected = [] then (Inr (), w)
      else st_bind (eng_Effective e w s) (\<lambda>before w1.
        case load_bindings e (w_store w1) s of
          Inl err \<Rightarrow> (Inl err, w1)
        | Inr bindings \<Rightarrow>
            let kept = filter (\<lambda>b. b_ID b \<noteq> dropped \<or> dropped = 0) bindings
            in case build e s kept (lookup_override e (w_store w1) override) of
                 Inl err \<Rightarrow> (Inl (Internal err), w1)
               | Inr after \<Rightarrow>
                   (case List.find (\<lambda>perm. slice_at (eff_grants before) perm \<noteq> [] \<and> slice_at (eff_grants after) perm = []) protected of
                      Some perm \<Rightarrow> (Inl (last_admin perm), w1)
                    | None \<Rightarrow> (Inr (), w1))))"

section \<open>Administration\<close>

record 's admin =
  adm_e :: "'s engine"
  adm_store :: "'s store_ops"
  adm_roles :: string
  adm_bindings :: string
  adm_protected :: "string list"

definition NewAdmin :: "'s engine option \<Rightarrow> 's store_ops option \<Rightarrow> string \<Rightarrow> string \<Rightarrow> string list \<Rightarrow> 's admin result" where
  "NewAdmin engine store manageRoles manageBindings protected =
     (case (engine, store) of
        (Some e, Some st) \<Rightarrow>
          (case List.find (\<lambda>i. cat_Lookup (eng_cat e) i = None) ([manageRoles, manageBindings] @ protected) of
             Some i \<Rightarrow> Inl (sentinel_with ErrUnknownPermission (go_quote i @ '' (admin configuration)''))
           | None \<Rightarrow> Inr \<lparr>adm_e = e, adm_store = st, adm_roles = manageRoles, adm_bindings = manageBindings, adm_protected = protected\<rparr>)
      | _ \<Rightarrow> Inl (Plain ''authz: admin needs an engine and a store''))"

definition adm_actor :: "'s world \<Rightarrow> ctx \<Rightarrow> principal result \<times> 's world" where
  "adm_actor w ctx = (case PrincipalFrom ctx of None \<Rightarrow> (Inl unauthenticated, w) | Some p \<Rightarrow> (Inr p, w))"

definition storeErr :: "go_error \<Rightarrow> go_error" where
  "storeErr err =
     (if errors_Is err ErrRoleNotFound \<or> errors_Is err ErrBindingNotFound then NotFoundFrom err
      else if errors_Is err ErrDuplicateBinding \<or> errors_Is err ErrRoleInUse then ConflictFrom err
      else if errors_As_app err \<noteq> None then err
      else Internal err)"

definition store_read :: "'s world \<Rightarrow> 'a result \<Rightarrow> 'a result \<times> 's world" where
  "store_read w r = (map_sum storeErr id r, w)"

definition store_write :: "'s world \<Rightarrow> 'a result \<times> 's \<Rightarrow> 'a result \<times> 's world" where
  "store_write w r = (map_sum storeErr id (fst r), w\<lparr>w_store := snd r\<rparr>)"

definition adm_SaveRole :: "'s admin \<Rightarrow> 's world \<Rightarrow> ctx \<Rightarrow> role \<Rightarrow> role result \<times> 's world" where
  "adm_SaveRole a w ctx role0 =
     st_bind (adm_actor w ctx) (\<lambda>actor w0.
     st_bind (Require (adm_e a) w0 ctx (adm_roles a)) (\<lambda>_ w1.
     let role = role0\<lparr>role_Key := []\<rparr> in
     st_bind (CanSaveRole (adm_e a) w1 actor role) (\<lambda>_ w2.
     st_bind
       (if role_ID role > 0
        then st_bind (store_read w2 (rd_Role (adm_store a) (w_store w2) (role_ID role))) (\<lambda>_ w3.
               keepsAccess (adm_e a) w3 (pr_Subject actor) (adm_protected a) 0 (Some role))
        else (Inr (), w2)) (\<lambda>_ w4.
     st_bind (store_write w4 (st_SaveRole (adm_store a) (w_store w4) (pr_Subject actor) role)) (\<lambda>saved w5.
       (Inr saved, eng_EvictRole w5 (role_ID saved)))))))"

definition role_in_use :: "nat \<Rightarrow> go_error" where
  "role_in_use n =
     App (WithReason ''authz.role_in_use'' [fmupd ''bindings'' (AnyInt (int n)) fmempty]
       (apperr_Wrap (Some (Sentinel ErrRoleInUse)) ''the role is still bound'' CodeAlreadyExists))"

definition adm_DeleteRole :: "'s admin \<Rightarrow> 's world \<Rightarrow> ctx \<Rightarrow> int \<Rightarrow> unit result \<times> 's world" where
  "adm_DeleteRole a w ctx i =
     st_bind (adm_actor w ctx) (\<lambda>actor w0.
     st_bind (Require (adm_e a) w0 ctx (adm_roles a)) (\<lambda>_ w1.
     st_bind (store_read w1 (st_BindingsForRole (adm_store a) (w_store w1) i)) (\<lambda>bound w2.
     if bound \<noteq> [] then (Inl (role_in_use (length bound)), w2)
     else st_bind (store_write w2 (st_DeleteRole (adm_store a) (w_store w2) (pr_Subject actor) i)) (\<lambda>_ w3.
       (Inr (), eng_EvictRole w3 i)))))"

definition scope_resource :: "scope \<Rightarrow> resource" where
  "scope_resource s = \<lparr>res_Scope = s, res_Ancestors = [], res_Owner = 0, res_CoOwner = 0, res_OwnerLocation = 0, res_Attrs = fmempty\<rparr>"

definition self_assignment :: go_error where
  "self_assignment =
     App (WithReason ''authz.self_assignment'' []
       (WithLog LevelWarn (apperr_Wrap (Some (Sentinel ErrSelfAssignment)) ''you cannot assign a role to yourself'' CodePermissionDenied)))"

definition adm_Bind :: "'s admin \<Rightarrow> 's world \<Rightarrow> ctx \<Rightarrow> binding \<Rightarrow> binding result \<times> 's world" where
  "adm_Bind a w ctx b =
     st_bind (adm_actor w ctx) (\<lambda>actor w0.
     if \<not> subject_Valid (b_Subject b) \<or> \<not> ref_Valid (b_Role b)
     then (Inl (BadRequestFrom (ValidationError
       [mk_problem ''invalid_role'' [] ''a binding needs a valid subject and exactly one of role ID and key''])), w0)
     else case h_Check (eng_h (adm_e a)) (b_Scope b) of
       Inl err \<Rightarrow> (Inl (BadRequestFrom err), w0)
     | Inr _ \<Rightarrow>
         if b_Subject b = pr_Subject actor then (Inl self_assignment, w0)
         else
           st_bind (RequireOn (adm_e a) w0 ctx (adm_bindings a) (scope_resource (b_Scope b))) (\<lambda>_ w1.
           st_bind (store_read w1 (lookupRole (adm_e a) (w_store w1) (b_Role b))) (\<lambda>role w2.
           st_bind (CanBind (adm_e a) w2 actor role (b_Scope b) (adm_bindings a)) (\<lambda>_ w3.
           st_bind (store_write w3 (st_Bind (adm_store a) (w_store w3) (pr_Subject actor) b)) (\<lambda>saved w4.
             (Inr saved, eng_Evict w4 (b_Subject b)))))))"

definition unbind_checks :: "'s admin \<Rightarrow> 's world \<Rightarrow> ctx \<Rightarrow> principal \<Rightarrow> binding \<Rightarrow> unit result \<times> 's world" where
  "unbind_checks a w1 ctx actor b =
     st_bind (RequireOn (adm_e a) w1 ctx (adm_bindings a) (scope_resource (b_Scope b))) (\<lambda>_ w2.
     st_bind
       (case lookupRole (adm_e a) (w_store w2) (b_Role b) of
          Inr role \<Rightarrow> CanBind (adm_e a) w2 actor role (b_Scope b) (adm_bindings a)
        | Inl err \<Rightarrow> if errors_Is err ErrRoleNotFound then (Inr (), w2) else (Inl (Internal err), w2)) (\<lambda>_ w3.
     if b_Subject b = pr_Subject actor
     then keepsAccess (adm_e a) w3 (pr_Subject actor) (adm_protected a) (b_ID b) None
     else (Inr (), w3)))"

definition adm_Unbind :: "'s admin \<Rightarrow> 's world \<Rightarrow> ctx \<Rightarrow> int \<Rightarrow> unit result \<times> 's world" where
  "adm_Unbind a w ctx i =
     st_bind (adm_actor w ctx) (\<lambda>actor w0.
     st_bind (store_read w0 (st_Binding (adm_store a) (w_store w0) i)) (\<lambda>b w1.
     st_bind (unbind_checks a w1 ctx actor b) (\<lambda>_ w4.
     st_bind (store_write w4 (st_Unbind (adm_store a) (w_store w4) (pr_Subject actor) i)) (\<lambda>_ w5.
       (Inr (), eng_Evict w5 (b_Subject b))))))"

section \<open>The checks neither write nor spoil the cache\<close>

definition keeps :: "'s engine \<Rightarrow> 's \<Rightarrow> 's world \<Rightarrow> bool" where
  "keeps e st w \<longleftrightarrow> cache_fresh e w \<and> w_store w = st"

lemma keeps_Effective: "keeps e st w \<Longrightarrow> keeps e st (snd (eng_Effective e w s))"
  using eng_Effective_cases [of e w s] by (simp add: keeps_def)

lemma keeps_prepare: "keeps e st w \<Longrightarrow> keeps e st (snd (prepare e w ctx permission))"
  using prepare_cases [of e w ctx permission] by (simp add: keeps_def)

lemma keeps_Require: "keeps e st w \<Longrightarrow> keeps e st (snd (Require e w ctx permission))"
  using keeps_prepare [of e st w ctx permission] by (auto simp: Require_def split: prod.splits sum.splits)

lemma keeps_RequireOn: "keeps e st w \<Longrightarrow> keeps e st (snd (RequireOn e w ctx permission res))"
  using keeps_prepare [of e st w ctx permission] by (auto simp: RequireOn_def split: prod.splits sum.splits)

lemma keeps_bind_Effective:
  "keeps e st w \<Longrightarrow> (\<And>x w. snd (f x w) = w) \<Longrightarrow> keeps e st (snd (st_bind (eng_Effective e w s) f))"
  by (simp add: snd_st_bind_id keeps_Effective)

lemma keeps_CanSaveRole: "keeps e st w \<Longrightarrow> keeps e st (snd (CanSaveRole e w actor role))"
  by (cases "Role_Validate (eng_cat e) role") (simp_all add: CanSaveRole_def keeps_bind_Effective)

lemma keeps_CanBind: "keeps e st w \<Longrightarrow> keeps e st (snd (CanBind e w actor role scope manage))"
  by (cases "Role_Validate (eng_cat e) role"; cases "h_Chain (eng_h e) (eng_resolver e) scope []")
    (simp_all add: CanBind_def Let_def asValidation_def keeps_bind_Effective)

lemma keeps_keepsAccess: "keeps e st w \<Longrightarrow> keeps e st (snd (keepsAccess e w s protected dropped override))"
  by (simp add: keepsAccess_def Let_def keeps_bind_Effective split: sum.split option.split)

lemma keeps_actor: "keeps e st w \<Longrightarrow> keeps e st (snd (adm_actor w ctx))"
  by (simp add: adm_actor_def split: option.split)

lemma keeps_store_read: "keeps e st w \<Longrightarrow> keeps e st (snd (store_read w r))"
  by (simp add: store_read_def)

lemmas keeps_intros = keeps_Effective keeps_Require keeps_RequireOn keeps_CanSaveRole keeps_CanBind keeps_keepsAccess
  keeps_actor keeps_store_read

text \<open>What a check answers, on a fresh cache.\<close>

lemma Effective_current: "keeps e st w \<Longrightarrow> fst (eng_Effective e w s) = current_access e st s"
  using eng_Effective_fst [of e w s] by (simp add: keeps_def)

lemma st_bind_Effective_ok:
  assumes "keeps e st w" "st_bind (eng_Effective e w s) (\<lambda>eff w'. (f eff, w')) = (Inr y, w'')"
  shows "\<exists>eff. current_access e st s = Inr eff \<and> f eff = Inr y"
  using assms(2) Effective_current [OF assms(1), of s] by (cases "eng_Effective e w s"; cases "fst (eng_Effective e w s)") auto

lemma holds_grants_iff:
  "holds_grants e eff role gs = Inr () \<longleftrightarrow>
     (\<forall>g \<in> set gs. \<exists>c \<in> set (slice_at (eff_grants eff) (g_Permission g)).
        Covers (cl_Qualifier c) (g_Qualifier g) \<and> attrsCover (cl_Attrs c) (attrsFor (known_or_zero e (g_Permission g)) (role_Attrs role)))"
  by (induction gs) (auto simp: Let_def list_ex_iff)

lemma holdsWithin_iff: "holdsWithin eff permission inside \<longleftrightarrow> (\<exists>c \<in> set (slice_at (eff_grants eff) permission). inside (cl_Scope c))"
  by (simp add: holdsWithin_def list_ex_iff)

lemma bind_grants_iff:
  "bind_grants e eff chain manage atRoot gs = Inr () \<longleftrightarrow>
     (\<forall>g \<in> set gs. let p = known_or_zero e (g_Permission g) in
        (perm_System p \<longrightarrow> holdsWithin eff (perm_ID p) (Within chain)) \<and> (perm_OrganizationOnly p \<longrightarrow> atRoot))"
  by (induction gs) (auto simp: Let_def)

lemma organization_problems_empty:
  "organization_problems e gs = [] \<longleftrightarrow>
     (\<forall>g \<in> set gs. \<forall>p. cat_Lookup (eng_cat e) (g_Permission g) = Some p \<longrightarrow> \<not> perm_OrganizationOnly p)"
proof -
  have "organization_problems e gs = [] \<longleftrightarrow> set (organization_problems e gs) = {}" by simp
  also have "\<dots> \<longleftrightarrow> (\<forall>g \<in> set gs. \<forall>p. cat_Lookup (eng_cat e) (g_Permission g) = Some p \<longrightarrow> \<not> perm_OrganizationOnly p)"
    unfolding organization_problems_def
    by (auto simp: in_map_filter set_eq_iff simp del: set_empty split: option.splits if_splits)
  finally show ?thesis .
qed

text \<open>A valid role's grants are in the catalogue.\<close>

lemma role_valid_known:
  assumes "Role_Validate cat r = Inr ()" "g \<in> set (Resolve r cat)"
  shows "\<exists>p. cat_Lookup cat (g_Permission g) = Some p"
  using assms by (auto simp: Role_Validate_role_ok role_ok_def list_all_iff grant_ok_def)

section \<open>A write and its eviction keep the cache fresh\<close>

lemma current_access_cong:
  assumes "rd_BindingsFor (eng_store e) st' s = rd_BindingsFor (eng_store e) st s"
    and "current_access e st s = Inr eff" and "\<And>j. usesRole eff j \<Longrightarrow> rd_Role (eng_store e) st' j = rd_Role (eng_store e) st j"
  shows "current_access e st' s = Inr eff"
proof -
  obtain bs where bs: "rd_BindingsFor (eng_store e) st s = Inr bs" "build e s bs (lookupRole e st) = Inr eff"
    using assms(2) current_access_ok by metis
  have "eff_roleIDs eff = bound_ids bs"
    using build_loop_roleIDs [OF bs(2) [unfolded build_def]] by (simp add: empty_effective_def)
  then have "\<forall>j \<in> bound_ids bs. rd_Role (eng_store e) st' j = rd_Role (eng_store e) st j"
    using assms(3) by (auto simp: usesRole_def)
  from build_with_cong [OF this, of e s] bs show ?thesis
    by (auto simp: current_access_ok assms(1) lookupRole_with)
qed

lemma fresh_after_role:
  assumes "keeps e st w" "\<And>sub. rd_BindingsFor (eng_store e) st' sub = rd_BindingsFor (eng_store e) st sub"
    and "\<And>j. j \<noteq> i \<Longrightarrow> rd_Role (eng_store e) st' j = rd_Role (eng_store e) st j"
  shows "cache_fresh e (eng_EvictRole (w\<lparr>w_store := st'\<rparr>) i)"
  unfolding cache_fresh_def eng_EvictRole_def
proof (intro allI impI, simp add: EvictRole_lookup, elim conjE)
  fix s entry assume look: "fmlookup (ch_entries (w_cache w)) s = Some entry" and "\<not> usesRole (ce_eff entry) i"
  moreover have "current_access e st s = Inr (ce_eff entry)" using assms(1) look by (auto simp: keeps_def cache_fresh_def)
  ultimately show "current_access e st' s = Inr (ce_eff entry)"
    by (intro current_access_cong [OF assms(2)]) (auto intro: assms(3))
qed

lemma fresh_after_bindings:
  assumes "keeps e st w" "\<And>j. rd_Role (eng_store e) st' j = rd_Role (eng_store e) st j"
    and "\<And>s'. s' \<noteq> s \<Longrightarrow> is_ok (rd_BindingsFor (eng_store e) st s') \<Longrightarrow> rd_BindingsFor (eng_store e) st' s' = rd_BindingsFor (eng_store e) st s'"
  shows "cache_fresh e (eng_Evict (w\<lparr>w_store := st'\<rparr>) s)"
  unfolding cache_fresh_def eng_Evict_def
proof (intro allI impI, simp add: Evict_lookup split: if_splits)
  fix s' entry assume "s' \<noteq> s" and look: "fmlookup (ch_entries (w_cache w)) s' = Some entry"
  moreover have cur: "current_access e st s' = Inr (ce_eff entry)" using assms(1) look by (auto simp: keeps_def cache_fresh_def)
  moreover have "is_ok (rd_BindingsFor (eng_store e) st s')" using cur by (auto simp: current_access_ok)
  ultimately show "current_access e st' s' = Inr (ce_eff entry)"
    by (intro current_access_cong [OF assms(3) cur]) (auto simp: assms(2))
qed

lemma fresh_after_refusal:
  assumes "keeps e st w" "\<And>j. rd_Role (eng_store e) st' j = rd_Role (eng_store e) st j"
    and "\<And>s'. rd_BindingsFor (eng_store e) st' s' = rd_BindingsFor (eng_store e) st s'"
  shows "cache_fresh e (w\<lparr>w_store := st'\<rparr>)"
proof -
  have "current_access e st' s = Inr eff" if "current_access e st s = Inr eff" for s eff
    by (rule current_access_cong [OF assms(3) that]) (rule assms(2))
  then show ?thesis using assms(1) by (auto simp: cache_fresh_def keeps_def)
qed

section \<open>The administration of a store that meets the contract\<close>

definition good :: "'s admin \<Rightarrow> ('s \<Rightarrow> bool) \<Rightarrow> 's world \<Rightarrow> bool" where
  "good a I w \<longleftrightarrow> cache_fresh (adm_e a) w \<and> I (w_store w)"

lemma good_check:
  "good a I w \<Longrightarrow> (\<And>st. keeps (adm_e a) st w \<Longrightarrow> keeps (adm_e a) st w') \<Longrightarrow> good a I w' \<and> w_store w' = w_store w"
  by (auto simp: good_def keeps_def)

lemma write_cases:
  assumes "\<And>err. fst r = Inl err \<Longrightarrow> P (w\<lparr>w_store := snd r\<rparr>)" and "\<And>x. fst r = Inr x \<Longrightarrow> P (ev x (w\<lparr>w_store := snd r\<rparr>))"
  shows "P (snd (st_bind (store_write w r) (\<lambda>x w5. (g x, ev x w5))))"
  using assms by (cases r; cases "fst r") (auto simp: store_write_def)

text \<open>An Admin and its engine read and write the same store, and the store meets its contract.\<close>

locale administration = authz_store ops inv for ops :: "'s store_ops" and inv :: "'s \<Rightarrow> bool" +
  fixes a :: "'s admin"
  assumes engine_ok: "engine_wf (adm_e a)" and store_is: "adm_store a = ops"
    and reads: "eng_store (adm_e a) = reader_ops.truncate ops"
begin

lemma reads_simps [simp]:
  "rd_Role (eng_store (adm_e a)) = rd_Role ops" "rd_BindingsFor (eng_store (adm_e a)) = rd_BindingsFor ops" "adm_store a = ops"
  by (simp_all add: reads store_is reader_ops.truncate_def)

lemma good_keeps: "good a inv w \<Longrightarrow> keeps (adm_e a) (w_store w) w"
  by (simp add: good_def keeps_def)

lemma good_refusal:
  assumes "good a inv w" "inv st'" "same_roles ops (w_store w) st' \<and> same_bindings ops (w_store w) st'"
  shows "good a inv (w\<lparr>w_store := st'\<rparr>)"
  using fresh_after_refusal [OF good_keeps [OF assms(1)], of st'] assms(2,3)
  by (simp add: good_def same_roles_def same_bindings_def)

text \<open>The four writes of the store, each with its eviction.\<close>

lemma good_SaveRole:
  assumes "good a inv w"
  shows "good a inv (snd (st_bind (store_write w (st_SaveRole ops (w_store w) s r)) (\<lambda>saved w5. (Inr saved, eng_EvictRole w5 (role_ID saved)))))"
proof (rule write_cases)
  obtain x st' where w: "st_SaveRole ops (w_store w) s r = (x, st')" by force
  have i: "inv (w_store w)" using assms by (simp add: good_def)
  have i': "inv st'" using inv_SaveRole [OF i, of s r] w by simp
  show "good a inv (w\<lparr>w_store := snd (st_SaveRole ops (w_store w) s r)\<rparr>)" if "fst (st_SaveRole ops (w_store w) s r) = Inl err" for err
    using good_refusal [OF assms i'] SaveRole_err [OF i] w that by simp
  show "good a inv (eng_EvictRole (w\<lparr>w_store := snd (st_SaveRole ops (w_store w) s r)\<rparr>) (role_ID saved))"
    if "fst (st_SaveRole ops (w_store w) s r) = Inr saved" for saved
    using fresh_after_role [OF good_keeps [OF assms], of st' "role_ID saved"] SaveRole_ok [OF i, of s r saved st'] w that i'
    by (simp add: good_def same_bindings_def)
qed

lemma good_DeleteRole:
  assumes "good a inv w"
  shows "good a inv (snd (st_bind (store_write w (st_DeleteRole ops (w_store w) s i)) (\<lambda>_ w5. (Inr (), eng_EvictRole w5 i))))"
proof (rule write_cases)
  obtain x st' where w: "st_DeleteRole ops (w_store w) s i = (x, st')" by force
  have i: "inv (w_store w)" using assms by (simp add: good_def)
  have i': "inv st'" using inv_DeleteRole [OF i, of s] w by (metis snd_conv)
  show "good a inv (w\<lparr>w_store := snd (st_DeleteRole ops (w_store w) s i)\<rparr>)" if "fst (st_DeleteRole ops (w_store w) s i) = Inl err" for err
    using good_refusal [OF assms i'] DeleteRole_err [OF i] w that by simp
  show "good a inv (eng_EvictRole (w\<lparr>w_store := snd (st_DeleteRole ops (w_store w) s i)\<rparr>) i)"
    if "fst (st_DeleteRole ops (w_store w) s i) = Inr u" for u
    using fresh_after_role [OF good_keeps [OF assms], of st' i] DeleteRole_ok [OF i, of s i u st'] w that i'
    by (simp add: good_def same_bindings_def)
qed

lemma good_Bind:
  assumes "good a inv w"
  shows "good a inv (snd (st_bind (store_write w (st_Bind ops (w_store w) s b)) (\<lambda>saved w5. (Inr saved, eng_Evict w5 (b_Subject b)))))"
proof (rule write_cases)
  obtain x st' where w: "st_Bind ops (w_store w) s b = (x, st')" by force
  have i: "inv (w_store w)" using assms by (simp add: good_def)
  have i': "inv st'" using inv_Bind [OF i, of s b] w by simp
  show "good a inv (w\<lparr>w_store := snd (st_Bind ops (w_store w) s b)\<rparr>)" if "fst (st_Bind ops (w_store w) s b) = Inl err" for err
    using good_refusal [OF assms i'] Bind_err [OF i] w that by simp
  show "good a inv (eng_Evict (w\<lparr>w_store := snd (st_Bind ops (w_store w) s b)\<rparr>) (b_Subject b))"
    if "fst (st_Bind ops (w_store w) s b) = Inr saved" for saved
  proof -
    have ok: "st_Bind ops (w_store w) s b = (Inr saved, st')" using w that by simp
    have "cache_fresh (adm_e a) (eng_Evict (w\<lparr>w_store := st'\<rparr>) (b_Subject b))"
      by (rule fresh_after_bindings [OF good_keeps [OF assms]])
        (use Bind_ok [OF i ok] in \<open>auto simp: same_roles_def is_ok_iff\<close>)
    then show ?thesis using i' ok by (simp add: good_def)
  qed
qed

text \<open>Removing a binding changes what its own subject holds and nobody else.\<close>

lemma Unbind_other:
  assumes "inv st" "st_Binding ops st i = Inr b" "s \<noteq> b_Subject b" "rd_BindingsFor ops st s = Inr bs"
  shows "filter (\<lambda>x. b_ID x \<noteq> i) bs = bs"
proof -
  have "b_ID x \<noteq> i" if "x \<in> set bs" for x
  proof
    assume "b_ID x = i"
    moreover have "b_Subject x = s" "st_Binding ops st (b_ID x) = Inr x" using BindingsFor_ok [OF assms(1,4)] that by blast+
    ultimately show False using assms(2,3) by simp
  qed
  then show ?thesis by simp
qed

lemma good_Unbind:
  assumes "good a inv w" "st_Binding ops (w_store w) i = Inr b"
  shows "good a inv (snd (st_bind (store_write w (st_Unbind ops (w_store w) s i)) (\<lambda>_ w5. (Inr (), eng_Evict w5 (b_Subject b)))))"
proof (rule write_cases)
  obtain x st' where w: "st_Unbind ops (w_store w) s i = (x, st')" by force
  have i: "inv (w_store w)" using assms by (simp add: good_def)
  have i': "inv st'" using inv_Unbind [OF i, of s] w by (metis snd_conv)
  show "good a inv (w\<lparr>w_store := snd (st_Unbind ops (w_store w) s i)\<rparr>)" if "fst (st_Unbind ops (w_store w) s i) = Inl err" for err
    using good_refusal [OF assms(1) i'] Unbind_err [OF i] w that by simp
  show "good a inv (eng_Evict (w\<lparr>w_store := snd (st_Unbind ops (w_store w) s i)\<rparr>) (b_Subject b))"
    if "fst (st_Unbind ops (w_store w) s i) = Inr u" for u
  proof -
    have ok: "st_Unbind ops (w_store w) s i = (Inr u, st')" using w that by simp
    have "cache_fresh (adm_e a) (eng_Evict (w\<lparr>w_store := st'\<rparr>) (b_Subject b))"
      by (rule fresh_after_bindings [OF good_keeps [OF assms(1)]])
        (use Unbind_ok [OF i ok] Unbind_other [OF i assms(2)] in \<open>auto simp: same_roles_def is_ok_iff\<close>)
    then show ?thesis using i' ok by (simp add: good_def)
  qed
qed

end

text \<open>The checks answer from the store: every fresh cache gives the same decision.\<close>

lemma RequireOn_same:
  assumes "keeps e st w" "keeps e st w'"
  shows "fst (RequireOn e w ctx p res) = fst (RequireOn e w' ctx p res)"
proof -
  have "fst (prepare e w ctx p) = fst (prepare e w' ctx p)"
    using assms prepare_cases [of e w ctx p] prepare_cases [of e w' ctx p] by (simp add: keeps_def)
  then show ?thesis
    by (cases "prepare e w ctx p"; cases "prepare e w' ctx p") (auto simp: RequireOn_def split: sum.splits)
qed

lemma CanBind_same:
  assumes "keeps e st w" "keeps e st w'"
  shows "fst (CanBind e w actor role scope m) = fst (CanBind e w' actor role scope m)"
proof -
  have "fst (eng_Effective e w (pr_Subject actor)) = fst (eng_Effective e w' (pr_Subject actor))"
    by (simp add: Effective_current [OF assms(1)] Effective_current [OF assms(2)])
  then show ?thesis
    by (cases "eng_Effective e w (pr_Subject actor)"; cases "eng_Effective e w' (pr_Subject actor)")
      (auto simp: CanBind_def Let_def st_bind_def asValidation_def split: sum.splits)
qed

lemma keepsAccess_ok:
  assumes "keeps e st w" "fst (keepsAccess e w s protected dropped override) = Inr ()" "perm \<in> set protected"
    and "current_access e st s = Inr before" "slice_at (eff_grants before) perm \<noteq> []"
  shows "\<exists>bs after. rd_BindingsFor (eng_store e) st s = Inr bs
    \<and> build e s (filter (\<lambda>b. b_ID b \<noteq> dropped \<or> dropped = 0) bs) (lookup_override e st override) = Inr after
    \<and> slice_at (eff_grants after) perm \<noteq> []"
proof -
  obtain w1 where ew: "eng_Effective e w s = (Inr before, w1)" and w1: "w_store w1 = st"
    using Effective_current [OF assms(1), of s] keeps_Effective [OF assms(1), of s] assms(4)
    by (cases "eng_Effective e w s") (auto simp: keeps_def)
  have ne: "protected \<noteq> []" using assms(3) by auto
  obtain bs where bs: "load_bindings e st s = Inr bs"
    using assms(2) ew w1 ne by (cases "load_bindings e st s") (auto simp: keepsAccess_def)
  obtain after where after: "build e s (filter (\<lambda>b. b_ID b \<noteq> dropped \<or> dropped = 0) bs) (lookup_override e st override) = Inr after"
    using assms(2) ew w1 ne bs
    by (cases "build e s (filter (\<lambda>b. b_ID b \<noteq> dropped \<or> dropped = 0) bs) (lookup_override e st override)") (auto simp: keepsAccess_def Let_def)
  have "List.find (\<lambda>perm. slice_at (eff_grants before) perm \<noteq> [] \<and> slice_at (eff_grants after) perm = []) protected = None"
    using assms(2) ew w1 ne bs after by (auto simp: keepsAccess_def Let_def split: option.splits)
  then have "slice_at (eff_grants after) perm \<noteq> []" using assms(3,5) by (auto simp: find_None_iff)
  with bs after show ?thesis by (auto simp: load_bindings_def split: sum.splits)
qed

context administration
begin

lemma check_simps:
  assumes "good a inv w"
  shows "good a inv (snd (adm_actor w ctx)) \<and> w_store (snd (adm_actor w ctx)) = w_store w"
    "good a inv (snd (Require (adm_e a) w ctx p)) \<and> w_store (snd (Require (adm_e a) w ctx p)) = w_store w"
    "good a inv (snd (RequireOn (adm_e a) w ctx p res)) \<and> w_store (snd (RequireOn (adm_e a) w ctx p res)) = w_store w"
    "good a inv (snd (CanSaveRole (adm_e a) w actor r)) \<and> w_store (snd (CanSaveRole (adm_e a) w actor r)) = w_store w"
    "good a inv (snd (CanBind (adm_e a) w actor r sc m)) \<and> w_store (snd (CanBind (adm_e a) w actor r sc m)) = w_store w"
    "good a inv (snd (keepsAccess (adm_e a) w s ps d ov)) \<and> w_store (snd (keepsAccess (adm_e a) w s ps d ov)) = w_store w"
    "good a inv (snd (store_read w x)) \<and> w_store (snd (store_read w x)) = w_store w"
  by (rule good_check [OF assms]; erule keeps_intros)+

text \<open>Passing a check leads to a good world with the same store.\<close>

lemma passed:
  assumes "good a inv w"
  shows "adm_actor w ctx = (Inr x1, w') \<Longrightarrow> good a inv w' \<and> w_store w' = w_store w"
    "Require (adm_e a) w ctx p = (Inr x2, w') \<Longrightarrow> good a inv w' \<and> w_store w' = w_store w"
    "RequireOn (adm_e a) w ctx p res = (Inr x3, w') \<Longrightarrow> good a inv w' \<and> w_store w' = w_store w"
    "CanSaveRole (adm_e a) w actor r = (Inr x4, w') \<Longrightarrow> good a inv w' \<and> w_store w' = w_store w"
    "CanBind (adm_e a) w actor r sc m = (Inr x5, w') \<Longrightarrow> good a inv w' \<and> w_store w' = w_store w"
    "keepsAccess (adm_e a) w s ps d ov = (Inr x6, w') \<Longrightarrow> good a inv w' \<and> w_store w' = w_store w"
    "store_read w x = (Inr x7, w') \<Longrightarrow> good a inv w' \<and> w_store w' = w_store w"
  using check_simps [OF assms] by (metis snd_conv)+

lemma good_bind:
  "good a inv (snd r) \<Longrightarrow> (\<And>x w. r = (Inr x, w) \<Longrightarrow> good a inv w \<Longrightarrow> good a inv (snd (f x w))) \<Longrightarrow> good a inv (snd (st_bind r f))"
  by (rule st_bind_pres)

lemmas good_steps = good_bind check_simps [THEN conjunct1]

lemma good_if: "(c \<Longrightarrow> good a inv (snd x)) \<Longrightarrow> (\<not> c \<Longrightarrow> good a inv (snd y)) \<Longrightarrow> good a inv (snd (if c then x else y))"
  by simp

lemma good_adm_SaveRole: "good a inv w \<Longrightarrow> good a inv (snd (adm_SaveRole a w ctx role))"
  unfolding adm_SaveRole_def Let_def reads_simps(3)
  by (intro good_steps good_if good_SaveRole; simp)

lemma good_adm_DeleteRole: "good a inv w \<Longrightarrow> good a inv (snd (adm_DeleteRole a w ctx i))"
  unfolding adm_DeleteRole_def reads_simps(3)
  by (intro good_steps good_if good_DeleteRole; simp)

lemma good_adm_Bind: "good a inv w \<Longrightarrow> good a inv (snd (adm_Bind a w ctx b))"
  unfolding adm_Bind_def reads_simps(3)
  by (cases "h_Check (eng_h (adm_e a)) (b_Scope b)"; simp only: sum.case; intro good_steps good_if good_Bind; simp)

text \<open>\<open>Unbind\<close> reads the binding first and no check changes the store, so the binding is still there when it is removed.\<close>

lemma unbind_checks_keeps: "keeps (adm_e a) st w \<Longrightarrow> keeps (adm_e a) st (snd (unbind_checks a w ctx actor b))"
  unfolding unbind_checks_def
  by (intro st_bind_pres [where P = "keeps (adm_e a) st"] keeps_RequireOn)
    (auto split: sum.split intro: keeps_CanBind keeps_keepsAccess)

lemma read_ok: "store_read w x = (Inr y, w') \<longleftrightarrow> x = Inr y \<and> w' = w"
  by (cases x) (auto simp: store_read_def)

lemma actor_ok: "adm_actor w ctx = (Inr p, w') \<longleftrightarrow> PrincipalFrom ctx = Some p \<and> w' = w"
  by (auto simp: adm_actor_def split: option.splits)

lemma write_ok: "store_write w r = (Inr y, w') \<longleftrightarrow> (\<exists>st'. r = (Inr y, st') \<and> w' = w\<lparr>w_store := st'\<rparr>)"
  by (cases r; cases "fst r") (auto simp: store_write_def)

lemma unbind_checks_good:
  "good a inv w \<Longrightarrow> good a inv (snd (unbind_checks a w ctx actor b)) \<and> w_store (snd (unbind_checks a w ctx actor b)) = w_store w"
  by (rule good_check [OF _ unbind_checks_keeps])

lemma unbind_still_there:
  "store_read w0 (st_Binding ops (w_store w0) i) = (Inr b, w1) \<Longrightarrow> good a inv w1 \<Longrightarrow> unbind_checks a w1 ctx actor b = (Inr u, w4) \<Longrightarrow>
     st_Binding ops (w_store w4) i = Inr b"
  using unbind_checks_good [of w1 ctx actor b] by (simp add: read_ok)

lemma good_adm_Unbind: "good a inv w \<Longrightarrow> good a inv (snd (adm_Unbind a w ctx i))"
  unfolding adm_Unbind_def reads_simps(3)
  apply (rule good_bind, erule check_simps(1) [THEN conjunct1])
  apply (rule good_bind, erule check_simps(7) [THEN conjunct1])
  apply (rule good_bind, erule unbind_checks_good [THEN conjunct1])
  apply (erule good_Unbind, erule (2) unbind_still_there)
  done

text \<open>What a successful handler did, read off its steps.\<close>

lemma Unbind_success:
  assumes "good a inv w" "adm_Unbind a w ctx i = (Inr u, w')"
  obtains actor b where "PrincipalFrom ctx = Some actor" "st_Binding ops (w_store w) i = Inr b"
    "st_Unbind ops (w_store w) (pr_Subject actor) i = (Inr (), w_store w')"
    "b_Subject b = pr_Subject actor \<Longrightarrow> \<exists>w3. keeps (adm_e a) (w_store w) w3 \<and>
       fst (keepsAccess (adm_e a) w3 (pr_Subject actor) (adm_protected a) i None) = Inr ()"
proof -
  obtain actor b w4 st' where A: "PrincipalFrom ctx = Some actor" and b: "st_Binding ops (w_store w) i = Inr b"
    and c: "unbind_checks a w ctx actor b = (Inr (), w4)" and d: "st_Unbind ops (w_store w4) (pr_Subject actor) i = (Inr (), st')"
    and w': "w' = eng_Evict (w4\<lparr>w_store := st'\<rparr>) (b_Subject b)"
    using assms(2) by (auto simp: adm_Unbind_def st_bind_Inr_iff actor_ok read_ok write_ok)
  have k: "keeps (adm_e a) (w_store w) w" by (rule good_keeps [OF assms(1)])
  have w4: "w_store w4 = w_store w" using unbind_checks_keeps [OF k, of ctx actor b] c by (simp add: keeps_def)
  have "\<exists>w3. keeps (adm_e a) (w_store w) w3 \<and> fst (keepsAccess (adm_e a) w3 (pr_Subject actor) (adm_protected a) i None) = Inr ()"
    if own: "b_Subject b = pr_Subject actor"
  proof -
    obtain w2 w3 where r: "RequireOn (adm_e a) w ctx (adm_bindings a) (scope_resource (b_Scope b)) = (Inr (), w2)"
      and l: "(case lookupRole (adm_e a) (w_store w2) (b_Role b) of
          Inr role \<Rightarrow> CanBind (adm_e a) w2 actor role (b_Scope b) (adm_bindings a)
        | Inl err \<Rightarrow> if errors_Is err ErrRoleNotFound then (Inr (), w2) else (Inl (Internal err), w2)) = (Inr (), w3)"
      and ka: "keepsAccess (adm_e a) w3 (pr_Subject actor) (adm_protected a) (b_ID b) None = (Inr (), w4)"
      using c by (auto simp: unbind_checks_def st_bind_Inr_iff own)
    have k2: "keeps (adm_e a) (w_store w) w2" using keeps_RequireOn [OF k] r by (metis snd_conv)
    then have "keeps (adm_e a) (w_store w) w3"
      using l keeps_CanBind [OF k2] by (cases "lookupRole (adm_e a) (w_store w2) (b_Role b)") (auto split: if_splits, metis snd_conv)
    moreover have "b_ID b = i" using Binding_ok [OF _ b] assms(1) by (simp add: good_def)
    ultimately show ?thesis using ka by (intro exI [of _ w3]) simp
  qed
  with that [OF A b] d w4 w' show ?thesis by (simp add: eng_Evict_def)
qed

lemma SaveRole_success:
  assumes "good a inv w" "adm_SaveRole a w ctx role = (Inr saved, w')"
  obtains actor w1 where "PrincipalFrom ctx = Some actor" "fst (Require (adm_e a) w ctx (adm_roles a)) = Inr ()"
    "keeps (adm_e a) (w_store w) w1" "fst (CanSaveRole (adm_e a) w1 actor (role\<lparr>role_Key := []\<rparr>)) = Inr ()"
    "st_SaveRole ops (w_store w) (pr_Subject actor) (role\<lparr>role_Key := []\<rparr>) = (Inr saved, w_store w')"
    "role_ID role > 0 \<Longrightarrow> \<exists>w3. keeps (adm_e a) (w_store w) w3 \<and>
       fst (keepsAccess (adm_e a) w3 (pr_Subject actor) (adm_protected a) 0 (Some (role\<lparr>role_Key := []\<rparr>))) = Inr ()"
proof -
  let ?r = "role\<lparr>role_Key := []\<rparr>"
  obtain actor w1 w2 w4 st' where A: "PrincipalFrom ctx = Some actor" and r: "Require (adm_e a) w ctx (adm_roles a) = (Inr (), w1)"
    and c: "CanSaveRole (adm_e a) w1 actor ?r = (Inr (), w2)"
    and k: "(if role_ID role > 0
        then st_bind (store_read w2 (rd_Role (adm_store a) (w_store w2) (role_ID ?r))) (\<lambda>_ w3.
               keepsAccess (adm_e a) w3 (pr_Subject actor) (adm_protected a) 0 (Some ?r))
        else (Inr (), w2)) = (Inr (), w4)"
    and d: "st_SaveRole ops (w_store w4) (pr_Subject actor) ?r = (Inr saved, st')"
    and w': "w' = eng_EvictRole (w4\<lparr>w_store := st'\<rparr>) (role_ID saved)"
    using assms(2) by (auto simp: adm_SaveRole_def Let_def st_bind_Inr_iff actor_ok write_ok)
  have kw: "keeps (adm_e a) (w_store w) w" by (rule good_keeps [OF assms(1)])
  have k1: "keeps (adm_e a) (w_store w) w1" using keeps_Require [OF kw] r by (metis snd_conv)
  have k2: "keeps (adm_e a) (w_store w) w2" using keeps_CanSaveRole [OF k1] c by (metis snd_conv)
  have k4: "keeps (adm_e a) (w_store w) w4"
    using k k2 keeps_keepsAccess [OF k2] by (auto simp: st_bind_Inr_iff read_ok split: if_splits) (metis snd_conv)
  have "\<exists>w3. keeps (adm_e a) (w_store w) w3 \<and> fst (keepsAccess (adm_e a) w3 (pr_Subject actor) (adm_protected a) 0 (Some ?r)) = Inr ()"
    if "role_ID role > 0"
    using k k2 by (intro exI [of _ w2]) (auto simp: st_bind_Inr_iff read_ok \<open>role_ID role > 0\<close>)
  with that [OF A] r k1 c d w' k4 show ?thesis by (simp add: eng_EvictRole_def keeps_def)
qed

lemma Bind_success:
  assumes "good a inv w" "adm_Bind a w ctx b = (Inr saved, w')"
  obtains actor role w2 where "PrincipalFrom ctx = Some actor" "b_Subject b \<noteq> pr_Subject actor"
    "subject_Valid (b_Subject b)" "ref_Valid (b_Role b)" "valid_scope (eng_h (adm_e a)) (b_Scope b)"
    "fst (RequireOn (adm_e a) w ctx (adm_bindings a) (scope_resource (b_Scope b))) = Inr ()"
    "lookupRole (adm_e a) (w_store w) (b_Role b) = Inr role" "keeps (adm_e a) (w_store w) w2"
    "fst (CanBind (adm_e a) w2 actor role (b_Scope b) (adm_bindings a)) = Inr ()"
    "st_Bind ops (w_store w) (pr_Subject actor) b = (Inr saved, w_store w')"
proof -
  obtain actor role w1 w3 st' where A: "PrincipalFrom ctx = Some actor" and ne: "b_Subject b \<noteq> pr_Subject actor"
    and v: "subject_Valid (b_Subject b)" "ref_Valid (b_Role b)" "h_Check (eng_h (adm_e a)) (b_Scope b) = Inr ()"
    and r: "RequireOn (adm_e a) w ctx (adm_bindings a) (scope_resource (b_Scope b)) = (Inr (), w1)"
    and l: "lookupRole (adm_e a) (w_store w1) (b_Role b) = Inr role"
    and c: "CanBind (adm_e a) w1 actor role (b_Scope b) (adm_bindings a) = (Inr (), w3)"
    and d: "st_Bind ops (w_store w3) (pr_Subject actor) b = (Inr saved, st')"
    and w': "w' = eng_Evict (w3\<lparr>w_store := st'\<rparr>) (b_Subject b)"
    using assms(2)
    by (cases "h_Check (eng_h (adm_e a)) (b_Scope b)")
      (auto simp: adm_Bind_def st_bind_Inr_iff actor_ok read_ok write_ok split: if_splits)
  have kw: "keeps (adm_e a) (w_store w) w" by (rule good_keeps [OF assms(1)])
  have k1: "keeps (adm_e a) (w_store w) w1" using keeps_RequireOn [OF kw] r by (metis snd_conv)
  have k3: "keeps (adm_e a) (w_store w) w3" using keeps_CanBind [OF k1] c by (metis snd_conv)
  show ?thesis
    using that [OF A ne v(1,2), of role w1] v(3) r l c d w' k1 k3 by (simp add: h_Check_unit eng_Evict_def keeps_def)
qed

text \<open>What a refused binding leaves behind.\<close>

lemma Bind_error_cases:
  assumes "good a inv w" "adm_Bind a w ctx m = (Inl err, w1)"
  shows "keeps (adm_e a) (w_store w) w1 \<or> (\<exists>s e. st_Bind ops (w_store w) s m = (Inl e, w_store w1) \<and> err = storeErr e)"
proof (cases "PrincipalFrom ctx")
  case None
  then show ?thesis using assms good_keeps [OF assms(1)] by (simp add: adm_Bind_def adm_actor_def)
next
  case (Some actor)
  have k: "keeps (adm_e a) (w_store w) w" by (rule good_keeps [OF assms(1)])
  obtain r w2 where r: "RequireOn (adm_e a) w ctx (adm_bindings a) (scope_resource (b_Scope m)) = (r, w2)" by force
  have k2: "keeps (adm_e a) (w_store w) w2" using keeps_RequireOn [OF k] r by (metis snd_conv)
  note unf = adm_Bind_def adm_actor_def store_read_def Some r
  show ?thesis
  proof (cases "is_ok r \<and> is_ok (lookupRole (adm_e a) (w_store w2) (b_Role m))")
    case False
    then show ?thesis using assms(2) k k2
      by (cases r; cases "lookupRole (adm_e a) (w_store w2) (b_Role m)") (auto simp: unf split: if_splits sum.splits)
  next
    case True
    then obtain role where role: "r = Inr ()" "lookupRole (adm_e a) (w_store w2) (b_Role m) = Inr role" by (auto simp: is_ok_iff)
    obtain c w3 where c: "CanBind (adm_e a) w2 actor role (b_Scope m) (adm_bindings a) = (c, w3)" by force
    have k3: "keeps (adm_e a) (w_store w) w3" using keeps_CanBind [OF k2] c by (metis snd_conv)
    obtain x st' where b: "st_Bind ops (w_store w) (pr_Subject actor) m = (x, st')" by force
    show ?thesis using assms(2) k k3 b
      by (cases c; cases x) (auto simp: unf role c keeps_def store_write_def split: if_splits sum.splits, blast+)
  qed
qed

text \<open>After removing a binding, what the actor holds is what the remaining bindings grant.\<close>

lemma access_after_Unbind:
  assumes "inv st" "st_Unbind ops st s i = (Inr u, st')" "rd_BindingsFor ops st sub = Inr bs"
  shows "current_access (adm_e a) st' sub =
    map_sum Internal id (build (adm_e a) sub (filter (\<lambda>b. b_ID b \<noteq> i) bs) (lookupRole (adm_e a) st))"
proof -
  note ok = Unbind_ok [OF assms(1,2)]
  have "lookupRole (adm_e a) st' = lookupRole (adm_e a) st"
    using ok by (simp add: lookupRole_def fun_eq_iff same_roles_def)
  moreover have "rd_BindingsFor ops st' sub = Inr (filter (\<lambda>b. b_ID b \<noteq> i) bs)" using ok assms(3) by blast
  ultimately show ?thesis by (simp add: current_access_def load_bindings_def)
qed

lemma Unbind_keeps_protected:
  assumes "good a inv w" "adm_Unbind a w ctx i = (Inr u, w')" "PrincipalFrom ctx = Some actor" "perm \<in> set (adm_protected a)"
    and before: "current_access (adm_e a) (w_store w) (pr_Subject actor) = Inr before" "slice_at (eff_grants before) perm \<noteq> []"
  shows "\<exists>after. current_access (adm_e a) (w_store w') (pr_Subject actor) = Inr after \<and> slice_at (eff_grants after) perm \<noteq> []"
proof -
  let ?e = "adm_e a" and ?s = "pr_Subject actor"
  have i: "inv (w_store w)" using assms(1) by (simp add: good_def)
  obtain b where b: "st_Binding ops (w_store w) i = Inr b" and un: "st_Unbind ops (w_store w) ?s i = (Inr (), w_store w')"
    and own: "b_Subject b = ?s \<Longrightarrow> \<exists>w3. keeps ?e (w_store w) w3 \<and> fst (keepsAccess ?e w3 ?s (adm_protected a) i None) = Inr ()"
    using Unbind_success [OF assms(1,2)] assms(3) by (metis option.inject)
  obtain bs where bs: "rd_BindingsFor ops (w_store w) ?s = Inr bs" "build ?e ?s bs (lookupRole ?e (w_store w)) = Inr before"
    using before(1) by (auto simp: current_access_ok)
  show ?thesis
  proof (cases "b_Subject b = ?s")
    case False
    then have "filter (\<lambda>x. b_ID x \<noteq> i) bs = bs" using Unbind_other [OF i b _ bs(1)] by metis
    then show ?thesis using access_after_Unbind [OF i un bs(1)] bs(2) before(2) by simp
  next
    case True
    have "b \<in> set bs" using Binding_ok [OF i b] bs(1) True by auto
    then have "b_ID b \<noteq> 0" using BindingsFor_ok [OF i bs(1)] by blast
    then have ni: "i \<noteq> 0" using Binding_ok [OF i b] by simp
    obtain w3 where "keeps ?e (w_store w) w3" "fst (keepsAccess ?e w3 ?s (adm_protected a) i None) = Inr ()" using own [OF True] by blast
    from keepsAccess_ok [OF this assms(4) before] bs(1) ni obtain after where
      "build ?e ?s (filter (\<lambda>b. b_ID b \<noteq> i) bs) (lookup_override ?e (w_store w) None) = Inr after" "slice_at (eff_grants after) perm \<noteq> []"
      by auto
    moreover have "lookup_override ?e (w_store w) None = lookupRole ?e (w_store w)" by (simp add: lookup_override_def fun_eq_iff)
    ultimately show ?thesis using access_after_Unbind [OF i un bs(1)] by simp
  qed
qed

text \<open>The role the lock-out check tries is the role the store then has.\<close>

lemma SaveRole_keeps_protected:
  assumes "good a inv w" "adm_SaveRole a w ctx role = (Inr saved, w')" "PrincipalFrom ctx = Some actor" "role_ID role > 0"
    and "perm \<in> set (adm_protected a)"
    and before: "current_access (adm_e a) (w_store w) (pr_Subject actor) = Inr before" "slice_at (eff_grants before) perm \<noteq> []"
  shows "\<exists>after. current_access (adm_e a) (w_store w') (pr_Subject actor) = Inr after \<and> slice_at (eff_grants after) perm \<noteq> []"
proof -
  let ?e = "adm_e a" and ?s = "pr_Subject actor" and ?r = "role\<lparr>role_Key := []\<rparr>"
  have i: "inv (w_store w)" using assms(1) by (simp add: good_def)
  obtain w1 w3 where can: "keeps ?e (w_store w) w1" "fst (CanSaveRole ?e w1 actor ?r) = Inr ()"
    and sv: "st_SaveRole ops (w_store w) ?s ?r = (Inr saved, w_store w')"
    and ka: "keeps ?e (w_store w) w3" "fst (keepsAccess ?e w3 ?s (adm_protected a) 0 (Some ?r)) = Inr ()"
    using SaveRole_success [OF assms(1,2)] assms(3,4) by (metis option.inject)
  have "role_Computed ?r = None" using can(2) by (auto simp: CanSaveRole_def split: if_splits)
  then have eq: "saved = ?r" "role_ID saved = role_ID role"
    using SaveRole_ok [OF i sv] assms(4) by (metis (no_types, lifting) role.surjective role.update_convs(1,2,7) role.select_convs(1) less_irrefl, metis (no_types, lifting) role.select_convs(1) role.update_convs(2) role.surjective less_irrefl)
  from keepsAccess_ok [OF ka assms(5) before] obtain bs after where
    bs: "rd_BindingsFor ops (w_store w) ?s = Inr bs"
    and af: "build ?e ?s bs (lookup_override ?e (w_store w) (Some ?r)) = Inr after" "slice_at (eff_grants after) perm \<noteq> []"
    by auto
  have "lookupRole ?e (w_store w') (b_Role b) = lookup_override ?e (w_store w) (Some ?r) (b_Role b)" if "ref_Valid (b_Role b)" for b :: binding
    using SaveRole_ok [OF i sv] eq that by (auto simp: lookup_override_def lookupRole_def ref_Valid_def)
  then have "build ?e ?s bs (lookupRole ?e (w_store w')) = Inr after"
    using af(1) build_loop_cong [of bs "lookupRole ?e (w_store w')" "lookup_override ?e (w_store w) (Some ?r)" ?e] by (simp add: build_def)
  moreover have "rd_BindingsFor ops (w_store w') ?s = Inr bs" using SaveRole_ok [OF i sv] bs by (simp add: same_bindings_def)
  ultimately show ?thesis using af(2) by (auto simp: current_access_ok)
qed

end

section \<open>Properties\<close>

text \<open>
  A custom role cannot escalate. \<^verbatim>\<open>CanSaveRole\<close> passes exactly for a valid,
  not computed role each of whose grants the actor holds through one clause, with a qualifier at
  least as wide and attribute constraints at least as broad.
\<close>

theorem CanSaveRole_iff:
  assumes "cache_fresh e w" and "current_access e (w_store w) (pr_Subject actor) = Inr eff"
  shows "fst (CanSaveRole e w actor role) = Inr () \<longleftrightarrow>
    role_Computed role = None \<and> role_ok (eng_cat e) role
    \<and> (\<forall>g \<in> set (Resolve role (eng_cat e)). \<exists>c \<in> set (slice_at (eff_grants eff) (g_Permission g)).
         Covers (cl_Qualifier c) (g_Qualifier g)
         \<and> (\<forall>p. cat_Lookup (eng_cat e) (g_Permission g) = Some p \<longrightarrow> attrsCover (cl_Attrs c) (attrsFor p (role_Attrs role))))"
proof -
  have k: "keeps e (w_store w) w" using assms(1) by (simp add: keeps_def)
  obtain w' where ew: "eng_Effective e w (pr_Subject actor) = (Inr eff, w')"
    using Effective_current [OF k, of "pr_Subject actor"] assms(2) by (cases "eng_Effective e w (pr_Subject actor)") simp
  have known: "Role_Validate (eng_cat e) role = Inr () \<Longrightarrow> g \<in> set (Resolve role (eng_cat e)) \<Longrightarrow>
      attrsCover x (attrsFor (known_or_zero e (g_Permission g)) m) \<longleftrightarrow>
      (\<forall>p. cat_Lookup (eng_cat e) (g_Permission g) = Some p \<longrightarrow> attrsCover x (attrsFor p m))" for g x m
    using role_valid_known by (fastforce simp: known_or_zero_def)
  show ?thesis
    using known by (cases "Role_Validate (eng_cat e) role")
      (auto simp: CanSaveRole_def ew holdsAll_def holds_grants_iff Role_Validate_role_ok [symmetric])
qed

text \<open>
  Assigning a role is bounded by place and by the dangerous permissions.
  \<^verbatim>\<open>CanBind\<close> passes exactly when the role is valid, the scope resolves, the actor
  manages bindings at a scope containing it, holds there every system permission of the role, and
  for every organization-only permission of the role both the scope is the root and the actor
  manages bindings at the root.
\<close>

theorem CanBind_iff:
  assumes "engine_wf e" and "cache_fresh e w" and "current_access e (w_store w) (pr_Subject actor) = Inr eff"
  shows "fst (CanBind e w actor role scope manage) = Inr () \<longleftrightarrow>
    role_ok (eng_cat e) role
    \<and> (\<exists>chain. h_Chain (eng_h e) (eng_resolver e) scope [] = Inr chain
        \<and> (\<exists>c \<in> set (slice_at (eff_grants eff) manage). Within chain (cl_Scope c))
        \<and> (\<forall>g \<in> set (Resolve role (eng_cat e)). \<forall>p. cat_Lookup (eng_cat e) (g_Permission g) = Some p \<longrightarrow>
             (perm_System p \<longrightarrow> (\<exists>c \<in> set (slice_at (eff_grants eff) (g_Permission g)). Within chain (cl_Scope c)))
             \<and> (perm_OrganizationOnly p \<longrightarrow> IsRoot (eng_h e) scope
                  \<and> (\<exists>c \<in> set (slice_at (eff_grants eff) manage). IsRoot (eng_h e) (cl_Scope c)))))"
proof -
  let ?gs = "Resolve role (eng_cat e)"
  have k: "keeps e (w_store w) w" using assms(2) by (simp add: keeps_def)
  obtain w' where ew: "eng_Effective e w (pr_Subject actor) = (Inr eff, w')"
    using Effective_current [OF k, of "pr_Subject actor"] assms(3) by (cases "eng_Effective e w (pr_Subject actor)") simp
  show ?thesis
  proof (cases "Role_Validate (eng_cat e) role")
    case (Inl err)
    then show ?thesis by (simp add: CanBind_def Role_Validate_role_ok [symmetric])
  next
    case valid: (Inr u)
    show ?thesis
    proof (cases "h_Chain (eng_h e) (eng_resolver e) scope []")
      case (Inl err)
      with valid show ?thesis by (simp add: CanBind_def)
    next
      case (Inr chain)
      have known: "\<exists>p. cat_Lookup (eng_cat e) (g_Permission g) = Some p \<and> known_or_zero e (g_Permission g) = p \<and> perm_ID p = g_Permission g"
        if "g \<in> set ?gs" for g
        using role_valid_known [OF _ that] valid cat_wf_ID [OF engine_wf_cat [OF assms(1)]] by (fastforce simp: known_or_zero_def)
      let ?root = "holdsWithin eff manage (IsRoot (eng_h e))"
      have "fst (CanBind e w actor role scope manage) = Inr () \<longleftrightarrow>
          (\<not> IsRoot (eng_h e) scope \<longrightarrow> organization_problems e ?gs = []) \<and> holdsWithin eff manage (Within chain)
          \<and> bind_grants e eff chain manage ?root ?gs = Inr ()"
        using valid Inr ew by (auto simp: CanBind_def Let_def asValidation_def)
      also have "\<dots> \<longleftrightarrow> holdsWithin eff manage (Within chain)
          \<and> (\<forall>g \<in> set ?gs. \<forall>p. cat_Lookup (eng_cat e) (g_Permission g) = Some p \<longrightarrow>
               (perm_System p \<longrightarrow> holdsWithin eff (g_Permission g) (Within chain))
               \<and> (perm_OrganizationOnly p \<longrightarrow> IsRoot (eng_h e) scope \<and> ?root))"
        using known unfolding bind_grants_iff organization_problems_empty Let_def by fastforce
      finally show ?thesis using valid Inr by (simp add: holdsWithin_iff Role_Validate_role_ok [symmetric])
    qed
  qed
qed

text \<open>
  C4: what \<^verbatim>\<open>Admin.Bind\<close> lets through, whatever it answers. For every store that meets the contract, a refusal
  leaves every role and everybody's bindings as they were. A binding is stored only when its subject is not the acting principal and,
  as decided from the store (by every fresh cache alike), the principal is allowed to manage bindings on the target scope and the
  delegation rules hold for the role there; then the subject holds the new binding besides its old ones, and nobody else's bindings
  and no role change.
\<close>

theorem Bind_safe:
  assumes "administration ops I a" and "good a I w" and "adm_Bind a w ctx b = (r, w')"
  shows "same_roles ops (w_store w) (w_store w')
    \<and> (case r of
         Inl _ \<Rightarrow> same_bindings ops (w_store w) (w_store w')
       | Inr saved \<Rightarrow> \<exists>actor role. PrincipalFrom ctx = Some actor \<and> b_Subject b \<noteq> pr_Subject actor
           \<and> lookupRole (adm_e a) (w_store w) (b_Role b) = Inr role
           \<and> (\<forall>w2. keeps (adm_e a) (w_store w) w2 \<longrightarrow>
                fst (RequireOn (adm_e a) w2 ctx (adm_bindings a) (scope_resource (b_Scope b))) = Inr ()
                \<and> fst (CanBind (adm_e a) w2 actor role (b_Scope b) (adm_bindings a)) = Inr ())
           \<and> b_Role saved = b_Role b \<and> b_Scope saved = b_Scope b \<and> b_CreatedBy saved = sub_ID (pr_Subject actor)
           \<and> (\<forall>sub bs. rd_BindingsFor ops (w_store w) sub = Inr bs \<longrightarrow>
                rd_BindingsFor ops (w_store w') sub = Inr (if sub = b_Subject b then bs @ [saved] else bs)))"
proof -
  have i: "I (w_store w)" using assms(2) by (simp add: good_def)
  note store = administration.axioms(1) [OF assms(1)]
  show ?thesis
  proof (cases r)
    case (Inl err)
    from administration.Bind_error_cases [OF assms(1,2) assms(3) [unfolded Inl]] show ?thesis
      using authz_store.Bind_err [OF store i] by (auto simp: Inl keeps_def same_roles_def same_bindings_def)
  next
    case (Inr saved)
    obtain actor role w3 where A: "PrincipalFrom ctx = Some actor" "b_Subject b \<noteq> pr_Subject actor"
        "fst (RequireOn (adm_e a) w ctx (adm_bindings a) (scope_resource (b_Scope b))) = Inr ()"
        "lookupRole (adm_e a) (w_store w) (b_Role b) = Inr role" "keeps (adm_e a) (w_store w) w3"
        "fst (CanBind (adm_e a) w3 actor role (b_Scope b) (adm_bindings a)) = Inr ()"
      and st: "st_Bind ops (w_store w) (pr_Subject actor) b = (Inr saved, w_store w')"
      using administration.Bind_success [OF assms(1,2) assms(3) [unfolded Inr]] by metis
    have kw: "keeps (adm_e a) (w_store w) w" using assms(2) by (simp add: good_def keeps_def)
    have d: "\<forall>w2. keeps (adm_e a) (w_store w) w2 \<longrightarrow>
        fst (RequireOn (adm_e a) w2 ctx (adm_bindings a) (scope_resource (b_Scope b))) = Inr ()
        \<and> fst (CanBind (adm_e a) w2 actor role (b_Scope b) (adm_bindings a)) = Inr ()"
      using A(3,6) RequireOn_same [OF _ kw] CanBind_same [OF _ A(5)] by metis
    show ?thesis using authz_store.Bind_ok [OF store i st] A(1,2,4) d Inr by auto
  qed
qed

text \<open>
  C27: the last-admin lock-out, on removal. Whoever removes a binding, their own or another's,
  still holds afterwards every protected permission they held before.
\<close>

theorem Unbind_never_locks_out:
  assumes "administration ops I a" and "good a I w" and "adm_Unbind a w ctx i = (Inr u, w')"
    and "PrincipalFrom ctx = Some actor" and "perm \<in> set (adm_protected a)"
    and "current_access (adm_e a) (w_store w) (pr_Subject actor) = Inr before" and "slice_at (eff_grants before) perm \<noteq> []"
  shows "\<exists>after. current_access (adm_e a) (w_store w') (pr_Subject actor) = Inr after \<and> slice_at (eff_grants after) perm \<noteq> []"
  by (rule administration.Unbind_keeps_protected [OF assms])

text \<open>
  C28: the last-admin lock-out, on editing. Replacing a custom role never takes the acting
  principal's last access to a protected permission: the check builds the access from the very role
  the store then returns.
\<close>

theorem SaveRole_never_locks_out:
  assumes "administration ops I a" and "good a I w" and "adm_SaveRole a w ctx role = (Inr saved, w')"
    and "PrincipalFrom ctx = Some actor" and "role_ID role > 0" and "perm \<in> set (adm_protected a)"
    and "current_access (adm_e a) (w_store w) (pr_Subject actor) = Inr before" and "slice_at (eff_grants before) perm \<noteq> []"
  shows "\<exists>after. current_access (adm_e a) (w_store w') (pr_Subject actor) = Inr after \<and> slice_at (eff_grants after) perm \<noteq> []"
  by (rule administration.SaveRole_keeps_protected [OF assms])

text \<open>
  C29: a change applies on the next request. Each of the four handlers, whether it succeeds or
  fails at any step, leaves the store's invariant and a cache in which every entry is what the
  store now yields.
\<close>

theorem admin_keeps_cache_fresh:
  assumes "administration ops I a" and "good a I w"
  shows "good a I (snd (adm_SaveRole a w ctx role)) \<and> good a I (snd (adm_DeleteRole a w ctx i))
    \<and> good a I (snd (adm_Bind a w ctx b)) \<and> good a I (snd (adm_Unbind a w ctx i))"
  using administration.good_adm_SaveRole [OF assms] administration.good_adm_DeleteRole [OF assms]
    administration.good_adm_Bind [OF assms] administration.good_adm_Unbind [OF assms] by blast

section \<open>A concrete administration\<close>

definition sample_admin :: "mem_store admin" where
  "sample_admin = \<lparr>adm_e = sample_engine, adm_store = mem_ops, adm_roles = ''crm.lead:view'', adm_bindings = ''crm.lead:view'',
     adm_protected = [''crm.lead:view'']\<rparr>"

interpretation sample: administration mem_ops mem_inv sample_admin
  by unfold_locales (simp_all add: sample_admin_def sample_engine_wf mem_ops_def reader_ops.extend_def reader_ops.truncate_def mem_reader_def)

definition new_binding :: binding where
  "new_binding = \<lparr>b_ID = 0, b_Subject = \<lparr>sub_Kind = KindUser, sub_ID = 7\<rparr>, b_Role = \<lparr>ref_ID = 0, ref_Key = ''admin''\<rparr>,
     b_Scope = mk_scope ''location'' 7, b_CreatedBy = 0, b_CreatedAt = 0\<rparr>"

lemma sample_Bind_runs: "is_ok (fst (adm_Bind sample_admin sample_world (Some (User 42 0)) new_binding))"
  by code_simp

lemma sample_admin_fields: "adm_e sample_admin = sample_engine" "adm_protected sample_admin = [''crm.lead:view'']"
  by (simp_all add: sample_admin_def)

abbreviation sample_ctx :: ctx where
  "sample_ctx \<equiv> Some (User 42 0)"

lemma sample_good: "good sample_admin mem_inv sample_world"
  using sample_world_fresh sample_store_inv by (simp add: good_def sample_admin_def sample_world_def)

definition bound_world :: "mem_store world" where
  "bound_world = snd (adm_Bind sample_admin sample_world sample_ctx new_binding)"

lemma bound_good: "good sample_admin mem_inv bound_world"
  unfolding bound_world_def by (rule sample.good_adm_Bind [OF sample_good])

definition custom_role :: role where
  "custom_role = \<lparr>role_ID = 0, role_Key = [], role_Name = ''Viewer'', role_Description = [],
     role_Grants = Grants QualifierOwn [''crm.lead:view''], role_Attrs = fmempty, role_Computed = None\<rparr>"

definition saved_world :: "mem_store world" where
  "saved_world = snd (adm_SaveRole sample_admin sample_world sample_ctx custom_role)"

lemma saved_good: "good sample_admin mem_inv saved_world"
  unfolding saved_world_def by (rule sample.good_adm_SaveRole [OF sample_good])

text \<open>Whether a subject holds a permission now.\<close>

definition holds_now :: "'s engine \<Rightarrow> 's \<Rightarrow> subject \<Rightarrow> string \<Rightarrow> bool" where
  "holds_now e st s permission = (case current_access e st s of Inl _ \<Rightarrow> False | Inr eff \<Rightarrow> slice_at (eff_grants eff) permission \<noteq> [])"

lemma holds_now_iff:
  "holds_now e st s permission \<longleftrightarrow> (\<exists>eff. current_access e st s = Inr eff \<and> slice_at (eff_grants eff) permission \<noteq> [])"
  by (auto simp: holds_now_def split: sum.split)

lemma sample_runs:
  "is_ok (fst (adm_Unbind sample_admin bound_world sample_ctx 2))"
  "is_ok (fst (adm_SaveRole sample_admin saved_world sample_ctx (custom_role\<lparr>role_ID := 1\<rparr>)))"
  "is_ok (fst (CanSaveRole sample_engine sample_world (User 42 0) custom_role))"
  "is_ok (fst (CanBind sample_engine sample_world (User 42 0) sample_role (mk_scope ''location'' 7) ''crm.lead:view''))"
  "\<not> is_ok (fst (adm_Unbind sample_admin bound_world sample_ctx 1))"
  by code_simp+

lemma sample_holds:
  "holds_now sample_engine (w_store bound_world) (pr_Subject (User 42 0)) ''crm.lead:view''"
  "holds_now sample_engine (w_store saved_world) (pr_Subject (User 42 0)) ''crm.lead:view''"
  by code_simp+

lemma sample_current: "\<exists>eff. current_access sample_engine (w_store sample_world) (pr_Subject (User 42 0)) = Inr eff"
  using stored_access_eff [OF sample_engine_wf sample_access] by metis

lemma is_ok_unit: "is_ok (r :: unit result) \<Longrightarrow> r = Inr ()"
  by (cases r) auto

theorem CanSaveRole_iff_witness:
  "\<exists>eff. current_access sample_engine (w_store sample_world) (pr_Subject (User 42 0)) = Inr eff
     \<and> (\<exists>c \<in> set (slice_at (eff_grants eff) ''crm.lead:view''). Covers (cl_Qualifier c) QualifierOwn)"
proof -
  obtain eff where eff: "current_access sample_engine (w_store sample_world) (pr_Subject (User 42 0)) = Inr eff"
    using sample_current by blast
  have "\<lparr>g_Permission = ''crm.lead:view'', g_Qualifier = QualifierOwn\<rparr> \<in> set (Resolve custom_role cat)" for cat
    by (simp add: Resolve_def custom_role_def Grants_def)
  with CanSaveRole_iff [OF sample_world_fresh eff, of custom_role] is_ok_unit [OF sample_runs(3)] eff
  show ?thesis by fastforce
qed

theorem CanBind_iff_witness: "role_ok (eng_cat sample_engine) sample_role"
proof -
  obtain eff where eff: "current_access sample_engine (w_store sample_world) (pr_Subject (User 42 0)) = Inr eff"
    using sample_current by blast
  from CanBind_iff [OF sample_engine_wf sample_world_fresh eff] is_ok_unit [OF sample_runs(4)] show ?thesis by blast
qed

theorem Bind_safe_witness:
  "\<exists>saved. fst (adm_Bind sample_admin sample_world sample_ctx new_binding) = Inr saved
     \<and> rd_BindingsFor mem_ops (w_store bound_world) (b_Subject new_binding) = Inr [saved]"
proof -
  obtain saved where s: "adm_Bind sample_admin sample_world sample_ctx new_binding = (Inr saved, bound_world)"
    using sample_Bind_runs by (metis bound_world_def is_ok_iff prod.collapse)
  have "rd_BindingsFor mem_ops (w_store sample_world) (b_Subject new_binding) = Inr []"
    by (simp add: mem_defs ms_BindingsFor_def filterBindings_def sample_world_def sample_store_bindings)
      (simp add: new_binding_def sample_binding_def)
  with Bind_safe [OF sample.administration_axioms sample_good s] s show ?thesis by auto
qed

theorem Unbind_never_locks_out_witness:
  "\<exists>after. current_access sample_engine (w_store (snd (adm_Unbind sample_admin bound_world sample_ctx 2))) (pr_Subject (User 42 0)) = Inr after
     \<and> slice_at (eff_grants after) ''crm.lead:view'' \<noteq> []"
proof -
  have u: "adm_Unbind sample_admin bound_world sample_ctx 2 = (Inr (), snd (adm_Unbind sample_admin bound_world sample_ctx 2))"
    using is_ok_unit [OF sample_runs(1)] by (metis prod.collapse)
  obtain before where b: "current_access sample_engine (w_store bound_world) (pr_Subject (User 42 0)) = Inr before"
      "slice_at (eff_grants before) ''crm.lead:view'' \<noteq> []"
    using holds_now_iff [THEN iffD1, OF sample_holds(1)] by blast
  show ?thesis
    by (rule Unbind_never_locks_out [OF sample.administration_axioms bound_good u sample_principal, unfolded sample_admin_fields,
        OF list.set_intros(1) b])
qed

theorem SaveRole_never_locks_out_witness:
  "\<exists>after. current_access sample_engine (w_store (snd (adm_SaveRole sample_admin saved_world sample_ctx (custom_role\<lparr>role_ID := 1\<rparr>))))
     (pr_Subject (User 42 0)) = Inr after \<and> slice_at (eff_grants after) ''crm.lead:view'' \<noteq> []"
proof -
  obtain saved where u: "adm_SaveRole sample_admin saved_world sample_ctx (custom_role\<lparr>role_ID := 1\<rparr>) =
      (Inr saved, snd (adm_SaveRole sample_admin saved_world sample_ctx (custom_role\<lparr>role_ID := 1\<rparr>)))"
    using sample_runs(2) by (metis is_ok_iff prod.collapse)
  obtain before where b: "current_access sample_engine (w_store saved_world) (pr_Subject (User 42 0)) = Inr before"
      "slice_at (eff_grants before) ''crm.lead:view'' \<noteq> []"
    using holds_now_iff [THEN iffD1, OF sample_holds(2)] by blast
  have "role_ID (custom_role\<lparr>role_ID := 1\<rparr>) > 0" by simp
  then show ?thesis
    by (rule SaveRole_never_locks_out [OF sample.administration_axioms saved_good u sample_principal, unfolded sample_admin_fields,
        OF _ list.set_intros(1) b])
qed

theorem admin_keeps_cache_fresh_witness: "good sample_admin mem_inv (snd (adm_Bind sample_admin sample_world sample_ctx new_binding))"
  using admin_keeps_cache_fresh [OF sample.administration_axioms sample_good] by blast

end
