(* ===== verification/AccessAdmin.thy ===== *)
theory AccessAdmin
  imports Admin
begin

text \<open>
  The administration of roles and bindings, \<^verbatim>\<open>access/admin/\<close>: the services \<^verbatim>\<open>Roles\<close> and
  \<^verbatim>\<open>Bindings\<close> over the engine and the delegation rules of \<^verbatim>\<open>Admin\<close>.

  The application's parts are functions in the record \<open>access\<close>: the names of places and subjects, the places there are,
  the store's holder queries and the three hooks, which see the context. A transaction that fails puts the store back as it was;
  the cache is not part of it.
\<close>

section \<open>Data\<close>

record place =
  pl_Scope :: scope
  pl_Name :: string

record scope_option =
  so_Scope :: scope
  so_Name :: string
  so_Parent :: scope

record 's access =
  ax_engine :: "'s engine"
  ax_store :: "'s store_ops"
  ax_HoldersOf :: "'s \<Rightarrow> role_ref \<Rightarrow> binding list result"
  ax_HolderCounts :: "'s \<Rightarrow> holder_counts result"
  ax_Parent :: resolver
  ax_Names :: "scope list \<Rightarrow> (scope \<rightharpoonup> string) result"
  ax_Options :: "scope_option list result"
  ax_SubjectNames :: "subject list \<Rightarrow> (subject \<rightharpoonup> string) result"
  ax_RoleCheck :: "ctx \<Rightarrow> role \<Rightarrow> problem list"
  ax_BindingCheck :: "ctx \<Rightarrow> subject \<Rightarrow> binding \<Rightarrow> unit result"
  ax_Reach :: "ctx \<Rightarrow> subject \<Rightarrow> bool result"
  ax_delegation :: "'s admin"
  ax_serviceDelegation :: "'s admin option"

definition ViewRoles :: string where "ViewRoles = ''iam.role:view''"
definition ManageRoles :: string where "ManageRoles = ''iam.role:manage''"
definition DeleteRoles :: string where "DeleteRoles = ''iam.role:delete''"
definition ViewAccess :: string where "ViewAccess = ''iam.user:view''"
definition ManageBindings :: string where "ManageBindings = ''iam.user:manage''"
definition ViewServiceAccountAccess :: string where "ViewServiceAccountAccess = ''iam.serviceaccount:view''"
definition ManageServiceAccountBindings :: string where "ManageServiceAccountBindings = ''iam.serviceaccount:manage''"

definition PermissionIDs :: "string list" where
  "PermissionIDs = [ViewRoles, ManageRoles, DeleteRoles, ViewAccess, ManageBindings]"

text \<open>What the application gives; \<open>None\<close> is nil.\<close>

record 's access_config =
  acf_Engine :: "'s engine option"
  acf_Store :: "('s store_ops \<times> ('s \<Rightarrow> role_ref \<Rightarrow> binding list result) \<times> ('s \<Rightarrow> holder_counts result)) option"
  acf_Scopes :: "(resolver \<times> (scope list \<Rightarrow> (scope \<rightharpoonup> string) result) \<times> scope_option list result) option"
  acf_Subjects :: "(subject list \<Rightarrow> (subject \<rightharpoonup> string) result) option"
  acf_Transactor :: bool
  acf_RoleCheck :: "(ctx \<Rightarrow> role \<Rightarrow> problem list) option"
  acf_BindingCheck :: "(ctx \<Rightarrow> subject \<Rightarrow> binding \<Rightarrow> unit result) option"
  acf_Reach :: "(ctx \<Rightarrow> subject \<Rightarrow> bool result) option"

definition noScopes :: "resolver \<times> (scope list \<Rightarrow> (scope \<rightharpoonup> string) result) \<times> scope_option list result" where
  "noScopes = (\<lambda>_. Inl (Sentinel ErrInvalidScope), \<lambda>_. Inr (\<lambda>_. None), Inr [])"

definition access_New :: "'s access_config \<Rightarrow> 's access result" where
  "access_New cfg =
     (case acf_Engine cfg of
        None \<Rightarrow> Inl (Plain ''access: the engine is required: build it with authz.NewEngine, or use access.Install'')
      | Some e \<Rightarrow>
      case acf_Store cfg of
        None \<Rightarrow> Inl (Plain ''access: a store is required: use gormstore.New(db), which also answers holder queries'')
      | Some (ops, holdersOf, holderCounts) \<Rightarrow>
      case acf_Scopes cfg of
        None \<Rightarrow> Inl (Plain ''access: a ScopeCatalog is required: pass admin.NoScopes() for an application without tenancy'')
      | Some (parent, names, options) \<Rightarrow>
      case acf_Subjects cfg of
        None \<Rightarrow> Inl (Plain ''access: a SubjectDirectory is required: it names the people and service accounts that hold roles'')
      | Some subjects \<Rightarrow>
      if \<not> acf_Transactor cfg then Inl (Plain ''access: a Transactor is required: database.NewTransactor(db)'')
      else case List.find (\<lambda>i. cat_Lookup (eng_cat e) i = None) PermissionIDs of
        Some i \<Rightarrow> Inl (Plain (''access: permission '' @ go_quote i
          @ '' is not in the catalogue: define it in the catalogue, or let access.Install define it''))
      | None \<Rightarrow>
          (case NewAdmin (Some e) (Some ops) ManageRoles ManageBindings [ManageBindings] of
             Inl err \<Rightarrow> Inl (Wrapf (''access: '' @ error_text err) err)
           | Inr delegation \<Rightarrow>
             (case (if cat_Lookup (eng_cat e) ManageServiceAccountBindings = None then Inr None
                    else map_sum id Some (NewAdmin (Some e) (Some ops) ManageRoles ManageServiceAccountBindings [])) of
                Inl err \<Rightarrow> Inl (Wrapf (''access: '' @ error_text err) err)
              | Inr service \<Rightarrow>
                  Inr \<lparr>ax_engine = e, ax_store = ops, ax_HoldersOf = holdersOf, ax_HolderCounts = holderCounts, ax_Parent = parent,
                       ax_Names = names, ax_Options = options, ax_SubjectNames = subjects,
                       ax_RoleCheck = (case acf_RoleCheck cfg of None \<Rightarrow> \<lambda>_ _. [] | Some f \<Rightarrow> f),
                       ax_BindingCheck = (case acf_BindingCheck cfg of None \<Rightarrow> \<lambda>_ _ _. Inr () | Some f \<Rightarrow> f),
                       ax_Reach = (case acf_Reach cfg of None \<Rightarrow> \<lambda>_ _. Inr True | Some f \<Rightarrow> f),
                       ax_delegation = delegation, ax_serviceDelegation = service\<rparr>)))"

section \<open>What both services share\<close>

record 's access_gate =
  gt_view :: string
  gt_manage :: string
  gt_delegation :: "'s admin"

definition subject_not_found :: go_error where "subject_not_found = App (NotFound ''subject not found'')"

definition gateOf :: "'s access \<Rightarrow> string \<Rightarrow> 's access_gate result" where
  "gateOf ax kind =
     (if kind = KindUser then Inr \<lparr>gt_view = ViewAccess, gt_manage = ManageBindings, gt_delegation = ax_delegation ax\<rparr>
      else case ax_serviceDelegation ax of
        Some d \<Rightarrow>
          if kind = KindServiceAccount
          then Inr \<lparr>gt_view = ViewServiceAccountAccess, gt_manage = ManageServiceAccountBindings, gt_delegation = d\<rparr>
          else Inl subject_not_found
      | None \<Rightarrow> Inl subject_not_found)"

definition place_names :: "'s access \<Rightarrow> scope list \<Rightarrow> (scope \<Rightarrow> place) result" where
  "place_names ax scopes =
     (let below = filter (\<lambda>s. \<not> IsRoot (eng_h (ax_engine ax)) s) scopes in
      res_bind (if below = [] then Inr (\<lambda>_. None)
                else case ax_Names ax below of
                  Inl err \<Rightarrow> Inl (Wrapf (''access: place names: '' @ error_text err) err) | Inr names \<Rightarrow> Inr names) (\<lambda>names.
        Inr (\<lambda>s. \<lparr>pl_Scope = s, pl_Name = (case names s of None \<Rightarrow> [] | Some n \<Rightarrow> n)\<rparr>)))"

definition subjectNames :: "'s access \<Rightarrow> subject list \<Rightarrow> (subject \<rightharpoonup> string) result" where
  "subjectNames ax subjects =
     (case ax_SubjectNames ax subjects of
        Inl err \<Rightarrow> Inl (Wrapf (''access: subject names: '' @ error_text err) err) | Inr names \<Rightarrow> Inr names)"

definition requireSubject :: "'s access \<Rightarrow> ctx \<Rightarrow> subject \<Rightarrow> unit result" where
  "requireSubject ax ctx s =
     (if \<not> subject_Valid s then Inl subject_not_found
      else res_bind (subjectNames ax [s]) (\<lambda>names.
        if names s = None then Inl subject_not_found
        else res_bind (ax_Reach ax ctx s) (\<lambda>reach. if \<not> reach then Inl subject_not_found else Inr ())))"

definition access_actor :: "ctx \<Rightarrow> principal result" where
  "access_actor ctx =
     (case PrincipalFrom ctx of
        None \<Rightarrow> Inl (App (apperr_Wrap (Some (Sentinel ErrNoPrincipal)) ''user not authenticated'' CodeUnauthenticated))
      | Some p \<Rightarrow> Inr p)"

text \<open>\<^verbatim>\<open>strconv.Atoi\<close>: an optional sign and digits, within 64 bits.\<close>

definition go_Atoi :: "string \<Rightarrow> int option" where
  "go_Atoi s =
     (let neg = (s \<noteq> [] \<and> hd s = CHR ''-''); digits = (if s \<noteq> [] \<and> (hd s = CHR ''-'' \<or> hd s = CHR ''+'') then tl s else s);
          n = (if neg then - int (read_nat digits) else int (read_nat digits)) in
      if digits \<noteq> [] \<and> list_all digit_char digits \<and> - (2 ^ 63) \<le> n \<and> n < 2 ^ 63 then Some n else None)"

definition access_predefined :: "'s access \<Rightarrow> string \<Rightarrow> role result" where
  "access_predefined ax key =
     (case PredefinedRole (ax_engine ax) key of
        None \<Rightarrow> Inl (App (NotFound (''role '' @ key @ '' not found''))) | Some role \<Rightarrow> Inr role)"

definition read_role_failed :: "int \<Rightarrow> go_error \<Rightarrow> go_error" where
  "read_role_failed i err = Internal (Wrapf (''access: read role '' @ show_int i @ '': '' @ error_text err) err)"

definition access_role :: "'s access \<Rightarrow> 's \<Rightarrow> string \<Rightarrow> role result" where
  "access_role ax st ref =
     (case go_Atoi ref of
        None \<Rightarrow> access_predefined ax ref
      | Some i \<Rightarrow>
          (case rd_Role (ax_store ax) st i of
             Inl err \<Rightarrow> Inl (if errors_Is err ErrRoleNotFound then NotFoundFrom err else read_role_failed i err)
           | Inr role \<Rightarrow> Inr role))"

text \<open>A role without grants, for what is left of a role that no longer exists.\<close>

definition role_stub :: "int \<Rightarrow> string \<Rightarrow> string \<Rightarrow> role" where
  "role_stub i key name = \<lparr>role_ID = i, role_Key = key, role_Name = name, role_Description = [], role_Grants = [], role_Attrs = fmempty, role_Computed = None\<rparr>"

definition roleOf :: "'s access \<Rightarrow> 's \<Rightarrow> role_ref \<Rightarrow> role result" where
  "roleOf ax st ref =
     (if ref_ID ref > 0 then
        (case rd_Role (ax_store ax) st (ref_ID ref) of
           Inl err \<Rightarrow>
             if errors_Is err ErrRoleNotFound then Inr (role_stub (ref_ID ref) [] (''#'' @ show_int (ref_ID ref)))
             else Inl (read_role_failed (ref_ID ref) err)
         | Inr role \<Rightarrow> Inr role)
      else case PredefinedRole (ax_engine ax) (ref_Key ref) of
        None \<Rightarrow> Inr (role_stub 0 (ref_Key ref) (ref_Key ref)) | Some role \<Rightarrow> Inr role)"

definition holderCounts :: "'s access \<Rightarrow> 's \<Rightarrow> holder_counts result" where
  "holderCounts ax st =
     (case ax_HolderCounts ax st of
        Inl err \<Rightarrow> Inl (Internal (Wrapf (''access: holder counts: '' @ error_text err) err)) | Inr counts \<Rightarrow> Inr counts)"

section \<open>Views\<close>

record role_view =
  rv_Ref :: string
  rv_ID :: int
  rv_Key :: string
  rv_Name :: string
  rv_Description :: string
  rv_Predefined :: bool
  rv_Computed :: bool
  rv_Attrs :: "(string, string list) gomap"
  rv_Holders :: nat
  rv_PermissionCount :: nat
  rv_Grants :: "grant list"

definition RefOf :: "role \<Rightarrow> string" where
  "RefOf role = (if role_Predefined role then role_Key role else show_int (role_ID role))"

definition viewOf :: "role \<Rightarrow> catalogue \<Rightarrow> nat \<Rightarrow> bool \<Rightarrow> role_view" where
  "viewOf role cat holders withGrants =
     (let resolved = Resolve role cat in
      \<lparr>rv_Ref = RefOf role, rv_ID = role_ID role, rv_Key = role_Key role, rv_Name = role_Name role, rv_Description = role_Description role,
       rv_Predefined = role_Predefined role, rv_Computed = (role_Computed role \<noteq> None), rv_Attrs = role_Attrs role,
       rv_Holders = holders, rv_PermissionCount = length resolved,
       rv_Grants = (if withGrants then sort_key g_Permission resolved else [])\<rparr>)"

record holder_view =
  hv_Subject :: subject
  hv_Name :: string
  hv_Place :: place

record difference =
  df_Permission :: string
  df_Role :: qualifier
  df_Other :: qualifier

record comparison =
  cm_OnlyInRole :: "grant list"
  cm_OnlyInOther :: "grant list"
  cm_Different :: "difference list"

record binding_view =
  bv_ID :: int
  bv_Role :: role_view
  bv_Place :: place
  bv_CreatedBy :: int
  bv_CreatedByName :: string
  bv_CreatedAt :: int

record grant_view =
  gv_Qualifier :: qualifier
  gv_Place :: place
  gv_Attrs :: "(string, string list) gomap"
  gv_BindingID :: int
  gv_RoleKey :: string
  gv_RoleName :: string

record permission_view =
  pv_Permission :: string
  pv_Grants :: "grant_view list"
  pv_Unavailable :: bool

record subject_access =
  sa_Subject :: subject
  sa_Bindings :: "binding_view list"
  sa_Effective :: "permission_view list"
  sa_CanManage :: bool

record scope_options =
  sp_RootLevel :: string
  sp_Root :: bool
  sp_Places :: "scope_option list"


section \<open>Roles\<close>

record role_draft =
  rd_Name :: string
  rd_Description :: string
  rd_Grants :: "grant list"
  rd_Attrs :: "(string, string list) gomap"

definition draft_role :: "role_draft \<Rightarrow> int \<Rightarrow> role" where
  "draft_role d i = \<lparr>role_ID = i, role_Key = [], role_Name = rd_Name d, role_Description = rd_Description d,
     role_Grants = rd_Grants d, role_Attrs = rd_Attrs d, role_Computed = None\<rparr>"

definition errPredefined :: string where
  "errPredefined = ''access: a predefined role is defined in code and cannot be changed''"

definition as_app :: "(go_error app_error \<Rightarrow> go_error app_error) \<Rightarrow> go_error \<Rightarrow> go_error" where
  "as_app f e = (case e of App a \<Rightarrow> App (f a) | _ \<Rightarrow> e)"

definition access_custom :: "'s access \<Rightarrow> 's \<Rightarrow> string \<Rightarrow> role result" where
  "access_custom ax st ref =
     res_bind (access_role ax st ref) (\<lambda>role.
       if role_Predefined role
       then Inl (as_app (WithReason ''authz.forbidden'' [fmupd ''why'' (AnyString ''predefined'') fmempty]) (ForbiddenFrom (Sentinel errPredefined)))
       else Inr role)"

definition roles_describe :: "'s access \<Rightarrow> 's \<Rightarrow> role \<Rightarrow> role_view result" where
  "roles_describe ax st role =
     res_bind (holderCounts ax st) (\<lambda>counts. Inr (viewOf role (eng_cat (ax_engine ax)) (counts_Of counts (role_Ref role)) True))"

definition list_roles_failed :: "go_error \<Rightarrow> go_error" where
  "list_roles_failed err = Internal (Wrapf (''access: list roles: '' @ error_text err) err)"

definition roles_List :: "'s access \<Rightarrow> 's world \<Rightarrow> ctx \<Rightarrow> role_view list result \<times> 's world" where
  "roles_List ax w ctx =
     st_bind (Require (ax_engine ax) w ctx ViewRoles) (\<lambda>_ w1.
     st_bind (holderCounts ax (w_store w1), w1) (\<lambda>counts w1.
     st_bind (map_sum list_roles_failed id (st_ListRoles (ax_store ax) (w_store w1)), w1) (\<lambda>custom w1.
       let predefined = sort_key (\<lambda>r. if role_Computed r \<noteq> None then 0 else 1 :: nat) (PredefinedRoles (ax_engine ax));
           ordered = sort_key role_Name custom in
       (Inr (map (\<lambda>r. viewOf r (eng_cat (ax_engine ax)) (counts_Of counts (role_Ref r)) False) (predefined @ ordered)), w1))))"

definition roles_Show :: "'s access \<Rightarrow> 's world \<Rightarrow> ctx \<Rightarrow> string \<Rightarrow> role_view result \<times> 's world" where
  "roles_Show ax w ctx ref =
     st_bind (Require (ax_engine ax) w ctx ViewRoles) (\<lambda>_ w1.
     st_bind (access_role ax (w_store w1) ref, w1) (\<lambda>role w1. (roles_describe ax (w_store w1) role, w1)))"

definition name_or_empty :: "(subject \<rightharpoonup> string) \<Rightarrow> subject \<Rightarrow> string" where
  "name_or_empty names s = (case names s of None \<Rightarrow> [] | Some n \<Rightarrow> n)"

text \<open>By name, then by the id of the subject.\<close>

definition roles_Holders :: "'s access \<Rightarrow> 's world \<Rightarrow> ctx \<Rightarrow> string \<Rightarrow> holder_view list result \<times> 's world" where
  "roles_Holders ax w ctx ref =
     st_bind (Require (ax_engine ax) w ctx ViewRoles) (\<lambda>_ w1.
     st_bind (access_role ax (w_store w1) ref, w1) (\<lambda>role w1.
     st_bind (case ax_HoldersOf ax (w_store w1) (role_Ref role) of
         Inl err \<Rightarrow> Inl (Internal (Wrapf (''access: holders of '' @ ref @ '': '' @ error_text err) err)) | Inr bs \<Rightarrow> Inr bs, w1) (\<lambda>bindings w1.
     st_bind (place_names ax (map b_Scope bindings), w1) (\<lambda>placeOf w1.
     st_bind (subjectNames ax (map b_Subject bindings), w1) (\<lambda>names w1.
       (Inr (sort_key hv_Name (sort_key (\<lambda>h. sub_ID (hv_Subject h))
         (map (\<lambda>b. \<lparr>hv_Subject = b_Subject b, hv_Name = name_or_empty names (b_Subject b), hv_Place = placeOf (b_Scope b)\<rparr>) bindings))), w1))))))"

definition roles_save :: "'s access \<Rightarrow> 's world \<Rightarrow> ctx \<Rightarrow> role \<Rightarrow> role_view result \<times> 's world" where
  "roles_save ax w ctx role =
     (case Require (ax_engine ax) w ctx ManageRoles of
        (Inl err, w1) \<Rightarrow> (Inl (Wrapf (''access: save role: '' @ error_text err) err), w1)
      | (Inr _, w1) \<Rightarrow>
          (case Role_Validate (eng_cat (ax_engine ax)) role of
             Inl err \<Rightarrow> (Inl (BadRequestFrom err), w1)
           | Inr _ \<Rightarrow>
               let problems = ax_RoleCheck ax ctx role in
               if problems \<noteq> [] then (Inl (BadRequestFrom (ValidationError problems)), w1)
               else st_bind (adm_SaveRole (ax_delegation ax) w1 ctx role) (\<lambda>saved w2. (roles_describe ax (w_store w2) saved, w2))))"

definition roles_Create :: "'s access \<Rightarrow> 's world \<Rightarrow> ctx \<Rightarrow> role_draft \<Rightarrow> role_view result \<times> 's world" where
  "roles_Create ax w ctx draft = roles_save ax w ctx (draft_role draft 0)"

definition roles_Update :: "'s access \<Rightarrow> 's world \<Rightarrow> ctx \<Rightarrow> string \<Rightarrow> role_draft \<Rightarrow> role_view result \<times> 's world" where
  "roles_Update ax w ctx ref draft =
     st_bind (access_custom ax (w_store w) ref, w) (\<lambda>current w. roles_save ax w ctx (draft_role draft (role_ID current)))"

definition bindings_of_role :: "'s access \<Rightarrow> 's \<Rightarrow> int \<Rightarrow> binding list result" where
  "bindings_of_role ax st i =
     (case st_BindingsForRole (ax_store ax) st i of
        Inl err \<Rightarrow> Inl (Internal (Wrapf (''access: bindings of role '' @ show_int i @ '': '' @ error_text err) err)) | Inr bs \<Rightarrow> Inr bs)"

definition delete_failed :: "int \<Rightarrow> go_error \<Rightarrow> go_error" where
  "delete_failed i err =
     (if errors_Is err ErrRoleNotFound then NotFoundFrom err
      else if errors_Is err ErrRoleInUse
      then App (WithReason ''authz.role_in_use'' [] (apperr_Wrap (Some err) ''the role is still bound'' CodeAlreadyExists))
      else Internal (Wrapf (''access: delete role '' @ show_int i @ '': '' @ error_text err) err))"

definition roles_Delete :: "'s access \<Rightarrow> 's world \<Rightarrow> ctx \<Rightarrow> string \<Rightarrow> unit result \<times> 's world" where
  "roles_Delete ax w ctx ref =
     st_bind (access_custom ax (w_store w) ref, w) (\<lambda>role w.
     st_bind (Require (ax_engine ax) w ctx DeleteRoles) (\<lambda>_ w1.
     st_bind (access_actor ctx, w1) (\<lambda>actor w1.
     st_bind (bindings_of_role ax (w_store w1) (role_ID role), w1) (\<lambda>bound w1.
     if bound \<noteq> [] then (Inl (role_in_use (length bound)), w1)
     else case st_DeleteRole (ax_store ax) (w_store w1) (pr_Subject actor) (role_ID role) of
       (Inl err, st') \<Rightarrow> (Inl (delete_failed (role_ID role) err), w1\<lparr>w_store := st'\<rparr>)
     | (Inr _, st') \<Rightarrow> (Inr (), eng_EvictRole (w1\<lparr>w_store := st'\<rparr>) (role_ID role))))))"

text \<open>\<^verbatim>\<open>compare\<close>: the maps hold the last grant of a permission.\<close>

definition grant_map :: "grant list \<Rightarrow> (string \<rightharpoonup> qualifier)" where
  "grant_map gs = foldl (\<lambda>m g. m(g_Permission g \<mapsto> g_Qualifier g)) (\<lambda>_. None) gs"

definition compare_grants :: "grant list \<Rightarrow> grant list \<Rightarrow> comparison" where
  "compare_grants role other =
     (let have = grant_map role; want = grant_map other in
      \<lparr>cm_OnlyInRole = sort_key g_Permission (filter (\<lambda>g. want (g_Permission g) = None) role),
       cm_OnlyInOther = sort_key g_Permission (filter (\<lambda>g. have (g_Permission g) = None) other),
       cm_Different = sort_key df_Permission (List.map_filter (\<lambda>g.
         (case want (g_Permission g) of
            None \<Rightarrow> None
          | Some q \<Rightarrow> if q \<noteq> g_Qualifier g
              then Some \<lparr>df_Permission = g_Permission g, df_Role = g_Qualifier g, df_Other = q\<rparr> else None)) role)\<rparr>)"

definition roles_Compare :: "'s access \<Rightarrow> 's world \<Rightarrow> ctx \<Rightarrow> string \<Rightarrow> string \<Rightarrow> comparison result \<times> 's world" where
  "roles_Compare ax w ctx ref other =
     st_bind (Require (ax_engine ax) w ctx ViewRoles) (\<lambda>_ w1.
     st_bind (access_role ax (w_store w1) ref, w1) (\<lambda>role w1.
     st_bind (access_role ax (w_store w1) other, w1) (\<lambda>other w1.
       (Inr (compare_grants (Resolve role (eng_cat (ax_engine ax))) (Resolve other (eng_cat (ax_engine ax)))), w1))))"

definition moved_binding :: "binding \<Rightarrow> role_ref \<Rightarrow> binding" where
  "moved_binding old to = \<lparr>b_ID = 0, b_Subject = b_Subject old, b_Role = to, b_Scope = b_Scope old, b_CreatedBy = 0, b_CreatedAt = 0\<rparr>"

definition checkRebind :: "'s access \<Rightarrow> ctx \<Rightarrow> binding \<Rightarrow> role_ref \<Rightarrow> unit result" where
  "checkRebind ax ctx old to =
     res_bind (ax_BindingCheck ax ctx (b_Subject old) (moved_binding old to)) (\<lambda>_. ax_BindingCheck ax ctx (b_Subject old) old)"

text \<open>The function run in the transaction.\<close>

fun rebind_loop :: "'s access \<Rightarrow> ctx \<Rightarrow> role_ref \<Rightarrow> binding list \<Rightarrow> nat \<Rightarrow> 's world \<Rightarrow> nat result \<times> 's world" where
  "rebind_loop ax ctx to [] rebound w = (Inr rebound, w)"
| "rebind_loop ax ctx to (b # bs) rebound w =
     st_bind (checkRebind ax ctx b to, w) (\<lambda>_ w.
     case adm_Bind (ax_delegation ax) w ctx (moved_binding b to) of
       (Inl err, w1) \<Rightarrow>
         if \<not> errors_Is err ErrDuplicateBinding then (Inl err, w1)
         else st_bind (adm_Unbind (ax_delegation ax) w1 ctx (b_ID b)) (\<lambda>_ w2. rebind_loop ax ctx to bs (rebound + 1) w2)
     | (Inr _, w1) \<Rightarrow>
         st_bind (adm_Unbind (ax_delegation ax) w1 ctx (b_ID b)) (\<lambda>_ w2. rebind_loop ax ctx to bs (rebound + 1) w2))"

text \<open>The transaction: \<open>unbegun\<close> and \<open>uncommitted\<close> are the failures of its ends.\<close>

definition in_transaction :: "go_error option \<Rightarrow> go_error option \<Rightarrow> ('s world \<Rightarrow> 'a result \<times> 's world) \<Rightarrow> 's world \<Rightarrow> 'a result \<times> 's world" where
  "in_transaction unbegun uncommitted f w =
     (case unbegun of
        Some e \<Rightarrow> (Inl e, w)
      | None \<Rightarrow>
          (case f w of
             (Inl e, w1) \<Rightarrow> (Inl e, w1\<lparr>w_store := w_store w\<rparr>)
           | (Inr x, w1) \<Rightarrow> (case uncommitted of Some e \<Rightarrow> (Inl e, w1\<lparr>w_store := w_store w\<rparr>) | None \<Rightarrow> (Inr x, w1))))"

definition roles_Replace ::
  "go_error option \<Rightarrow> go_error option \<Rightarrow> 's access \<Rightarrow> 's world \<Rightarrow> ctx \<Rightarrow> string \<Rightarrow> string \<Rightarrow> nat result \<times> 's world" where
  "roles_Replace unbegun uncommitted ax w ctx ref other =
     st_bind (access_custom ax (w_store w) ref, w) (\<lambda>custom w.
     st_bind (access_predefined ax other, w) (\<lambda>to w.
     st_bind (Require (ax_engine ax) w ctx ManageRoles) (\<lambda>_ w1.
     st_bind (bindings_of_role ax (w_store w1) (role_ID custom), w1) (\<lambda>bindings w1.
     st_bind (in_transaction unbegun uncommitted (rebind_loop ax ctx (role_Ref to) bindings 0) w1) (\<lambda>rebound w2.
       (Inr rebound, foldl (\<lambda>w b. eng_Evict w (b_Subject b)) (eng_EvictRole w2 (role_ID custom)) bindings))))))"

section \<open>Bindings\<close>

record binding_draft =
  bd_Role :: string
  bd_Scope :: scope

definition roleRef :: "string \<Rightarrow> role_ref result" where
  "roleRef ref =
     (case go_Atoi ref of
        Some i \<Rightarrow> if i \<le> 0 then Inl (App (BadRequest ''role is not a role reference'')) else Inr \<lparr>ref_ID = i, ref_Key = []\<rparr>
      | None \<Rightarrow> if ref = [] then Inl (App (BadRequest ''role is required'')) else Inr \<lparr>ref_ID = 0, ref_Key = ref\<rparr>)"

fun describe_bindings ::
  "'s access \<Rightarrow> 's \<Rightarrow> (role_ref \<Rightarrow> nat) \<Rightarrow> (subject \<rightharpoonup> string) \<Rightarrow> (scope \<Rightarrow> place) \<Rightarrow> binding list \<Rightarrow> binding_view list result" where
  "describe_bindings ax st holders names placeOf [] = Inr []"
| "describe_bindings ax st holders names placeOf (s # ss) =
     res_bind (roleOf ax st (b_Role s)) (\<lambda>role.
     res_bind (describe_bindings ax st holders names placeOf ss) (\<lambda>rest.
       Inr (\<lparr>bv_ID = b_ID s, bv_Role = viewOf role (eng_cat (ax_engine ax)) (holders (role_Ref role)) False, bv_Place = placeOf (b_Scope s),
             bv_CreatedBy = (if names \<lparr>sub_Kind = KindUser, sub_ID = b_CreatedBy s\<rparr> = None then 0 else b_CreatedBy s),
             bv_CreatedByName = name_or_empty names \<lparr>sub_Kind = KindUser, sub_ID = b_CreatedBy s\<rparr>, bv_CreatedAt = b_CreatedAt s\<rparr> # rest)))"

definition bindings_describe :: "'s access \<Rightarrow> 's \<Rightarrow> binding list \<Rightarrow> (scope \<Rightarrow> place) \<Rightarrow> binding_view list result" where
  "bindings_describe ax st stored placeOf =
     res_bind (holderCounts ax st) (\<lambda>counts.
     res_bind (subjectNames ax (map (\<lambda>s. \<lparr>sub_Kind = KindUser, sub_ID = b_CreatedBy s\<rparr>) (filter (\<lambda>s. b_CreatedBy s > 0) stored))) (\<lambda>names.
     res_bind (describe_bindings ax st (counts_Of counts) names placeOf stored) (\<lambda>out. Inr (sort_key bv_ID out))))"

definition bindings_Mine :: "'s access \<Rightarrow> 's world \<Rightarrow> ctx \<Rightarrow> binding_view list result \<times> 's world" where
  "bindings_Mine ax w ctx =
     (res_bind (access_actor ctx) (\<lambda>actor.
      res_bind (case rd_BindingsFor (ax_store ax) (w_store w) (pr_Subject actor) of
          Inl err \<Rightarrow> Inl (Internal (Wrapf (''access: own bindings: '' @ error_text err) err)) | Inr bs \<Rightarrow> Inr bs) (\<lambda>stored.
      res_bind (place_names ax (map b_Scope stored)) (\<lambda>placeOf.
      res_bind (describe_bindings ax (w_store w) (\<lambda>_. 0) (\<lambda>_. None) placeOf stored) (\<lambda>out.
        Inr (sort_key bv_ID out))))), w)"

definition bindings_Access :: "'s access \<Rightarrow> 's world \<Rightarrow> ctx \<Rightarrow> subject \<Rightarrow> subject_access result \<times> 's world" where
  "bindings_Access ax w ctx subject =
     st_bind (gateOf ax (sub_Kind subject), w) (\<lambda>guard w.
     st_bind (Require (ax_engine ax) w ctx (gt_view guard)) (\<lambda>_ w1.
     st_bind (requireSubject ax ctx subject, w1) (\<lambda>_ w1.
     st_bind (case rd_BindingsFor (ax_store ax) (w_store w1) subject of
         Inl err \<Rightarrow> Inl (Internal (Wrapf (''access: bindings of '' @ subject_String subject @ '': '' @ error_text err) err)) | Inr bs \<Rightarrow> Inr bs, w1) (\<lambda>stored w1.
     st_bind (eng_Effective (ax_engine ax) w1 subject) (\<lambda>eff w2.
     st_bind (MyAccess (ax_engine ax) w2 (WithPrincipal ctx \<lparr>pr_Subject = subject, pr_Location = 0\<rparr>)) (\<lambda>mine w3.
     let scopes = map b_Scope stored @ concat (map (\<lambda>i. map cl_Scope (Clauses eff i)) (Permissions eff)) in
     st_bind (place_names ax scopes, w3) (\<lambda>placeOf w3.
     st_bind (bindings_describe ax (w_store w3) stored placeOf, w3) (\<lambda>bindings w3.
     let effective = map (\<lambda>i. \<lparr>pv_Permission = i,
           pv_Grants = map (\<lambda>c. \<lparr>gv_Qualifier = cl_Qualifier c, gv_Place = placeOf (cl_Scope c), gv_Attrs = cl_Attrs c,
             gv_BindingID = src_BindingID (cl_Source c), gv_RoleKey = ref_Key (src_Role (cl_Source c)), gv_RoleName = src_RoleName (cl_Source c)\<rparr>) (Clauses eff i),
           pv_Unavailable = (i \<in> set (ma_Unavailable mine))\<rparr>) (Permissions eff);
         other = (case PrincipalFrom ctx of None \<Rightarrow> True | Some actor \<Rightarrow> pr_Subject actor \<noteq> subject) in
     (if \<not> other then (Inr \<lparr>sa_Subject = subject, sa_Bindings = bindings, sa_Effective = effective, sa_CanManage = False\<rparr>, w3)
      else case Require (ax_engine ax) w3 ctx (gt_manage guard) of
        (r, w4) \<Rightarrow> (Inr \<lparr>sa_Subject = subject, sa_Bindings = bindings, sa_Effective = effective, sa_CanManage = is_ok r\<rparr>, w4))))))))))"

definition drafted :: "subject \<Rightarrow> binding_draft \<Rightarrow> role_ref \<Rightarrow> binding" where
  "drafted subject draft ref =
     \<lparr>b_ID = 0, b_Subject = subject, b_Role = ref, b_Scope = bd_Scope draft, b_CreatedBy = 0, b_CreatedAt = 0\<rparr>"

definition bindings_Bind :: "'s access \<Rightarrow> 's world \<Rightarrow> ctx \<Rightarrow> subject \<Rightarrow> binding_draft \<Rightarrow> binding_view result \<times> 's world" where
  "bindings_Bind ax w ctx subject draft =
     st_bind (gateOf ax (sub_Kind subject), w) (\<lambda>guard w.
     st_bind (Require (ax_engine ax) w ctx (gt_manage guard)) (\<lambda>_ w1.
     st_bind (requireSubject ax ctx subject, w1) (\<lambda>_ w1.
     st_bind (roleRef (bd_Role draft), w1) (\<lambda>ref w1.
     let binding = drafted subject draft ref in
     st_bind (ax_BindingCheck ax ctx subject binding, w1) (\<lambda>_ w1.
     st_bind (adm_Bind (gt_delegation guard) w1 ctx binding) (\<lambda>saved w2.
     st_bind (place_names ax [b_Scope saved], w2) (\<lambda>placeOf w2.
     st_bind (bindings_describe ax (w_store w2) [saved] placeOf, w2) (\<lambda>views w2. (Inr (hd views), w2)))))))))"

definition bindings_Unbind :: "'s access \<Rightarrow> 's world \<Rightarrow> ctx \<Rightarrow> subject \<Rightarrow> int \<Rightarrow> unit result \<times> 's world" where
  "bindings_Unbind ax w ctx subject i =
     st_bind (gateOf ax (sub_Kind subject), w) (\<lambda>guard w.
     st_bind (Require (ax_engine ax) w ctx (gt_manage guard)) (\<lambda>_ w1.
     st_bind (requireSubject ax ctx subject, w1) (\<lambda>_ w1.
     st_bind (case st_Binding (ax_store ax) (w_store w1) i of
         Inl err \<Rightarrow> Inl (if errors_Is err ErrBindingNotFound then NotFoundFrom err
           else Internal (Wrapf (''access: read binding '' @ show_int i @ '': '' @ error_text err) err))
       | Inr b \<Rightarrow> Inr b, w1) (\<lambda>found w1.
     if b_Subject found \<noteq> subject then (Inl (NotFoundFrom (Sentinel ErrBindingNotFound)), w1)
     else
       st_bind (ax_BindingCheck ax ctx subject found, w1) (\<lambda>_ w1.
       case adm_Unbind (gt_delegation guard) w1 ctx i of
         (Inl err, w2) \<Rightarrow> (Inl (Wrapf (''access: unbind '' @ show_int i @ '': '' @ error_text err) err), w2)
       | (Inr _, w2) \<Rightarrow> (Inr (), w2))))))"

definition bindable :: "'s access \<Rightarrow> ctx \<Rightarrow> subject \<Rightarrow> scope \<Rightarrow> bool result" where
  "bindable ax ctx subject scope =
     (let candidate = \<lparr>b_ID = 0, b_Subject = subject, b_Role = \<lparr>ref_ID = 0, ref_Key = []\<rparr>, b_Scope = scope, b_CreatedBy = 0, b_CreatedAt = 0\<rparr> in
      case ax_BindingCheck ax ctx subject candidate of
        Inr _ \<Rightarrow> Inr True | Inl err \<Rightarrow> if GetHTTPStatus err \<ge> 500 then Inl err else Inr False)"

text \<open>The places at or below a scope the actor manages, asked in order.\<close>

fun offered_places :: "'s access \<Rightarrow> ctx \<Rightarrow> subject \<Rightarrow> clause list \<Rightarrow> scope_option list \<Rightarrow> scope_option list result" where
  "offered_places ax ctx subject clauses [] = Inr []"
| "offered_places ax ctx subject clauses (opt # opts) =
     (case h_Chain (eng_h (ax_engine ax)) (ax_Parent ax) (so_Scope opt) [] of
        Inl _ \<Rightarrow> offered_places ax ctx subject clauses opts
      | Inr chain \<Rightarrow>
          if \<not> list_ex (\<lambda>c. Within chain (cl_Scope c)) clauses then offered_places ax ctx subject clauses opts
          else res_bind (bindable ax ctx subject (so_Scope opt)) (\<lambda>ok.
            res_bind (offered_places ax ctx subject clauses opts) (\<lambda>rest. Inr (if ok then opt # rest else rest))))"

definition bindings_Scopes :: "'s access \<Rightarrow> 's world \<Rightarrow> ctx \<Rightarrow> subject \<Rightarrow> scope_options result \<times> 's world" where
  "bindings_Scopes ax w ctx subject =
     st_bind (access_actor ctx, w) (\<lambda>actor w.
     st_bind (gateOf ax (sub_Kind subject), w) (\<lambda>guard w.
     st_bind (Require (ax_engine ax) w ctx (gt_manage guard)) (\<lambda>_ w1.
     st_bind (requireSubject ax ctx subject, w1) (\<lambda>_ w1.
     st_bind (eng_Effective (ax_engine ax) w1 (pr_Subject actor)) (\<lambda>eff w2.
     (res_bind (case ax_Options ax of
          Inl err \<Rightarrow> Inl (Internal (Wrapf (''access: scope options: '' @ error_text err) err)) | Inr opts \<Rightarrow> Inr opts) (\<lambda>options.
        let h = eng_h (ax_engine ax); clauses = Clauses eff (gt_manage guard) in
        res_bind (if list_ex (\<lambda>c. IsRoot h (cl_Scope c)) clauses then bindable ax ctx subject (h_Root h) else Inr False) (\<lambda>root.
        res_bind (offered_places ax ctx subject clauses options) (\<lambda>places.
          Inr \<lparr>sp_RootLevel = RootLevel h, sp_Root = root, sp_Places = places\<rparr>))), w2))))))"

definition requirePlace :: "'s access \<Rightarrow> scope \<Rightarrow> unit result" where
  "requirePlace ax scope =
     (case h_Check (eng_h (ax_engine ax)) scope of
        Inl err \<Rightarrow> Inl (BadRequestFrom err)
      | Inr _ \<Rightarrow>
          if IsRoot (eng_h (ax_engine ax)) scope then Inr ()
          else (case ax_Names ax [scope] of
             Inl err \<Rightarrow> Inl (Internal (Wrapf (''access: place '' @ scope_String scope @ '': '' @ error_text err) err))
           | Inr names \<Rightarrow> if names scope = None then Inl (App (NotFound ''place not found'')) else Inr ()))"

fun bindable_roles :: "'s access \<Rightarrow> principal \<Rightarrow> scope \<Rightarrow> string \<Rightarrow> role list \<Rightarrow> 's world \<Rightarrow> role list \<times> 's world" where
  "bindable_roles ax actor scope manage [] w = ([], w)"
| "bindable_roles ax actor scope manage (role # roles) w =
     (case CanBind (ax_engine ax) w actor role scope manage of (r, w1) \<Rightarrow>
      case bindable_roles ax actor scope manage roles w1 of (rest, w2) \<Rightarrow> (if is_ok r then role # rest else rest, w2))"

definition BindableRolesFor :: "'s access \<Rightarrow> 's world \<Rightarrow> ctx \<Rightarrow> string \<Rightarrow> scope \<Rightarrow> role_view list result \<times> 's world" where
  "BindableRolesFor ax w ctx kind scope =
     st_bind (access_actor ctx, w) (\<lambda>actor w.
     st_bind (gateOf ax kind, w) (\<lambda>guard w.
     st_bind (requirePlace ax scope, w) (\<lambda>_ w.
     st_bind (map_sum list_roles_failed id (st_ListRoles (ax_store ax) (w_store w)), w) (\<lambda>custom w.
     st_bind (holderCounts ax (w_store w), w) (\<lambda>counts w.
       case bindable_roles ax actor scope (gt_manage guard) (PredefinedRoles (ax_engine ax) @ sort_key role_Name custom) w of
         (roles, w1) \<Rightarrow> (Inr (map (\<lambda>r. viewOf r (eng_cat (ax_engine ax)) (counts_Of counts (role_Ref r)) True) roles), w1))))))"

definition BindableRoles :: "'s access \<Rightarrow> 's world \<Rightarrow> ctx \<Rightarrow> scope \<Rightarrow> role_view list result \<times> 's world" where
  "BindableRoles ax w ctx scope = BindableRolesFor ax w ctx KindUser scope"

section \<open>Comparing roles\<close>

lemma grant_map_append: "grant_map (gs @ [g]) = (grant_map gs)(g_Permission g \<mapsto> g_Qualifier g)"
  by (simp add: grant_map_def)

lemma grant_map_Nil: "grant_map [] p = None"
  by (simp add: grant_map_def)

lemma grant_map_None: "grant_map gs p = None \<longleftrightarrow> p \<notin> g_Permission ` set gs"
  by (induction gs rule: rev_induct) (auto simp: grant_map_append grant_map_Nil)

lemma grant_map_Some:
  "distinct (map g_Permission gs) \<Longrightarrow> grant_map gs p = Some q \<longleftrightarrow> \<lparr>g_Permission = p, g_Qualifier = q\<rparr> \<in> set gs"
proof (induction gs rule: rev_induct)
  case (snoc g gs)
  then show ?case by (cases g) (auto simp: grant_map_append image_iff)
qed (simp add: grant_map_Nil)

lemma map_filter_empty: "List.map_filter f xs = [] \<longleftrightarrow> (\<forall>x \<in> set xs. f x = None)"
  by (induction xs) (auto simp: List.map_filter_simps split: option.splits)

lemma sort_key_empty [simp]: "sort_key f xs = [] \<longleftrightarrow> xs = []"
  by (metis length_0_conv length_sort)

text \<open>Two roles, each with at most one grant of a permission, compare as equal exactly when they grant the same.\<close>

theorem compare_equal_iff:
  assumes "distinct (map g_Permission role)" and "distinct (map g_Permission other)"
  shows "compare_grants role other = \<lparr>cm_OnlyInRole = [], cm_OnlyInOther = [], cm_Different = []\<rparr> \<longleftrightarrow> set role = set other"
proof -
  have eq: "\<lparr>g_Permission = g_Permission g, g_Qualifier = g_Qualifier g\<rparr> = g" for g :: grant by simp
  have key: "g = h" if "g \<in> set gs" "h \<in> set gs" "g_Permission g = g_Permission h" "distinct (map g_Permission gs)" for g h gs
    using that by (auto simp: distinct_map inj_on_def)
  have "compare_grants role other = \<lparr>cm_OnlyInRole = [], cm_OnlyInOther = [], cm_Different = []\<rparr> \<longleftrightarrow>
      (\<forall>g \<in> set role. grant_map other (g_Permission g) = Some (g_Qualifier g)) \<and> (\<forall>g \<in> set other. grant_map role (g_Permission g) \<noteq> None)"
    unfolding compare_grants_def Let_def
    by (auto simp: map_filter_empty filter_empty_conv split: option.splits if_splits) (metis option.exhaust)+
  also have "\<dots> \<longleftrightarrow> set role \<subseteq> set other \<and> (\<forall>g \<in> set other. g_Permission g \<in> g_Permission ` set role)"
    by (auto simp: grant_map_Some [OF assms(2)] grant_map_None eq)
  also have "\<dots> \<longleftrightarrow> set role = set other"
    using key [OF _ _ _ assms(2)] by (auto simp: image_iff) (metis subsetD)
  finally show ?thesis .
qed

section \<open>The services as New builds them\<close>

text \<open>The services administer the store of their delegation rules, as \<^verbatim>\<open>New\<close> builds them.\<close>

definition services_wf :: "'s access \<Rightarrow> bool" where
  "services_wf ax \<longleftrightarrow> adm_e (ax_delegation ax) = ax_engine ax \<and> adm_store (ax_delegation ax) = ax_store ax
     \<and> adm_roles (ax_delegation ax) = ManageRoles \<and> adm_bindings (ax_delegation ax) = ManageBindings
     \<and> adm_protected (ax_delegation ax) = [ManageBindings]
     \<and> (\<forall>d. ax_serviceDelegation ax = Some d \<longrightarrow> adm_e d = ax_engine ax \<and> adm_store d = ax_store ax
          \<and> adm_roles d = ManageRoles \<and> adm_bindings d = ManageServiceAccountBindings)"

lemma NewAdmin_fields:
  "NewAdmin (Some e) (Some ops) r b p = Inr a \<Longrightarrow>
     adm_e a = e \<and> adm_store a = ops \<and> adm_roles a = r \<and> adm_bindings a = b \<and> adm_protected a = p"
  by (auto simp: NewAdmin_def split: option.splits)

lemma access_New_services: "access_New cfg = Inr ax \<Longrightarrow> services_wf ax"
  unfolding services_wf_def
  by (auto simp: access_New_def map_sum_def dest!: NewAdmin_fields split: option.splits sum.splits if_splits prod.splits)

lemma Require_store: "keeps e st w \<Longrightarrow> Require e w ctx p = (r, w1) \<Longrightarrow> keeps e st w1"
  using keeps_Require by (metis snd_conv)

section \<open>Giving a role\<close>

lemma administration_of:
  "administration ops I a \<Longrightarrow> adm_e a' = adm_e a \<Longrightarrow> adm_store a' = adm_store a \<Longrightarrow> administration ops I a'"
  by (simp only: administration_def administration_axioms_def)

lemma gateOf_ok:
  assumes "services_wf ax" "gateOf ax kind = Inr guard"
  shows "adm_e (gt_delegation guard) = ax_engine ax \<and> adm_store (gt_delegation guard) = ax_store ax
    \<and> adm_bindings (gt_delegation guard) = gt_manage guard
    \<and> gt_manage guard = (if kind = KindUser then ManageBindings else ManageServiceAccountBindings)"
  using assms by (cases "kind = KindUser"; cases "ax_serviceDelegation ax"; cases "kind = KindServiceAccount") (simp_all add: gateOf_def services_wf_def, auto)

text \<open>
  C16: who can be given a role. Whatever the answer of \<^verbatim>\<open>Bindings.Bind\<close>, either no bindings have changed, or the
  subject is valid, known to the directory and within the actor's reach, it is not the actor, the application's rule accepts
  the binding, the actor holds, on the target scope, the permission that guards this kind of subject and may delegate the
  role there, and exactly one binding has been added, to that subject. No role changes.
\<close>

theorem access_Bind_safe:
  assumes "services_wf ax" and "administration (ax_store ax) I (ax_delegation ax)" and "good (ax_delegation ax) I w"
    and "bindings_Bind ax w ctx subject draft = (r, w')"
  shows "same_roles (ax_store ax) (w_store w) (w_store w') \<and> (same_bindings (ax_store ax) (w_store w) (w_store w')
    \<or> (\<exists>manage actor ref role w2 saved. manage = (if sub_Kind subject = KindUser then ManageBindings else ManageServiceAccountBindings)
       \<and> requireSubject ax ctx subject = Inr () \<and> roleRef (bd_Role draft) = Inr ref
       \<and> ax_BindingCheck ax ctx subject (drafted subject draft ref) = Inr ()
       \<and> PrincipalFrom ctx = Some actor \<and> subject \<noteq> pr_Subject actor \<and> keeps (ax_engine ax) (w_store w) w2
       \<and> fst (RequireOn (ax_engine ax) w2 ctx manage (scope_resource (bd_Scope draft))) = Inr ()
       \<and> lookupRole (ax_engine ax) (w_store w) ref = Inr role
       \<and> fst (CanBind (ax_engine ax) w2 actor role (bd_Scope draft) manage) = Inr ()
       \<and> b_Role saved = ref \<and> b_Scope saved = bd_Scope draft
       \<and> (\<forall>sub bs. rd_BindingsFor (ax_store ax) (w_store w) sub = Inr bs \<longrightarrow>
            rd_BindingsFor (ax_store ax) (w_store w') sub = Inr (if sub = subject then bs @ [saved] else bs))))"
    (is "_ \<and> (_ \<or> ?given)")
proof -
  let ?b = "drafted subject draft"
  have i: "I (w_store w)" and k: "keeps (ax_engine ax) (w_store w) w" using assms(1,3) by (simp_all add: good_def keeps_def services_wf_def)
  have store: "authz_store (ax_store ax) I" using assms(2) by (simp add: administration_def)
  have id: "same_roles (ax_store ax) (w_store w) (w_store w) \<and> same_bindings (ax_store ax) (w_store w) (w_store w)"
    by (simp add: same_roles_def same_bindings_def)
  have req: "w_store w1 = w_store w" if "Require (ax_engine ax) w ctx p = (r, w1)" for p r w1
    using Require_store [OF k that] by (simp add: keeps_def)
  consider "w_store w' = w_store w"
    | guard w1 ref x w2 where "gateOf ax (sub_Kind subject) = Inr guard" "Require (ax_engine ax) w ctx (gt_manage guard) = (Inr (), w1)"
      "requireSubject ax ctx subject = Inr ()" "roleRef (bd_Role draft) = Inr ref"
      "ax_BindingCheck ax ctx subject (?b ref) = Inr ()" "adm_Bind (gt_delegation guard) w1 ctx (?b ref) = (x, w2)" "w_store w' = w_store w2"
  proof (cases "\<exists>guard w1 ref. gateOf ax (sub_Kind subject) = Inr guard \<and> Require (ax_engine ax) w ctx (gt_manage guard) = (Inr (), w1)
      \<and> requireSubject ax ctx subject = Inr () \<and> roleRef (bd_Role draft) = Inr ref \<and> ax_BindingCheck ax ctx subject (?b ref) = Inr ()")
    case True
    then obtain guard w1 ref where s: "gateOf ax (sub_Kind subject) = Inr guard" "Require (ax_engine ax) w ctx (gt_manage guard) = (Inr (), w1)"
        "requireSubject ax ctx subject = Inr ()" "roleRef (bd_Role draft) = Inr ref" "ax_BindingCheck ax ctx subject (?b ref) = Inr ()" by blast
    obtain x w2 where x: "adm_Bind (gt_delegation guard) w1 ctx (?b ref) = (x, w2)" by force
    have "snd (st_bind (x, w2) (\<lambda>saved w2. st_bind (place_names ax [b_Scope saved], w2) (\<lambda>placeOf w2.
        st_bind (bindings_describe ax (w_store w2) [saved] placeOf, w2) (\<lambda>views w2. (Inr (hd views), w2))))) = w2"
      by (intro snd_st_bind_id [THEN trans]) (auto intro!: snd_st_bind_id [THEN trans])
    then have "w' = w2" using assms(4) s x by (simp add: bindings_Bind_def Let_def)
    then show ?thesis using that(2) s x by blast
  next
    case False
    obtain r1 w1 where r1: "Require (ax_engine ax) w ctx (gt_manage (projr (gateOf ax (sub_Kind subject)))) = (r1, w1)" by force
    have "w' = w \<or> w' = w1"
      using False assms(4) r1
      by (cases "gateOf ax (sub_Kind subject)"; cases r1; cases "requireSubject ax ctx subject"; cases "roleRef (bd_Role draft)";
          cases "ax_BindingCheck ax ctx subject (?b (projr (roleRef (bd_Role draft))))") (auto simp: bindings_Bind_def Let_def)
    then show ?thesis using that(1) req [OF r1] by auto
  qed
  then show ?thesis
  proof cases
    case 2
    have k1: "keeps (ax_engine ax) (w_store w) w1" by (rule Require_store [OF k 2(2)])
    then have w1: "w_store w1 = w_store w" "good (ax_delegation ax) I w1"
      using i assms(1) by (simp_all add: keeps_def good_def services_wf_def)
    note gate = gateOf_ok [OF assms(1) 2(1)]
    have adm: "administration (ax_store ax) I (gt_delegation guard)"
      by (rule administration_of [OF assms(2)]) (use gate assms(1) in \<open>auto simp: services_wf_def\<close>)
    have g1: "good (gt_delegation guard) I w1" using w1(2) gate assms(1) by (simp add: good_def services_wf_def)
    show ?thesis
    proof (cases x)
      case (Inl err)
      have "keeps (ax_engine ax) (w_store w) w2 \<or> (\<exists>s e. st_Bind (ax_store ax) (w_store w) s (?b ref) = (Inl e, w_store w2))"
        using administration.Bind_error_cases [OF adm g1 2(6) [unfolded Inl]] gate w1(1) by auto
      then show ?thesis using authz_store.Bind_err [OF store i] id 2(7) by (auto simp: keeps_def)
    next
      case (Inr saved)
      obtain actor role w3 where A: "PrincipalFrom ctx = Some actor" "b_Subject (?b ref) \<noteq> pr_Subject actor"
          "fst (RequireOn (ax_engine ax) w1 ctx (gt_manage guard) (scope_resource (b_Scope (?b ref)))) = Inr ()"
          "lookupRole (ax_engine ax) (w_store w) (b_Role (?b ref)) = Inr role" "keeps (ax_engine ax) (w_store w) w3"
          "fst (CanBind (ax_engine ax) w3 actor role (b_Scope (?b ref)) (gt_manage guard)) = Inr ()"
          "st_Bind (ax_store ax) (w_store w) (pr_Subject actor) (?b ref) = (Inr saved, w_store w2)"
        using administration.Bind_success [OF adm g1 2(6) [unfolded Inr]] gate w1(1) by metis
      have "fst (RequireOn (ax_engine ax) w3 ctx (gt_manage guard) (scope_resource (b_Scope (?b ref)))) = Inr ()"
        using A(3) RequireOn_same [OF k1 A(5)] by simp
      moreover note ok = authz_store.Bind_ok [OF store i A(7)]
      ultimately have ?given
        using A 2(3-5) gate unfolding 2(7)
        by (intro exI [of _ "gt_manage guard"] exI [of _ actor] exI [of _ ref] exI [of _ role] exI [of _ w3] exI [of _ saved])
          (simp add: drafted_def)
      then show ?thesis using ok by (simp add: 2(7))
    qed
  qed (simp add: id)
qed

section \<open>A concrete administration of roles\<close>

definition desk_ids :: "string list" where
  "desk_ids = PermissionIDs @ [ViewServiceAccountAccess, ManageServiceAccountBindings]"

fun define_all :: "catalogue \<Rightarrow> string list \<Rightarrow> catalogue result" where
  "define_all c [] = Inr c"
| "define_all c (i # ids) = res_bind (Define c i []) (\<lambda>c. define_all c ids)"

definition desk_catalogue :: catalogue where
  "desk_catalogue = projr (define_all NewCatalogue desk_ids)"

definition desk_role :: "string \<Rightarrow> string list \<Rightarrow> role" where
  "desk_role key ids = \<lparr>role_ID = 0, role_Key = key, role_Name = ''desk'', role_Description = [],
     role_Grants = Grants QualifierAll ids, role_Attrs = fmempty, role_Computed = None\<rparr>"

definition desk_engine :: "mem_store engine" where
  "desk_engine = \<lparr>eng_cat = desk_catalogue\<lparr>cat_frozen := True\<rparr>, eng_h = sample_hierarchy,
     eng_roles = fmap_of_list [(''admin'', desk_role ''admin'' PermissionIDs), (''viewer'', desk_role ''viewer'' [ViewAccess])],
     eng_store = mem_reader, eng_lister = Some ms_ListRoles,
     eng_holders = Some ms_HoldersOf, eng_resolver = sample_resolver, eng_features = None\<rparr>"

definition desk_config :: "mem_store access_config" where
  "desk_config = \<lparr>acf_Engine = Some desk_engine, acf_Store = Some (mem_ops, ms_HoldersOf, ms_HolderCounts),
     acf_Scopes = Some (sample_resolver, \<lambda>ss. Inr (\<lambda>s. if s \<in> set ss then Some (scope_String s) else None), Inr []),
     acf_Subjects = Some (\<lambda>ss. Inr (\<lambda>s. if s \<in> set ss \<and> sub_ID s < 10 then Some (subject_String s) else None)),
     acf_Transactor = True, acf_RoleCheck = None, acf_BindingCheck = None, acf_Reach = None\<rparr>"

definition desk :: "mem_store access" where
  "desk = projr (access_New desk_config)"

definition desk_subject :: "string \<Rightarrow> int \<Rightarrow> subject" where
  "desk_subject kind i = \<lparr>sub_Kind = kind, sub_ID = i\<rparr>"

definition desk_binding :: "subject \<Rightarrow> role_ref \<Rightarrow> scope \<Rightarrow> binding" where
  "desk_binding s r sc = \<lparr>b_ID = 0, b_Subject = s, b_Role = r, b_Scope = sc, b_CreatedBy = 0, b_CreatedAt = 0\<rparr>"

text \<open>User 1 administers everything; the custom role 1 is held by user 2 and by service account 5.\<close>

definition desk_store :: mem_store where
  "desk_store =
     (let m0 = snd (ms_SaveRole (NewMemoryStore 0) admin_subject (desk_role [] [ViewAccess]));
          m1 = snd (ms_Bind m0 admin_subject (desk_binding (desk_subject KindUser 1) \<lparr>ref_ID = 0, ref_Key = ''admin''\<rparr> (mk_scope ''organization'' 0)));
          m2 = snd (ms_Bind m1 admin_subject (desk_binding (desk_subject KindUser 2) \<lparr>ref_ID = 1, ref_Key = []\<rparr> (mk_scope ''dealer'' 3)))
      in snd (ms_Bind m2 admin_subject (desk_binding (desk_subject KindServiceAccount 5) \<lparr>ref_ID = 1, ref_Key = []\<rparr> (mk_scope ''dealer'' 3))))"

definition desk_world :: "mem_store world" where
  "desk_world = \<lparr>w_store = desk_store, w_cache = NewCache DefaultCacheTTL, w_clock = (\<lambda>n. int n), w_ticks = 0\<rparr>"



abbreviation desk_ctx :: ctx where
  "desk_ctx \<equiv> Some (User 1 0)"

definition desk_draft :: binding_draft where
  "desk_draft = \<lparr>bd_Role = ''1'', bd_Scope = mk_scope ''dealer'' 3\<rparr>"

lemma desk_built: "access_New desk_config = Inr desk"
proof -
  have "is_ok (access_New desk_config)" by code_simp
  then show ?thesis by (auto simp: desk_def is_ok_iff)
qed

lemma access_New_parts:
  "access_New cfg = Inr ax \<Longrightarrow> acf_Engine cfg = Some (ax_engine ax) \<and> (\<exists>x. acf_Store cfg = Some (ax_store ax, x))"
  by (auto simp: access_New_def split: option.splits sum.splits if_splits prod.splits)

lemma desk_parts: "ax_engine desk = desk_engine" "ax_store desk = mem_ops"
  using access_New_parts [OF desk_built] by (simp_all add: desk_config_def)

lemma desk_services: "services_wf desk"
  by (rule access_New_services [OF desk_built])

lemma desk_delegation: "adm_e (ax_delegation desk) = desk_engine" "adm_store (ax_delegation desk) = mem_ops"
  using desk_services by (simp_all add: services_wf_def desk_parts)

lemma define_all_wf: "cat_wf c \<Longrightarrow> define_all c ids = Inr c' \<Longrightarrow> cat_wf c'"
proof (induction ids arbitrary: c)
  case (Cons i ids)
  then obtain c1 where c1: "Define c i [] = Inr c1" "define_all c1 ids = Inr c'" by (auto simp: res_bind_Inr_iff)
  have "cat_wf c1" by (rule Define_wf [OF Cons.prems(1) _ c1(1)]) simp
  from Cons.IH [OF this c1(2)] show ?case .
qed simp

lemma desk_catalogue_wf: "cat_wf desk_catalogue"
proof -
  have "is_ok (define_all NewCatalogue desk_ids)" by code_simp
  then have "define_all NewCatalogue desk_ids = Inr desk_catalogue" by (auto simp: desk_catalogue_def is_ok_iff)
  then show ?thesis by (rule define_all_wf [rotated]) simp
qed

lemma desk_evaluations:
  "HasFeatures desk_catalogue = False"
  "Role_Validate (desk_catalogue\<lparr>cat_frozen := True\<rparr>) (desk_role ''admin'' PermissionIDs) = Inr ()"
  "Role_Validate (desk_catalogue\<lparr>cat_frozen := True\<rparr>) (desk_role ''viewer'' [ViewAccess]) = Inr ()"
  by code_simp+

lemma desk_engine_wf: "engine_wf desk_engine"
  using desk_catalogue_wf sample_hierarchy_wf desk_evaluations
  by (auto simp: engine_wf_def desk_engine_def HasFeatures_def split: if_splits) (simp_all add: desk_role_def)

interpretation desk: administration mem_ops mem_inv "ax_delegation desk"
  by unfold_locales
    (simp_all add: desk_delegation desk_engine_wf, simp_all add: desk_engine_def mem_ops_def reader_ops.extend_def reader_ops.truncate_def mem_reader_def)

lemma desk_store_inv: "mem_inv desk_store"
  unfolding desk_store_def Let_def by (intro mem_inv_writes NewMemoryStore_inv)

lemma desk_good: "good (ax_delegation desk) mem_inv desk_world"
  using desk_store_inv by (simp add: good_def desk_world_def cache_fresh_def NewCache_def)

definition desk_held :: "mem_store \<Rightarrow> subject \<Rightarrow> (role_ref \<times> scope) list" where
  "desk_held st sub = map (\<lambda>b. (b_Role b, b_Scope b)) (projr (ms_BindingsFor st sub))"

definition given_world :: "mem_store world" where
  "given_world = snd (bindings_Bind desk desk_world desk_ctx (desk_subject KindUser 4) desk_draft)"

theorem access_Bind_safe_witness:
  "\<exists>saved. rd_BindingsFor mem_ops (w_store given_world) (desk_subject KindUser 4) = Inr [saved]
     \<and> b_Role saved = \<lparr>ref_ID = 1, ref_Key = []\<rparr> \<and> requireSubject desk desk_ctx (desk_subject KindUser 4) = Inr ()"
proof -
  have e: "desk_held (w_store desk_world) (desk_subject KindUser 4) = []" "desk_held (w_store given_world) (desk_subject KindUser 4) \<noteq> []"
    and r: "roleRef (bd_Role desk_draft) = Inr \<lparr>ref_ID = 1, ref_Key = []\<rparr>" by code_simp+
  obtain bs where bs: "rd_BindingsFor mem_ops (w_store desk_world) (desk_subject KindUser 4) = Inr bs"
    by (simp add: mem_defs ms_BindingsFor_def)
  have nil: "bs = []" using e(1) bs by (simp add: desk_held_def mem_defs)
  have changed: "\<not> same_bindings (ax_store desk) (w_store desk_world) (w_store given_world)"
    using e by (simp add: same_bindings_def desk_held_def mem_defs desk_parts) metis
  have run: "bindings_Bind desk desk_world desk_ctx (desk_subject KindUser 4) desk_draft =
      (fst (bindings_Bind desk desk_world desk_ctx (desk_subject KindUser 4) desk_draft), given_world)"
    by (simp add: given_world_def)
  from access_Bind_safe [OF desk_services _ desk_good run] changed bs nil r show ?thesis
    by (fastforce simp: desk_parts desk.administration_axioms)
qed

text \<open>
  The binding is stored before its place is named: when the names cannot be read, the answer is a failure, but the
  role has been given.
\<close>

theorem Bind_fails_after_storing:
  "\<not> is_ok (fst (bindings_Bind (desk\<lparr>ax_Names := \<lambda>_. Inl (Plain ''down'')\<rparr>) desk_world desk_ctx (desk_subject KindUser 4) desk_draft))
    \<and> desk_held (w_store (snd (bindings_Bind (desk\<lparr>ax_Names := \<lambda>_. Inl (Plain ''down'')\<rparr>) desk_world desk_ctx (desk_subject KindUser 4) desk_draft)))
        (desk_subject KindUser 4) = [(\<lparr>ref_ID = 1, ref_Key = []\<rparr>, mk_scope ''dealer'' 3)]"
  by code_simp

end
