(* ===== verification/RoleReplace.thy ===== *)
theory RoleReplace
  imports AccessAdmin
begin

text \<open>
  Replacing a custom role by a predefined one (\<^verbatim>\<open>Roles.Replace\<close> of \<^verbatim>\<open>access/admin/roles.go\<close>): what every subject holds
  afterwards, and that a replacement that fails on the way leaves neither the store nor the cache changed.
\<close>

section \<open>Where a duplicate can come from\<close>

lemma ErrDuplicateBinding_ne:
  "ErrDuplicateBinding \<noteq> ErrForbidden" "ErrDuplicateBinding \<noteq> ErrEscalation" "ErrDuplicateBinding \<noteq> ErrInvalidScope"
  "ErrDuplicateBinding \<noteq> ErrNoPrincipal" "ErrDuplicateBinding \<noteq> ErrSelfAssignment"
  "ErrInvalidScope \<noteq> ErrDuplicateBinding" "ErrSelfAssignment \<noteq> ErrDuplicateBinding"
  by code_simp+

lemma errors_Is_storeErr [simp]: "errors_Is (storeErr e) s = errors_Is e s"
  by (simp add: storeErr_def)

lemma errors_Is_self_assignment [simp]: "errors_Is self_assignment s = (s = ErrSelfAssignment)"
  by (auto simp: self_assignment_def apperr_Wrap_def newWithSkip_def)

lemma asValidation_not_sentinel: "asValidation ps = Inl e \<Longrightarrow> \<not> errors_Is e s"
  by (auto simp: asValidation_def split: if_splits)

lemma h_Check_error: "h_Check h s = Inl e \<Longrightarrow> errors_Is e t \<longleftrightarrow> t = ErrInvalidScope"
  by (auto simp: h_Check_def split: option.splits if_splits)

lemma bind_grants_error:
  "bind_grants e eff chain m atRoot gs = Inl err \<Longrightarrow> errors_Is err s \<longleftrightarrow> s = ErrEscalation"
  by (induction gs) (auto simp: Let_def split: if_splits option.splits)

lemma CanBind_duplicate:
  assumes "keeps e st w" "fst (CanBind e w actor role scope m) = Inl err" "errors_Is err ErrDuplicateBinding"
  shows "\<not> is_ok (h_Chain (eng_h e) (eng_resolver e) scope []) \<or> \<not> is_ok (current_access e st (pr_Subject actor))"
proof (rule ccontr)
  assume "\<not> ?thesis"
  then obtain chain eff where c: "h_Chain (eng_h e) (eng_resolver e) scope [] = Inr chain"
    and eff: "fst (eng_Effective e w (pr_Subject actor)) = Inr eff"
    by (auto simp: is_ok_iff Effective_current [OF assms(1)])
  show False
    using assms(2,3) c eff ErrDuplicateBinding_ne
    by (cases "eng_Effective e w (pr_Subject actor)")
      (auto simp: CanBind_def Let_def Role_Validate_def split: sum.splits if_splits
        dest: asValidation_not_sentinel bind_grants_error [of e eff chain m _ _ err ErrDuplicateBinding])
qed

section \<open>The store of roles and their holders\<close>

text \<open>What the interface promises besides \<open>authz_store\<close>, as far as a replacement relies on it.\<close>

locale role_store = authz_store +
  assumes Role_ok: "inv s \<Longrightarrow> rd_Role ops s i = Inr r \<Longrightarrow> role_ID r = i \<and> i > 0"
    and BindingsForRole_ok: "inv s \<Longrightarrow> st_BindingsForRole ops s i = Inr bs \<Longrightarrow>
        distinct bs \<and> (\<forall>b. b \<in> set bs \<longleftrightarrow> st_Binding ops s (b_ID b) = Inr b \<and> ref_ID (b_Role b) = i)"
    and Bind_refused: "inv s \<Longrightarrow> st_Bind ops s a b = (Inl e, s') \<Longrightarrow> errors_Is e ErrDuplicateBinding \<Longrightarrow>
        rd_BindingsFor ops s (b_Subject b) = Inr bs \<Longrightarrow> \<exists>x \<in> set bs. b_Role x = b_Role b \<and> b_Scope x = b_Scope b"

interpretation mem_roles: role_store mem_ops mem_inv
proof
  fix m :: mem_store and i r
  assume "mem_inv m" "rd_Role mem_ops m i = Inr r"
  then show "role_ID r = i \<and> i > 0"
    using mem_inv_role [of m i r] by (auto simp: mem_defs ms_Role_def split: option.splits)
next
  fix m :: mem_store and i bs
  assume inv: "mem_inv m" and bs: "st_BindingsForRole mem_ops m i = Inr bs"
  have "distinct (map b_ID bs)" using bs filterBindings_sorted(2) [OF inv] by (auto simp: mem_defs ms_BindingsForRole_def)
  then have "distinct bs" by (simp add: distinct_map)
  moreover have "b \<in> set bs \<longleftrightarrow> st_Binding mem_ops m (b_ID b) = Inr b \<and> ref_ID (b_Role b) = i" for b
    using bs mem_inv_binding [OF inv]
    by (auto simp: mem_defs ms_BindingsForRole_def ms_Binding_def set_filterBindings split: option.splits)
  ultimately show "distinct bs \<and> (\<forall>b. b \<in> set bs \<longleftrightarrow> st_Binding mem_ops m (b_ID b) = Inr b \<and> ref_ID (b_Role b) = i)" by blast
next
  fix m :: mem_store and a and b :: binding and e m' bs
  assume "st_Bind mem_ops m a b = (Inl e, m')" "rd_BindingsFor mem_ops m (b_Subject b) = Inr bs"
  then show "\<exists>x \<in> set bs. b_Role x = b_Role b \<and> b_Scope x = b_Scope b"
    by (auto simp: mem_defs ms_Bind_def Let_def ms_BindingsFor_def filterBindings_def list_ex_iff split: if_splits)
qed

text \<open>
  A store that answers for everybody, and what a re-binding of the bindings \<open>B\<close> to the role \<open>to\<close> does to
  what one subject holds.
\<close>

definition readable :: "'s store_ops \<Rightarrow> 's \<Rightarrow> bool" where
  "readable ops st \<longleftrightarrow> (\<forall>sub. is_ok (rd_BindingsFor ops st sub))"

definition moved :: "role_ref \<Rightarrow> binding set \<Rightarrow> binding list \<Rightarrow> binding list \<Rightarrow> bool" where
  "moved to B bs bs' \<longleftrightarrow>
     (\<forall>x \<in> set bs - B. x \<in> set bs') \<and> set bs' \<inter> B = {}
     \<and> (\<forall>x \<in> set bs' - set bs. b_Role x = to \<and> b_Scope x \<in> b_Scope ` (B \<inter> set bs))
     \<and> (\<forall>b \<in> B \<inter> set bs. \<exists>x \<in> set bs'. b_Role x = to \<and> b_Scope x = b_Scope b)"

lemma moved_none [simp]: "moved to {} bs bs"
  by (simp add: moved_def)

lemma moved_step:
  assumes "moved to {b} bs bs1" "moved to B bs1 bs2" "b \<notin> B" "\<And>x. x \<in> insert b B \<Longrightarrow> b_Role x \<noteq> to"
    and "\<And>x. x \<in> B \<Longrightarrow> x \<in> set bs1 \<Longrightarrow> x \<in> set bs"
  shows "moved to (insert b B) bs bs2"
  unfolding moved_def
proof (intro conjI ballI)
  show "x \<in> set bs2" if "x \<in> set bs - insert b B" for x using that assms(1,2) by (auto simp: moved_def)
  have b1: "b \<notin> set bs1" using assms(1) by (auto simp: moved_def)
  have "b \<notin> set bs2" using assms(2) b1 assms(4) [of b] by (auto simp: moved_def)
  then show "set bs2 \<inter> insert b B = {}" using assms(2) by (auto simp: moved_def)
  have new: "b_Role x = to \<and> b_Scope x \<in> b_Scope ` (insert b B \<inter> set bs)" if "x \<in> set bs2 - set bs" for x
  proof (cases "x \<in> set bs1")
    case True
    then have "b_Role x = to \<and> b_Scope x \<in> b_Scope ` ({b} \<inter> set bs)" using that assms(1) unfolding moved_def by blast
    then show ?thesis by auto
  next
    case False
    then have "b_Role x = to \<and> b_Scope x \<in> b_Scope ` (B \<inter> set bs1)" using that assms(2) unfolding moved_def by blast
    then show ?thesis using assms(5) by auto
  qed
  show "b_Role x = to" "b_Scope x \<in> b_Scope ` (insert b B \<inter> set bs)" if "x \<in> set bs2 - set bs" for x
    using new [OF that] by blast+
  show "\<exists>x \<in> set bs2. b_Role x = to \<and> b_Scope x = b_Scope y" if y: "y \<in> insert b B \<inter> set bs" for y
  proof (cases "y = b")
    case True
    then obtain x where "x \<in> set bs1" "b_Role x = to" "b_Scope x = b_Scope b" using assms(1) y by (auto simp: moved_def)
    moreover from this have "x \<notin> B" using assms(4) by blast
    ultimately show ?thesis using assms(2) True by (auto simp: moved_def)
  next
    case False
    then have "y \<in> B \<inter> set bs1" using y assms(1) by (auto simp: moved_def)
    then show ?thesis using assms(2) by (auto simp: moved_def)
  qed
qed

text \<open>The rules of delegation over such a store.\<close>

locale replacement = administration ops inv a + role_store ops inv
  for ops :: "'s store_ops" and inv :: "'s \<Rightarrow> bool" and a :: "'s admin"
begin

lemma Bind_duplicate_cases:
  assumes "good a inv w" "adm_Bind a w ctx m = (Inl err, w1)" "errors_Is err ErrDuplicateBinding" "PrincipalFrom ctx = Some actor"
    and "fst (RequireOn (adm_e a) w ctx (adm_bindings a) (scope_resource (b_Scope m))) = Inr ()"
    and "lookupRole (adm_e a) (w_store w) (b_Role m) = Inr role"
    and "is_ok (h_Chain (eng_h (adm_e a)) (eng_resolver (adm_e a)) (b_Scope m) [])"
    and "is_ok (current_access (adm_e a) (w_store w) (pr_Subject actor))"
  shows "\<exists>e. st_Bind ops (w_store w) (pr_Subject actor) m = (Inl e, w_store w1) \<and> errors_Is e ErrDuplicateBinding"
proof -
  have k: "keeps (adm_e a) (w_store w) w" by (rule good_keeps [OF assms(1)])
  obtain w2 where r: "RequireOn (adm_e a) w ctx (adm_bindings a) (scope_resource (b_Scope m)) = (Inr (), w2)"
    using assms(5) by (metis prod.collapse)
  have k2: "keeps (adm_e a) (w_store w) w2" using keeps_RequireOn [OF k] r by (metis snd_conv)
  obtain c w3 where c: "CanBind (adm_e a) w2 actor role (b_Scope m) (adm_bindings a) = (c, w3)" by force
  have k3: "keeps (adm_e a) (w_store w) w3" using keeps_CanBind [OF k2] c by (metis snd_conv)
  have st: "w_store w2 = w_store w" "w_store w3 = w_store w" using k2 k3 by (simp_all add: keeps_def)
  have dup: "\<not> errors_Is e ErrDuplicateBinding" if "c = Inl e" for e
    using CanBind_duplicate [OF k2, of actor role "b_Scope m" "adm_bindings a" e] c that assms(7,8) by auto
  note unf = adm_Bind_def adm_actor_def store_read_def assms(4,6) r st c
  show ?thesis
  proof (cases c)
    case (Inl e)
    then show ?thesis using assms(2,3) dup [OF Inl] ErrDuplicateBinding_ne
      by (auto simp: unf dest: h_Check_error [of _ _ _ ErrDuplicateBinding] split: if_splits sum.splits)
  next
    case (Inr u)
    obtain x st' where b: "st_Bind ops (w_store w) (pr_Subject actor) m = (x, st')" by force
    show ?thesis using assms(2,3) Inr b ErrDuplicateBinding_ne
      by (cases x) (auto simp: unf store_write_def dest: h_Check_error [of _ _ _ ErrDuplicateBinding] split: if_splits sum.splits)
  qed
qed

lemma Unbind_allowed:
  assumes "good a inv w" "adm_Unbind a w ctx (b_ID b) = (Inr u, w')" "st_Binding ops (w_store w) (b_ID b) = Inr b"
    and "lookupRole (adm_e a) (w_store w) (b_Role b) = Inr role"
  obtains actor where "PrincipalFrom ctx = Some actor"
    "fst (RequireOn (adm_e a) w ctx (adm_bindings a) (scope_resource (b_Scope b))) = Inr ()"
    "is_ok (h_Chain (eng_h (adm_e a)) (eng_resolver (adm_e a)) (b_Scope b) [])"
    "is_ok (current_access (adm_e a) (w_store w) (pr_Subject actor))"
proof -
  obtain actor w2 w3 where A: "PrincipalFrom ctx = Some actor"
    and r: "RequireOn (adm_e a) w ctx (adm_bindings a) (scope_resource (b_Scope b)) = (Inr (), w2)"
    and c: "(case lookupRole (adm_e a) (w_store w2) (b_Role b) of
          Inr role \<Rightarrow> CanBind (adm_e a) w2 actor role (b_Scope b) (adm_bindings a)
        | Inl err \<Rightarrow> if errors_Is err ErrRoleNotFound then (Inr (), w2) else (Inl (Internal err), w2)) = (Inr (), w3)"
    using assms(2,3) by (auto simp: adm_Unbind_def unbind_checks_def st_bind_Inr_iff actor_ok read_ok)
  have k2: "keeps (adm_e a) (w_store w) w2" using keeps_RequireOn [OF good_keeps [OF assms(1)]] r by (metis snd_conv)
  then have "CanBind (adm_e a) w2 actor role (b_Scope b) (adm_bindings a) = (Inr (), w3)" using c assms(4) by (simp add: keeps_def)
  then obtain chain eff where ch: "h_Chain (eng_h (adm_e a)) (eng_resolver (adm_e a)) (b_Scope b) [] = Inr chain"
      and e: "fst (eng_Effective (adm_e a) w2 (pr_Subject actor)) = Inr eff"
    by (auto simp: CanBind_def st_bind_Inr_iff Let_def split: sum.splits)
  then show ?thesis using that [OF A] r by (simp add: Effective_current [OF k2])
qed

text \<open>The half that adds: afterwards the subject holds the predefined role there, once more or already.\<close>

lemma rebind_adds:
  assumes g: "good a inv w" and rd: "readable ops (w_store w)" and b: "st_Binding ops (w_store w) (b_ID b) = Inr b"
    and key: "ref_Key (b_Role b) = []" and old: "rd_Role ops (w_store w) (ref_ID (b_Role b)) = Inr custom"
    and new: "lookupRole (adm_e a) (w_store w) to = Inr role"
    and bind: "adm_Bind a w ctx (moved_binding b to) = (r, w1)" and r: "\<And>err. r = Inl err \<Longrightarrow> errors_Is err ErrDuplicateBinding"
    and unbind: "adm_Unbind a w1 ctx (b_ID b) = (Inr u, w2)"
  shows "good a inv w1 \<and> same_roles ops (w_store w) (w_store w1)
    \<and> (\<forall>sub bs. rd_BindingsFor ops (w_store w) sub = Inr bs \<longrightarrow> (\<exists>bs1. rd_BindingsFor ops (w_store w1) sub = Inr bs1
         \<and> set bs \<subseteq> set bs1 \<and> (\<forall>x \<in> set bs1 - set bs. sub = b_Subject b \<and> b_Role x = to \<and> b_Scope x = b_Scope b)
         \<and> (sub = b_Subject b \<longrightarrow> (\<exists>x \<in> set bs1. b_Role x = to \<and> b_Scope x = b_Scope b))))"
proof -
  have i: "inv (w_store w)" using g by (simp add: good_def)
  have g1: "good a inv w1" using good_adm_Bind [OF g, of ctx "moved_binding b to"] bind by simp
  note m = moved_binding_def
  show ?thesis
  proof (cases r)
    case (Inr saved)
    obtain s where "st_Bind ops (w_store w) s (moved_binding b to) = (Inr saved, w_store w1)"
      using Bind_success [OF g bind [unfolded Inr]] by metis
    from Bind_ok [OF i this] have ok: "b_Role saved = to" "b_Scope saved = b_Scope b" "same_roles ops (w_store w) (w_store w1)"
        "\<And>sub bs. rd_BindingsFor ops (w_store w) sub = Inr bs \<Longrightarrow>
           rd_BindingsFor ops (w_store w1) sub = Inr (if sub = b_Subject b then bs @ [saved] else bs)"
      by (auto simp: m)
    then show ?thesis using g1 by auto
  next
    case (Inl err)
    have dup: "errors_Is err ErrDuplicateBinding" by (rule r [OF Inl])
    note bind = bind [unfolded Inl]
    have "\<exists>s e. st_Bind ops (w_store w) s (moved_binding b to) = (Inl e, w_store w1) \<and> errors_Is e ErrDuplicateBinding"
      using Bind_error_cases [OF g bind]
    proof
      assume k1: "keeps (adm_e a) (w_store w) w1"
      then have st: "w_store w1 = w_store w" by (simp add: keeps_def)
      have "lookupRole (adm_e a) (w_store w1) (b_Role b) = Inr custom" using key old st by (simp add: lookupRole_def)
      from Unbind_allowed [OF g1 unbind _ this] b st obtain actor where A: "PrincipalFrom ctx = Some actor"
        "fst (RequireOn (adm_e a) w1 ctx (adm_bindings a) (scope_resource (b_Scope b))) = Inr ()"
        "is_ok (h_Chain (eng_h (adm_e a)) (eng_resolver (adm_e a)) (b_Scope b) [])"
        "is_ok (current_access (adm_e a) (w_store w1) (pr_Subject actor))" by metis
      have "fst (RequireOn (adm_e a) w ctx (adm_bindings a) (scope_resource (b_Scope b))) = Inr ()"
        using A(2) RequireOn_same [OF good_keeps [OF g] k1] by simp
      with Bind_duplicate_cases [OF g bind dup A(1), of role] A st new show ?thesis by (auto simp: m)
    next
      assume "\<exists>s e. st_Bind ops (w_store w) s (moved_binding b to) = (Inl e, w_store w1) \<and> err = storeErr e"
      then show ?thesis using dup by (metis errors_Is_storeErr)
    qed
    then obtain s e where e: "st_Bind ops (w_store w) s (moved_binding b to) = (Inl e, w_store w1)" "errors_Is e ErrDuplicateBinding" by blast
    obtain bs0 where bs0: "rd_BindingsFor ops (w_store w) (b_Subject b) = Inr bs0" using rd by (auto simp: readable_def is_ok_iff)
    have "\<exists>x \<in> set bs0. b_Role x = to \<and> b_Scope x = b_Scope b"
      using Bind_refused [OF i e, of bs0] bs0 by (simp add: m)
    with Bind_err [OF i e(1)] g1 bs0 show ?thesis by (auto simp: same_bindings_def)
  qed
qed

text \<open>Both halves, for one binding.\<close>

lemma rebind_one:
  assumes g: "good a inv w" and rd: "readable ops (w_store w)" and b: "st_Binding ops (w_store w) (b_ID b) = Inr b"
    and key: "ref_Key (b_Role b) = []" "ref_Key to \<noteq> []" and old: "rd_Role ops (w_store w) (ref_ID (b_Role b)) = Inr custom"
    and new: "lookupRole (adm_e a) (w_store w) to = Inr role"
    and bind: "adm_Bind a w ctx (moved_binding b to) = (r, w1)" and r: "\<And>err. r = Inl err \<Longrightarrow> errors_Is err ErrDuplicateBinding"
    and unbind: "adm_Unbind a w1 ctx (b_ID b) = (Inr u, w2)"
  shows "good a inv w2 \<and> readable ops (w_store w2) \<and> same_roles ops (w_store w) (w_store w2)
    \<and> (\<forall>sub bs. rd_BindingsFor ops (w_store w) sub = Inr bs \<longrightarrow> (\<exists>bs2. rd_BindingsFor ops (w_store w2) sub = Inr bs2 \<and> moved to {b} bs bs2))"
proof -
  note adds = rebind_adds [OF g rd b key(1) old new bind r unbind]
  then have g1: "good a inv w1" by blast
  have i: "inv (w_store w)" and i1: "inv (w_store w1)" using g g1 by (simp_all add: good_def)
  obtain s where "st_Unbind ops (w_store w1) s (b_ID b) = (Inr (), w_store w2)" using Unbind_success [OF g1 unbind] by metis
  note un = Unbind_ok [OF i1 this]
  obtain bs0 where bs0: "rd_BindingsFor ops (w_store w) (b_Subject b) = Inr bs0" using rd by (auto simp: readable_def is_ok_iff)
  have b0: "b \<in> set bs0" using Binding_ok [OF i b] bs0 by blast
  obtain bs0' where "rd_BindingsFor ops (w_store w1) (b_Subject b) = Inr bs0'" "b \<in> set bs0'" using adds bs0 b0 by blast
  then have b1: "st_Binding ops (w_store w1) (b_ID b) = Inr b" using BindingsFor_ok [OF i1] by blast
  have each: "\<exists>bs2. rd_BindingsFor ops (w_store w2) sub = Inr bs2 \<and> moved to {b} bs bs2"
    if bs: "rd_BindingsFor ops (w_store w) sub = Inr bs" for sub bs
  proof -
    obtain bs1 where bs1: "rd_BindingsFor ops (w_store w1) sub = Inr bs1" "set bs \<subseteq> set bs1"
        "\<And>x. x \<in> set bs1 - set bs \<Longrightarrow> sub = b_Subject b \<and> b_Role x = to \<and> b_Scope x = b_Scope b"
        "sub = b_Subject b \<Longrightarrow> \<exists>x \<in> set bs1. b_Role x = to \<and> b_Scope x = b_Scope b"
      using adds bs by blast
    have same: "b_ID x = b_ID b \<longleftrightarrow> x = b" if "x \<in> set bs1" for x
      using BindingsFor_ok [OF i1 bs1(1)] that b1 by (metis Inr_inject)
    have sub: "sub = b_Subject b" if "b \<in> set bs" using BindingsFor_ok [OF i bs] that by auto
    have own: "b \<in> set bs" if "sub = b_Subject b" using that bs bs0 b0 by simp
    have f: "set (filter (\<lambda>x. b_ID x \<noteq> b_ID b) bs1) = set bs1 - {b}" using same by auto
    have "b_Role b \<noteq> to" using key by auto
    then have hold: "\<exists>x \<in> set bs1 - {b}. b_Role x = to \<and> b_Scope x = b_Scope b" if "b \<in> set bs" using bs1(4) sub that by blast
    have "b_Role x = to \<and> b_Scope x \<in> b_Scope ` ({b} \<inter> set bs)" if "x \<in> set bs1 - set bs" for x
      using bs1(3) [OF that] own by auto
    then have "moved to {b} bs (filter (\<lambda>x. b_ID x \<noteq> b_ID b) bs1)"
      unfolding moved_def f using bs1(2) hold by blast
    moreover have "rd_BindingsFor ops (w_store w2) sub = Inr (filter (\<lambda>x. b_ID x \<noteq> b_ID b) bs1)" using un bs1(1) by blast
    ultimately show ?thesis by blast
  qed
  moreover have "readable ops (w_store w2)" using each rd by (simp add: readable_def is_ok_iff) blast
  moreover have "good a inv w2" using good_adm_Unbind [OF g1, of ctx "b_ID b"] unbind by simp
  moreover have "same_roles ops (w_store w) (w_store w2)" using adds un by (simp add: same_roles_def)
  ultimately show ?thesis by blast
qed

lemma rebind_cons:
  assumes "ax_delegation ax = a" "rebind_loop ax ctx to (b # bs) n w = (Inr n', w')"
  obtains r w1 w2 where "adm_Bind a w ctx (moved_binding b to) = (r, w1)" "\<And>err. r = Inl err \<Longrightarrow> errors_Is err ErrDuplicateBinding"
    "adm_Unbind a w1 ctx (b_ID b) = (Inr (), w2)" "rebind_loop ax ctx to bs (n + 1) w2 = (Inr n', w')"
proof -
  obtain r w1 where r: "adm_Bind a w ctx (moved_binding b to) = (r, w1)" by force
  show ?thesis
    using that [OF r] assms r by (cases r) (auto simp: st_bind_Inr_iff split: if_splits)
qed

text \<open>The bindings still to be moved are still there.\<close>

lemma rebind_head:
  assumes "ref_Key to \<noteq> []" "fmlookup (eng_roles (adm_e a)) (ref_Key to) = Some role"
    and "good a inv w" "readable ops (w_store w)" "rd_Role ops (w_store w) i = Inr custom" "distinct (b # B)"
    and all: "\<forall>x \<in> set (b # B). st_Binding ops (w_store w) (b_ID x) = Inr x \<and> b_Role x = \<lparr>ref_ID = i, ref_Key = []\<rparr>"
    and bind: "adm_Bind a w ctx (moved_binding b to) = (r, w1)" and dup: "\<forall>err. r = Inl err \<longrightarrow> errors_Is err ErrDuplicateBinding"
    and unbind: "adm_Unbind a w1 ctx (b_ID b) = (Inr u, w2)"
  shows "good a inv w2" "readable ops (w_store w2)" "same_roles ops (w_store w) (w_store w2)" "rd_Role ops (w_store w2) i = Inr custom"
    "\<And>sub bs. rd_BindingsFor ops (w_store w) sub = Inr bs \<Longrightarrow> \<exists>bs2. rd_BindingsFor ops (w_store w2) sub = Inr bs2 \<and> moved to {b} bs bs2"
    "\<forall>x \<in> set B. st_Binding ops (w_store w2) (b_ID x) = Inr x \<and> b_Role x = \<lparr>ref_ID = i, ref_Key = []\<rparr>"
proof -
  note mem = bspec [OF all]
  have look: "lookupRole (adm_e a) (w_store w) to = Inr role" by (simp add: lookupRole_def assms(1,2))
  have b: "st_Binding ops (w_store w) (b_ID b) = Inr b" "ref_Key (b_Role b) = []" "ref_ID (b_Role b) = i" using mem [of b] by simp_all
  from rebind_one [OF assms(3,4) b(1,2) assms(1) _ look bind _ unbind, of custom] assms(5) dup
  show one: "good a inv w2" "readable ops (w_store w2)" "same_roles ops (w_store w) (w_store w2)"
    "\<And>sub bs. rd_BindingsFor ops (w_store w) sub = Inr bs \<Longrightarrow> \<exists>bs2. rd_BindingsFor ops (w_store w2) sub = Inr bs2 \<and> moved to {b} bs bs2"
    by (auto simp: b(3))
  show "rd_Role ops (w_store w2) i = Inr custom" using one(3) assms(5) by (simp add: same_roles_def)
  have i: "inv (w_store w)" "inv (w_store w2)" using assms(3) one(1) by (simp_all add: good_def)
  show "\<forall>x \<in> set B. st_Binding ops (w_store w2) (b_ID x) = Inr x \<and> b_Role x = \<lparr>ref_ID = i, ref_Key = []\<rparr>"
  proof
    fix x assume that: "x \<in> set B"
    obtain bs where bs: "rd_BindingsFor ops (w_store w) (b_Subject x) = Inr bs" using assms(4) by (auto simp: readable_def is_ok_iff)
    obtain bs2 where bs2: "rd_BindingsFor ops (w_store w2) (b_Subject x) = Inr bs2" "moved to {b} bs bs2" using one(4) [OF bs] by blast
    have "x \<in> set bs" using Binding_ok [OF i(1)] mem [of x] that bs by auto
    moreover have "x \<noteq> b" using that assms(6) by auto
    ultimately have "x \<in> set bs2" using bs2(2) by (auto simp: moved_def)
    then show "st_Binding ops (w_store w2) (b_ID x) = Inr x \<and> b_Role x = \<lparr>ref_ID = i, ref_Key = []\<rparr>"
      using BindingsFor_ok [OF i(2) bs2(1)] mem [of x] that by auto
  qed
qed

text \<open>And for all of them.\<close>

lemma rebind_all:
  assumes "ax_delegation ax = a" "ref_Key to \<noteq> []" "fmlookup (eng_roles (adm_e a)) (ref_Key to) = Some role"
    and "good a inv w" "readable ops (w_store w)" "rd_Role ops (w_store w) i = Inr custom" "distinct B"
    and "\<forall>b \<in> set B. st_Binding ops (w_store w) (b_ID b) = Inr b \<and> b_Role b = \<lparr>ref_ID = i, ref_Key = []\<rparr>"
    and "rebind_loop ax ctx to B n w = (Inr n', w')"
  shows "n' = n + length B \<and> good a inv w' \<and> same_roles ops (w_store w) (w_store w')
    \<and> (\<forall>sub bs. rd_BindingsFor ops (w_store w) sub = Inr bs \<longrightarrow> (\<exists>bs'. rd_BindingsFor ops (w_store w') sub = Inr bs' \<and> moved to (set B) bs bs'))"
  using assms(4-9)
proof (induction B arbitrary: n w)
  case Nil
  then show ?case by (auto simp: same_roles_def)
next
  case (Cons b B)
  obtain r w1 w2 where s: "adm_Bind a w ctx (moved_binding b to) = (r, w1)" "\<And>err. r = Inl err \<Longrightarrow> errors_Is err ErrDuplicateBinding"
      "adm_Unbind a w1 ctx (b_ID b) = (Inr (), w2)" "rebind_loop ax ctx to B (n + 1) w2 = (Inr n', w')"
    by (rule rebind_cons [OF assms(1) Cons.prems(6)]) blast
  have dup: "\<forall>err. r = Inl err \<longrightarrow> errors_Is err ErrDuplicateBinding" using s(2) by blast
  note head = rebind_head [OF assms(2,3) Cons.prems(1-5) s(1) dup s(3)]
  have ih: "n' = n + 1 + length B \<and> good a inv w' \<and> same_roles ops (w_store w2) (w_store w')
    \<and> (\<forall>sub bs. rd_BindingsFor ops (w_store w2) sub = Inr bs \<longrightarrow> (\<exists>bs'. rd_BindingsFor ops (w_store w') sub = Inr bs' \<and> moved to (set B) bs bs'))"
    by (rule Cons.IH [OF head(1,2,4) _ head(6) s(4)]) (use Cons.prems(4) in simp_all)
  have role: "b_Role x \<noteq> to" if "x \<in> insert b (set B)" for x using Cons.prems(5) that assms(2) by auto
  have "\<exists>bs'. rd_BindingsFor ops (w_store w') sub = Inr bs' \<and> moved to (insert b (set B)) bs bs'"
    if h: "rd_BindingsFor ops (w_store w) sub = Inr bs" for sub bs
  proof -
    obtain bs2 bs' where "rd_BindingsFor ops (w_store w') sub = Inr bs'" and m: "moved to {b} bs bs2" "moved to (set B) bs2 bs'"
      using head(5) [OF h] ih by blast
    moreover have "x \<in> set bs" if "x \<in> set B" "x \<in> set bs2" for x using role [of x] that m(1) unfolding moved_def by blast
    ultimately show ?thesis using moved_step [OF m _ role] Cons.prems(4) by auto
  qed
  then show ?case using ih head(3) by (simp add: same_roles_def)
qed

end

section \<open>Replacing a role\<close>

lemma evictions_store [simp]: "w_store (foldl (\<lambda>w b. eng_Evict w (b_Subject b)) w bs) = w_store w"
  by (induction bs arbitrary: w) simp_all

lemma st_bind_Inl_iff: "st_bind r f = (Inl e, w') \<longleftrightarrow> r = (Inl e, w') \<or> (\<exists>x w. r = (Inr x, w) \<and> f x w = (Inl e, w'))"
  by (cases r; cases "fst r") auto

lemma in_transaction_failed: "in_transaction unbegun uncommitted f w = (Inl e, w') \<Longrightarrow> w_store w' = w_store w"
  by (auto simp: in_transaction_def split: option.splits prod.splits sum.splits)

lemma Replace_failed:
  assumes "keeps (ax_engine ax) st w" "roles_Replace unbegun uncommitted ax w ctx ref other = (Inl e, w')"
  shows "w_store w' = st"
proof -
  have "w_store w = st" using assms(1) by (simp add: keeps_def)
  moreover have "w_store w1 = st" if "Require (ax_engine ax) w ctx ManageRoles = (r, w1)" for r w1
    using Require_store [OF assms(1) that] by (simp add: keeps_def)
  ultimately show ?thesis
    using assms(2) by (auto simp: roles_Replace_def st_bind_Inl_iff dest: in_transaction_failed)
qed

lemma fresh_evict:
  "cache_fresh e w \<Longrightarrow> cache_fresh e (eng_Evict w s)" "cache_fresh e w \<Longrightarrow> cache_fresh e (eng_EvictRole w i)"
  by (auto simp: cache_fresh_def eng_Evict_def eng_EvictRole_def Evict_lookup EvictRole_lookup split: if_splits)

lemma fresh_evictions: "cache_fresh e w \<Longrightarrow> cache_fresh e (foldl (\<lambda>w b. eng_Evict w (b_Subject b)) w bs)"
  by (induction bs arbitrary: w) (simp_all add: fresh_evict)

context replacement
begin

lemma custom_ok:
  assumes "ax_engine ax = adm_e a" "ax_store ax = ops" "inv st" "access_custom ax st ref = Inr custom"
  shows "rd_Role ops st (role_ID custom) = Inr custom \<and> role_ID custom > 0 \<and> role_Ref custom = \<lparr>ref_ID = role_ID custom, ref_Key = []\<rparr>"
proof -
  have c: "access_role ax st ref = Inr custom" and k: "role_Key custom = []"
    using assms(4) by (auto simp: access_custom_def res_bind_Inr_iff role_Predefined_def split: if_splits)
  have "access_predefined ax ref = Inr custom \<Longrightarrow> False"
    using k engine_wf_role [OF engine_ok, of ref custom] assms(1)
    by (auto simp: access_predefined_def PredefinedRole_def role_Ref_def split: option.splits)
  then obtain j where j: "rd_Role ops st j = Inr custom"
    using c by (auto simp: access_role_def assms(2) split: option.splits sum.splits)
  with Role_ok [OF assms(3) j] k show ?thesis by (simp add: role_Ref_def)
qed

text \<open>The bindings a replacement moves, and the role it moves them to.\<close>

lemma moved_roles:
  assumes "ax_engine ax = adm_e a" "ax_store ax = ops" "inv st" "access_custom ax st ref = Inr custom"
    and B: "st_BindingsForRole ops st (role_ID custom) = Inr B" and refs: "\<And>b. b \<in> set B \<Longrightarrow> ref_Valid (b_Role b)"
  shows "rd_Role ops st (role_ID custom) = Inr custom" "role_Ref custom = \<lparr>ref_ID = role_ID custom, ref_Key = []\<rparr>" "distinct B"
    "\<forall>b \<in> set B. st_Binding ops st (b_ID b) = Inr b \<and> b_Role b = \<lparr>ref_ID = role_ID custom, ref_Key = []\<rparr>"
    "\<And>b. b \<in> set B \<longleftrightarrow> st_Binding ops st (b_ID b) = Inr b \<and> b_Role b = role_Ref custom"
proof -
  show ok: "rd_Role ops st (role_ID custom) = Inr custom" "role_Ref custom = \<lparr>ref_ID = role_ID custom, ref_Key = []\<rparr>"
    using custom_ok [OF assms(1-4)] by blast+
  have pos: "role_ID custom > 0" using custom_ok [OF assms(1-4)] by blast
  show "distinct B" using BindingsForRole_ok [OF assms(3) B] by blast
  have mem: "b \<in> set B \<longleftrightarrow> st_Binding ops st (b_ID b) = Inr b \<and> ref_ID (b_Role b) = role_ID custom" for b
    using BindingsForRole_ok [OF assms(3) B] by blast
  have "b_Role b = role_Ref custom" if "b \<in> set B" for b
  proof -
    have "ref_ID (b_Role b) = role_ID custom" "ref_Key (b_Role b) = []"
      using mem that refs [OF that] pos by (auto simp: ref_Valid_def)
    then show ?thesis by (simp add: ok(2))
  qed
  then show "\<And>b. b \<in> set B \<longleftrightarrow> st_Binding ops st (b_ID b) = Inr b \<and> b_Role b = role_Ref custom"
    "\<forall>b \<in> set B. st_Binding ops st (b_ID b) = Inr b \<and> b_Role b = \<lparr>ref_ID = role_ID custom, ref_Key = []\<rparr>"
    using mem ok(2) by auto
qed

lemma predefined_ref:
  assumes "ax_engine ax = adm_e a" "access_predefined ax other = Inr to"
  shows "ref_Key (role_Ref to) \<noteq> []" "fmlookup (eng_roles (adm_e a)) (ref_Key (role_Ref to)) = Some to"
  using assms engine_wf_role [OF engine_ok, of other to]
  by (auto simp: access_predefined_def PredefinedRole_def split: option.splits)

lemma Replace_success:
  assumes d: "ax_delegation ax = a" "ax_engine ax = adm_e a" "ax_store ax = ops" and g: "good a inv w" and rd: "readable ops (w_store w)"
    and refs: "\<And>i bs b. st_BindingsForRole ops (w_store w) i = Inr bs \<Longrightarrow> b \<in> set bs \<Longrightarrow> ref_Valid (b_Role b)"
    and run: "roles_Replace unbegun uncommitted ax w ctx ref other = (Inr n, w')"
  obtains custom to B where "access_custom ax (w_store w) ref = Inr custom" "access_predefined ax other = Inr to"
    "st_BindingsForRole ops (w_store w) (role_ID custom) = Inr B" "n = length B" "good a inv w'" "same_roles ops (w_store w) (w_store w')"
    "\<And>b. b \<in> set B \<longleftrightarrow> st_Binding ops (w_store w) (b_ID b) = Inr b \<and> b_Role b = role_Ref custom"
    "\<And>sub bs. rd_BindingsFor ops (w_store w) sub = Inr bs \<Longrightarrow>
       \<exists>bs'. rd_BindingsFor ops (w_store w') sub = Inr bs' \<and> moved (role_Ref to) (set B) bs bs'"
proof -
  have i: "inv (w_store w)" using g by (simp add: good_def)
  obtain custom to w1 B w2 where c: "access_custom ax (w_store w) ref = Inr custom" and t: "access_predefined ax other = Inr to"
    and r: "Require (ax_engine ax) w ctx ManageRoles = (Inr (), w1)"
    and B: "bindings_of_role ax (w_store w1) (role_ID custom) = Inr B"
    and x: "in_transaction unbegun uncommitted (rebind_loop ax ctx (role_Ref to) B 0) w1 = (Inr n, w2)"
    and w': "w' = foldl (\<lambda>w b. eng_Evict w (b_Subject b)) (eng_EvictRole w2 (role_ID custom)) B"
    using run by (auto simp: roles_Replace_def st_bind_Inr_iff)
  have k1: "keeps (adm_e a) (w_store w) w1" using Require_store [OF _ r] good_keeps [OF g] d(2) by simp
  then have st: "w_store w1 = w_store w" and g1: "good a inv w1" using i by (simp_all add: keeps_def good_def)
  have B': "st_BindingsForRole ops (w_store w) (role_ID custom) = Inr B"
    using B st d(3) by (auto simp: bindings_of_role_def split: sum.splits)
  note role = moved_roles [OF d(2,3) i c B' refs [OF B']]
  have "rebind_loop ax ctx (role_Ref to) B 0 w1 = (Inr n, w2)"
    using x by (auto simp: in_transaction_def split: option.splits prod.splits sum.splits)
  note all = rebind_all [OF d(1) predefined_ref [OF d(2) t] g1 _ _ _ _ this, of "role_ID custom" custom, unfolded st, OF rd role(1,3,4)]
  then have "good a inv w'" by (simp add: w' good_def fresh_evictions fresh_evict)
  with that [OF c t B'] all role(5) show ?thesis by (simp add: w')
qed

end

section \<open>A replacement that is rolled back\<close>

text \<open>
  The transaction puts the store back, not the cache. What the checks of a replacement put into the cache is the actor's
  own access, and no step of it changes that.
\<close>

definition restored :: "'s \<Rightarrow> 's world \<Rightarrow> 's world" where
  "restored st w = w\<lparr>w_store := st\<rparr>"

definition agree :: "'s engine \<Rightarrow> subject \<Rightarrow> 's \<Rightarrow> 's \<Rightarrow> bool" where
  "agree e s st st' \<longleftrightarrow> rd_BindingsFor (eng_store e) st s = rd_BindingsFor (eng_store e) st' s
     \<and> rd_Role (eng_store e) st = rd_Role (eng_store e) st'"

lemma restored_simps [simp]:
  "w_store (restored st w) = st" "restored st (w\<lparr>w_store := st'\<rparr>) = restored st w" "w_cache (restored st w) = w_cache w"
  "restored st (eng_Evict w s) = eng_Evict (restored st w) s" "restored (w_store w) w = w"
  by (simp_all add: restored_def eng_Evict_def)

lemma agree_lookup: "agree e s st st' \<Longrightarrow> lookupRole e st' = lookupRole e st"
  by (rule ext) (simp add: agree_def lookupRole_def)

lemma Effective_restored:
  "agree e s (w_store w) st0 \<Longrightarrow> eng_Effective e (restored st0 w) s = map_prod id (restored st0) (eng_Effective e w s)"
  by (auto simp: eng_Effective_def Let_def restored_def now_def tick_def load_bindings_def agree_lookup split: prod.splits option.splits sum.splits)
    (auto simp: agree_def)

lemma prepare_restored:
  assumes "PrincipalFrom ctx = Some p" "agree e (pr_Subject p) (w_store w) st0"
  shows "prepare e (restored st0 w) ctx perm = map_prod id (restored st0) (prepare e w ctx perm)"
  using assms by (auto simp: prepare_def Effective_restored split: option.splits prod.splits sum.splits)

lemma RequireOn_restored:
  assumes "PrincipalFrom ctx = Some p" "agree e (pr_Subject p) (w_store w) st0"
  shows "RequireOn e (restored st0 w) ctx perm res = map_prod id (restored st0) (RequireOn e w ctx perm res)"
  by (auto simp: RequireOn_def prepare_restored [OF assms] split: prod.splits sum.splits)

lemma CanBind_restored:
  assumes "agree e (pr_Subject p) (w_store w) st0"
  shows "CanBind e (restored st0 w) p role scope m = map_prod id (restored st0) (CanBind e w p role scope m)"
proof -
  obtain r w1 where "eng_Effective e w (pr_Subject p) = (r, w1)" by force
  then show ?thesis
    by (cases r) (auto simp: CanBind_def Let_def asValidation_def Effective_restored [OF assms] split: sum.splits)
qed

text \<open>The cache would be fresh for the store the replacement began with.\<close>

definition fresh_if_undone :: "'s engine \<Rightarrow> 's \<Rightarrow> 's world \<Rightarrow> bool" where
  "fresh_if_undone e st0 w \<longleftrightarrow> cache_fresh e (restored st0 w)"

lemma undone_RequireOn:
  assumes "PrincipalFrom ctx = Some p" "agree e (pr_Subject p) (w_store w) st0" "fresh_if_undone e st0 w"
    and "RequireOn e w ctx perm res = (r, w1)"
  shows "fresh_if_undone e st0 w1"
  using keeps_RequireOn [of e st0 "restored st0 w" ctx perm res] assms
  by (simp add: fresh_if_undone_def keeps_def RequireOn_restored)

lemma undone_CanBind:
  assumes "agree e (pr_Subject p) (w_store w) st0" "fresh_if_undone e st0 w" "CanBind e w p role scope m = (r, w1)"
  shows "fresh_if_undone e st0 w1"
  using keeps_CanBind [of e st0 "restored st0 w" p role scope m] assms
  by (simp add: fresh_if_undone_def keeps_def CanBind_restored)

lemma undone_store [simp]:
  "fresh_if_undone e st0 (w\<lparr>w_store := st'\<rparr>) = fresh_if_undone e st0 w"
  "fresh_if_undone e st0 w \<Longrightarrow> fresh_if_undone e st0 (eng_Evict w s)"
  by (simp_all add: fresh_if_undone_def fresh_evict)

context replacement
begin

lemma undone_Bind:
  assumes "good a inv w" "PrincipalFrom ctx = Some p" "agree (adm_e a) (pr_Subject p) (w_store w) st0" "fresh_if_undone (adm_e a) st0 w"
  shows "fresh_if_undone (adm_e a) st0 (snd (adm_Bind a w ctx m))"
proof -
  have k: "keeps (adm_e a) (w_store w) w" by (rule good_keeps [OF assms(1)])
  obtain r w2 where r: "RequireOn (adm_e a) w ctx (adm_bindings a) (scope_resource (b_Scope m)) = (r, w2)" by force
  have st: "w_store w2 = w_store w" using keeps_RequireOn [OF k] r by (metis keeps_def snd_conv)
  have f2: "fresh_if_undone (adm_e a) st0 w2" by (rule undone_RequireOn [OF assms(2-4) r])
  have f3: "fresh_if_undone (adm_e a) st0 w3" if "CanBind (adm_e a) w2 p role (b_Scope m) (adm_bindings a) = (c, w3)" for role c w3
    using undone_CanBind [OF _ f2 that] assms(3) st by simp
  have wr: "fresh_if_undone (adm_e a) st0 (snd (st_bind (store_write w3 x) (\<lambda>saved w4. (Inr saved, eng_Evict w4 s))))"
    if "fresh_if_undone (adm_e a) st0 w3" for w3 x s
    using that by (cases "fst x") (auto simp: store_write_def)
  show ?thesis
  proof (cases "\<exists>u role. r = Inr u \<and> lookupRole (adm_e a) (w_store w2) (b_Role m) = Inr role")
    case False
    then show ?thesis using f2 assms(4)
      by (cases r; cases "lookupRole (adm_e a) (w_store w2) (b_Role m)")
        (auto simp: adm_Bind_def adm_actor_def assms(2) r store_read_def split: sum.splits)
  next
    case True
    then obtain u role where role: "r = Inr u" "lookupRole (adm_e a) (w_store w2) (b_Role m) = Inr role" by blast
    obtain c w3 where c: "CanBind (adm_e a) w2 p role (b_Scope m) (adm_bindings a) = (c, w3)" by force
    show ?thesis using f3 [OF c] assms(4) wr [OF f3 [OF c], of "st_Bind ops (w_store w3) (pr_Subject p) m" "b_Subject m"]
      by (cases c) (auto simp: adm_Bind_def adm_actor_def assms(2) r role c store_read_def split: sum.splits)
  qed
qed

lemma undone_Unbind:
  assumes "good a inv w" "PrincipalFrom ctx = Some p" "agree (adm_e a) (pr_Subject p) (w_store w) st0" "fresh_if_undone (adm_e a) st0 w"
    and "st_Binding ops (w_store w) i = Inr b" "b_Subject b \<noteq> pr_Subject p"
  shows "fresh_if_undone (adm_e a) st0 (snd (adm_Unbind a w ctx i))"
proof -
  have k: "keeps (adm_e a) (w_store w) w" by (rule good_keeps [OF assms(1)])
  obtain r w2 where r: "RequireOn (adm_e a) w ctx (adm_bindings a) (scope_resource (b_Scope b)) = (r, w2)" by force
  have st: "w_store w2 = w_store w" using keeps_RequireOn [OF k] r by (metis keeps_def snd_conv)
  have f2: "fresh_if_undone (adm_e a) st0 w2" by (rule undone_RequireOn [OF assms(2-4) r])
  have f3: "fresh_if_undone (adm_e a) st0 (snd (CanBind (adm_e a) w2 p role (b_Scope b) (adm_bindings a)))" for role
    using undone_CanBind [OF _ f2, of p role "b_Scope b" "adm_bindings a"] assms(3) st by (metis prod.collapse)
  have "fresh_if_undone (adm_e a) st0 (snd (unbind_checks a w ctx p b))"
    using f2 f3 by (cases r; cases "lookupRole (adm_e a) (w_store w2) (b_Role b)")
      (auto simp: unbind_checks_def r assms(6) snd_st_bind_id)
  then obtain c w4 where c: "unbind_checks a w ctx p b = (c, w4)" "fresh_if_undone (adm_e a) st0 w4" by (metis prod.collapse)
  obtain x st' where "st_Unbind ops (w_store w4) (pr_Subject p) i = (x, st')" by force
  then show ?thesis using c
    by (cases c; cases x) (auto simp: adm_Unbind_def adm_actor_def store_read_def store_write_def assms(2,5))
qed

lemma Bind_not_own:
  assumes "adm_Bind a w ctx m = (r, w1)" "\<And>err. r = Inl err \<Longrightarrow> errors_Is err ErrDuplicateBinding" "PrincipalFrom ctx = Some p"
  shows "b_Subject m \<noteq> pr_Subject p"
proof
  assume own: "b_Subject m = pr_Subject p"
  then obtain err where "r = Inl err"
    using assms(1) by (cases r) (auto simp: adm_Bind_def adm_actor_def assms(3) split: sum.splits if_splits)
  then show False
    using assms(1,2) own ErrDuplicateBinding_ne
    by (auto simp: adm_Bind_def adm_actor_def assms(3) dest: h_Check_error [of _ _ _ ErrDuplicateBinding] split: sum.splits if_splits)
qed

text \<open>One re-binding leaves what the actor holds as it was, and the bindings still to be moved.\<close>

lemma rebind_actor:
  assumes "good a inv w" "agree (adm_e a) s (w_store w) st0" "readable ops (w_store w)" "b_Subject b \<noteq> s"
    and "adm_Bind a w ctx (moved_binding b to) = (r, w1)"
  shows "agree (adm_e a) s (w_store w1) st0"
proof -
  have i: "inv (w_store w)" using assms(1) by (simp add: good_def)
  have "same_roles ops (w_store w) (w_store w1) \<and> rd_BindingsFor ops (w_store w1) s = rd_BindingsFor ops (w_store w) s"
  proof (cases r)
    case (Inl err)
    from Bind_error_cases [OF assms(1) assms(5) [unfolded Inl]] show ?thesis
      using Bind_err [OF i] by (auto simp: keeps_def same_roles_def same_bindings_def)
  next
    case (Inr saved)
    obtain s' where ok: "st_Bind ops (w_store w) s' (moved_binding b to) = (Inr saved, w_store w1)"
      using Bind_success [OF assms(1) assms(5) [unfolded Inr]] by metis
    obtain bs where "rd_BindingsFor ops (w_store w) s = Inr bs" using assms(3) by (auto simp: readable_def is_ok_iff)
    then show ?thesis using Bind_ok [OF i ok] assms(4) by (simp add: moved_binding_def)
  qed
  then show ?thesis using assms(2) by (auto simp: agree_def same_roles_def fun_eq_iff)
qed

lemma Bind_keeps_readable:
  assumes "good a inv w" "readable ops (w_store w)" "adm_Bind a w ctx m = (r, w1)" "st_Binding ops (w_store w) (b_ID b) = Inr b"
  shows "readable ops (w_store w1) \<and> st_Binding ops (w_store w1) (b_ID b) = Inr b"
proof -
  have i: "inv (w_store w)" using assms(1) by (simp add: good_def)
  have i1: "inv (w_store w1)" using good_adm_Bind [OF assms(1), of ctx m] assms(3) by (simp add: good_def)
  have each: "\<exists>bs1. rd_BindingsFor ops (w_store w1) sub = Inr bs1 \<and> set bs \<subseteq> set bs1" if bs: "rd_BindingsFor ops (w_store w) sub = Inr bs" for sub bs
  proof (cases r)
    case (Inl err)
    from Bind_error_cases [OF assms(1) assms(3) [unfolded Inl]] show ?thesis
      using Bind_err [OF i] bs by (auto simp: keeps_def same_bindings_def)
  next
    case (Inr saved)
    obtain s' where ok: "st_Bind ops (w_store w) s' m = (Inr saved, w_store w1)"
      using Bind_success [OF assms(1) assms(3) [unfolded Inr]] by metis
    then show ?thesis using Bind_ok [OF i ok] bs by auto
  qed
  obtain bs where "rd_BindingsFor ops (w_store w) (b_Subject b) = Inr bs" using assms(2) by (auto simp: readable_def is_ok_iff)
  with each Binding_ok [OF i assms(4)] obtain bs1 where "rd_BindingsFor ops (w_store w1) (b_Subject b) = Inr bs1" "b \<in> set bs1" by blast
  then have "st_Binding ops (w_store w1) (b_ID b) = Inr b" using BindingsFor_ok [OF i1] by blast
  moreover have "readable ops (w_store w1)" using each assms(2) by (simp add: readable_def is_ok_iff) blast
  ultimately show ?thesis by blast
qed

lemma unbind_actor:
  assumes "good a inv w" "agree (adm_e a) s (w_store w) st0" "readable ops (w_store w)"
    and "st_Binding ops (w_store w) i = Inr b" "b_Subject b \<noteq> s" "adm_Unbind a w ctx i = (Inr u, w1)"
  shows "agree (adm_e a) s (w_store w1) st0"
proof -
  have i: "inv (w_store w)" using assms(1) by (simp add: good_def)
  obtain s' where ok: "st_Unbind ops (w_store w) s' i = (Inr (), w_store w1)"
    using Unbind_success [OF assms(1,6)] by metis
  obtain bs where bs: "rd_BindingsFor ops (w_store w) s = Inr bs" using assms(3) by (auto simp: readable_def is_ok_iff)
  then have "rd_BindingsFor ops (w_store w1) s = Inr bs"
    using Unbind_ok [OF i ok] Unbind_other [OF i assms(4) _ bs] assms(5) by auto
  then have "rd_BindingsFor ops (w_store w1) s = rd_BindingsFor ops (w_store w) s" using bs by simp
  then show ?thesis using assms(2) Unbind_ok [OF i ok] by (simp add: agree_def same_roles_def fun_eq_iff)
qed

lemma undone_loop:
  assumes "ax_delegation ax = a" "ref_Key to \<noteq> []" "fmlookup (eng_roles (adm_e a)) (ref_Key to) = Some role" "PrincipalFrom ctx = Some p"
    and "good a inv w" "readable ops (w_store w)" "rd_Role ops (w_store w) i = Inr custom" "distinct B"
    and "\<forall>b \<in> set B. st_Binding ops (w_store w) (b_ID b) = Inr b \<and> b_Role b = \<lparr>ref_ID = i, ref_Key = []\<rparr>"
    and "agree (adm_e a) (pr_Subject p) (w_store w) st0" "fresh_if_undone (adm_e a) st0 w"
  shows "fresh_if_undone (adm_e a) st0 (snd (rebind_loop ax ctx to B n w))"
  using assms(5-11)
proof (induction B arbitrary: n w)
  case (Cons b B)
  obtain r w1 where bind: "adm_Bind a w ctx (moved_binding b to) = (r, w1)" by force
  have f1: "fresh_if_undone (adm_e a) st0 w1" using undone_Bind [OF Cons.prems(1) assms(4) Cons.prems(6,7)] bind by (metis snd_conv)
  have g1: "good a inv w1" using good_adm_Bind [OF Cons.prems(1), of ctx "moved_binding b to"] bind by simp
  show ?case
  proof (cases "is_ok (checkRebind ax ctx b to) \<and> (\<forall>err. r = Inl err \<longrightarrow> errors_Is err ErrDuplicateBinding)")
    case False
    then show ?thesis using bind f1 Cons.prems(7) by (cases "checkRebind ax ctx b to"; cases r) (auto simp: assms(1))
  next
    case True
    obtain x w2 where un: "adm_Unbind a w1 ctx (b_ID b) = (x, w2)" by force
    have go: "rebind_loop ax ctx to (b # B) n w = st_bind (x, w2) (\<lambda>_ w2. rebind_loop ax ctx to B (n + 1) w2)"
      using True bind un by (cases "checkRebind ax ctx b to"; cases r) (auto simp: assms(1))
    have own: "b_Subject b \<noteq> pr_Subject p" using Bind_not_own [OF bind _ assms(4)] True by (auto simp: moved_binding_def)
    have a1: "agree (adm_e a) (pr_Subject p) (w_store w1) st0" by (rule rebind_actor [OF Cons.prems(1,6,2) own bind])
    have rd1: "readable ops (w_store w1)" "st_Binding ops (w_store w1) (b_ID b) = Inr b"
      using Bind_keeps_readable [OF Cons.prems(1,2) bind, of b] Cons.prems(5) by simp_all
    have f2: "fresh_if_undone (adm_e a) st0 w2" using undone_Unbind [OF g1 assms(4) a1 f1 rd1(2) own] un by simp
    show ?thesis
    proof (cases x)
      case (Inr u)
      note head = rebind_head [OF assms(2,3) Cons.prems(1-5) bind True [THEN conjunct2] un [unfolded Inr]]
      have "agree (adm_e a) (pr_Subject p) (w_store w2) st0" by (rule unbind_actor [OF g1 a1 rd1 own un [unfolded Inr]])
      then have "fresh_if_undone (adm_e a) st0 (snd (rebind_loop ax ctx to B (n + 1) w2))"
        by (intro Cons.IH head f2) (use True Cons.prems(4) in simp_all)
      then show ?thesis unfolding go Inr by simp
    next
      case (Inl err)
      then show ?thesis unfolding go using f2 by simp
    qed
  qed
qed simp

lemma undone_Replace:
  assumes d: "ax_delegation ax = a" "ax_engine ax = adm_e a" "ax_store ax = ops" and g: "good a inv w" and rd: "readable ops (w_store w)"
    and refs: "\<And>i bs b. st_BindingsForRole ops (w_store w) i = Inr bs \<Longrightarrow> b \<in> set bs \<Longrightarrow> ref_Valid (b_Role b)"
    and run: "roles_Replace unbegun uncommitted ax w ctx ref other = (Inl e, w')"
  shows "good a inv w'"
proof -
  have i: "inv (w_store w)" and k: "keeps (ax_engine ax) (w_store w) w" using g d(2) by (simp_all add: good_def keeps_def)
  have req: "good a inv w1 \<and> w_store w1 = w_store w" if "Require (ax_engine ax) w ctx ManageRoles = (r, w1)" for r w1
    using Require_store [OF k that] i d(2) by (simp add: keeps_def good_def)
  consider "w' = w" | r where "Require (ax_engine ax) w ctx ManageRoles = (r, w')"
    | custom to w1 B where "access_custom ax (w_store w) ref = Inr custom" "access_predefined ax other = Inr to"
      "Require (ax_engine ax) w ctx ManageRoles = (Inr (), w1)" "bindings_of_role ax (w_store w1) (role_ID custom) = Inr B"
      "in_transaction unbegun uncommitted (rebind_loop ax ctx (role_Ref to) B 0) w1 = (Inl e, w')"
    using run by (auto simp: roles_Replace_def st_bind_Inl_iff)
  then show ?thesis
  proof cases
    case 1
    then show ?thesis using g by simp
  next
    case 2
    then show ?thesis using req by blast
  next
    case 3
    note g1 = req [OF 3(3), THEN conjunct1] and st = req [OF 3(3), THEN conjunct2]
    have B: "st_BindingsForRole ops (w_store w) (role_ID custom) = Inr B"
      using 3(4) st d(3) by (auto simp: bindings_of_role_def split: sum.splits)
    note role = moved_roles [OF d(2,3) i 3(1) B refs [OF B]]
    obtain p where p: "PrincipalFrom ctx = Some p"
      using 3(3) by (auto simp: Require_def prepare_def split: option.splits)
    let ?w2 = "snd (rebind_loop ax ctx (role_Ref to) B 0 w1)"
    have "fresh_if_undone (adm_e a) (w_store w1) ?w2"
      unfolding st
      by (rule undone_loop [OF d(1) predefined_ref [OF d(2) 3(2)] p g1, unfolded st, OF rd role(1,3,4)])
        (use g1 in \<open>simp_all add: agree_def fresh_if_undone_def good_def restored_def flip: st\<close>)
    then have "good a inv (?w2\<lparr>w_store := w_store w1\<rparr>)" using i st by (simp add: good_def fresh_if_undone_def restored_def)
    moreover have "w' = w1 \<or> w' = ?w2\<lparr>w_store := w_store w1\<rparr>"
      using 3(5) by (auto simp: in_transaction_def split: option.splits prod.splits sum.splits)
    ultimately show ?thesis using g1 by auto
  qed
qed

end


text \<open>What a subject holds, as roles at scopes.\<close>

definition held :: "binding list \<Rightarrow> (role_ref \<times> scope) set" where
  "held bs = (\<lambda>b. (b_Role b, b_Scope b)) ` set bs"

definition swap_role :: "role_ref \<Rightarrow> role_ref \<Rightarrow> role_ref \<times> scope \<Rightarrow> role_ref \<times> scope" where
  "swap_role old new x = (if fst x = old then (new, snd x) else x)"

lemma moved_held:
  assumes "moved new B bs bs'" "\<And>b. b \<in> set bs \<Longrightarrow> b \<in> B \<longleftrightarrow> b_Role b = old"
  shows "held bs' = swap_role old new ` held bs"
proof (intro equalityI subsetI)
  fix y assume "y \<in> held bs'"
  then obtain x where x: "x \<in> set bs'" "y = (b_Role x, b_Scope x)" by (auto simp: held_def)
  show "y \<in> swap_role old new ` held bs"
  proof (cases "x \<in> set bs")
    case True
    moreover have "x \<notin> B" using assms(1) x(1) unfolding moved_def by blast
    ultimately have "b_Role x \<noteq> old" using assms(2) by blast
    then have "y = swap_role old new (b_Role x, b_Scope x)" by (simp add: swap_role_def x)
    with True show ?thesis by (auto simp: held_def)
  next
    case False
    then have "b_Role x = new \<and> b_Scope x \<in> b_Scope ` (B \<inter> set bs)" using assms(1) x(1) unfolding moved_def by blast
    then obtain b where b: "b \<in> B \<inter> set bs" "b_Role x = new" "b_Scope x = b_Scope b" by blast
    then have "y = swap_role old new (b_Role b, b_Scope b)" using assms(2) x by (auto simp: swap_role_def)
    with b show ?thesis by (auto simp: held_def)
  qed
next
  fix y assume "y \<in> swap_role old new ` held bs"
  then obtain b where b: "b \<in> set bs" "y = swap_role old new (b_Role b, b_Scope b)" by (auto simp: held_def)
  show "y \<in> held bs'"
  proof (cases "b_Role b = old")
    case True
    then have "b \<in> B \<inter> set bs" using assms(2) b(1) by blast
    then obtain x where "x \<in> set bs'" "b_Role x = new" "b_Scope x = b_Scope b" using assms(1) unfolding moved_def by blast
    with b True show ?thesis by (auto simp: held_def swap_role_def intro!: rev_image_eqI [of x])
  next
    case False
    then have "b \<in> set bs - B" using assms(2) b(1) by blast
    then have "b \<in> set bs'" using assms(1) unfolding moved_def by blast
    with b False show ?thesis by (auto simp: held_def swap_role_def)
  qed
qed

text \<open>
  C15: replacing a custom role is all or nothing, and exact. For every store that meets the contract, a replacement that
  fails, whatever the reason, leaves the store as it was and the cache fresh for it, although the transaction does not undo the
  cache. One that succeeds returns how many bindings there were to the custom role; afterwards every subject holds exactly
  what it held before, with the predefined role in place of the custom one at the same scopes, the bindings to other roles are
  the very same, and no role has changed.
\<close>

theorem Replace_exact:
  assumes "replacement ops I (ax_delegation ax)" and "services_wf ax" and "ax_store ax = ops"
    and "good (ax_delegation ax) I w" and "readable ops (w_store w)"
    and "\<forall>i bs. st_BindingsForRole ops (w_store w) i = Inr bs \<longrightarrow> list_all (\<lambda>b. ref_Valid (b_Role b)) bs"
    and "roles_Replace unbegun uncommitted ax w ctx ref other = (r, w')"
  shows "case r of
      Inl _ \<Rightarrow> w_store w' = w_store w \<and> good (ax_delegation ax) I w'
    | Inr n \<Rightarrow> \<exists>custom to B. access_custom ax (w_store w) ref = Inr custom \<and> access_predefined ax other = Inr to
        \<and> st_BindingsForRole ops (w_store w) (role_ID custom) = Inr B \<and> n = length B
        \<and> good (ax_delegation ax) I w' \<and> same_roles ops (w_store w) (w_store w')
        \<and> (\<forall>sub bs. rd_BindingsFor ops (w_store w) sub = Inr bs \<longrightarrow>
             (\<exists>bs'. rd_BindingsFor ops (w_store w') sub = Inr bs'
                \<and> held bs' = swap_role (role_Ref custom) (role_Ref to) ` held bs
                \<and> {b \<in> set bs. b_Role b \<noteq> role_Ref custom} \<subseteq> set bs'))"
proof (cases r)
  case (Inl e)
  have "keeps (ax_engine ax) (w_store w) w" using assms(2,4) by (simp add: keeps_def good_def services_wf_def)
  then have "w_store w' = w_store w" using Replace_failed [OF _ assms(7) [unfolded Inl]] by blast
  moreover have "good (ax_delegation ax) I w'"
    by (rule replacement.undone_Replace [OF assms(1) refl _ assms(3-5) _ assms(7) [unfolded Inl]])
      (use assms(2,6) in \<open>auto simp: services_wf_def list_all_iff\<close>)
  ultimately show ?thesis using Inl by simp
next
  case (Inr n)
  have ref: "\<And>i bs b. st_BindingsForRole ops (w_store w) i = Inr bs \<Longrightarrow> b \<in> set bs \<Longrightarrow> ref_Valid (b_Role b)"
    using assms(6) by (auto simp: list_all_iff)
  obtain custom to B where R: "access_custom ax (w_store w) ref = Inr custom" "access_predefined ax other = Inr to"
    "st_BindingsForRole ops (w_store w) (role_ID custom) = Inr B" "n = length B" "good (ax_delegation ax) I w'"
    "same_roles ops (w_store w) (w_store w')"
    and B: "\<And>b. b \<in> set B \<longleftrightarrow> st_Binding ops (w_store w) (b_ID b) = Inr b \<and> b_Role b = role_Ref custom"
    and m: "\<And>sub bs. rd_BindingsFor ops (w_store w) sub = Inr bs \<Longrightarrow>
       \<exists>bs'. rd_BindingsFor ops (w_store w') sub = Inr bs' \<and> moved (role_Ref to) (set B) bs bs'"
    by (rule replacement.Replace_success [OF assms(1) refl _ assms(3-5) ref assms(7) [unfolded Inr]])
      (use assms(2) in \<open>auto simp: services_wf_def\<close>)
  have store: "authz_store ops I" using assms(1) by (simp add: replacement_def administration_def)
  have i: "I (w_store w)" using assms(4) by (simp add: good_def)
  have "\<exists>bs'. rd_BindingsFor ops (w_store w') sub = Inr bs' \<and> held bs' = swap_role (role_Ref custom) (role_Ref to) ` held bs
      \<and> {b \<in> set bs. b_Role b \<noteq> role_Ref custom} \<subseteq> set bs'"
    if bs: "rd_BindingsFor ops (w_store w) sub = Inr bs" for sub bs
  proof -
    obtain bs' where bs': "rd_BindingsFor ops (w_store w') sub = Inr bs'" "moved (role_Ref to) (set B) bs bs'" using m [OF bs] by blast
    have own: "b \<in> set B \<longleftrightarrow> b_Role b = role_Ref custom" if "b \<in> set bs" for b
      using B that authz_store.BindingsFor_ok [OF store i bs] by blast
    have "{b \<in> set bs. b_Role b \<noteq> role_Ref custom} \<subseteq> set bs'" using bs'(2) own unfolding moved_def by blast
    with bs'(1) moved_held [OF bs'(2) own] show ?thesis by blast
  qed
  with R Inr show ?thesis by auto
qed

section \<open>A concrete replacement\<close>

interpretation desk_roles: replacement mem_ops mem_inv "ax_delegation desk"
  by unfold_locales

lemma desk_readable: "readable mem_ops st"
  by (simp add: readable_def mem_defs ms_BindingsFor_def)

lemma desk_refs: "\<forall>i bs. st_BindingsForRole mem_ops (w_store desk_world) i = Inr bs \<longrightarrow> list_all (\<lambda>b. ref_Valid (b_Role b)) bs"
proof -
  have "list_all (\<lambda>b. ref_Valid (b_Role b)) (map_values (ms_bindings desk_store))" by code_simp
  then show ?thesis by (auto simp: mem_defs ms_BindingsForRole_def filterBindings_def desk_world_def list_all_iff)
qed

definition replaced_world :: "mem_store world" where
  "replaced_world = snd (roles_Replace None None desk desk_world desk_ctx ''1'' ''viewer'')"

lemma desk_replaced: "roles_Replace None None desk desk_world desk_ctx ''1'' ''viewer'' = (Inr 2, replaced_world)"
proof -
  have "fst (roles_Replace None None desk desk_world desk_ctx ''1'' ''viewer'') = Inr 2" by code_simp
  then show ?thesis by (metis prod.collapse replaced_world_def)
qed

lemma desk_before: "desk_held (w_store desk_world) (desk_subject KindUser 2) = [(\<lparr>ref_ID = 1, ref_Key = []\<rparr>, mk_scope ''dealer'' 3)]"
  by code_simp

lemma desk_refs_of:
  "access_custom desk (w_store desk_world) ''1'' = Inr c \<Longrightarrow> role_Ref c = \<lparr>ref_ID = 1, ref_Key = []\<rparr>"
  "access_predefined desk ''viewer'' = Inr r \<Longrightarrow> role_Ref r = \<lparr>ref_ID = 0, ref_Key = ''viewer''\<rparr>"
proof -
  have "role_Ref (projr (access_custom desk (w_store desk_world) ''1'')) = \<lparr>ref_ID = 1, ref_Key = []\<rparr>"
    "role_Ref (projr (access_predefined desk ''viewer'')) = \<lparr>ref_ID = 0, ref_Key = ''viewer''\<rparr>" by code_simp+
  then show "access_custom desk (w_store desk_world) ''1'' = Inr c \<Longrightarrow> role_Ref c = \<lparr>ref_ID = 1, ref_Key = []\<rparr>"
    "access_predefined desk ''viewer'' = Inr r \<Longrightarrow> role_Ref r = \<lparr>ref_ID = 0, ref_Key = ''viewer''\<rparr>" by simp_all
qed

theorem Replace_exact_witness:
  "\<exists>bs'. rd_BindingsFor mem_ops (w_store replaced_world) (desk_subject KindUser 2) = Inr bs'
     \<and> held bs' = {(\<lparr>ref_ID = 0, ref_Key = ''viewer''\<rparr>, mk_scope ''dealer'' 3)}"
proof -
  obtain bs where bs: "rd_BindingsFor mem_ops (w_store desk_world) (desk_subject KindUser 2) = Inr bs"
    by (simp add: mem_defs ms_BindingsFor_def)
  have "held bs = set (desk_held (w_store desk_world) (desk_subject KindUser 2))" using bs by (simp add: held_def desk_held_def mem_defs)
  then have h: "held bs = {(\<lparr>ref_ID = 1, ref_Key = []\<rparr>, mk_scope ''dealer'' 3)}" by (simp add: desk_before)
  show ?thesis
    using Replace_exact [OF desk_roles.replacement_axioms desk_services desk_parts(2) desk_good desk_readable desk_refs desk_replaced] bs h desk_refs_of
    by (fastforce simp: swap_role_def)
qed

text \<open>
  A service account's binding is moved too, by the rules for people: user 1 does not hold \<^verbatim>\<open>iam.serviceaccount:manage\<close> and may
  not take the binding away, but replaces the role.
\<close>

theorem Replace_moves_service_account:
  "\<not> is_ok (fst (Require (ax_engine desk) desk_world desk_ctx ManageServiceAccountBindings))
    \<and> \<not> is_ok (fst (bindings_Unbind desk desk_world desk_ctx (desk_subject KindServiceAccount 5) 3))
    \<and> desk_held (w_store desk_world) (desk_subject KindServiceAccount 5) = [(\<lparr>ref_ID = 1, ref_Key = []\<rparr>, mk_scope ''dealer'' 3)]
    \<and> desk_held (w_store replaced_world) (desk_subject KindServiceAccount 5) = [(\<lparr>ref_ID = 0, ref_Key = ''viewer''\<rparr>, mk_scope ''dealer'' 3)]"
  by code_simp

end
