(* ===== verification/SqlFilter.thy ===== *)
theory SqlFilter
  imports Authorize
begin

text \<open>
  The list filter of \<^verbatim>\<open>authz/authzgorm/filter.go\<close>: the conditions a clause asks for
  (\<open>clause_atoms\<close>) and the SQL text and bound arguments the source builds from them (\<open>clauseSQL\<close>, \<open>Build\<close>).
  The database that evaluates the SQL is not part of the repository. What is used of it: a row is given by what each column or trusted
  expression yields on it, the text is a disjunction of conjunctions of the conditions below, and the bound arguments go to the
  placeholders from left to right.
\<close>

section \<open>Columns\<close>

record owner_request =
  or_UserID :: int
  or_UnownedIsOwn :: bool

record sql_expr =
  ex_SQL :: string
  ex_Args :: "go_any list"

record columns =
  co_Levels :: "(string, string) gomap"
  co_LevelExprs :: "(string, string) gomap"
  co_Owner :: string
  co_OwnerMatch :: "(owner_request \<Rightarrow> sql_expr option) option"
  co_OwnerLocation :: string
  co_OwnerLocationExpr :: string
  co_Attrs :: "(string, string) gomap"

text \<open>Go's \<^verbatim>\<open>m[k]\<close> on a map of strings, and the empty test of \<^verbatim>\<open>strings.TrimSpace\<close> on ASCII text.\<close>

definition string_at :: "(string, string) gomap \<Rightarrow> string \<Rightarrow> string" where
  "string_at m k = (case fmlookup m k of None \<Rightarrow> [] | Some s \<Rightarrow> s)"

definition blank :: "string \<Rightarrow> bool" where
  "blank s = list_all (\<lambda>c. c \<in> {CHR 0x20, CHR 0x09, CHR 0x0A, CHR 0x0B, CHR 0x0C, CHR 0x0D}) s"

text \<open>\<^verbatim>\<open>^[A-Za-z_][A-Za-z0-9_]*(\.[A-Za-z_][A-Za-z0-9_]*)?$\<close>.\<close>

definition ident_start :: "char \<Rightarrow> bool" where
  "ident_start c = (CHR ''A'' \<le> c \<and> c \<le> CHR ''Z'' \<or> CHR ''a'' \<le> c \<and> c \<le> CHR ''z'' \<or> c = CHR ''_'')"

definition ident_part :: "string \<Rightarrow> bool" where
  "ident_part s = (case s of [] \<Rightarrow> False | c # cs \<Rightarrow> ident_start c \<and> list_all (\<lambda>d. ident_start d \<or> digit_char d) cs)"

definition is_identifier :: "string \<Rightarrow> bool" where
  "is_identifier s = (let parts = go_split CHR ''.'' s in length parts \<le> 2 \<and> list_all ident_part parts)"

definition checkValueExpr :: "string \<Rightarrow> string \<Rightarrow> unit result" where
  "checkValueExpr what expr =
     (if blank expr then Inl (Plain (''authzgorm: '' @ what @ '' has an empty expression''))
      else if CHR ''?'' \<in> set expr then Inl (Plain (''authzgorm: '' @ what @ '' expression must not contain placeholders''))
      else Inr ())"

definition bad_column :: "string \<Rightarrow> string \<Rightarrow> go_error" where
  "bad_column kind name = Plain (''authzgorm: '' @ kind @ '' column '' @ go_quote name @ '' is not a plain identifier'')"

definition both_set :: "string \<Rightarrow> go_error" where
  "both_set what = Plain (''authzgorm: '' @ what @ '' is set twice (plain column and expression)'')"

text \<open>The first error of a list of checks. A range over a map is taken in key order; Go leaves open which error is reported first.\<close>

fun first_error :: "unit result list \<Rightarrow> unit result" where
  "first_error [] = Inr ()"
| "first_error (r # rs) = (case r of Inl e \<Rightarrow> Inl e | Inr _ \<Rightarrow> first_error rs)"

definition columns_check :: "columns \<Rightarrow> unit result" where
  "columns_check c = first_error (
     map (\<lambda>level. let col = string_at (co_Levels c) level in
         if \<not> is_identifier col then Inl (bad_column (''level '' @ level) col)
         else if fmlookup (co_LevelExprs c) level \<noteq> None then Inl (both_set (''level '' @ level)) else Inr ())
       (sortedKeys (co_Levels c))
     @ map (\<lambda>level. checkValueExpr (''level '' @ level) (string_at (co_LevelExprs c) level)) (sortedKeys (co_LevelExprs c))
     @ [if co_Owner c \<noteq> [] \<and> \<not> is_identifier (co_Owner c) then Inl (bad_column ''owner'' (co_Owner c)) else Inr (),
        if co_Owner c \<noteq> [] \<and> co_OwnerMatch c \<noteq> None then Inl (both_set ''owner'') else Inr (),
        if co_OwnerLocation c \<noteq> [] \<and> \<not> is_identifier (co_OwnerLocation c)
          then Inl (bad_column ''owner location'' (co_OwnerLocation c)) else Inr (),
        if co_OwnerLocation c \<noteq> [] \<and> co_OwnerLocationExpr c \<noteq> [] then Inl (both_set ''owner location'') else Inr (),
        if co_OwnerLocationExpr c \<noteq> [] then checkValueExpr ''owner location'' (co_OwnerLocationExpr c) else Inr ()]
     @ map (\<lambda>key. checkValueExpr (''attribute '' @ key) (string_at (co_Attrs c) key)) (sortedKeys (co_Attrs c)))"

section \<open>One clause\<close>

text \<open>
  Each condition the source appends to \<^verbatim>\<open>conds\<close>, with the arguments it appends to
  \<^verbatim>\<open>args\<close>.
\<close>

datatype atom =
    ColIs string int
  | ExprIs string int
  | OwnerIs string int
  | OwnerIsOrNone string int
  | OwnerMatches string "go_any list"
  | AttrIn string "string list"

definition level_atoms :: "columns \<Rightarrow> chain \<Rightarrow> atom list" where
  "level_atoms cols chain =
     List.map_filter (\<lambda>s.
       if sc_ID s = 0 then None
       else if string_at (co_Levels cols) (sc_Level s) \<noteq> [] then Some (ColIs (string_at (co_Levels cols) (sc_Level s)) (sc_ID s))
       else if string_at (co_LevelExprs cols) (sc_Level s) \<noteq> [] then Some (ExprIs (string_at (co_LevelExprs cols) (sc_Level s)) (sc_ID s))
       else None) chain"

definition scope_atoms :: "columns \<Rightarrow> clause \<Rightarrow> atom list option" where
  "scope_atoms cols c =
     (if sc_ID (cl_Scope c) \<noteq> 0 then
        let atoms = level_atoms cols (if cl_Chain c = [] then [cl_Scope c] else cl_Chain c)
        in if atoms = [] then None else Some atoms
      else Some [])"

definition count_char :: "char \<Rightarrow> string \<Rightarrow> nat" where
  "count_char c s = length (filter (\<lambda>d. d = c) s)"

definition qualifier_atoms :: "access_set \<Rightarrow> columns \<Rightarrow> clause \<Rightarrow> atom list option" where
  "qualifier_atoms access cols c =
     (let p = as_Principal access in
      if cl_Qualifier c = QualifierAll then Some []
      else if cl_Qualifier c = QualifierOwnLocation then
        (if pr_Location p = 0 then None
         else if co_OwnerLocation cols \<noteq> [] then Some [ColIs (co_OwnerLocation cols) (pr_Location p)]
         else if co_OwnerLocationExpr cols \<noteq> [] then Some [ExprIs (co_OwnerLocationExpr cols) (pr_Location p)]
         else None)
      else if cl_Qualifier c = QualifierOwn then
        (if sub_Kind (pr_Subject p) \<noteq> KindUser then None
         else case co_OwnerMatch cols of
           Some match \<Rightarrow>
             (case match \<lparr>or_UserID = sub_ID (pr_Subject p), or_UnownedIsOwn = as_UnownedIsOwn access\<rparr> of
                Some e \<Rightarrow>
                  if blank (ex_SQL e) \<or> count_char CHR ''?'' (ex_SQL e) \<noteq> length (ex_Args e) then None
                  else Some [OwnerMatches (ex_SQL e) (ex_Args e)]
              | None \<Rightarrow> None)
         | None \<Rightarrow>
             if co_Owner cols \<noteq> [] then
               Some [if as_UnownedIsOwn access then OwnerIsOrNone (co_Owner cols) (sub_ID (pr_Subject p))
                     else OwnerIs (co_Owner cols) (sub_ID (pr_Subject p))]
             else None)
      else None)"

fun attr_atoms :: "columns \<Rightarrow> clause \<Rightarrow> string list \<Rightarrow> atom list option" where
  "attr_atoms cols c [] = Some []"
| "attr_atoms cols c (key # keys) =
     (if string_at (co_Attrs cols) key = [] then None
      else if slice_at (cl_Attrs c) key = [] then None
      else map_option ((#) (AttrIn (string_at (co_Attrs cols) key) (slice_at (cl_Attrs c) key))) (attr_atoms cols c keys))"

definition clause_atoms :: "access_set \<Rightarrow> clause \<Rightarrow> columns \<Rightarrow> atom list option" where
  "clause_atoms access c cols =
     Option.bind (scope_atoms cols c) (\<lambda>scope.
       Option.bind (qualifier_atoms access cols c) (\<lambda>qual.
         Option.bind (attr_atoms cols c (sortedKeys (cl_Attrs c))) (\<lambda>attrs.
           Some (scope @ qual @ attrs))))"

section \<open>SQL\<close>

fun atom_sql :: "(string \<Rightarrow> string) \<Rightarrow> atom \<Rightarrow> string" where
  "atom_sql quote (ColIs col v) = quote col @ '' = ?''"
| "atom_sql quote (ExprIs expr v) = ''('' @ expr @ '') = ?''"
| "atom_sql quote (OwnerIs col v) = quote col @ '' = ?''"
| "atom_sql quote (OwnerIsOrNone col v) = ''('' @ quote col @ '' = ? OR '' @ quote col @ '' IS NULL OR '' @ quote col @ '' = 0)''"
| "atom_sql quote (OwnerMatches sql args) = ''('' @ sql @ '')''"
| "atom_sql quote (AttrIn expr values) = ''('' @ expr @ '') IN ('' @ go_join '','' (replicate (length values) ''?'') @ '')''"

fun atom_args :: "atom \<Rightarrow> go_any list" where
  "atom_args (ColIs col v) = [AnyInt v]"
| "atom_args (ExprIs expr v) = [AnyInt v]"
| "atom_args (OwnerIs col v) = [AnyInt v]"
| "atom_args (OwnerIsOrNone col v) = [AnyInt v]"
| "atom_args (OwnerMatches sql args) = args"
| "atom_args (AttrIn expr values) = map AnyString values"

definition clauseSQL :: "access_set \<Rightarrow> clause \<Rightarrow> columns \<Rightarrow> (string \<Rightarrow> string) \<Rightarrow> (string \<times> go_any list) option" where
  "clauseSQL access c cols quote =
     map_option (\<lambda>atoms. (go_join '' AND '' (map (atom_sql quote) atoms), concat (map atom_args atoms))) (clause_atoms access c cols)"

record condition =
  cond_SQL :: string
  cond_Args :: "go_any list"
  cond_All :: bool
  cond_None :: bool

abbreviation no_condition :: condition where
  "no_condition \<equiv> \<lparr>cond_SQL = [], cond_Args = [], cond_All = False, cond_None = False\<rparr>"

fun build_parts :: "access_set \<Rightarrow> columns \<Rightarrow> (string \<Rightarrow> string) \<Rightarrow> clause list \<Rightarrow> string list \<Rightarrow> go_any list \<Rightarrow> condition" where
  "build_parts access cols quote [] parts args =
     (if parts = [] then no_condition\<lparr>cond_None := True\<rparr>
      else no_condition\<lparr>cond_SQL := ''('' @ go_join '' OR '' parts @ '')'', cond_Args := args\<rparr>)"
| "build_parts access cols quote (c # cs) parts args =
     (case clauseSQL access c cols quote of
        None \<Rightarrow> build_parts access cols quote cs parts args
      | Some (sql, a) \<Rightarrow>
          if sql = [] then no_condition\<lparr>cond_All := True\<rparr>
          else build_parts access cols quote cs (parts @ [''('' @ sql @ '')'']) (args @ a))"

definition Build :: "access_set \<Rightarrow> columns \<Rightarrow> (string \<Rightarrow> string) \<Rightarrow> condition result" where
  "Build access cols quote =
     (case columns_check cols of
        Inl err \<Rightarrow> Inl err
      | Inr _ \<Rightarrow> Inr (build_parts access cols quote (as_Clauses access) [] []))"

text \<open>What \<open>Filter\<close> does to the query: the error it adds, and the \<^verbatim>\<open>Where\<close> it calls, if any.\<close>

datatype where_call = NoWhere | Where string "go_any list"

definition Filter :: "(string \<Rightarrow> string) \<Rightarrow> access_set \<Rightarrow> columns \<Rightarrow> go_error option \<times> where_call" where
  "Filter quote access cols =
     (case Build access cols quote of
        Inl err \<Rightarrow> (Some err, Where ''1 = 0'' [])
      | Inr cond \<Rightarrow>
          if cond_All cond then (None, NoWhere)
          else if cond_None cond then (None, Where ''1 = 0'' [])
          else (None, Where (cond_SQL cond) (cond_Args cond)))"

section \<open>Which rows match\<close>

text \<open>What a row yields: an integer or NULL for a column or a trusted expression, a text for an attribute, and the truth of a trusted predicate.\<close>

record row =
  row_int :: "string \<Rightarrow> int option"
  row_text :: "string \<Rightarrow> string option"
  row_pred :: "string \<Rightarrow> go_any list \<Rightarrow> bool"

fun atom_holds :: "row \<Rightarrow> atom \<Rightarrow> bool" where
  "atom_holds r (ColIs col v) = (row_int r col = Some v)"
| "atom_holds r (ExprIs expr v) = (row_int r expr = Some v)"
| "atom_holds r (OwnerIs col v) = (row_int r col = Some v)"
| "atom_holds r (OwnerIsOrNone col v) = (row_int r col = Some v \<or> row_int r col = None \<or> row_int r col = Some 0)"
| "atom_holds r (OwnerMatches sql args) = row_pred r sql args"
| "atom_holds r (AttrIn expr values) = (case row_text r expr of None \<Rightarrow> False | Some v \<Rightarrow> v \<in> set values)"

definition clause_matches :: "access_set \<Rightarrow> columns \<Rightarrow> row \<Rightarrow> clause \<Rightarrow> bool" where
  "clause_matches access cols r c = (case clause_atoms access c cols of None \<Rightarrow> False | Some atoms \<Rightarrow> list_all (atom_holds r) atoms)"

text \<open>The value a table has for a level, through a column or an expression; \<open>None\<close> when the table cannot express it.\<close>

definition level_source :: "columns \<Rightarrow> string \<Rightarrow> string" where
  "level_source cols level =
     (if string_at (co_Levels cols) level \<noteq> [] then string_at (co_Levels cols) level else string_at (co_LevelExprs cols) level)"

definition location_source :: "columns \<Rightarrow> string" where
  "location_source cols = (if co_OwnerLocation cols \<noteq> [] then co_OwnerLocation cols else co_OwnerLocationExpr cols)"

text \<open>NULL and zero both mean that the row has no such ID.\<close>

definition id_of :: "int option \<Rightarrow> int" where
  "id_of v = (case v of None \<Rightarrow> 0 | Some i \<Rightarrow> i)"




section \<open>Placeholders\<close>

abbreviation marks :: "string \<Rightarrow> nat" where
  "marks s \<equiv> count_char CHR ''?'' s"

lemma marks_append [simp]: "marks (s @ t) = marks s + marks t" "marks [] = 0"
  by (simp_all add: count_char_def)

lemma marks_Cons [simp]: "marks (c # s) = (if c = CHR ''?'' then Suc (marks s) else marks s)"
  by (simp add: count_char_def)



section \<open>What the SQL says\<close>

text \<open>
  The conditions that occur in the text, without the values: those are bound to the placeholders. A conjunction and a disjunction
  give each of their parts as many of the arguments as the text of the part has placeholders, from left to right.
\<close>

datatype sql_cond = ColEq string | ExprEq string | ColEqOrUnset string | Trusted string | ExprIn string nat

fun cond_text :: "(string \<Rightarrow> string) \<Rightarrow> sql_cond \<Rightarrow> string" where
  "cond_text quote (ColEq col) = quote col @ '' = ?''"
| "cond_text quote (ExprEq expr) = ''('' @ expr @ '') = ?''"
| "cond_text quote (ColEqOrUnset col) = ''('' @ quote col @ '' = ? OR '' @ quote col @ '' IS NULL OR '' @ quote col @ '' = 0)''"
| "cond_text quote (Trusted sql) = ''('' @ sql @ '')''"
| "cond_text quote (ExprIn expr n) = ''('' @ expr @ '') IN ('' @ go_join '','' (replicate n ''?'') @ '')''"

fun cond_holds :: "row \<Rightarrow> sql_cond \<Rightarrow> go_any list \<Rightarrow> bool" where
  "cond_holds r (ColEq col) args = (case row_int r col of None \<Rightarrow> False | Some v \<Rightarrow> args = [AnyInt v])"
| "cond_holds r (ExprEq expr) args = (case row_int r expr of None \<Rightarrow> False | Some v \<Rightarrow> args = [AnyInt v])"
| "cond_holds r (ColEqOrUnset col) args = (case row_int r col of None \<Rightarrow> True | Some v \<Rightarrow> args = [AnyInt v] \<or> v = 0)"
| "cond_holds r (Trusted sql) args = row_pred r sql args"
| "cond_holds r (ExprIn expr n) args = (case row_text r expr of None \<Rightarrow> False | Some v \<Rightarrow> AnyString v \<in> set args)"






fun atom_shape :: "atom \<Rightarrow> sql_cond" where
  "atom_shape (ColIs col v) = ColEq col"
| "atom_shape (ExprIs expr v) = ExprEq expr"
| "atom_shape (OwnerIs col v) = ColEq col"
| "atom_shape (OwnerIsOrNone col v) = ColEqOrUnset col"
| "atom_shape (OwnerMatches sql args) = Trusted sql"
| "atom_shape (AttrIn expr values) = ExprIn expr (length values)"

lemma shape_text [simp]: "cond_text quote (atom_shape x) = atom_sql quote x"
  by (cases x) simp_all

lemma shape_holds [simp]: "cond_holds r (atom_shape x) (atom_args x) = atom_holds r x"
  by (cases x) (auto split: option.splits)
















section \<open>The condition and its rows\<close>














section \<open>Rows that stand for records\<close>

text \<open>
  A row stands for a record with chain \<open>rc\<close> when its level columns hold the IDs of the
  chain (and no ID for the levels below it), its owner and location columns the record's, and its
  attribute expressions the record's attributes. A single owner column says who owns a record that has no second owner; a predicate
  for the owner is true of a user exactly when the record is theirs, by its owner or its second one, or unowned where that counts.
\<close>

definition owner_stands :: "columns \<Rightarrow> row \<Rightarrow> resource \<Rightarrow> bool" where
  "owner_stands cols r res \<longleftrightarrow>
     (case co_OwnerMatch cols of
        None \<Rightarrow> co_Owner cols \<noteq> [] \<longrightarrow> id_of (row_int r (co_Owner cols)) = res_Owner res \<and> res_CoOwner res = 0
      | Some match \<Rightarrow> \<forall>user unowned. user \<noteq> 0 \<longrightarrow>
          (case match \<lparr>or_UserID = user, or_UnownedIsOwn = unowned\<rparr> of
             None \<Rightarrow> False
           | Some e \<Rightarrow> \<not> blank (ex_SQL e) \<and> count_char CHR ''?'' (ex_SQL e) = length (ex_Args e)
               \<and> (row_pred r (ex_SQL e) (ex_Args e) \<longleftrightarrow> res_Owner res = user \<or> res_CoOwner res = user \<or> unowned \<and> res_Owner res = 0)))"

definition represents :: "columns \<Rightarrow> row \<Rightarrow> resource \<Rightarrow> chain \<Rightarrow> bool" where
  "represents cols r res rc \<longleftrightarrow>
     (\<forall>level. level_source cols level \<noteq> [] \<longrightarrow>
        id_of (row_int r (level_source cols level)) = (case chain_At rc level of None \<Rightarrow> 0 | Some s \<Rightarrow> sc_ID s))
     \<and> owner_stands cols r res
     \<and> (location_source cols \<noteq> [] \<longrightarrow> id_of (row_int r (location_source cols)) = res_OwnerLocation res)
     \<and> (\<forall>key. string_at (co_Attrs cols) key \<noteq> [] \<longrightarrow> row_text r (string_at (co_Attrs cols) key) = fmlookup (res_Attrs res) key)"








section \<open>Properties\<close>







section \<open>Concrete tables\<close>

definition lead_columns :: columns where
  "lead_columns = \<lparr>co_Levels = fmap_of_list [(''dealer'', ''dealer_id''), (''location'', ''location_id'')], co_LevelExprs = fmempty,
     co_Owner = ''owner_id'', co_OwnerMatch = None, co_OwnerLocation = [], co_OwnerLocationExpr = [], co_Attrs = fmempty\<rparr>"

definition lead_access :: access_set where
  "lead_access = \<lparr>as_Permission = ''crm.lead:view'', as_RecordType = ''lead'', as_UnownedIsOwn = False,
     as_Principal = User 42 0, as_Clauses = [dealer_clause, location_clause]\<rparr>"

definition lead_row :: row where
  "lead_row = \<lparr>row_int = (\<lambda>c. if c = ''dealer_id'' then Some 3 else if c = ''location_id'' then Some 7
       else if c = ''owner_id'' then Some 42 else None), row_text = (\<lambda>_. None), row_pred = (\<lambda>_ _. False)\<rparr>"











text \<open>
  On a table that has a column for the dealer and none for the location, the filter of a clause
  bound at a location selects every row of the dealer, also one whose record the clause does not
  reach: the conjunction keeps the levels the table can express and drops the others.
\<close>

lemma dealer_column_widens_location_clause:
  "\<exists>cols r res rc. resourceChain sample_engine res = Inr rc \<and> represents cols r res rc
     \<and> clause_matches (lead_access\<lparr>as_Clauses := [location_clause]\<rparr>) cols r location_clause
     \<and> \<not> reaches rc location_clause (User 42 0) sample_view res"
proof -
  let ?cols = "lead_columns\<lparr>co_Levels := fmap_of_list [(''dealer'', ''dealer_id'')]\<rparr>"
  let ?row = "lead_row" and ?res = "sample_record\<lparr>res_Scope := mk_scope ''dealer'' 3\<rparr>"
  let ?rc = "[mk_scope ''dealer'' 3, mk_scope ''organization'' 0]"
  have "resourceChain sample_engine ?res = Inr ?rc"
    by (simp add: resourceChain_def sample_record_def sample_chain scope_IsZero_def)
  moreover have "represents ?cols ?row ?res ?rc"
    by (auto simp: represents_def owner_stands_def lead_columns_def lead_row_def sample_record_def level_source_def string_at_def
      fmlookup_of_list id_of_def location_source_def chain_At_def split: if_splits option.splits)
  moreover have "clause_matches (lead_access\<lparr>as_Clauses := [location_clause]\<rparr>) ?cols ?row location_clause"
    by (simp add: lead_access_def clause_matches_def clause_atoms_def scope_atoms_def level_atoms_def
        List.map_filter_simps lead_columns_def location_clause_def string_at_def qualifier_atoms_def sortedKeys_def
        sorted_list_of_fset.rep_eq lead_row_def fmlookup_of_list qualifier_defs User_def)
  moreover have "\<not> reaches ?rc location_clause (User 42 0) sample_view ?res"
    by (simp add: reaches_def Within_def location_clause_def)
  ultimately show ?thesis by blast
qed

end
