(* ===== verification/Money.thy ===== *)
theory Money
  imports Prelude
begin

unbundle bit_operations_syntax

text \<open>
  Money on integer cents: \<^verbatim>\<open>money/money.go\<close>, \<^verbatim>\<open>money/exact.go\<close> and
  \<^verbatim>\<open>money/rate.go\<close>. An \<^verbatim>\<open>int64\<close> is a 64-bit word, so negation and
  addition wrap as in Go; \<^verbatim>\<open>big.Int\<close> is \<open>int\<close> and
  \<^verbatim>\<open>big.Rat\<close> is \<open>rat\<close>, whose numerator and denominator are those of
  \<open>quotient_of\<close> (lowest terms, positive denominator, as the library keeps them). A Go panic
  is the outcome \<open>Panics\<close>.
\<close>

section \<open>Data\<close>

datatype money_error = ErrCurrency | ErrOverflow | ErrDecimal

definition run_bind :: "'a run \<Rightarrow> ('a \<Rightarrow> 'b run) \<Rightarrow> 'b run" where
  "run_bind r f = (case r of Returns x \<Rightarrow> f x | Panics p \<Rightarrow> Panics p)"

lemma run_bind_simps [simp]: "run_bind (Returns x) f = f x" "run_bind (Panics p) f = Panics p"
  by (simp_all add: run_bind_def)

lemma run_bind_Returns: "run_bind r f = Returns y \<longleftrightarrow> (\<exists>x. r = Returns x \<and> f x = Returns y)"
  by (cases r) simp_all

record money =
  m_cents :: int64
  m_currency :: string

record exact =
  e_r :: "rat option"
  e_currency :: string

record rate =
  r_v :: int64

abbreviation mk_money :: "int64 \<Rightarrow> string \<Rightarrow> money" where
  "mk_money c cur \<equiv> \<lparr>m_cents = c, m_currency = cur\<rparr>"

definition centsPerUnit :: int where "centsPerUnit = 100"
definition rateScale :: int where "rateScale = 100000"

definition fits_int64 :: "int \<Rightarrow> bool" where
  "fits_int64 v = (- (2 ^ 63) \<le> v \<and> v < 2 ^ 63)"

definition mustInt64 :: "int \<Rightarrow> int64 run" where
  "mustInt64 v = (if \<not> fits_int64 v then Panics (''money: overflow: '' @ show_int v @ '' does not fit in int64 cents'') else Returns (word_of_int v))"

section \<open>Rounding\<close>

definition pow10 :: "int \<Rightarrow> int" where
  "pow10 n = 10 ^ nat n"

definition roundRat :: "rat \<Rightarrow> int" where
  "roundRat r =
     (case quotient_of r of (num, den) \<Rightarrow>
        let quo = \<bar>num\<bar> div den; rem = \<bar>num\<bar> mod den;
            quo' = (if 2 * rem \<ge> den then quo + 1 else quo)
        in if r < 0 then - quo' else quo')"

definition floorRat :: "rat \<Rightarrow> int" where
  "floorRat r = (case quotient_of r of (num, den) \<Rightarrow> num div den)"

definition roundScaled :: "rat \<Rightarrow> int \<Rightarrow> int64 run" where
  "roundScaled val scale = mustInt64 (roundRat (val * of_int scale))"

section \<open>Decimal text\<close>

fun trim_signs :: "string \<Rightarrow> string" where
  "trim_signs [] = []"
| "trim_signs (c # s) = (if c = CHR ''+'' \<or> c = CHR ''-'' then trim_signs s else c # s)"

definition parseDecimal :: "string \<Rightarrow> money_error + rat" where
  "parseDecimal text =
     (let body = trim_signs text in
      if length text - length body > 1 \<or> body = [] then Inl ErrDecimal
      else case go_cut CHR ''.'' body of (whole, fracp, found) \<Rightarrow>
        if whole = [] \<and> fracp = [] \<or> \<not> list_all digit_char (whole @ fracp) \<or> (found \<and> fracp = []) then Inl ErrDecimal
        else
          let val = of_nat (read_nat (whole @ fracp)) / of_int (pow10 (int (length fracp)))
          in Inr (if hd text = CHR ''-'' then - val else val))"

definition FromDecimal :: "string \<Rightarrow> string \<Rightarrow> (money_error + money) run" where
  "FromDecimal s currency =
     (case parseDecimal s of
        Inl e \<Rightarrow> Returns (Inl e)
      | Inr val \<Rightarrow> run_bind (roundScaled val centsPerUnit) (\<lambda>c. Returns (Inr (mk_money c currency))))"

text \<open>\<^verbatim>\<open>%02d\<close> of a number below 100.\<close>

definition two_digits :: "nat \<Rightarrow> string" where
  "two_digits n = (if n < 10 then CHR ''0'' # show_nat n else show_nat n)"

definition money_String :: "money \<Rightarrow> string" where
  "money_String m =
     (let neg = sint (m_cents m) < 0;
          absv = (if neg then - m_cents m else m_cents m);
          out = (if neg then ''-'' else []) @ show_nat (unat (absv div 100)) @ ''.'' @ two_digits (unat (absv mod 100))
      in if m_currency m \<noteq> [] then out @ '' '' @ m_currency m else out)"

section \<open>Arithmetic\<close>

definition IsZero :: "money \<Rightarrow> bool" where "IsZero m = (m_cents m = 0)"

definition Neg :: "money \<Rightarrow> money" where "Neg m = mk_money (- m_cents m) (m_currency m)"

definition money_Abs :: "money \<Rightarrow> money" where "money_Abs m = (if sint (m_cents m) < 0 then Neg m else m)"

definition Cmp :: "money \<Rightarrow> money \<Rightarrow> int" where
  "Cmp m other = (if sint (m_cents m) < sint (m_cents other) then -1 else if sint (m_cents m) > sint (m_cents other) then 1 else 0)"

definition combine :: "string \<Rightarrow> string \<Rightarrow> money_error + string" where
  "combine a b = (if a = [] \<or> a = b then Inr b else if b = [] then Inr a else Inl ErrCurrency)"

definition Add :: "money \<Rightarrow> money \<Rightarrow> money_error + money" where
  "Add m other =
     (case combine (m_currency m) (m_currency other) of
        Inl err \<Rightarrow> Inl err
      | Inr cur \<Rightarrow>
          let sum = m_cents m + m_cents other in
          if sint ((m_cents m XOR sum) AND (m_cents other XOR sum)) < 0 then Inl ErrOverflow
          else Inr (mk_money sum cur))"

definition Sub :: "money \<Rightarrow> money \<Rightarrow> money_error + money" where
  "Sub m other = Add m (Neg other)"

fun sum_loop :: "money \<Rightarrow> money list \<Rightarrow> money_error + money" where
  "sum_loop acc [] = Inr acc"
| "sum_loop acc (one # ms) = (case Add acc one of Inl err \<Rightarrow> Inl err | Inr acc' \<Rightarrow> sum_loop acc' ms)"

definition Sum :: "money list \<Rightarrow> money_error + money" where
  "Sum ms = sum_loop (mk_money 0 []) ms"

section \<open>Rates and exact fractions\<close>

definition Percent :: "int64 \<Rightarrow> rate" where
  "Percent whole = \<lparr>r_v = whole * word_of_int rateScale\<rparr>"

definition RateFromDecimal :: "string \<Rightarrow> (money_error + rate) run" where
  "RateFromDecimal s =
     (case parseDecimal s of
        Inl e \<Rightarrow> Returns (Inl e)
      | Inr val \<Rightarrow> run_bind (roundScaled val rateScale) (\<lambda>v. Returns (Inr \<lparr>r_v = v\<rparr>)))"

definition rate_ratio :: "rate \<Rightarrow> rat" where
  "rate_ratio r = Fract (sint (r_v r)) (rateScale * centsPerUnit)"

definition FromMoney :: "money \<Rightarrow> exact" where
  "FromMoney m = \<lparr>e_r = Some (of_int (sint (m_cents m))), e_currency = m_currency m\<rparr>"

definition exact_val :: "exact \<Rightarrow> rat" where
  "exact_val e = (case e_r e of None \<Rightarrow> 0 | Some r \<Rightarrow> r)"

definition exact_with :: "exact \<Rightarrow> rat \<Rightarrow> exact" where
  "exact_with e r = \<lparr>e_r = Some r, e_currency = e_currency e\<rparr>"

definition exact_MulRate :: "exact \<Rightarrow> rate \<Rightarrow> exact" where
  "exact_MulRate e r = exact_with e (exact_val e * rate_ratio r)"

definition exact_AddRate :: "exact \<Rightarrow> rate \<Rightarrow> exact" where
  "exact_AddRate e r = exact_with e (exact_val e * (1 + rate_ratio r))"

definition exact_RemoveRate :: "exact \<Rightarrow> rate \<Rightarrow> exact run" where
  "exact_RemoveRate e r =
     (let gross = 1 + rate_ratio r in
      if gross = 0 then Panics ''money: RemoveRate of -100% divides by zero''
      else Returns (exact_with e (exact_val e / gross)))"

definition exact_MulRatio :: "exact \<Rightarrow> int64 \<Rightarrow> int64 \<Rightarrow> exact run" where
  "exact_MulRatio e num den =
     (if den = 0 then Panics ''money: MulRatio with a zero denominator divides by zero''
      else Returns (exact_with e (exact_val e * Fract (sint num) (sint den))))"

definition exact_MulDecimal :: "exact \<Rightarrow> string \<Rightarrow> money_error + exact" where
  "exact_MulDecimal e s = (case parseDecimal s of Inl err \<Rightarrow> Inl err | Inr val \<Rightarrow> Inr (exact_with e (val * exact_val e)))"

definition exact_Add :: "exact \<Rightarrow> exact \<Rightarrow> money_error + exact" where
  "exact_Add e other =
     (case combine (e_currency e) (e_currency other) of
        Inl err \<Rightarrow> Inl err
      | Inr cur \<Rightarrow> Inr \<lparr>e_r = Some (exact_val e + exact_val other), e_currency = cur\<rparr>)"

definition exact_Round :: "exact \<Rightarrow> money run" where
  "exact_Round e = run_bind (mustInt64 (roundRat (exact_val e))) (\<lambda>c. Returns (mk_money c (e_currency e)))"

text \<open>The three modes the package names; Go's \<^verbatim>\<open>RoundMode\<close> is an integer, and any other value of it makes \<^verbatim>\<open>RoundTo\<close> panic.\<close>

datatype round_mode = RoundNearest | RoundUp | RoundDown

definition exact_RoundTo :: "exact \<Rightarrow> int64 \<Rightarrow> round_mode \<Rightarrow> money run" where
  "exact_RoundTo e step mode =
     (if sint step \<le> 0 then Panics ''money: RoundTo with a step of 0 or less''
      else
        let quo = exact_val e / of_int (sint step);
            whole = (case mode of
                RoundUp \<Rightarrow> - floorRat (- quo)
              | RoundDown \<Rightarrow> floorRat quo
              | RoundNearest \<Rightarrow> roundRat quo)
        in run_bind (mustInt64 (whole * sint step)) (\<lambda>c. Returns (mk_money c (e_currency e))))"

definition MulRate :: "money \<Rightarrow> rate \<Rightarrow> money run" where "MulRate m r = exact_Round (exact_MulRate (FromMoney m) r)"
definition AddRate :: "money \<Rightarrow> rate \<Rightarrow> money run" where "AddRate m r = exact_Round (exact_AddRate (FromMoney m) r)"
definition RemoveRate :: "money \<Rightarrow> rate \<Rightarrow> money run" where
  "RemoveRate m r = run_bind (exact_RemoveRate (FromMoney m) r) exact_Round"
definition MulRatio :: "money \<Rightarrow> int64 \<Rightarrow> int64 \<Rightarrow> money run" where
  "MulRatio m num den = run_bind (exact_MulRatio (FromMoney m) num den) exact_Round"
definition DivInt :: "money \<Rightarrow> int64 \<Rightarrow> money run" where "DivInt m n = MulRatio m 1 n"
definition RoundTo :: "money \<Rightarrow> int64 \<Rightarrow> round_mode \<Rightarrow> money run" where
  "RoundTo m step mode = exact_RoundTo (FromMoney m) step mode"

definition PercentOf :: "money \<Rightarrow> money \<Rightarrow> int \<Rightarrow> int64 option run" where
  "PercentOf part whole decimals =
     (if m_cents whole = 0 then Returns None
      else case combine (m_currency part) (m_currency whole) of
        Inl _ \<Rightarrow> Returns None
      | Inr _ \<Rightarrow>
          run_bind (roundScaled (Fract (sint (m_cents part) * centsPerUnit) (sint (m_cents whole))) (pow10 (max decimals 0)))
            (\<lambda>v. Returns (Some v)))"

section \<open>Allocation\<close>

text \<open>
  The stable sort of the indices by descending remainder: an index goes after the earlier ones
  whose remainder is at least its own.
\<close>

definition rem_order :: "int list \<Rightarrow> nat list" where
  "rem_order rems = sort_key (\<lambda>i. - (rems ! i)) [0..<length rems]"

definition bump :: "int64 list \<Rightarrow> nat list \<Rightarrow> int64 list" where
  "bump parts idx = foldl (\<lambda>ps i. ps[i := ps ! i + 1]) parts idx"

text \<open>The loop over the weights: the parts rounded down, the remainders, and what is left.\<close>

fun shares :: "int \<Rightarrow> int \<Rightarrow> int64 list \<Rightarrow> (int64 list \<times> int list) run" where
  "shares absv tot [] = Returns ([], [])"
| "shares absv tot (w # ws) =
     run_bind (mustInt64 (absv * sint w div tot)) (\<lambda>q.
       run_bind (shares absv tot ws) (\<lambda>(qs, rs). Returns (q # qs, (absv * sint w) mod tot # rs)))"

text \<open>
  \<open>None\<close> is the nil slice. The slice \<^verbatim>\<open>order[:left]\<close> panics when
  \<^verbatim>\<open>left\<close> is negative or beyond the capacity.
\<close>

definition Allocate :: "money \<Rightarrow> int64 list \<Rightarrow> money list option run" where
  "Allocate amount weights =
     (if list_ex (\<lambda>w. sint w < 0) weights then Returns None
      else
        let tot = sum_list (map sint weights) in
        if tot = 0 then Returns None
        else
          let absv = \<bar>sint (m_cents amount)\<bar> in
          run_bind (mustInt64 absv) (\<lambda>left0.
            run_bind (shares absv tot weights) (\<lambda>(parts, rems).
              let left = sint (left0 - sum_list parts) in
              if left < 0 \<or> left > int (length weights) then Panics ''runtime error: slice bounds out of range''
              else
                let parts' = bump parts (take (nat left) (rem_order rems))
                in Returns (Some (map (\<lambda>p. mk_money (if sint (m_cents amount) < 0 then - p else p) (m_currency amount)) parts')))))"

section \<open>Rounding is half away from zero\<close>

lemma div_half_aux:
  fixes q r d :: int assumes "d > 0" "0 \<le> r" "r < d"
  shows "(2 * (d * q + r) + d) div (2 * d) = (if 2 * r \<ge> d then q + 1 else q)"
proof -
  have "2 * (d * q + r) + d = (2 * r + d) + q * (2 * d)" by (simp add: algebra_simps)
  then have "(2 * (d * q + r) + d) div (2 * d) = q + (2 * r + d) div (2 * d)" using assms(1) by (simp only: div_mult_self1)
  moreover have "(2 * r + d) div (2 * d) = (if 2 * r \<ge> d then 1 else 0)"
    using assms by (auto intro: int_div_pos_eq [of _ _ 1 "2 * r - d"] div_pos_pos_trivial)
  ultimately show ?thesis by simp
qed

lemma div_half:
  fixes n d :: int assumes "d > 0" "n \<ge> 0"
  shows "(2 * n + d) div (2 * d) = (if 2 * (n mod d) \<ge> d then n div d + 1 else n div d)"
  using div_half_aux [of d "n mod d" "n div d"] assms by simp

lemma roundRat_floor: "roundRat r = (if r < 0 then - \<lfloor>- r + 1 / 2\<rfloor> else \<lfloor>r + 1 / 2\<rfloor>)"
proof -
  obtain n d where q: "quotient_of r = (n, d)" by force
  have d: "d > 0" and r: "r = of_int n / of_int d" using quotient_of_denom_pos [OF q] quotient_of_div [OF q] by simp_all
  have "\<bar>r\<bar> = of_int \<bar>n\<bar> / of_int d" using d by (simp add: r)
  then have "\<bar>r\<bar> + 1 / 2 = of_int (2 * \<bar>n\<bar> + d) / of_int (2 * d)" using d by (simp add: add_divide_distrib)
  then have "\<lfloor>\<bar>r\<bar> + 1 / 2\<rfloor> = (2 * \<bar>n\<bar> + d) div (2 * d)" by (simp only: floor_divide_of_int_eq)
  also have "\<dots> = (if 2 * (\<bar>n\<bar> mod d) \<ge> d then \<bar>n\<bar> div d + 1 else \<bar>n\<bar> div d)" using d by (rule div_half) simp
  finally have f: "\<lfloor>\<bar>r\<bar> + 1 / 2\<rfloor> = (if 2 * (\<bar>n\<bar> mod d) \<ge> d then \<bar>n\<bar> div d + 1 else \<bar>n\<bar> div d)" .
  have "roundRat r = (if r < 0 then - \<lfloor>\<bar>r\<bar> + 1 / 2\<rfloor> else \<lfloor>\<bar>r\<bar> + 1 / 2\<rfloor>)"
    unfolding f roundRat_def q prod.case Let_def ..
  then show ?thesis by (cases "r < 0") (simp_all add: not_less)
qed

lemma floorRat_floor: "floorRat r = \<lfloor>r\<rfloor>"
proof -
  obtain n d where q: "quotient_of r = (n, d)" by force
  then show ?thesis using quotient_of_div [OF q] by (simp add: floorRat_def floor_divide_of_int_eq)
qed

lemma roundRat_near: "\<bar>of_int (roundRat r) - r\<bar> \<le> 1 / 2"
proof -
  have "\<bar>of_int \<lfloor>x + 1 / 2\<rfloor> - x\<bar> \<le> 1 / 2" for x :: rat
    using floor_correct [of "x + 1 / 2"] by linarith
  from this [of r] this [of "- r"] show ?thesis by (simp add: roundRat_floor abs_if split: if_splits)
qed

lemma roundRat_of_int [simp]: "roundRat (of_int i) = i"
proof -
  have "\<bar>of_int (roundRat (of_int i)) - of_int i\<bar> \<le> (1 / 2 :: rat)" by (rule roundRat_near)
  then have "\<bar>of_int (roundRat (of_int i) - i)\<bar> < (1 :: rat)" by simp
  then show ?thesis by linarith
qed

section \<open>Words\<close>

lemma sint_range: "- (2 ^ 63) \<le> sint (w :: int64)" "sint (w :: int64) < 2 ^ 63"
  using sint_greater_eq [of w] sint_less [of w] by simp_all

lemma fits_sint [simp]: "fits_int64 (sint (w :: int64))"
  using sint_range [of w] by (simp add: fits_int64_def)

lemma sint_of_fits: "fits_int64 v \<Longrightarrow> sint (word_of_int v :: int64) = v"
  by (simp add: fits_int64_def sint_sbintrunc' signed_take_bit_int_eq_self_iff)

lemma mustInt64_sint: "mustInt64 v = Returns w \<longleftrightarrow> fits_int64 v \<and> w = word_of_int v"
  by (auto simp: mustInt64_def)

lemma sint_wrap:
  fixes a b :: int64
  shows "sint (a + b) = (if sint a + sint b \<ge> 2 ^ 63 then sint a + sint b - 2 ^ 64
      else if sint a + sint b < - (2 ^ 63) then sint a + sint b + 2 ^ 64 else sint a + sint b)"
proof -
  let ?s = "sint a + sint b"
  have "sint (a + b) = signed_take_bit 63 ?s" by (simp add: sint_word_ariths)
  also have "\<dots> = (?s + 2 ^ 63) mod 2 ^ 64 - 2 ^ 63" by (simp add: signed_take_bit_eq_take_bit_shift take_bit_eq_mod)
  finally have s: "sint (a + b) = (?s + 2 ^ 63) mod 2 ^ 64 - 2 ^ 63" .
  have r: "- (2 ^ 64) \<le> ?s" "?s < 2 ^ 64" using sint_range [of a] sint_range [of b] by simp_all
  have m: "x mod (2 ^ 64) = (if x < 0 then x + 2 ^ 64 else if x \<ge> 2 ^ 64 then x - 2 ^ 64 else x)"
    if "- (2 ^ 64) \<le> x" "x < 2 * 2 ^ 64" for x :: int
    using that mod_pos_pos_trivial [of "x + 2 ^ 64" "2 ^ 64"] mod_pos_pos_trivial [of "x - 2 ^ 64" "2 ^ 64"]
    by (simp add: mod_pos_pos_trivial)
  show ?thesis using r by (subst s, subst m) auto
qed

lemma sint_neg_bit: "sint (w :: int64) < 0 \<longleftrightarrow> bit w 63"
  using bit_last_iff [of w] by simp

lemma overflow_bits:
  fixes a b :: int64
  shows "sint ((a XOR (a + b)) AND (b XOR (a + b))) < 0 \<longleftrightarrow> \<not> fits_int64 (sint a + sint b)"
proof -
  have "sint ((a XOR (a + b)) AND (b XOR (a + b))) < 0 \<longleftrightarrow>
      (sint a < 0) \<noteq> (sint (a + b) < 0) \<and> (sint b < 0) \<noteq> (sint (a + b) < 0)"
    by (simp add: sint_neg_bit bit_and_iff bit_xor_iff)
  also have "\<dots> \<longleftrightarrow> \<not> fits_int64 (sint a + sint b)"
    using sint_range [of a] sint_range [of b] by (auto simp: sint_wrap fits_int64_def split: if_splits)
  finally show ?thesis .
qed

section \<open>Sums\<close>

lemma sint_add_fits: "fits_int64 (sint a + sint b) \<Longrightarrow> sint ((a :: int64) + b) = sint a + sint b"
  by (simp add: sint_wrap fits_int64_def)

lemma Add_cases:
  "Add m other = (case combine (m_currency m) (m_currency other) of
      Inl e \<Rightarrow> Inl e
    | Inr cur \<Rightarrow> if fits_int64 (sint (m_cents m) + sint (m_cents other)) then Inr (mk_money (m_cents m + m_cents other) cur)
        else Inl ErrOverflow)"
  unfolding Add_def Let_def overflow_bits by (simp split: sum.split)

lemma money_eq: "(m :: money) = mk_money c cur \<longleftrightarrow> m_cents m = c \<and> m_currency m = cur"
  by (cases m) simp

lemma sint_eq_iff: "sint (a :: int64) = sint b \<longleftrightarrow> a = b"
  by (auto intro: signed_word_eqI)

lemma Add_Inr_iff:
  "Add m other = Inr t \<longleftrightarrow>
     combine (m_currency m) (m_currency other) = Inr (m_currency t) \<and> fits_int64 (sint (m_cents m) + sint (m_cents other))
     \<and> sint (m_cents t) = sint (m_cents m) + sint (m_cents other)"
proof (cases "combine (m_currency m) (m_currency other)")
  case (Inr cur)
  have "m_cents t = m_cents m + m_cents other \<longleftrightarrow> sint (m_cents t) = sint (m_cents m) + sint (m_cents other)"
    if "fits_int64 (sint (m_cents m) + sint (m_cents other))"
    using that sint_add_fits sint_eq_iff by metis
  then show ?thesis using Inr by (cases t) (auto simp: Add_cases)
qed (simp add: Add_cases)

lemma combine_Inr_iff: "combine a b = Inr c \<longleftrightarrow> {a, b} \<subseteq> {[], c} \<and> (c = a \<or> c = b)"
  by (auto simp: combine_def split: if_splits)

lemma mustInt64_iff: "mustInt64 v = Returns w \<longleftrightarrow> sint w = v"
proof
  assume "sint w = v"
  then have "fits_int64 v" "sint w = sint (word_of_int v :: int64)" using fits_sint [of w] by (simp_all add: sint_of_fits)
  then show "mustInt64 v = Returns w" by (simp add: mustInt64_sint sint_eq_iff)
qed (auto simp: mustInt64_sint sint_of_fits)

definition cents_sum :: "money list \<Rightarrow> int" where
  "cents_sum ms = sum_list (map (\<lambda>m. sint (m_cents m)) ms)"

lemma cents_sum_simps [simp]: "cents_sum [] = 0" "cents_sum (m # ms) = sint (m_cents m) + cents_sum ms"
  by (simp_all add: cents_sum_def)

definition one_currency :: "string \<Rightarrow> string set \<Rightarrow> bool" where
  "one_currency c cs \<longleftrightarrow> cs \<subseteq> {[], c} \<and> (c = [] \<or> c \<in> cs)"

lemma combine_one_currency:
  "(\<exists>c. combine a b = Inr c \<and> one_currency t (insert c cs)) \<longleftrightarrow> one_currency t (insert a (insert b cs))"
proof (cases "a = [] \<or> a = b")
  case True
  then show ?thesis by (auto simp: combine_def one_currency_def)
next
  case False
  then show ?thesis by (cases "b = []") (auto simp: combine_def one_currency_def)
qed

lemma prefix_sums_Cons:
  "(\<forall>k\<le>length (m # ms). P (s + cents_sum (take k (m # ms)))) \<longleftrightarrow>
     P s \<and> (\<forall>k\<le>length ms. P ((s + sint (m_cents m)) + cents_sum (take k ms)))"
  by (auto simp: All_less_Suc2 less_Suc_eq_le [symmetric] add.assoc)

lemma sum_loop_iff:
  "sum_loop acc ms = Inr t \<longleftrightarrow>
     one_currency (m_currency t) (insert (m_currency acc) (m_currency ` set ms))
     \<and> (\<forall>k\<le>length ms. fits_int64 (sint (m_cents acc) + cents_sum (take k ms)))
     \<and> sint (m_cents t) = sint (m_cents acc) + cents_sum ms"
proof (induction ms arbitrary: acc)
  case Nil
  have "acc = t \<longleftrightarrow> m_currency acc = m_currency t \<and> sint (m_cents t) = sint (m_cents acc)"
    by (cases acc, cases t) (auto simp: sint_eq_iff)
  then show ?case by (auto simp: one_currency_def)
next
  case (Cons m ms)
  have "sum_loop acc (m # ms) = Inr t \<longleftrightarrow> (\<exists>a. Add acc m = Inr a \<and> sum_loop a ms = Inr t)"
    by (cases "Add acc m") auto
  also have "\<dots> \<longleftrightarrow> (\<exists>c. combine (m_currency acc) (m_currency m) = Inr c \<and> one_currency (m_currency t) (insert c (m_currency ` set ms)))
      \<and> fits_int64 (sint (m_cents acc) + sint (m_cents m))
      \<and> (\<forall>k\<le>length ms. fits_int64 (sint (m_cents acc) + sint (m_cents m) + cents_sum (take k ms)))
      \<and> sint (m_cents t) = sint (m_cents acc) + sint (m_cents m) + cents_sum ms" (is "?l \<longleftrightarrow> ?r")
  proof
    assume ?l then show ?r by (auto simp: Add_Inr_iff Cons.IH)
  next
    assume r: ?r
    then obtain c where c: "combine (m_currency acc) (m_currency m) = Inr c"
      "one_currency (m_currency t) (insert c (m_currency ` set ms))" by blast
    let ?a = "mk_money (m_cents acc + m_cents m) c"
    have "Add acc m = Inr ?a" using r c(1) by (simp add: Add_Inr_iff sint_add_fits)
    moreover have "sum_loop ?a ms = Inr t" using r c(2) by (simp add: Cons.IH sint_add_fits)
    ultimately show ?l by blast
  qed
  also have "(\<exists>c. combine (m_currency acc) (m_currency m) = Inr c \<and> one_currency (m_currency t) (insert c (m_currency ` set ms)))
      \<longleftrightarrow> one_currency (m_currency t) (insert (m_currency acc) (m_currency ` set (m # ms)))"
    by (simp add: combine_one_currency)
  finally show ?case unfolding prefix_sums_Cons by (auto simp: add.assoc)
qed

text \<open>
  \<^verbatim>\<open>Sum\<close> (and so every chain of \<^verbatim>\<open>Add\<close>) returns an amount exactly when all the
  currencies that are not empty are one and no running total leaves the \<^verbatim>\<open>int64\<close> range; the amount is
  then the exact integer sum, in that currency. Nothing wraps: the bit test of \<^verbatim>\<open>Add\<close> catches every
  overflow.
\<close>

theorem Sum_exact:
  "Sum ms = Inr t \<longleftrightarrow>
     one_currency (m_currency t) (insert [] (m_currency ` set ms))
     \<and> (\<forall>k\<le>length ms. fits_int64 (cents_sum (take k ms)))
     \<and> sint (m_cents t) = cents_sum ms"
  by (simp add: Sum_def sum_loop_iff)

theorem Sum_exact_witness:
  "Sum [mk_money 150 [], mk_money (- 50) ''EUR'', mk_money 1 ''EUR''] = Inr (mk_money 101 ''EUR'')"
  by (subst Sum_exact) (auto simp: one_currency_def cents_sum_def fits_int64_def le_Suc_eq)

lemma sint_neg: "sint (- w :: int64) = (if sint w = - (2 ^ 63) then - (2 ^ 63) else - sint w)"
proof (cases "sint w = - (2 ^ 63)")
  case True
  then have "w = word_of_int (- (2 ^ 63))" using sint_eq_iff [of w "word_of_int (- (2 ^ 63))"] by (simp add: sint_of_fits fits_int64_def)
  then show ?thesis by simp
next
  case False
  then have "fits_int64 (- sint w)" using sint_range [of w] by (simp add: fits_int64_def)
  then have "sint (word_of_int (- sint w) :: int64) = - sint w" by (rule sint_of_fits)
  then show ?thesis using False by simp
qed

text \<open>
  \<^verbatim>\<open>Sub\<close> is the exact difference, or \<^verbatim>\<open>ErrOverflow\<close> when it leaves the
  \<^verbatim>\<open>int64\<close> range, for every subtrahend but the least \<^verbatim>\<open>int64\<close>. That one is its own
  negation, so subtracting it adds it: an amount that is not negative gets a wrapped result and no error, and a
  negative one gets \<^verbatim>\<open>ErrOverflow\<close> although the difference fits.
\<close>

theorem Sub_exact_but_min:
  "Sub m other = (case combine (m_currency m) (m_currency other) of
      Inl e \<Rightarrow> Inl e
    | Inr cur \<Rightarrow>
        if sint (m_cents other) = - (2 ^ 63) then
          (if 0 \<le> sint (m_cents m) then Inr (mk_money (word_of_int (sint (m_cents m) - 2 ^ 63)) cur) else Inl ErrOverflow)
        else if fits_int64 (sint (m_cents m) - sint (m_cents other))
          then Inr (mk_money (word_of_int (sint (m_cents m) - sint (m_cents other))) cur)
        else Inl ErrOverflow)"
proof (cases "sint (m_cents other) = - (2 ^ 63)")
  case True
  have "m_cents other = word_of_int (sint (m_cents other))" by simp
  then have o: "m_cents other = word_of_int (- (2 ^ 63))" unfolding True .
  have "fits_int64 (sint (m_cents m) + - (2 ^ 63)) \<longleftrightarrow> 0 \<le> sint (m_cents m)"
    using sint_range [of "m_cents m"] by (auto simp: fits_int64_def)
  then show ?thesis using True by (simp add: Sub_def Add_cases Neg_def sint_neg o split: sum.split)
next
  case False
  then show ?thesis by (simp add: Sub_def Add_cases Neg_def sint_neg split: sum.split)
qed

section \<open>The one rounding\<close>

lemma roundRat_iff: "k = roundRat q \<longleftrightarrow> 2 * \<bar>of_int k - q\<bar> \<le> 1 \<and> (2 * \<bar>of_int k - q\<bar> = 1 \<longrightarrow> \<bar>q\<bar> \<le> \<bar>of_int k\<bar>)"
proof (cases "q < 0")
  case True
  have k: "of_int k \<le> (0 :: rat) \<or> 1 \<le> (of_int k :: rat)" by (cases "k \<le> 0") simp_all
  have "k = roundRat q \<longleftrightarrow> \<lfloor>- q + 1 / 2\<rfloor> = - k" using True by (auto simp: roundRat_floor)
  also have "\<dots> \<longleftrightarrow> of_int (- k) \<le> - q + 1 / 2 \<and> - q + 1 / 2 < of_int (- k) + 1" by (rule floor_eq_iff)
  also have "\<dots> \<longleftrightarrow> 2 * \<bar>of_int k - q\<bar> \<le> 1 \<and> (2 * \<bar>of_int k - q\<bar> = 1 \<longrightarrow> \<bar>q\<bar> \<le> \<bar>of_int k\<bar>)"
    using True k by (auto simp: abs_if split: if_splits)
  finally show ?thesis .
next
  case False
  have k: "0 \<le> (of_int k :: rat) \<or> of_int k \<le> - (1 :: rat)" using of_int_le_iff [of k "- 1", where 'a = rat] by (cases "0 \<le> k") simp_all
  have "k = roundRat q \<longleftrightarrow> \<lfloor>q + 1 / 2\<rfloor> = k" using False by (auto simp: roundRat_floor)
  also have "\<dots> \<longleftrightarrow> of_int k \<le> q + 1 / 2 \<and> q + 1 / 2 < of_int k + 1" by (rule floor_eq_iff)
  also have "\<dots> \<longleftrightarrow> 2 * \<bar>of_int k - q\<bar> \<le> 1 \<and> (2 * \<bar>of_int k - q\<bar> = 1 \<longrightarrow> \<bar>q\<bar> \<le> \<bar>of_int k\<bar>)"
    using False k by (auto simp: abs_if split: if_splits)
  finally show ?thesis .
qed

text \<open>A multiple \<open>c\<close> of the step that \<^verbatim>\<open>RoundTo\<close> may return for the exact value \<open>v\<close>.\<close>

fun rounds_to :: "round_mode \<Rightarrow> rat \<Rightarrow> rat \<Rightarrow> rat \<Rightarrow> bool" where
  "rounds_to RoundUp step v c \<longleftrightarrow> v \<le> c \<and> c < v + step"
| "rounds_to RoundDown step v c \<longleftrightarrow> c \<le> v \<and> v < c + step"
| "rounds_to RoundNearest step v c \<longleftrightarrow> 2 * \<bar>c - v\<bar> \<le> step \<and> (2 * \<bar>c - v\<bar> = step \<longrightarrow> \<bar>v\<bar> \<le> \<bar>c\<bar>)"

lemma rounds_to_scale: "0 < s \<Longrightarrow> rounds_to mode s v (k * s) \<longleftrightarrow> rounds_to mode 1 (v / s) k"
proof (cases mode)
  case RoundNearest
  assume s: "0 < s"
  have "k * s - v = (k - v / s) * s" using s by (simp add: field_simps)
  then have "\<bar>k * s - v\<bar> = \<bar>k - v / s\<bar> * s" using s by (simp only: abs_mult abs_of_pos)
  moreover have "\<bar>v\<bar> = \<bar>v / s\<bar> * s" "\<bar>k * s\<bar> = \<bar>k\<bar> * s"
    using s by (simp_all add: abs_mult)
  ultimately have "rounds_to mode s v (k * s) \<longleftrightarrow>
      2 * \<bar>k - v / s\<bar> * s \<le> 1 * s \<and> (2 * \<bar>k - v / s\<bar> * s = 1 * s \<longrightarrow> \<bar>v / s\<bar> * s \<le> \<bar>k\<bar> * s)"
    by (simp only: RoundNearest rounds_to.simps mult.assoc mult_1)
  then show ?thesis using s by (simp add: RoundNearest pos_divide_le_eq)
qed (simp_all add: field_simps)

text \<open>What the switch of \<^verbatim>\<open>Exact.RoundTo\<close> computes.\<close>

lemma round_switch:
  "(case mode of RoundUp \<Rightarrow> - floorRat (- q) | RoundDown \<Rightarrow> floorRat q | RoundNearest \<Rightarrow> roundRat q) = k
     \<longleftrightarrow> rounds_to mode 1 q (of_int k)"
proof (cases mode)
  case RoundUp
  then show ?thesis by (simp add: floorRat_floor ceiling_def [symmetric] ceiling_eq_iff) linarith
next
  case RoundDown
  then show ?thesis by (simp add: floorRat_floor floor_eq_iff)
next
  case RoundNearest
  then show ?thesis using roundRat_iff [of k q] by auto
qed

text \<open>
  C36: \<^verbatim>\<open>Exact.RoundTo\<close> with a positive step returns exactly the multiple of the step that its mode
  asks for: the least one not below the value, the greatest one not above it, or the nearest one with a tie away from
  zero, computed on the exact fraction. It returns an amount whenever that multiple fits in \<^verbatim>\<open>int64\<close>
  cents (any returned amount does) and panics otherwise.
\<close>

theorem RoundTo_correct:
  assumes "0 < sint step"
  shows "exact_RoundTo e step mode = Returns m \<longleftrightarrow>
    m_currency m = e_currency e \<and> sint step dvd sint (m_cents m)
    \<and> rounds_to mode (of_int (sint step)) (exact_val e) (of_int (sint (m_cents m)))"
proof -
  let ?s = "sint step" and ?q = "exact_val e / of_int (sint step)"
  define w where "w = (case mode of RoundUp \<Rightarrow> - floorRat (- ?q) | RoundDown \<Rightarrow> floorRat ?q | RoundNearest \<Rightarrow> roundRat ?q)"
  have s0: "(0 :: rat) < of_int ?s" using assms by (simp only: of_int_0_less_iff)
  have w: "w = k \<longleftrightarrow> rounds_to mode (of_int ?s) (exact_val e) (of_int (k * ?s))" for k
    using round_switch [where mode = mode and q = ?q and k = k] rounds_to_scale [OF s0, where mode = mode and v = "exact_val e" and k = "of_int k"] by (simp only: w_def of_int_mult)
  have "exact_RoundTo e step mode = run_bind (mustInt64 (w * ?s)) (\<lambda>c. Returns (mk_money c (e_currency e)))"
    unfolding exact_RoundTo_def Let_def w_def using assms by simp
  then have "exact_RoundTo e step mode = Returns m \<longleftrightarrow> sint (m_cents m) = w * ?s \<and> m_currency m = e_currency e"
    by (cases m) (auto simp: run_bind_Returns mustInt64_iff)
  also have "\<dots> \<longleftrightarrow> (\<exists>k. sint (m_cents m) = k * ?s \<and> w = k) \<and> m_currency m = e_currency e" by blast
  also have "\<dots> \<longleftrightarrow> (\<exists>k. sint (m_cents m) = k * ?s \<and> rounds_to mode (of_int ?s) (exact_val e) (of_int (sint (m_cents m))))
      \<and> m_currency m = e_currency e" unfolding w by metis
  finally show ?thesis by (auto simp: dvd_def mult.commute)
qed

theorem RoundTo_correct_witness:
  "RoundTo (mk_money (- 250) ''EUR'') 500 RoundNearest = Returns (mk_money (- 500) ''EUR'')"
proof -
  have s: "sint (500 :: int64) = 500" "sint (- 500 :: int64) = - 500" "sint (- 250 :: int64) = - 250" by simp_all
  show ?thesis unfolding RoundTo_def
    by (subst RoundTo_correct) (simp_all add: s FromMoney_def exact_val_def)
qed

section \<open>Allocation\<close>

text \<open>The order of the leftover cents: larger remainders first, the earlier index among equal ones.\<close>

definition before :: "(nat \<Rightarrow> int) \<Rightarrow> nat \<Rightarrow> nat \<Rightarrow> bool" where
  "before f i j \<longleftrightarrow> f i < f j \<or> f i = f j \<and> i < j"

lemma insort_before:
  "sorted_wrt (before f) ys \<Longrightarrow> \<forall>y\<in>set ys. x < y \<Longrightarrow> sorted_wrt (before f) (insort_key f x ys)"
  by (induction ys) (auto simp: before_def set_insort_key)

lemma sort_key_before: "sorted_wrt (<) xs \<Longrightarrow> sorted_wrt (before f) (sort_key f xs)"
  by (induction xs) (auto intro!: insort_before)

lemma rem_order_before: "sorted_wrt (before (\<lambda>i. - (rems ! i))) (rem_order rems)"
  by (simp add: rem_order_def sort_key_before)

lemma rem_order_perm: "distinct (rem_order rems)" "set (rem_order rems) = {..<length rems}" "length (rem_order rems) = length rems"
  by (auto simp: rem_order_def)

lemma bump_nth:
  "distinct idx \<Longrightarrow> set idx \<subseteq> {..<length ps} \<Longrightarrow>
     length (bump ps idx) = length ps \<and> (\<forall>i<length ps. bump ps idx ! i = (if i \<in> set idx then ps ! i + 1 else ps ! i))"
  unfolding bump_def by (induction idx arbitrary: ps) (auto simp: nth_list_update)

text \<open>The share of a weight, rounded down, and its remainder.\<close>

lemma shares_Returns:
  assumes "0 < tot" "\<forall>w\<in>set ws. 0 \<le> sint w \<and> sint w \<le> tot" "0 \<le> a" "fits_int64 a"
  shows "shares a tot ws = Returns (map (\<lambda>w. word_of_int (a * sint w div tot)) ws, map (\<lambda>w. (a * sint w) mod tot) ws)"
  using assms(2)
proof (induction ws)
  case (Cons w ws)
  have "a * sint w div tot \<le> a * tot div tot" using Cons.prems assms by (intro zdiv_mono1 mult_left_mono) auto
  moreover have "0 \<le> a * sint w div tot" using Cons.prems assms by (simp add: pos_imp_zdiv_nonneg_iff)
  ultimately have "fits_int64 (a * sint w div tot)" using assms by (simp add: fits_int64_def)
  then show ?case using Cons by (simp add: mustInt64_def)
qed simp

lemma sum_list_words: "sum_list (map (\<lambda>x. word_of_int (f x) :: int64) xs) = word_of_int (sum_list (map f xs))"
  by (induction xs) simp_all

lemma sum_div_mod:
  "(\<Sum>w\<leftarrow>ws. a * sint w div tot) * tot + (\<Sum>w\<leftarrow>ws. (a * sint w) mod tot) = a * (\<Sum>w\<leftarrow>ws. sint (w :: int64))" for tot :: int
proof (induction ws)
  case (Cons w ws)
  have "a * sint w div tot * tot + (a * sint w) mod tot = a * sint w" by (rule div_mult_mod_eq)
  then show ?case using Cons by (simp add: algebra_simps)
qed simp

lemma sum_mod_bounds:
  assumes "0 < (tot :: int)"
  shows "0 \<le> (\<Sum>w\<leftarrow>ws. f w mod tot)" "ws \<noteq> [] \<Longrightarrow> (\<Sum>w\<leftarrow>ws. f w mod tot) < int (length ws) * tot"
proof -
  show "0 \<le> (\<Sum>w\<leftarrow>ws. f w mod tot)" using assms by (intro sum_list_nonneg) auto
  show "(\<Sum>w\<leftarrow>ws. f w mod tot) < int (length ws) * tot" if "ws \<noteq> []"
    using that
  proof (induction ws)
    case (Cons w ws)
    have "f w mod tot < tot" using assms by simp
    then show ?case using Cons by (cases "ws = []") (auto simp: algebra_simps)
  qed simp
qed

lemma leftover_bounds:
  fixes ws :: "int64 list"
  assumes tot: "tot = (\<Sum>w\<leftarrow>ws. sint w)" "0 < tot" and left: "left = a - (\<Sum>w\<leftarrow>ws. a * sint w div tot)"
  shows "0 \<le> left" "left \<le> int (length ws)"
proof -
  have eq: "left * tot = (\<Sum>w\<leftarrow>ws. (a * sint w) mod tot)"
    using sum_div_mod [of a tot ws] by (simp add: left tot(1) left_diff_distrib)
  have "0 \<le> left * tot" unfolding eq by (rule sum_mod_bounds(1) [OF tot(2)])
  then show "0 \<le> left" using tot(2) by (simp add: zero_le_mult_iff)
  have "ws \<noteq> []" using tot by auto
  then have "left * tot < int (length ws) * tot" unfolding eq by (rule sum_mod_bounds(2) [OF tot(2)])
  then show "left \<le> int (length ws)" using tot(2) by (simp add: mult_less_cancel_right)
qed

lemma sum_take_indicator:
  "distinct idx \<Longrightarrow> set idx \<subseteq> {..<n :: nat} \<Longrightarrow> (\<Sum>i<n. if i \<in> set idx then 1 else 0 :: int) = int (length idx)"
  using sum.inter_restrict [OF finite_lessThan, of "\<lambda>_. 1 :: int" n "set idx"] by (simp add: Int_absorb1 distinct_card)

text \<open>The parts before the sign is put back: the integer parts with one cent more for the chosen indices.\<close>

lemma Allocate_Returns:
  fixes ws :: "int64 list"
  assumes ws: "\<forall>w\<in>set ws. 0 \<le> sint w" and tot: "tot = (\<Sum>w\<leftarrow>ws. sint w)" "0 < tot"
    and a: "a = \<bar>sint (m_cents amount)\<bar>" "fits_int64 a"
    and sel: "sel = take (nat (a - (\<Sum>w\<leftarrow>ws. a * sint w div tot))) (rem_order (map (\<lambda>w. (a * sint w) mod tot) ws))"
  shows "Allocate amount ws = Returns (Some (map (\<lambda>p. mk_money (if sint (m_cents amount) < 0 then - p else p) (m_currency amount))
      (bump (map (\<lambda>w. word_of_int (a * sint w div tot)) ws) sel)))"
proof -
  let ?left = "a - (\<Sum>w\<leftarrow>ws. a * sint w div tot)"
  have le: "sint w \<le> tot" if "w \<in> set ws" for w
    using that ws member_le_sum_list [of "sint w" "map sint ws"] by (auto simp: tot)
  have sh: "shares a tot ws = Returns (map (\<lambda>w. word_of_int (a * sint w div tot)) ws, map (\<lambda>w. (a * sint w) mod tot) ws)"
    using shares_Returns [of tot ws a] ws le tot a by simp
  have bounds: "0 \<le> ?left" "?left \<le> int (length ws)" using leftover_bounds [OF tot refl] by auto
  have "0 \<le> (\<Sum>w\<leftarrow>ws. a * sint w div tot)" using ws tot a by (auto intro!: sum_list_nonneg simp: pos_imp_zdiv_nonneg_iff)
  then have "fits_int64 ?left" using bounds a by (simp add: fits_int64_def)
  moreover have "word_of_int a - (\<Sum>w\<leftarrow>ws. word_of_int (a * sint w div tot) :: int64) = word_of_int ?left"
    by (simp add: sum_list_words)
  ultimately have left: "sint (word_of_int a - (\<Sum>w\<leftarrow>ws. word_of_int (a * sint w div tot) :: int64)) = ?left"
    by (simp only: sint_of_fits)
  have guard: "\<not> list_ex (\<lambda>w. sint w < 0) ws" using ws by (auto simp: list_ex_iff)
  show ?thesis
    using guard tot a(2) bounds by (simp add: Allocate_def tot(1) [symmetric] a(1) [symmetric] mustInt64_def sh left sel Let_def)
qed

text \<open>The same parts as integers: their sum is the amount and each fits.\<close>

lemma allocated_parts:
  fixes ws :: "int64 list"
  assumes ws: "\<forall>w\<in>set ws. 0 \<le> sint w" and tot: "tot = (\<Sum>w\<leftarrow>ws. sint w)" "0 < tot" and a: "0 \<le> a"
    and sel: "sel = take (nat (a - (\<Sum>w\<leftarrow>ws. a * sint w div tot))) (rem_order (map (\<lambda>w. (a * sint w) mod tot) ws))"
    and p: "\<And>i. p i = a * sint (ws ! i) div tot + (if i \<in> set sel then 1 else 0)"
  shows "(\<Sum>i<length ws. p i) = a" "i < length ws \<Longrightarrow> 0 \<le> p i \<and> p i \<le> a"
    and "i < length ws \<Longrightarrow> j < length ws \<Longrightarrow> i \<in> set sel \<Longrightarrow> j \<notin> set sel \<Longrightarrow>
      (a * sint (ws ! j)) mod tot < (a * sint (ws ! i)) mod tot \<or> (a * sint (ws ! j)) mod tot = (a * sint (ws ! i)) mod tot \<and> i < j"
proof -
  let ?left = "a - (\<Sum>w\<leftarrow>ws. a * sint w div tot)" and ?rems = "map (\<lambda>w. (a * sint w) mod tot) ws"
  have left: "0 \<le> ?left" "?left \<le> int (length ws)" using leftover_bounds [OF tot refl] by auto
  have dist: "distinct sel" "set sel \<subseteq> {..<length ws}" "int (length sel) = ?left"
    using rem_order_perm [of ?rems] left set_take_subset [of "nat ?left" "rem_order ?rems"] by (auto simp: sel)
  have "(\<Sum>i<length ws. p i) = (\<Sum>i<length ws. a * sint (ws ! i) div tot) + int (length sel)"
    using sum_take_indicator [OF dist(1,2)] by (simp add: p sum.distrib)
  also have "(\<Sum>i<length ws. a * sint (ws ! i) div tot) = (\<Sum>w\<leftarrow>ws. a * sint w div tot)"
    by (simp add: sum_list_sum_nth atLeast0LessThan)
  finally show s: "(\<Sum>i<length ws. p i) = a" using dist(3) by simp
  have nn: "0 \<le> p i" if "i < length ws" for i
    using that ws tot a by (simp add: p pos_imp_zdiv_nonneg_iff)
  show "0 \<le> p i \<and> p i \<le> a" if "i < length ws"
    using that nn member_le_sum [of i "{..<length ws}" p] s by auto
  assume ij: "i < length ws" "j < length ws" "i \<in> set sel" "j \<notin> set sel"
  have "sorted_wrt (before (\<lambda>i. - (?rems ! i))) (sel @ List.drop (nat ?left) (rem_order ?rems))"
    using rem_order_before [of ?rems] by (simp only: sel append_take_drop_id)
  moreover have "j \<in> set (List.drop (nat ?left) (rem_order ?rems))"
    using ij rem_order_perm(2) [of ?rems] set_append [of sel "List.drop (nat ?left) (rem_order ?rems)"]
    by (simp add: sel del: set_append) (metis UnE append_take_drop_id lessThan_iff set_append)
  ultimately have "before (\<lambda>i. - (?rems ! i)) i j" using ij(3) by (auto simp: sorted_wrt_append)
  then show "(a * sint (ws ! j)) mod tot < (a * sint (ws ! i)) mod tot
      \<or> (a * sint (ws ! j)) mod tot = (a * sint (ws ! i)) mod tot \<and> i < j"
    using ij by (auto simp: before_def)
qed

text \<open>
  C35: \<^verbatim>\<open>Allocate\<close> with weights that are not negative and do not sum to 0, on any amount but the least
  \<^verbatim>\<open>int64\<close>, returns one part per weight, in the currency of the amount; the parts sum to the amount exactly,
  each is its exact share or one cent further from zero (\<open>up\<close>), and the extra cents go to the largest remainders, the
  earlier part first. Neither a conversion nor the slice \<^verbatim>\<open>order[:left]\<close> panics.
\<close>

theorem Allocate_exact:
  assumes ws: "\<forall>w\<in>set ws. 0 \<le> sint w" and tot: "tot = (\<Sum>w\<leftarrow>ws. sint w)" "0 < tot"
    and a: "a = \<bar>sint (m_cents amount)\<bar>" "sint (m_cents amount) \<noteq> - (2 ^ 63)"
  shows "\<exists>ps up. Allocate amount ws = Returns (Some ps) \<and> length ps = length ws
    \<and> cents_sum ps = sint (m_cents amount)
    \<and> (\<forall>i<length ws. m_currency (ps ! i) = m_currency amount
        \<and> sint (m_cents (ps ! i)) = sgn (sint (m_cents amount)) * (a * sint (ws ! i) div tot + (if up i then 1 else 0)))
    \<and> (\<forall>i<length ws. \<forall>j<length ws. up i \<and> \<not> up j \<longrightarrow>
        (a * sint (ws ! j)) mod tot < (a * sint (ws ! i)) mod tot \<or> (a * sint (ws ! j)) mod tot = (a * sint (ws ! i)) mod tot \<and> i < j)"
proof -
  define sel where "sel = take (nat (a - (\<Sum>w\<leftarrow>ws. a * sint w div tot))) (rem_order (map (\<lambda>w. (a * sint w) mod tot) ws))"
  define p where "p i = a * sint (ws ! i) div tot + (if i \<in> set sel then 1 else 0)" for i
  define ps where "ps = map (\<lambda>p. mk_money (if sint (m_cents amount) < 0 then - p else p) (m_currency amount))
      (bump (map (\<lambda>w. word_of_int (a * sint w div tot)) ws) sel)"
  have fa: "fits_int64 a" "0 \<le> a" using a sint_range [of "m_cents amount"] by (auto simp: fits_int64_def)
  have ret: "Allocate amount ws = Returns (Some ps)" unfolding ps_def by (rule Allocate_Returns [OF ws tot a(1) fa(1) sel_def])
  note parts = allocated_parts [OF ws tot fa(2) sel_def p_def]
  have sel_ok: "distinct sel" "set sel \<subseteq> {..<length (map (\<lambda>w. word_of_int (a * sint w div tot) :: int64) ws)}"
    using rem_order_perm [of "map (\<lambda>w. (a * sint w) mod tot) ws"] by (auto simp: sel_def dest: in_set_takeD)
  have len: "length ps = length ws" using bump_nth [OF sel_ok] by (simp add: ps_def)
  have cents: "sint (m_cents (ps ! i)) = sgn (sint (m_cents amount)) * p i" and cur: "m_currency (ps ! i) = m_currency amount"
    if i: "i < length ws" for i
  proof -
    have "bump (map (\<lambda>w. word_of_int (a * sint w div tot)) ws) sel ! i = (word_of_int (p i) :: int64)"
      using bump_nth [OF sel_ok] i by (simp add: p_def)
    then have nth: "ps ! i = mk_money (if sint (m_cents amount) < 0 then - word_of_int (p i) else word_of_int (p i)) (m_currency amount)"
      using len i by (simp add: ps_def)
    then show "m_currency (ps ! i) = m_currency amount" by simp
    have r: "0 \<le> p i" "p i \<le> a" using parts(2) [OF i] by auto
    then have f: "fits_int64 (p i)" "fits_int64 (- p i)" using fa by (auto simp: fits_int64_def)
    have neg: "- word_of_int (p i) = (word_of_int (- p i) :: int64)" by simp
    show "sint (m_cents (ps ! i)) = sgn (sint (m_cents amount)) * p i"
      using r a unfolding nth neg by (auto simp: sint_of_fits f sgn_if simp del: of_int_minus)
  qed
  have "cents_sum ps = (\<Sum>i<length ws. sgn (sint (m_cents amount)) * p i)"
    using len cents by (simp add: cents_sum_def sum_list_sum_nth atLeast0LessThan)
  also have "\<dots> = sgn (sint (m_cents amount)) * a" by (simp only: sum_distrib_left [symmetric] parts(1))
  also have "\<dots> = sint (m_cents amount)" by (simp add: a sgn_mult_abs)
  finally show ?thesis
    using ret len cents cur parts(3)
    by (intro exI [of _ ps] exI [of _ "\<lambda>i. i \<in> set sel"]) (auto simp: p_def)
qed

theorem Allocate_exact_witness:
  "\<exists>ps. Allocate (mk_money (- 100) ''EUR'') [1, 1, 1] = Returns (Some ps) \<and> length ps = 3 \<and> cents_sum ps = - 100"
proof -
  have s: "sint (1 :: int64) = 1" "sint (- 100 :: int64) = - 100" by simp_all
  show ?thesis
    using Allocate_exact [of "[1, 1, 1]" 3 100 "mk_money (- 100) ''EUR''"] by (auto simp: s)
qed

section \<open>Printing and parsing\<close>

lemma unat_magnitude: "unat (if sint (c :: int64) < 0 then - c else c) = nat \<bar>sint c\<bar>"
proof -
  have u: "uint (word_of_int x :: int64) = x" if "0 \<le> x" "x < 2 ^ 64" for x
    using that by (simp add: uint_word_of_int mod_pos_pos_trivial)
  have "(if sint c < 0 then - c else c) = word_of_int \<bar>sint c\<bar>" by simp
  moreover have "\<bar>sint c\<bar> < 2 ^ 64" using sint_range [of c] by (simp add: abs_if)
  ultimately show ?thesis using u [of "\<bar>sint c\<bar>"] by (simp only: unat_eq_nat_uint abs_ge_zero)
qed

lemma show_nat_length: "10 \<le> n \<Longrightarrow> n < 100 \<Longrightarrow> length (show_nat n) = 2"
  by (simp add: show_nat.simps [of n] show_nat.simps [of "n div 10"])

lemma two_digits: "n < 100 \<Longrightarrow> length (two_digits n) = 2 \<and> read_nat (two_digits n) = n \<and> list_all digit_char (two_digits n)"
proof -
  assume n: "n < 100"
  have "read_nat ''0'' = 0" by (simp add: read_nat_def digit_val_def)
  then have "read_nat (CHR ''0'' # show_nat n) = n" using read_nat_append [of "''0''" "show_nat n"] by simp
  moreover have "length (show_nat n) = 1" if "n < 10" using that by (simp add: show_nat.simps)
  moreover have "digit_char CHR ''0''" by (simp add: digit_char_iff)
  ultimately show ?thesis using n show_nat_length [of n] by (auto simp: two_digits_def list_all_iff intro: show_nat_digits)
qed

lemma digit_ne_dot: "digit_char c \<Longrightarrow> c \<noteq> CHR ''.''" "digit_char c \<Longrightarrow> c \<noteq> CHR ''-''"
  by (auto simp: digit_char_iff)

lemma parseDecimal_digits:
  assumes w: "list_all digit_char w" "w \<noteq> []" and f: "list_all digit_char f" "f \<noteq> []" and s: "s = [] \<or> s = ''-''"
  shows "parseDecimal (s @ w @ CHR ''.'' # f) =
    Inr ((if s = [] then 1 else - 1) * (of_nat (read_nat (w @ f)) / of_int (10 ^ length f)))"
proof -
  obtain c w' where c: "w = c # w'" "digit_char c" using w by (cases w) auto
  have trim: "trim_signs (s @ w @ CHR ''.'' # f) = w @ CHR ''.'' # f" using s c by (auto simp: digit_char_iff)
  have "CHR ''.'' \<notin> set w" using w digit_ne_dot by (auto simp: list_all_iff)
  then have cut: "go_cut CHR ''.'' (w @ CHR ''.'' # f) = (w, f, True)" by (rule go_cut_append)
  have "hd (s @ w @ CHR ''.'' # f) = CHR ''-'' \<longleftrightarrow> s \<noteq> []" using s c digit_ne_dot by auto
  then show ?thesis using w f s unfolding parseDecimal_def Let_def trim cut by (auto simp: pow10_def)
qed

text \<open>
  C37: Printing an amount without a currency and parsing the text back gives the same amount, for every
  \<^verbatim>\<open>int64\<close> of cents, the least one included: \<^verbatim>\<open>FromDecimal\<close> neither rejects nor rounds nor
  panics on what \<^verbatim>\<open>String\<close> writes.
\<close>

theorem String_roundtrip: "FromDecimal (money_String (mk_money c [])) cur = Returns (Inr (mk_money c cur))"
proof -
  let ?u = "nat \<bar>sint c\<bar>" and ?s = "if sint c < 0 then ''-'' else []"
  let ?w = "show_nat (?u div 100)" and ?f = "two_digits (?u mod 100)"
  note td = two_digits [of "?u mod 100"]
  have str: "money_String (mk_money c []) = ?s @ ?w @ CHR ''.'' # ?f"
    using unat_magnitude [of c] by (cases "sint c < 0") (simp_all add: money_String_def Let_def unat_div unat_mod)
  have "read_nat (?w @ ?f) = ?u" using td by (simp add: read_nat_append)
  moreover have "parseDecimal (?s @ ?w @ CHR ''.'' # ?f) =
      Inr ((if ?s = [] then 1 else - 1) * (of_nat (read_nat (?w @ ?f)) / of_int (10 ^ length ?f)))"
    using td by (intro parseDecimal_digits) (auto simp: list_all_iff show_nat_digits)
  moreover have "(if (if i < 0 then ''-'' else []) = [] then 1 else - 1) * (of_nat (nat \<bar>i\<bar>) / of_int (10 ^ 2)) = (of_int i / 100 :: rat)"
    for i by simp
  ultimately have "parseDecimal (money_String (mk_money c [])) = Inr (of_int (sint c) / 100)"
    using td by (simp only: str mod_less_divisor zero_less_numeral)
  moreover have "roundScaled (of_int (sint c) / 100) centsPerUnit = Returns c"
    using roundRat_of_int [of "sint c"] by (simp add: roundScaled_def centsPerUnit_def mustInt64_iff)
  ultimately show ?thesis by (simp add: FromDecimal_def)
qed

end
