(* ===== verification/GoText.thy ===== *)
theory GoText
  imports Prelude
begin

text \<open>
  The part of Go's Unicode text handling that the identity packages use, on byte strings:
  decoding UTF-8 into runes (\<^verbatim>\<open>utf8.RuneCountInString\<close>, ranging over a string,
  \<^verbatim>\<open>[]rune(s)\<close>), \<^verbatim>\<open>strings.TrimSpace\<close>,
  \<^verbatim>\<open>strings.ToLower\<close>, \<^verbatim>\<open>strings.Contains\<close>, and \<^verbatim>\<open>cut\<close>
  of \<^verbatim>\<open>identity/account/signin_service.go\<close>.

  A string is split into the byte sequences of its runes; a byte that starts no valid encoding is a
  rune of its own (\<^verbatim>\<open>utf8.RuneError\<close> of width 1), as the decoder of the language has it. The
  case table of Unicode beyond ASCII is the parameter \<open>uni\<close> of \<open>ToLower\<close>: a function on
  the bytes of one rune.
\<close>

section \<open>Decoding\<close>

definition byte :: "char \<Rightarrow> nat" where "byte c = of_char c"

definition byte_in :: "nat \<Rightarrow> nat \<Rightarrow> char \<Rightarrow> bool" where
  "byte_in lo hi c = (lo \<le> byte c \<and> byte c \<le> hi)"

definition continuation :: "char \<Rightarrow> bool" where "continuation = byte_in 128 191"

text \<open>The range of the second byte after a given first one, and how many bytes follow it.\<close>

definition accept_range :: "nat \<Rightarrow> (nat \<times> nat \<times> nat) option" where
  "accept_range b =
     (if 194 \<le> b \<and> b \<le> 223 then Some (128, 191, 0)
      else if b = 224 then Some (160, 191, 1)
      else if b = 237 then Some (128, 159, 1)
      else if 225 \<le> b \<and> b \<le> 239 then Some (128, 191, 1)
      else if b = 240 then Some (144, 191, 2)
      else if 241 \<le> b \<and> b \<le> 243 then Some (128, 191, 2)
      else if b = 244 then Some (128, 143, 2)
      else None)"

fun rune_width :: "string \<Rightarrow> nat" where
  "rune_width [] = 0"
| "rune_width (c # s) =
     (case accept_range (byte c) of
        None \<Rightarrow> 1
      | Some (lo, hi, n) \<Rightarrow>
          (case s of
             [] \<Rightarrow> 1
           | d # t \<Rightarrow>
               if byte_in lo hi d \<and> n \<le> length t \<and> list_all continuation (take n t) then 2 + n else 1))"

lemma rune_width_bounds: "s \<noteq> [] \<Longrightarrow> 1 \<le> rune_width s \<and> rune_width s \<le> length s"
  by (cases s) (auto split: option.splits list.splits)

function runes :: "string \<Rightarrow> string list" where
  "runes s = (if s = [] then [] else take (rune_width s) s # runes (drop (rune_width s) s))"
  by pat_completeness auto
termination
proof (relation "measure length")
  fix s :: string assume "s \<noteq> []"
  then show "(drop (rune_width s) s, s) \<in> measure length" using rune_width_bounds [of s] by auto
qed simp

declare runes.simps [simp del]

definition RuneCountInString :: "string \<Rightarrow> nat" where
  "RuneCountInString s = length (runes s)"

lemma runes_Nil [simp]: "runes [] = []" by (simp add: runes.simps)

lemma concat_runes: "concat (runes s) = s"
proof (induction s rule: runes.induct)
  case (1 s)
  then show ?case by (cases "s = []") (simp_all add: runes.simps [of s])
qed

lemma runes_eq_Nil [simp]: "runes s = [] \<longleftrightarrow> s = []" by (subst runes.simps) simp

lemma in_runes_nonempty: "r \<in> set (runes s) \<Longrightarrow> r \<noteq> []"
proof (induction s rule: runes.induct)
  case (1 s)
  then show ?case using rune_width_bounds [of s] by (cases "s = []") (auto simp: runes.simps [of s])
qed

lemma RuneCount_le_length: "RuneCountInString s \<le> length s"
proof (induction s rule: runes.induct)
  case (1 s)
  show ?case
  proof (cases "s = []")
    case False
    have "RuneCountInString s = Suc (RuneCountInString (drop (rune_width s) s))"
      using False by (simp add: RuneCountInString_def runes.simps [of s])
    also have "\<dots> \<le> Suc (length s - rune_width s)" using 1 [OF False] by simp
    also have "\<dots> \<le> length s" using rune_width_bounds [OF False] by arith
    finally show ?thesis .
  qed (simp add: RuneCountInString_def)
qed

section \<open>Encoding a rune again\<close>

text \<open>\<^verbatim>\<open>U+FFFD\<close>, what an invalid byte becomes when a string is built from runes.\<close>

definition rune_error :: string where
  "rune_error = [CHR 0xEF, CHR 0xBF, CHR 0xBD]"

definition encode_rune :: "string \<Rightarrow> string" where
  "encode_rune r = (if length r = 1 \<and> \<not> byte (hd r) < 128 then rune_error else r)"

definition ascii :: "string \<Rightarrow> bool" where "ascii s = list_all (\<lambda>c. byte c < 128) s"

lemma accept_range_ascii [simp]: "b < 128 \<Longrightarrow> accept_range b = None"
  by (simp add: accept_range_def)

lemma rune_width_ascii [simp]: "byte c < 128 \<Longrightarrow> rune_width (c # s) = 1" by simp

lemma runes_ascii_Cons: "byte c < 128 \<Longrightarrow> runes (c # s) = [c] # runes s"
  by (subst runes.simps) simp

lemma runes_ascii: "ascii s \<Longrightarrow> runes s = map (\<lambda>c. [c]) s"
  by (induction s) (auto simp: ascii_def runes_ascii_Cons)

text \<open>\<^verbatim>\<open>cut\<close>: the first \<open>width\<close> characters.\<close>

definition cut :: "string \<Rightarrow> nat \<Rightarrow> string" where
  "cut s width =
     (if RuneCountInString s \<le> width then s else concat (map encode_rune (take width (runes s))))"

section \<open>White space and control characters\<close>

text \<open>\<^verbatim>\<open>unicode.IsSpace\<close> and \<^verbatim>\<open>unicode.IsControl\<close> on the bytes of a rune.\<close>

definition IsSpace :: "string \<Rightarrow> bool" where
  "IsSpace r =
     (r \<in> {[CHR 0x09], [CHR 0x0A], [CHR 0x0B], [CHR 0x0C], [CHR 0x0D], '' '', [CHR 0xC2, CHR 0x85], [CHR 0xC2, CHR 0xA0],
       [CHR 0xE1, CHR 0x9A, CHR 0x80], [CHR 0xE2, CHR 0x80, CHR 0xA8], [CHR 0xE2, CHR 0x80, CHR 0xA9],
       [CHR 0xE2, CHR 0x80, CHR 0xAF], [CHR 0xE2, CHR 0x81, CHR 0x9F], [CHR 0xE3, CHR 0x80, CHR 0x80]}
      \<or> length r = 3 \<and> take 2 r = [CHR 0xE2, CHR 0x80] \<and> byte_in 128 138 (r ! 2))"

definition IsControl :: "string \<Rightarrow> bool" where
  "IsControl r =
     (length r = 1 \<and> (byte (hd r) < 32 \<or> byte (hd r) = 127)
      \<or> length r = 2 \<and> hd r = CHR 0xC2 \<and> byte_in 128 159 (r ! 1))"

definition TrimSpace :: "string \<Rightarrow> string" where
  "TrimSpace s = concat (rev (dropWhile IsSpace (rev (dropWhile IsSpace (runes s)))))"

text \<open>
  \<^verbatim>\<open>strings.ToLower\<close>: ASCII letters by the language, other runes by the Unicode table, an invalid
  byte replaced.
\<close>

definition lower_ascii :: "char \<Rightarrow> char" where
  "lower_ascii c = (if byte_in 65 90 c then char_of (byte c + 32) else c)"

definition lower_rune :: "(string \<Rightarrow> string) \<Rightarrow> string \<Rightarrow> string" where
  "lower_rune uni r =
     (if length r = 1 then (if byte (hd r) < 128 then [lower_ascii (hd r)] else rune_error) else uni r)"

definition ToLower :: "(string \<Rightarrow> string) \<Rightarrow> string \<Rightarrow> string" where
  "ToLower uni s = concat (map (lower_rune uni) (runes s))"

section \<open>Substrings\<close>

fun contains :: "string \<Rightarrow> string \<Rightarrow> bool" where
  "contains [] p = (p = [])"
| "contains (c # s) p = (has_prefix p (c # s) \<or> contains s p)"

lemma contains_iff: "contains s p \<longleftrightarrow> (\<exists>a b. s = a @ p @ b)"
proof (induction s)
  case (Cons c s)
  have "has_prefix p (c # s) \<longleftrightarrow> (\<exists>b. c # s = p @ b)"
    by (metis append_eq_conv_conj append_take_drop_id has_prefix_def)
  then show ?case using Cons by (auto simp: Cons_eq_append_conv)
qed simp

section \<open>Lemmas\<close>

lemma length_encode_rune: "r \<noteq> [] \<Longrightarrow> encode_rune r \<noteq> []"
  by (simp add: encode_rune_def rune_error_def)

lemma ascii_append [simp]: "ascii (s @ t) \<longleftrightarrow> ascii s \<and> ascii t"
  by (auto simp: ascii_def)

lemma RuneCount_ascii: "ascii s \<Longrightarrow> RuneCountInString s = length s"
  by (simp add: RuneCountInString_def runes_ascii)

lemma cut_ascii: "ascii s \<Longrightarrow> cut s n = take n s"
proof -
  assume a: "ascii s"
  then have "\<forall>c \<in> set s. encode_rune [c] = [c]" by (auto simp: encode_rune_def ascii_def list_all_iff)
  then have "map encode_rune (take n (runes s)) = map (\<lambda>c. [c]) (take n s)"
    using a by (auto simp: runes_ascii take_map dest: in_set_takeD)
  then show ?thesis using a by (simp add: cut_def RuneCount_ascii)
qed

lemma TrimSpace_id: "s = [] \<or> (\<not> IsSpace (hd (runes s)) \<and> \<not> IsSpace (last (runes s))) \<Longrightarrow> TrimSpace s = s"
proof (cases "s = []")
  case False
  moreover assume "s = [] \<or> (\<not> IsSpace (hd (runes s)) \<and> \<not> IsSpace (last (runes s)))"
  ultimately have h: "\<not> IsSpace (hd (runes s))" "\<not> IsSpace (last (runes s))" by auto
  have "dropWhile IsSpace (runes s) = runes s" using h(1) False by (cases "runes s") auto
  moreover have "dropWhile IsSpace (rev (runes s)) = rev (runes s)"
    using h(2) False by (cases "rev (runes s)") (auto simp: last_rev [symmetric] simp del: last_rev dest: arg_cong [of _ _ hd])
  ultimately show ?thesis by (simp add: TrimSpace_def concat_runes)
qed (simp add: TrimSpace_def)

end
