(* ===== verification/Account.thy ===== *)
theory Account
  imports GoText Apperr
begin

text \<open>
  The data and the rules of \<^verbatim>\<open>identity/account\<close>: accounts, sign-in history, sessions, the lock after
  wrong passwords, the refusals, and the checks of the fields a person may set (\<^verbatim>\<open>account.go\<close>,
  \<^verbatim>\<open>signin.go\<close>, \<^verbatim>\<open>session.go\<close>, \<^verbatim>\<open>errors.go\<close>,
  \<^verbatim>\<open>rules.go\<close>, \<^verbatim>\<open>service.go\<close>).

  A time is an \<open>int\<close> of nanoseconds and so is a duration. What the packages leave to others is a
  parameter: the Unicode case table \<open>uni\<close> of the text theory, the text \<open>rfc\<close> of a time,
  the address parser of \<^verbatim>\<open>net/mail\<close>.
\<close>

section \<open>Time\<close>

definition second :: int where "second = 1000000000"
definition minute :: int where "minute = 60 * second"
definition hour :: int where "hour = 60 * minute"

lemma duration_pos [simp]: "0 < second" "0 < minute" "0 < hour"
  by (simp_all add: second_def minute_def hour_def)

text \<open>\<^verbatim>\<open>max(int(math.Ceil(d.Seconds())), 1)\<close> of a wait that is not negative.\<close>

definition retry_seconds :: "int \<Rightarrow> int" where
  "retry_seconds d = max (- ((- d) div second)) 1"

section \<open>Accounts\<close>

record account =
  ac_ID :: int
  ac_Login :: string
  ac_Email :: string
  ac_Phone :: string
  ac_Name :: string
  ac_Locale :: string
  ac_Active :: bool
  ac_PasswordHash :: string
  ac_CreatedAt :: int

definition ErrNotFound :: string where "ErrNotFound = ''identity: account not found''"
definition ErrLoginTaken :: string where "ErrLoginTaken = ''identity: login already in use''"
definition ErrEmailTaken :: string where "ErrEmailTaken = ''identity: e-mail address already in use''"
definition ErrSessionNotFound :: string where "ErrSessionNotFound = ''identity: session not found''"

definition LoginMax :: int where "LoginMax = 100"
definition NameMax :: int where "NameMax = 150"
definition EmailMax :: int where "EmailMax = 255"
definition PhoneMax :: int where "PhoneMax = 30"

lemmas width_defs = LoginMax_def NameMax_def EmailMax_def PhoneMax_def

definition NormalizeLogin :: "(string \<Rightarrow> string) \<Rightarrow> string \<Rightarrow> string" where
  "NormalizeLogin uni login = ToLower uni (TrimSpace login)"

definition NormalizeEmail :: "(string \<Rightarrow> string) \<Rightarrow> string \<Rightarrow> string" where
  "NormalizeEmail uni email = ToLower uni (TrimSpace email)"

text \<open>\<^verbatim>\<open>^[a-z]{2,3}(-[A-Za-z0-9]{2,8})*$\<close>: the segments between the hyphens.\<close>

definition upper_char :: "char \<Rightarrow> bool" where
  "upper_char c = (CHR ''A'' \<le> c \<and> c \<le> CHR ''Z'')"

definition ValidLocale :: "string \<Rightarrow> bool" where
  "ValidLocale s =
     (case go_split CHR ''-'' s of
        [] \<Rightarrow> False
      | lang # tags \<Rightarrow>
          length lang \<in> {2, 3} \<and> list_all lower_char lang
          \<and> list_all (\<lambda>t. 2 \<le> length t \<and> length t \<le> 8 \<and> list_all (\<lambda>c. lower_char c \<or> upper_char c \<or> digit_char c) t) tags)"

section \<open>Sign-in history and the lock\<close>

datatype sign_in_event =
  SignedIn | WrongPassword | LockedOut | RefusedInactive | SignedInAs | Unlocked | SignedOutEverywhere | SessionRevoked

definition LockEvent :: "sign_in_event \<Rightarrow> bool" where
  "LockEvent e = (e = WrongPassword \<or> e = SignedIn \<or> e = Unlocked)"

record sign_in_entry =
  en_ID :: int
  en_AccountID :: int
  en_Event :: sign_in_event
  en_IP :: string
  en_Device :: string
  en_ActorID :: int
  en_CreatedAt :: int

definition DeviceMax :: nat where "DeviceMax = 255"
definition IPMax :: nat where "IPMax = 45"

record lock =
  lk_After :: int
  lk_For :: int

definition lock_withDefaults :: "lock \<Rightarrow> lock" where
  "lock_withDefaults l =
     (let l1 = (if lk_After l \<le> 0 then l\<lparr>lk_After := 5\<rparr> else l)
      in if lk_For l1 \<le> 0 then l1\<lparr>lk_For := 15 * minute\<rparr> else l1)"

definition LockedUntil :: "lock \<Rightarrow> sign_in_entry list \<Rightarrow> int \<Rightarrow> int option" where
  "LockedUntil l0 latest now =
     (let l = lock_withDefaults l0 in
      if int (length latest) < lk_After l then None
      else if list_ex (\<lambda>e. en_Event e \<noteq> WrongPassword) (take (nat (lk_After l)) latest) then None
      else
        let until = en_CreatedAt (hd latest) + lk_For l
        in if \<not> now < until then None else Some until)"

lemma lock_withDefaults_pos [simp]: "0 < lk_After (lock_withDefaults l)" "0 < lk_For (lock_withDefaults l)"
  by (auto simp: lock_withDefaults_def Let_def)

lemma lock_withDefaults_idem [simp]: "lock_withDefaults (lock_withDefaults l) = lock_withDefaults l"
proof -
  have "\<not> lk_After (lock_withDefaults l) \<le> 0" "\<not> lk_For (lock_withDefaults l) \<le> 0" by (simp_all add: not_le)
  then show ?thesis by (simp add: lock_withDefaults_def [of "lock_withDefaults l"] Let_def)
qed

lemma LockedUntil_iff:
  "LockedUntil l latest now = Some until \<longleftrightarrow>
     (let k = nat (lk_After (lock_withDefaults l)) in
       k \<le> length latest \<and> (\<forall>e \<in> set (take k latest). en_Event e = WrongPassword)
       \<and> until = en_CreatedAt (hd latest) + lk_For (lock_withDefaults l) \<and> now < until)"
  by (auto simp: LockedUntil_def Let_def list_ex_iff)

section \<open>Sessions\<close>

record session =
  se_ID :: int
  se_AccountID :: int
  se_ActorID :: int
  se_Device :: string
  se_IP :: string
  se_LastUsedAt :: int
  se_ExpiresAt :: int
  se_CreatedAt :: int

record new_session =
  ns_AccountID :: int
  ns_ActorID :: int
  ns_Device :: string
  ns_IP :: string
  ns_At :: int
  ns_ExpiresAt :: int

record credentials =
  cr_Access :: string
  cr_Refresh :: string
  cr_ExpiresAt :: int

record rotation =
  ro_Refresh :: string
  ro_At :: int
  ro_ExpiresAt :: int
  ro_Device :: string
  ro_IP :: string

definition deviceLabelMax :: nat where "deviceLabelMax = 80"

definition browserOf :: "string \<Rightarrow> string" where
  "browserOf ua =
     (if contains ua ''Edg/'' \<or> contains ua ''EdgA/'' \<or> contains ua ''EdgiOS/'' then ''Edge''
      else if contains ua ''Firefox/'' \<or> contains ua ''FxiOS/'' then ''Firefox''
      else if contains ua ''Chrome/'' \<or> contains ua ''CriOS/'' then ''Chrome''
      else if contains ua ''Safari/'' \<or> contains ua ''iPhone'' \<or> contains ua ''iPad'' then ''Safari''
      else [])"

definition systemOf :: "string \<Rightarrow> string" where
  "systemOf ua =
     (if contains ua ''iPhone'' then ''iPhone''
      else if contains ua ''iPad'' then ''iPad''
      else if contains ua ''Android'' then ''Android''
      else if contains ua ''Windows'' then ''Windows''
      else if contains ua ''Mac OS X'' \<or> contains ua ''Macintosh'' then ''macOS''
      else if contains ua ''Linux'' \<or> contains ua ''X11'' then ''Linux''
      else [])"

text \<open>The separator is a middle dot between two spaces, two bytes in UTF-8.\<close>

definition DeviceLabel :: "string \<Rightarrow> string" where
  "DeviceLabel userAgent =
     (let ua = TrimSpace userAgent in
      if ua = [] then []
      else
        let browser = browserOf ua; system = systemOf ua in
        if browser = [] \<or> system = [] then
          (if length (runes ua) > deviceLabelMax then concat (map encode_rune (take deviceLabelMax (runes ua))) else ua)
        else browser @ '' '' @ [CHR 0xC2, CHR 0xB7] @ '' '' @ system)"

definition session_Label :: "session \<Rightarrow> string" where
  "session_Label s = DeviceLabel (se_Device s)"

section \<open>Refusals\<close>

definition ReasonSignInFailed :: reason where "ReasonSignInFailed = ''identity.signin.failed''"
definition ReasonSignInLocked :: reason where "ReasonSignInLocked = ''identity.signin.locked''"
definition ReasonSignInInactive :: reason where "ReasonSignInInactive = ''identity.signin.inactive''"
definition ReasonSessionInvalid :: reason where "ReasonSessionInvalid = ''identity.session.invalid''"
definition ReasonAccountNotFound :: reason where "ReasonAccountNotFound = ''identity.account.not_found''"
definition ReasonAccountInactive :: reason where "ReasonAccountInactive = ''identity.account.inactive''"
definition ReasonImpersonationDisabled :: reason where "ReasonImpersonationDisabled = ''identity.impersonation.disabled''"
definition ReasonImpersonationNotActive :: reason where
  "ReasonImpersonationNotActive = ''identity.impersonation.not_active''"

lemmas reason_defs = ReasonSignInFailed_def ReasonSignInLocked_def ReasonSignInInactive_def ReasonSessionInvalid_def
  ReasonAccountNotFound_def ReasonAccountInactive_def ReasonImpersonationDisabled_def ReasonImpersonationNotActive_def

definition signInFailed :: go_error where
  "signInFailed =
     App (WithReason ReasonSignInFailed [] (WithLog LevelInfo (apperr_Wrap None ReasonSignInFailed CodeInvalidArgument)))"

definition signInLocked :: "(int \<Rightarrow> string) \<Rightarrow> int \<Rightarrow> go_error" where
  "signInLocked rfc until =
     App (WithReason ReasonSignInLocked [fmupd ''locked_until'' (AnyString (rfc until)) fmempty]
       (WithLog LevelInfo (apperr_Wrap None ReasonSignInLocked CodeInvalidArgument)))"

definition signInInactive :: go_error where
  "signInInactive = App (WithReason ReasonSignInInactive [] (BadRequest ReasonSignInInactive))"

definition sessionInvalid :: go_error where
  "sessionInvalid = App (WithReason ReasonSessionInvalid [] (Unauthorized ReasonSessionInvalid))"

definition accountNotFound :: go_error where
  "accountNotFound = App (WithReason ReasonAccountNotFound [] (NotFound ReasonAccountNotFound))"

definition accountInactive :: go_error where
  "accountInactive = App (WithReason ReasonAccountInactive [] (BadRequest ReasonAccountInactive))"

definition invalid :: "string \<Rightarrow> reason \<Rightarrow> (string, go_any) gomap list \<Rightarrow> go_error" where
  "invalid field reason params =
     App (WithLog LevelInfo (WithFields (fmupd field reason fmempty)
       (WithReason reason params (apperr_Wrap None reason CodeValidationError))))"

definition conflict :: "string \<Rightarrow> reason \<Rightarrow> go_error" where
  "conflict field reason =
     App (WithLog LevelInfo (WithFields (fmupd field reason fmempty)
       (WithReason reason [] (apperr_Wrap None reason CodeAlreadyExists))))"

section \<open>Field checks\<close>

definition max_param :: "int \<Rightarrow> (string, go_any) gomap list" where
  "max_param n = [fmupd ''max'' (AnyInt n) fmempty]"

definition checkLogin :: "string \<Rightarrow> unit result" where
  "checkLogin login =
     (if login = [] \<or> int (RuneCountInString login) > LoginMax \<or> list_ex (\<lambda>r. IsSpace r \<or> IsControl r) (runes login)
      then Inl (invalid ''login'' ''identity.login.invalid'' (max_param LoginMax)) else Inr ())"

definition checkName :: "string \<Rightarrow> unit result" where
  "checkName name =
     (if name = [] \<or> int (RuneCountInString name) > NameMax
      then Inl (invalid ''name'' ''identity.name.invalid'' (max_param NameMax)) else Inr ())"

definition checkPhone :: "string \<Rightarrow> unit result" where
  "checkPhone phone =
     (if int (RuneCountInString phone) > PhoneMax
      then Inl (invalid ''phone'' ''identity.phone.invalid'' (max_param PhoneMax)) else Inr ())"

text \<open>\<open>parse\<close> is \<^verbatim>\<open>mail.ParseAddress\<close>: the bare address of a text, if it is one.\<close>

definition checkEmail :: "(string \<Rightarrow> string option) \<Rightarrow> string \<Rightarrow> string \<Rightarrow> unit result" where
  "checkEmail parse field email =
     (if parse email \<noteq> Some email \<or> int (RuneCountInString email) > EmailMax
      then Inl (invalid field ''identity.email.invalid'' (max_param EmailMax)) else Inr ())"

definition Passwords_Violations :: "int \<Rightarrow> string \<Rightarrow> string list" where
  "Passwords_Violations minLength password =
     (let shortest = (if minLength \<le> 0 then 8 else minLength)
      in (if int (RuneCountInString password) < shortest then [''min_length''] else [])
         @ (if length password > 72 then [''max_length''] else []))"

definition checkPassword :: "(string \<Rightarrow> string list) \<Rightarrow> string \<Rightarrow> string \<Rightarrow> unit result" where
  "checkPassword policy field password =
     (let broken = policy password in
      if broken \<noteq> [] then Inl (invalid field ''identity.password.weak'' [fmupd ''rules'' (AnyStrings broken) fmempty])
      else Inr ())"

section \<open>Configuration\<close>

record limits =
  li_Login :: int
  li_Name :: int
  li_Email :: int
  li_Phone :: int

definition or_default :: "int \<Rightarrow> int \<Rightarrow> int" where "or_default v d = (if v = 0 then d else v)"

definition limits_WithDefaults :: "limits \<Rightarrow> limits" where
  "limits_WithDefaults l =
     \<lparr>li_Login = or_default (li_Login l) LoginMax, li_Name = or_default (li_Name l) NameMax,
      li_Email = or_default (li_Email l) EmailMax, li_Phone = or_default (li_Phone l) PhoneMax\<rparr>"

definition ErrLimits :: string where
  "ErrLimits = ''identity: Limits must be positive and no larger than go-core's widths''"

definition limits_check :: "limits \<Rightarrow> unit result" where
  "limits_check l =
     (let d = limits_WithDefaults l in
      if li_Login l < 0 \<or> li_Name l < 0 \<or> li_Email l < 0 \<or> li_Phone l < 0
        \<or> li_Login d > LoginMax \<or> li_Name d > NameMax \<or> li_Email d > EmailMax \<or> li_Phone d > PhoneMax
      then Inl (Wrapf (ErrLimits @ '' (login 100, name 150, e-mail 255, phone 30): {Login:'' @ show_int (li_Login l)
        @ '' Name:'' @ show_int (li_Name l) @ '' Email:'' @ show_int (li_Email l) @ '' Phone:'' @ show_int (li_Phone l) @ ''}'')
        (Sentinel ErrLimits))
      else Inr ())"

text \<open>The configuration as \<^verbatim>\<open>New\<close> completes it.\<close>

record id_config =
  cf_TokenTTL :: int
  cf_Lock :: lock
  cf_AttemptsPerMinute :: int
  cf_Locales :: "string list"
  cf_Limits :: limits

definition config_withDefaults :: "id_config \<Rightarrow> id_config result" where
  "config_withDefaults cfg =
     (case limits_check (cf_Limits cfg) of
        Inl e \<Rightarrow> Inl e
      | Inr _ \<Rightarrow> Inr (cfg\<lparr>
          cf_Limits := limits_WithDefaults (cf_Limits cfg),
          cf_TokenTTL := (if cf_TokenTTL cfg \<le> 0 then 24 * hour else cf_TokenTTL cfg),
          cf_AttemptsPerMinute := (if cf_AttemptsPerMinute cfg \<le> 0 then 10 else cf_AttemptsPerMinute cfg),
          cf_Lock := lock_withDefaults (cf_Lock cfg)\<rparr>))"

definition offers :: "id_config \<Rightarrow> string \<Rightarrow> string \<Rightarrow> unit result" where
  "offers c field locale =
     (if cf_Locales c = [] \<or> locale \<in> set (cf_Locales c) then Inr ()
      else Inl (invalid field ''identity.locale.unsupported'' []))"

section \<open>Lemmas\<close>

lemma limits_check_ok:
  "limits_check l = Inr () \<Longrightarrow>
     0 < li_Login (limits_WithDefaults l) \<and> li_Login (limits_WithDefaults l) \<le> LoginMax
     \<and> 0 < li_Name (limits_WithDefaults l) \<and> li_Name (limits_WithDefaults l) \<le> NameMax
     \<and> 0 < li_Email (limits_WithDefaults l) \<and> li_Email (limits_WithDefaults l) \<le> EmailMax
     \<and> 0 < li_Phone (limits_WithDefaults l) \<and> li_Phone (limits_WithDefaults l) \<le> PhoneMax"
  by (auto simp: limits_check_def limits_WithDefaults_def or_default_def width_defs Let_def split: if_splits)

lemma retry_seconds_bounds:
  assumes "0 < d"
  shows "1 \<le> retry_seconds d" "d \<le> retry_seconds d * second" "(retry_seconds d - 1) * second < d"
proof -
  let ?q = "- ((- d) div second)"
  have m: "((- d) div second) * second + (- d) mod second = - d" by (rule div_mult_mod_eq)
  have n: "?q * second = - (((- d) div second) * second)" by simp
  have r: "0 \<le> (- d) mod second" "(- d) mod second < second" by simp_all
  have "(?q - 1) * second = ?q * second - second" by (simp add: left_diff_distrib)
  then have b: "d \<le> ?q * second" "(?q - 1) * second < d" using m n r by linarith+
  then have "0 < ?q * second" using assms by linarith
  then have "0 < ?q" by (rule zero_less_mult_pos2) simp
  then show "1 \<le> retry_seconds d" "d \<le> retry_seconds d * second" "(retry_seconds d - 1) * second < d"
    using b by (simp_all add: retry_seconds_def)
qed

lemma refusals_distinct [simp]:
  "signInFailed \<noteq> signInLocked rfc t" "signInLocked rfc t \<noteq> signInFailed"
  "signInFailed \<noteq> signInInactive" "signInInactive \<noteq> signInFailed"
  "signInInactive \<noteq> signInLocked rfc t" "signInLocked rfc t \<noteq> signInInactive"
  by (simp_all add: signInFailed_def signInLocked_def signInInactive_def app_constructors reason_defs code_defs)

lemma refusal_not_internal [simp]:
  "signInFailed \<noteq> Internal e" "signInLocked rfc t \<noteq> Internal e" "signInInactive \<noteq> Internal e" "sessionInvalid \<noteq> Internal e"
  by (simp_all add: signInFailed_def signInLocked_def signInInactive_def sessionInvalid_def app_constructors code_defs)

end
