(* ===== verification/Limiter.thy ===== *)
theory Limiter
  imports Account
begin

text \<open>
  The two fixed-window counters of the repository: \<^verbatim>\<open>ratelimit.InMemoryLimiter\<close>, which the
  middleware asks, and \<^verbatim>\<open>attempts\<close> of \<^verbatim>\<open>identity/account/attempts.go\<close>, which
  holds back sign-in attempts. Both promise the same thing to their callers, stated once in the locale
  \<open>fixed_window\<close> and proved there for any sequence of calls; both are interpretations of it.

  The mutex of either makes each call one atomic step. The sweep of the limiter runs in a goroutine of its own, so it
  is an event of its own, at any time; the counter of attempts sweeps inside a call.
\<close>

section \<open>The in-memory limiter\<close>

record mem_counter =
  mc_count :: int
  mc_expiry :: int

record mem_limiter =
  rl_limit :: int
  rl_window :: int
  rl_m :: "(string, mem_counter) gomap"

definition NewInMemoryLimiter :: "int \<Rightarrow> int \<Rightarrow> mem_limiter" where
  "NewInMemoryLimiter limit window =
     \<lparr>rl_limit = (if limit \<le> 0 then 1 else limit), rl_window = (if window \<le> 0 then second else window), rl_m = fmempty\<rparr>"

definition rl_sweep :: "mem_limiter \<Rightarrow> int \<Rightarrow> mem_limiter" where
  "rl_sweep l now =
     l\<lparr>rl_m := fmfilter (\<lambda>k. case fmlookup (rl_m l) k of None \<Rightarrow> False | Some c \<Rightarrow> \<not> now > mc_expiry c) (rl_m l)\<rparr>"

definition rl_Len :: "mem_limiter \<Rightarrow> nat" where
  "rl_Len l = fcard (fmdom (rl_m l))"

definition rl_Allow :: "mem_limiter \<Rightarrow> int \<Rightarrow> string \<Rightarrow> bool \<times> mem_limiter" where
  "rl_Allow l now key =
     (let fresh = (True, l\<lparr>rl_m := fmupd key \<lparr>mc_count = 1, mc_expiry = now + rl_window l\<rparr> (rl_m l)\<rparr>) in
      case fmlookup (rl_m l) key of
        None \<Rightarrow> fresh
      | Some c \<Rightarrow>
          if now > mc_expiry c then fresh
          else if mc_count c < rl_limit l
          then (True, l\<lparr>rl_m := fmupd key (c\<lparr>mc_count := mc_count c + 1\<rparr>) (rl_m l)\<rparr>)
          else (False, l))"

section \<open>Sign-in attempts\<close>

definition attemptWindow :: int where "attemptWindow = minute"
definition sweepAbove :: nat where "sweepAbove = 1024"

record attempt_window =
  aw_end :: int
  aw_count :: int

record attempts =
  at_limit :: int
  at_windows :: "(string, attempt_window) gomap"

definition newAttempts :: "int \<Rightarrow> attempts" where
  "newAttempts limit = \<lparr>at_limit = limit, at_windows = fmempty\<rparr>"

definition at_sweep :: "(string, attempt_window) gomap \<Rightarrow> int \<Rightarrow> (string, attempt_window) gomap" where
  "at_sweep ws now = fmfilter (\<lambda>k. case fmlookup ws k of None \<Rightarrow> False | Some w \<Rightarrow> now < aw_end w) ws"

definition at_allow :: "attempts \<Rightarrow> int \<Rightarrow> string \<Rightarrow> (int \<times> bool) \<times> attempts" where
  "at_allow a now login =
     (let ws = (if fcard (fmdom (at_windows a)) > sweepAbove then at_sweep (at_windows a) now else at_windows a);
          fresh = \<lparr>aw_end = now + attemptWindow, aw_count = 0\<rparr>;
          w0 = (case fmlookup ws login of None \<Rightarrow> fresh | Some w \<Rightarrow> if \<not> now < aw_end w then fresh else w);
          w = w0\<lparr>aw_count := aw_count w0 + 1\<rparr>
      in ((aw_end w, aw_count w \<le> at_limit a), a\<lparr>at_windows := fmupd login w ws\<rparr>))"

section \<open>What a fixed window promises\<close>

datatype 'k limiter_event = Ask int 'k | Sweep int

primrec event_time :: "'k limiter_event \<Rightarrow> int" where
  "event_time (Ask t k) = t"
| "event_time (Sweep t) = t"

locale fixed_window =
  fixes allow :: "'s \<Rightarrow> int \<Rightarrow> 'k \<Rightarrow> bool \<times> 's"
    and sweep :: "'s \<Rightarrow> int \<Rightarrow> 's"
    and live :: "int \<Rightarrow> int \<Rightarrow> bool"
    and win :: "'s \<Rightarrow> 'k \<Rightarrow> (int \<times> int) option"
    and lim :: "'s \<Rightarrow> int"
    and len :: "'s \<Rightarrow> int"
  assumes live_before: "t < e \<Longrightarrow> live t e"
    and live_le: "live t e \<Longrightarrow> t \<le> e"
    and live_mono: "live t e \<Longrightarrow> t' \<le> t \<Longrightarrow> live t' e"
    and const_allow: "lim (snd (allow s t k)) = lim s" "len (snd (allow s t k)) = len s"
    and const_sweep: "lim (sweep s t) = lim s" "len (sweep s t) = len s"
    and allow_in_window: "win s k = Some (e, c) \<Longrightarrow> live t e \<Longrightarrow>
      fst (allow s t k) = (c < lim s) \<and> (\<exists>c'. win (snd (allow s t k)) k = Some (e, c') \<and> (if c < lim s then c' = c + 1 else c \<le> c'))"
    and allow_new_window: "1 \<le> lim s \<Longrightarrow> (\<And>e c. win s k = Some (e, c) \<Longrightarrow> \<not> live t e) \<Longrightarrow>
      win (snd (allow s t k)) k = Some (t + len s, 1)"
    and allow_other: "k' \<noteq> k \<Longrightarrow> win s k' = Some (e, c) \<Longrightarrow> live t e \<Longrightarrow> win (snd (allow s t k)) k' = Some (e, c)"
    and allow_other_dead: "k' \<noteq> k \<Longrightarrow> win (snd (allow s t k)) k' = Some (e, c) \<Longrightarrow> win s k' = Some (e, c)"
    and sweep_live: "win s k = Some (e, c) \<Longrightarrow> live t e \<Longrightarrow> win (sweep s t) k = Some (e, c)"
    and sweep_dead: "win (sweep s t) k = Some (e, c) \<Longrightarrow> win s k = Some (e, c)"
begin

fun step :: "'s \<Rightarrow> 'k limiter_event \<Rightarrow> bool \<times> 's" where
  "step s (Ask t k) = allow s t k"
| "step s (Sweep t) = (False, sweep s t)"

text \<open>How many calls of a key are let through.\<close>

fun granted :: "'s \<Rightarrow> 'k \<Rightarrow> 'k limiter_event list \<Rightarrow> nat" where
  "granted s k [] = 0"
| "granted s k (ev # evs) =
     (case step s ev of (ok, s') \<Rightarrow> (case ev of Ask t k' \<Rightarrow> if k' = k \<and> ok then 1 else 0 | Sweep t \<Rightarrow> 0) + granted s' k evs)"

lemma const_step: "lim (snd (step s ev)) = lim s" "len (snd (step s ev)) = len s"
  by (cases ev; simp add: const_allow const_sweep)+

text \<open>Inside one window: what is left of it is the most that is let through.\<close>

lemma granted_in_window:
  "win s k = Some (e, c) \<Longrightarrow> \<forall>ev\<in>set evs. live (event_time ev) e \<Longrightarrow> int (granted s k evs) \<le> max (lim s - c) 0"
proof (induction evs arbitrary: s c)
  case (Cons ev evs)
  show ?case
  proof (cases ev)
    case (Sweep t)
    then have "win (sweep s t) k = Some (e, c)" using Cons.prems by (auto intro: sweep_live)
    then show ?thesis using Cons.IH [of "sweep s t" c] Cons.prems(2) Sweep by (simp add: const_sweep)
  next
    case (Ask t k')
    obtain ok s' where st: "allow s t k' = (ok, s')" by force
    have lv: "live t e" using Cons.prems Ask by auto
    have ls: "lim s' = lim s" using const_allow(1) [of s t k'] st by simp
    show ?thesis
    proof (cases "k' = k")
      case False
      then have "win s' k = Some (e, c)" using allow_other [of k k' s e c t] Cons.prems lv st by simp
      then show ?thesis using Cons Ask st False ls by fastforce
    next
      case True
      from allow_in_window [OF Cons.prems(1) lv] st True obtain c' where
        c: "ok = (c < lim s)" "win s' k = Some (e, c')" "if c < lim s then c' = c + 1 else c \<le> c'" by auto
      have "int (granted s' k evs) \<le> max (lim s' - c') 0" using Cons c by auto
      then show ?thesis using c Ask st True ls by (auto split: if_splits)
    qed
  qed
qed simp

text \<open>From a call on, with no live window of the key: one window.\<close>

lemma granted_fresh:
  "1 \<le> lim s \<Longrightarrow> 0 < len s \<Longrightarrow> (\<And>e c t. win s k = Some (e, c) \<Longrightarrow> a \<le> t \<Longrightarrow> \<not> live t e) \<Longrightarrow>
   \<forall>ev\<in>set evs. a \<le> event_time ev \<and> event_time ev < a + len s \<Longrightarrow> int (granted s k evs) \<le> lim s"
proof (induction evs arbitrary: s)
  case (Cons ev evs)
  show ?case
  proof (cases ev)
    case (Sweep t)
    have "win (sweep s t) k = Some (e, c) \<Longrightarrow> a \<le> t' \<Longrightarrow> \<not> live t' e" for e c t'
      using Cons.prems(3) sweep_dead by blast
    then have "int (granted (sweep s t) k evs) \<le> lim (sweep s t)" using Cons by (intro Cons.IH) (auto simp: const_sweep)
    then show ?thesis using Sweep by (simp add: const_sweep)
  next
    case (Ask t k')
    obtain ok s' where st: "allow s t k' = (ok, s')" by force
    have ls: "lim s' = lim s" "len s' = len s" using const_allow [of s t k'] st by simp_all
    have t: "a \<le> t" "t < a + len s" using Cons.prems Ask by auto
    show ?thesis
    proof (cases "k' = k")
      case False
      have "win s' k = Some (e, c) \<Longrightarrow> a \<le> t' \<Longrightarrow> \<not> live t' e" for e c t'
        using Cons.prems(3) allow_other_dead [of k k' s t e c] False st by auto
      then have "int (granted s' k evs) \<le> lim s'" using Cons ls by (intro Cons.IH) auto
      then show ?thesis using Ask st False ls by simp
    next
      case True
      have "win s' k = Some (t + len s, 1)"
        using allow_new_window [of s k t] Cons.prems t st True by auto
      moreover have "live (event_time ev') (t + len s)" if "ev' \<in> set evs" for ev'
        by (rule live_before) (use Cons.prems(4) that t in fastforce)
      ultimately have "int (granted s' k evs) \<le> max (lim s' - 1) 0" by (intro granted_in_window) auto
      then show ?thesis using Ask st True ls Cons.prems(1) by auto
    qed
  qed
qed simp

definition after :: "'s \<Rightarrow> 'k limiter_event list \<Rightarrow> 's" where
  "after = foldl (\<lambda>s ev. snd (step s ev))"

lemma after_simps [simp]: "after s [] = s" "after s (ev # evs) = after (snd (step s ev)) evs"
  by (simp_all add: after_def)

lemma granted_append: "granted s k (xs @ ys) = granted s k xs + granted (after s xs) k ys"
  by (induction xs arbitrary: s) (auto split: prod.splits)

lemma const_after: "lim (after s evs) = lim s" "len (after s evs) = len s"
  by (induction evs arbitrary: s) (simp_all add: const_step)

lemma win_after:
  "win s k = Some (e, c) \<Longrightarrow> \<forall>ev\<in>set evs. live (event_time ev) e \<Longrightarrow> \<exists>c'. win (after s evs) k = Some (e, c')"
proof (induction evs arbitrary: s c)
  case (Cons ev evs)
  have "\<exists>c'. win (snd (step s ev)) k = Some (e, c')"
  proof (cases ev)
    case (Ask t k')
    then show ?thesis using Cons.prems allow_in_window [of s k e c t] allow_other [of k k' s e c t] by (cases "k' = k") auto
  next
    case (Sweep t)
    then show ?thesis using Cons.prems by (auto intro: sweep_live)
  qed
  then show ?case using Cons by auto
qed simp

lemma granted_from:
  assumes "1 \<le> lim s" "0 < len s" "sorted (map event_time (ev # evs))"
    and "\<forall>x\<in>set (ev # evs). a \<le> event_time x \<and> event_time x < a + len s"
    and "\<And>e c. win s k = Some (e, c) \<Longrightarrow> \<not> live (event_time ev) e"
  shows "int (granted s k (ev # evs)) \<le> lim s"
proof (rule granted_fresh [where a = "event_time ev"])
  show "\<not> live t e" if "win s k = Some (e, c)" "event_time ev \<le> t" for e c t
    using that assms(5) live_mono by blast
  show "\<forall>x\<in>set (ev # evs). event_time ev \<le> event_time x \<and> event_time x < event_time ev + len s"
    using assms(2,3,4) by fastforce
qed (use assms in auto)

text \<open>
  In any stretch of events no longer than a window, at most twice the limit is let through: what is left of the window
  that was open before, and one more.
\<close>

lemma granted_bound:
  assumes "1 \<le> lim s" "0 < len s" and c: "\<And>e c. win s k = Some (e, c) \<Longrightarrow> 0 \<le> c" and srt: "sorted (map event_time evs)"
    and span: "\<forall>ev\<in>set evs. a \<le> event_time ev \<and> event_time ev < a + len s"
  shows "int (granted s k evs) \<le> 2 * lim s"
proof (cases evs)
  case (Cons ev rest)
  show ?thesis
  proof (cases "\<exists>e c. win s k = Some (e, c) \<and> live (event_time ev) e")
    case False
    then have "int (granted s k evs) \<le> lim s" using granted_from [of s ev rest a k] assms Cons by blast
    then show ?thesis using assms(1) by simp
  next
    case True
    then obtain e c0 where w: "win s k = Some (e, c0)" "live (event_time ev) e" by blast
    define now where "now = takeWhile (\<lambda>x. live (event_time x) e) evs"
    define later where "later = dropWhile (\<lambda>x. live (event_time x) e) evs"
    have split: "evs = now @ later" by (simp add: now_def later_def)
    have lives: "\<forall>x\<in>set now. live (event_time x) e" by (auto simp: now_def dest: set_takeWhileD)
    have "int (granted s k now) \<le> max (lim s - c0) 0" using w(1) lives by (rule granted_in_window)
    then have one: "int (granted s k now) \<le> lim s" using assms(1) c [OF w(1)] by linarith
    have "int (granted (after s now) k later) \<le> lim s"
    proof (cases later)
      case (Cons x xs)
      have dead: "\<not> live (event_time x) e" using Cons later_def by (metis hd_dropWhile list.discI list.sel(1))
      obtain c' where c': "win (after s now) k = Some (e, c')" using win_after [OF w(1) lives] by blast
      have "sorted (map event_time later)" "set later \<subseteq> set evs" using srt split by (auto simp: sorted_append)
      then show ?thesis
        using granted_from [of "after s now" x xs a k] Cons c' dead assms(1,2) span by (auto simp: const_after)
    qed (use assms(1) in simp)
    then show ?thesis using one by (simp add: split granted_append)
  qed
qed (use assms(1) in simp)

text \<open>Counts never become negative.\<close>

definition counts_ok :: "'s \<Rightarrow> bool" where
  "counts_ok s \<longleftrightarrow> 1 \<le> lim s \<and> (\<forall>k e c. win s k = Some (e, c) \<longrightarrow> 0 \<le> c)"

lemma counts_ok_step: "counts_ok s \<Longrightarrow> counts_ok (snd (step s ev))"
proof (cases ev)
  case (Sweep t)
  assume ok: "counts_ok s"
  have "0 \<le> c" if "win (sweep s t) k = Some (e, c)" for k e c
    using sweep_dead [OF that] ok by (simp add: counts_ok_def)
  then show ?thesis using ok by (simp add: counts_ok_def Sweep const_sweep)
next
  case (Ask t k)
  assume ok: "counts_ok s"
  have "0 \<le> c" if w: "win (snd (allow s t k)) k' = Some (e, c)" for k' e c
  proof (cases "k' = k")
    case False
    then show ?thesis using allow_other_dead [OF False w] ok by (auto simp: counts_ok_def)
  next
    case True
    show ?thesis
    proof (cases "\<exists>e c. win s k = Some (e, c) \<and> live t e")
      case False
      then have "win (snd (allow s t k)) k = Some (t + len s, 1)" using ok by (intro allow_new_window) (auto simp: counts_ok_def)
      then show ?thesis using w \<open>k' = k\<close> by simp
    next
      case True
      then obtain e0 c0 where l: "win s k = Some (e0, c0)" "live t e0" by blast
      then have "0 \<le> c0" using ok by (auto simp: counts_ok_def)
      then show ?thesis using allow_in_window [OF l] w \<open>k' = k\<close> by (auto split: if_splits)
    qed
  qed
  then show ?thesis using ok by (auto simp: counts_ok_def Ask const_allow)
qed

lemma counts_ok_after: "counts_ok s \<Longrightarrow> counts_ok (after s evs)"
  by (induction evs arbitrary: s) (auto intro: counts_ok_step)

lemma granted_after:
  assumes "counts_ok s" "0 < len s" "sorted (map event_time evs)"
    and "\<forall>ev\<in>set evs. a \<le> event_time ev \<and> event_time ev < a + len s"
  shows "int (granted (after s pre) k evs) \<le> 2 * lim s"
  using granted_bound [of "after s pre" k evs a] counts_ok_after [OF assms(1), of pre] assms
  by (auto simp: counts_ok_def const_after)

end

section \<open>Both counters keep the promise\<close>

definition at_win :: "attempts \<Rightarrow> string \<Rightarrow> (int \<times> int) option" where
  "at_win a k = map_option (\<lambda>w. (aw_end w, aw_count w)) (fmlookup (at_windows a) k)"

definition rl_win :: "mem_limiter \<Rightarrow> string \<Rightarrow> (int \<times> int) option" where
  "rl_win l k = map_option (\<lambda>c. (mc_expiry c, mc_count c)) (fmlookup (rl_m l) k)"

lemma fmlookup_at_sweep:
  "fmlookup (at_sweep ws now) k = (case fmlookup ws k of None \<Rightarrow> None | Some w \<Rightarrow> if now < aw_end w then Some w else None)"
  by (simp add: at_sweep_def split: option.split)

lemma fmlookup_rl_sweep:
  "fmlookup (rl_m (rl_sweep l now)) k =
     (case fmlookup (rl_m l) k of None \<Rightarrow> None | Some c \<Rightarrow> if now > mc_expiry c then None else Some c)"
  by (simp add: rl_sweep_def split: option.split)

interpretation limiter: fixed_window rl_Allow rl_sweep "\<lambda>t e. \<not> t > e" rl_win rl_limit rl_window
proof unfold_locales
  show "rl_limit (snd (rl_Allow s t k)) = rl_limit s" "rl_window (snd (rl_Allow s t k)) = rl_window s" for s t k
    by (auto simp: rl_Allow_def Let_def split: option.split)
  show "rl_limit (rl_sweep s t) = rl_limit s" "rl_window (rl_sweep s t) = rl_window s" for s t
    by (simp_all add: rl_sweep_def)
  show "rl_win (rl_sweep s t) k = Some (e, c)" if "rl_win s k = Some (e, c)" "\<not> t > e" for s k e c t
    using that by (auto simp: rl_win_def fmlookup_rl_sweep split: option.split)
  show "rl_win s k = Some (e, c)" if "rl_win (rl_sweep s t) k = Some (e, c)" for s t k e c
    using that by (auto simp: rl_win_def fmlookup_rl_sweep split: option.splits if_splits)
qed (auto simp: rl_Allow_def rl_win_def Let_def split: option.splits if_splits)

text \<open>The verdict of \<^verbatim>\<open>allow\<close> without the end of the window.\<close>

definition at_verdict :: "attempts \<Rightarrow> int \<Rightarrow> string \<Rightarrow> bool \<times> attempts" where
  "at_verdict a now login = (snd (fst (at_allow a now login)), snd (at_allow a now login))"

interpretation attempt: fixed_window at_verdict "\<lambda>a t. a" "\<lambda>t e. t < e" at_win at_limit "\<lambda>_. attemptWindow"
  by unfold_locales (auto simp: at_verdict_def at_allow_def at_win_def Let_def fmlookup_at_sweep split: option.splits if_splits)

text \<open>
  C38: neither counter lets a key through more than twice its limit in any stretch of time no longer than its
  window, whatever was asked before, for this key and for others, and whenever the sweeper ran: for the limiter of the
  middleware from the state its constructor makes, and for the counter of sign-in attempts.
\<close>

theorem windows_bounded:
  assumes "sorted (map event_time evs)" and "1 \<le> perMinute"
    and "\<forall>ev\<in>set evs. a \<le> event_time ev \<and> event_time ev < a + len"
    and "len \<le> rl_window (NewInMemoryLimiter limit window)" "len \<le> attemptWindow"
  shows "int (limiter.granted (limiter.after (NewInMemoryLimiter limit window) pre) key evs)
      \<le> 2 * rl_limit (NewInMemoryLimiter limit window)
    \<and> int (attempt.granted (attempt.after (newAttempts perMinute) pre) key evs) \<le> 2 * perMinute"
proof
  have span: "\<forall>ev\<in>set evs. a \<le> event_time ev \<and> event_time ev < a + l" if "len \<le> l" for l
    using assms(3) that by fastforce
  show "int (limiter.granted (limiter.after (NewInMemoryLimiter limit window) pre) key evs)
      \<le> 2 * rl_limit (NewInMemoryLimiter limit window)"
    using assms(1) span [OF assms(4)]
    by (intro limiter.granted_after) (auto simp: limiter.counts_ok_def NewInMemoryLimiter_def rl_win_def)
  have "int (attempt.granted (attempt.after (newAttempts perMinute) pre) key evs) \<le> 2 * at_limit (newAttempts perMinute)"
    using assms(1,2) span [OF assms(5)]
    by (intro attempt.granted_after) (auto simp: attempt.counts_ok_def newAttempts_def at_win_def attemptWindow_def)
  then show "int (attempt.granted (attempt.after (newAttempts perMinute) pre) key evs) \<le> 2 * perMinute"
    by (simp add: newAttempts_def)
qed

theorem windows_bounded_witness:
  "int (limiter.granted (limiter.after (NewInMemoryLimiter 1 minute) [Ask 0 ''ana'']) ''ana'' [Ask 5 ''ana'', Sweep 6, Ask 7 ''ana'']) \<le> 2
   \<and> int (attempt.granted (attempt.after (newAttempts 1) [Ask 0 ''ana'']) ''ana'' [Ask 5 ''ana'', Sweep 6, Ask 7 ''ana'']) \<le> 2"
  using windows_bounded [of "[Ask 5 ''ana'', Sweep 6, Ask 7 ''ana'']" 1 0 minute 1 minute "[Ask 0 ''ana'']" "''ana''"]
  by (simp add: NewInMemoryLimiter_def attemptWindow_def minute_def second_def)

end
