(* ===== verification/IdentityStore.thy ===== *)
theory IdentityStore
  imports Account
begin

text \<open>
  The stores of the identity core: the ports of \<^verbatim>\<open>identity/account/ports.go\<close> as a record of
  operations on a state, and the memory stores of \<^verbatim>\<open>identity/identitytest/stores.go\<close>
  (accounts, sign-in history, sessions), which implement them. A mutex held for the whole method makes each operation
  one step. A loop over the map of accounts that looks for a login or an address is a search in the order of the keys:
  both are unique, so the order Go leaves open does not matter.

  \<^verbatim>\<open>NewToken\<close> draws from \<^verbatim>\<open>crypto/rand\<close>; the source of tokens is part of the state,
  a sequence of answers.
\<close>

section \<open>The ports\<close>

record changes =
  chg_Login :: "string option"
  chg_Email :: "string option"
  chg_Name :: "string option"
  chg_Phone :: "string option"
  chg_Locale :: "string option"

datatype change_action =
  ChangeCreated | ChangeUpdated | ChangeDeactivated | ChangeActivated | ChangePassword_action | ChangeEmail | ChangeProfile

text \<open>One change to an account, for its history. A map of field values is the list of its pairs.\<close>

record change =
  ch_AccountID :: int
  ch_ActorID :: int
  ch_Action :: change_action
  ch_Fields :: "string list"
  ch_Before :: "(string \<times> string) list"
  ch_After :: "(string \<times> string) list"

record change_entry =
  ce_ID :: int
  ce_Change :: change
  ce_At :: int

record 's id_ops =
  id_Find :: "'s \<Rightarrow> int \<Rightarrow> account result"
  id_FindByLogin :: "'s \<Rightarrow> string \<Rightarrow> account result"
  id_FindByEmail :: "'s \<Rightarrow> string \<Rightarrow> account result"
  id_Create :: "'s \<Rightarrow> account \<Rightarrow> account result \<times> 's"
  id_Update :: "'s \<Rightarrow> int \<Rightarrow> changes \<Rightarrow> unit result \<times> 's"
  id_SetActive :: "'s \<Rightarrow> int \<Rightarrow> bool \<Rightarrow> unit result \<times> 's"
  id_SetPasswordHash :: "'s \<Rightarrow> int \<Rightarrow> string \<Rightarrow> unit result \<times> 's"
  id_SetLocale :: "'s \<Rightarrow> int \<Rightarrow> string \<Rightarrow> unit result \<times> 's"
  id_Record :: "'s \<Rightarrow> sign_in_entry \<Rightarrow> unit result \<times> 's"
  id_LockEvents :: "'s \<Rightarrow> int \<Rightarrow> int \<Rightarrow> sign_in_entry list result"
  id_Open :: "'s \<Rightarrow> new_session \<Rightarrow> credentials result \<times> 's"
  id_Get :: "'s \<Rightarrow> string \<Rightarrow> int \<Rightarrow> session result"
  id_Touch :: "'s \<Rightarrow> int \<Rightarrow> int \<Rightarrow> string \<Rightarrow> unit result \<times> 's"
  id_Rotate :: "'s \<Rightarrow> rotation \<Rightarrow> (session \<times> credentials) result \<times> 's"
  id_Live :: "'s \<Rightarrow> int \<Rightarrow> int \<Rightarrow> session list result"
  id_End :: "'s \<Rightarrow> int \<Rightarrow> int list \<Rightarrow> int \<Rightarrow> int \<Rightarrow> int result \<times> 's"
  id_EndOpenedBy :: "'s \<Rightarrow> int \<Rightarrow> int \<Rightarrow> session list result \<times> 's"
  id_Change :: "'s \<Rightarrow> change \<Rightarrow> unit result \<times> 's"

section \<open>Accounts in memory\<close>

record mem_accounts =
  ma_next :: int
  ma_rows :: "(int, account) gomap"

definition NewAccounts :: mem_accounts where
  "NewAccounts = \<lparr>ma_next = 1, ma_rows = fmempty\<rparr>"

definition ma_Find :: "mem_accounts \<Rightarrow> int \<Rightarrow> account result" where
  "ma_Find s i = (case fmlookup (ma_rows s) i of None \<Rightarrow> Inl (Sentinel ErrNotFound) | Some a \<Rightarrow> Inr a)"

definition ma_FindByLogin :: "(string \<Rightarrow> string) \<Rightarrow> mem_accounts \<Rightarrow> string \<Rightarrow> account result" where
  "ma_FindByLogin uni s login =
     (case List.find (\<lambda>a. ac_Login a = NormalizeLogin uni login) (map_values (ma_rows s)) of
        None \<Rightarrow> Inl (Sentinel ErrNotFound) | Some a \<Rightarrow> Inr a)"

definition ma_FindMany :: "mem_accounts \<Rightarrow> int list \<Rightarrow> account list" where
  "ma_FindMany s ids = List.map_filter (fmlookup (ma_rows s)) ids"

definition emailUsed :: "mem_accounts \<Rightarrow> string \<Rightarrow> int \<Rightarrow> bool" where
  "emailUsed s email except =
     (email \<noteq> [] \<and> list_ex (\<lambda>a. ac_ID a \<noteq> except \<and> ac_Email a = email) (map_values (ma_rows s)))"

definition ma_Create :: "(string \<Rightarrow> string) \<Rightarrow> mem_accounts \<Rightarrow> account \<Rightarrow> account result \<times> mem_accounts" where
  "ma_Create uni s a0 =
     (let a1 = a0\<lparr>ac_Login := NormalizeLogin uni (ac_Login a0)\<rparr> in
      if list_ex (\<lambda>o'. ac_Login o' = ac_Login a1) (map_values (ma_rows s)) then (Inl (Sentinel ErrLoginTaken), s)
      else
        let a2 = a1\<lparr>ac_Email := NormalizeEmail uni (ac_Email a1)\<rparr> in
        if emailUsed s (ac_Email a2) 0 then (Inl (Sentinel ErrEmailTaken), s)
        else
          let a = (if ac_ID a2 = 0 then a2\<lparr>ac_ID := ma_next s\<rparr> else a2)
          in (Inr a, s\<lparr>ma_next := max (ma_next s) (ac_ID a) + 1, ma_rows := fmupd (ac_ID a) a (ma_rows s)\<rparr>))"

definition ma_update :: "mem_accounts \<Rightarrow> int \<Rightarrow> (account \<Rightarrow> account) \<Rightarrow> unit result \<times> mem_accounts" where
  "ma_update s i fn =
     (case fmlookup (ma_rows s) i of
        None \<Rightarrow> (Inl (Sentinel ErrNotFound), s)
      | Some a \<Rightarrow> (Inr (), s\<lparr>ma_rows := fmupd i (fn a) (ma_rows s)\<rparr>))"

definition ma_SetLocale :: "mem_accounts \<Rightarrow> int \<Rightarrow> string \<Rightarrow> unit result \<times> mem_accounts" where
  "ma_SetLocale s i locale = ma_update s i (\<lambda>a. a\<lparr>ac_Locale := locale\<rparr>)"

definition ma_SetPasswordHash :: "mem_accounts \<Rightarrow> int \<Rightarrow> string \<Rightarrow> unit result \<times> mem_accounts" where
  "ma_SetPasswordHash s i hash = ma_update s i (\<lambda>a. a\<lparr>ac_PasswordHash := hash\<rparr>)"

definition ma_SetActive :: "mem_accounts \<Rightarrow> int \<Rightarrow> bool \<Rightarrow> unit result \<times> mem_accounts" where
  "ma_SetActive s i active = ma_update s i (\<lambda>a. a\<lparr>ac_Active := active\<rparr>)"

text \<open>\<open>foldeq\<close> is \<^verbatim>\<open>strings.EqualFold\<close>, equality under the case folding of Unicode.\<close>

definition ma_FindByEmail :: "(string \<Rightarrow> string \<Rightarrow> bool) \<Rightarrow> mem_accounts \<Rightarrow> string \<Rightarrow> account result" where
  "ma_FindByEmail foldeq s email =
     (case List.find (\<lambda>a. foldeq (ac_Email a) (TrimSpace email)) (map_values (ma_rows s)) of
        None \<Rightarrow> Inl (Sentinel ErrNotFound) | Some a \<Rightarrow> Inr a)"

definition set_field :: "string option \<Rightarrow> string \<Rightarrow> string" where
  "set_field v old = (case v of None \<Rightarrow> old | Some new \<Rightarrow> new)"

definition ma_Update :: "(string \<Rightarrow> string) \<Rightarrow> mem_accounts \<Rightarrow> int \<Rightarrow> changes \<Rightarrow> unit result \<times> mem_accounts" where
  "ma_Update uni s i c =
     (case fmlookup (ma_rows s) i of
        None \<Rightarrow> (Inl (Sentinel ErrNotFound), s)
      | Some a \<Rightarrow>
          let login = map_option (NormalizeLogin uni) (chg_Login c);
              email = map_option (NormalizeEmail uni) (chg_Email c) in
          if login \<noteq> None \<and> list_ex (\<lambda>o'. ac_ID o' \<noteq> i \<and> ac_Login o' = the login) (map_values (ma_rows s))
          then (Inl (Sentinel ErrLoginTaken), s)
          else if email \<noteq> None \<and> emailUsed s (the email) i then (Inl (Sentinel ErrEmailTaken), s)
          else (Inr (), s\<lparr>ma_rows := fmupd i
            (a\<lparr>ac_Login := set_field login (ac_Login a), ac_Email := set_field email (ac_Email a),
               ac_Name := set_field (chg_Name c) (ac_Name a), ac_Phone := set_field (chg_Phone c) (ac_Phone a),
               ac_Locale := set_field (chg_Locale c) (ac_Locale a)\<rparr>) (ma_rows s)\<rparr>))"

section \<open>The sign-in history in memory\<close>

type_synonym mem_signins = "sign_in_entry list"

definition si_Record :: "mem_signins \<Rightarrow> sign_in_entry \<Rightarrow> mem_signins" where
  "si_Record rows row = rows @ [row\<lparr>en_ID := int (length rows) + 1\<rparr>]"

text \<open>The loop breaks once \<open>n\<close> rows are collected; with \<open>n\<close> below 1 it never does.\<close>

definition si_LockEvents :: "mem_signins \<Rightarrow> int \<Rightarrow> int \<Rightarrow> sign_in_entry list" where
  "si_LockEvents rows accountID n =
     (let all = filter (\<lambda>r. en_AccountID r = accountID \<and> LockEvent (en_Event r)) (rev rows)
      in if n \<ge> 1 then take (nat n) all else all)"

record sign_in_query =
  sq_AccountID :: int
  sq_Events :: "sign_in_event list"
  sq_Offset :: nat
  sq_Limit :: nat

definition si_Entries :: "mem_signins \<Rightarrow> sign_in_query \<Rightarrow> sign_in_entry list \<times> nat" where
  "si_Entries rows q =
     (let mine = filter (\<lambda>r. en_AccountID r = sq_AccountID q \<and> (sq_Events q = [] \<or> en_Event r \<in> set (sq_Events q))) (rev rows)
      in (take (sq_Limit q) (drop (sq_Offset q) mine), length mine))"

definition si_LastSignIns :: "mem_signins \<Rightarrow> int list \<Rightarrow> (int, int) gomap" where
  "si_LastSignIns rows ids =
     foldl (\<lambda>m r. if en_Event r = SignedIn \<and> en_AccountID r \<in> set ids then fmupd (en_AccountID r) (en_CreatedAt r) m else m)
       fmempty rows"

definition si_WrongPasswordsSince :: "mem_signins \<Rightarrow> int \<Rightarrow> int list" where
  "si_WrongPasswordsSince rows since =
     foldl (\<lambda>ids r. if en_Event r = WrongPassword \<and> en_CreatedAt r > since \<and> en_AccountID r \<notin> set ids
       then ids @ [en_AccountID r] else ids) [] rows"

section \<open>Sessions in memory\<close>

record session_row =
  sr_Session :: session
  sr_access :: string
  sr_refresh :: string
  sr_revoked :: bool

record mem_sessions =
  ms_rows :: "session_row list"
  ms_tokens :: "nat \<Rightarrow> string result"
  ms_drawn :: nat

definition NewToken :: "mem_sessions \<Rightarrow> string result \<times> mem_sessions" where
  "NewToken s = (ms_tokens s (ms_drawn s), s\<lparr>ms_drawn := ms_drawn s + 1\<rparr>)"

definition sr_live :: "session_row \<Rightarrow> int \<Rightarrow> bool" where
  "sr_live r now = (\<not> sr_revoked r \<and> now < se_ExpiresAt (sr_Session r))"

definition opened :: "int \<Rightarrow> new_session \<Rightarrow> string \<Rightarrow> string \<Rightarrow> session_row" where
  "opened i n access refresh = \<lparr>
     sr_Session = \<lparr>se_ID = i, se_AccountID = ns_AccountID n, se_ActorID = ns_ActorID n, se_Device = ns_Device n, se_IP = ns_IP n,
       se_LastUsedAt = ns_At n, se_ExpiresAt = ns_ExpiresAt n, se_CreatedAt = ns_At n\<rparr>,
     sr_access = access, sr_refresh = refresh, sr_revoked = False\<rparr>"

definition ss_Open :: "mem_sessions \<Rightarrow> new_session \<Rightarrow> credentials result \<times> mem_sessions" where
  "ss_Open s n =
     st_bind (NewToken s) (\<lambda>access s1. st_bind (NewToken s1) (\<lambda>refresh s2.
       (Inr \<lparr>cr_Access = access, cr_Refresh = refresh, cr_ExpiresAt = ns_ExpiresAt n\<rparr>,
        s2\<lparr>ms_rows := ms_rows s2 @ [opened (int (length (ms_rows s2)) + 1) n access refresh]\<rparr>)))"

definition ss_Get :: "mem_sessions \<Rightarrow> string \<Rightarrow> int \<Rightarrow> session result" where
  "ss_Get s accessToken now =
     (case List.find (\<lambda>r. sr_access r = accessToken \<and> sr_live r now) (ms_rows s) of
        None \<Rightarrow> Inl (Sentinel ErrSessionNotFound) | Some r \<Rightarrow> Inr (sr_Session r))"

definition ss_Touch :: "mem_sessions \<Rightarrow> int \<Rightarrow> int \<Rightarrow> string \<Rightarrow> mem_sessions" where
  "ss_Touch s sessionID t ip =
     s\<lparr>ms_rows := map (\<lambda>r. if se_ID (sr_Session r) = sessionID
        then r\<lparr>sr_Session := (sr_Session r)\<lparr>se_LastUsedAt := t, se_IP := ip\<rparr>\<rparr> else r) (ms_rows s)\<rparr>"

text \<open>The first row with the refresh token that is live is rotated in place; the loop returns there.\<close>

definition rotated :: "rotation \<Rightarrow> string \<Rightarrow> string \<Rightarrow> session_row \<Rightarrow> session_row" where
  "rotated rot access refresh r =
     r\<lparr>sr_access := access, sr_refresh := refresh,
       sr_Session := (sr_Session r)\<lparr>se_ExpiresAt := ro_ExpiresAt rot, se_LastUsedAt := ro_At rot, se_IP := ro_IP rot,
         se_Device := (if ro_Device rot \<noteq> [] then ro_Device rot else se_Device (sr_Session r))\<rparr>\<rparr>"

fun rotate_rows :: "rotation \<Rightarrow> string \<Rightarrow> string \<Rightarrow> session_row list \<Rightarrow> (session_row list \<times> session) option" where
  "rotate_rows rot access refresh [] = None"
| "rotate_rows rot access refresh (r # rs) =
     (if sr_refresh r \<noteq> ro_Refresh rot \<or> \<not> sr_live r (ro_At rot)
      then map_option (\<lambda>(rs', x). (r # rs', x)) (rotate_rows rot access refresh rs)
      else let r' = rotated rot access refresh r in Some (r' # rs, sr_Session r'))"

definition ss_Rotate :: "mem_sessions \<Rightarrow> rotation \<Rightarrow> (session \<times> credentials) result \<times> mem_sessions" where
  "ss_Rotate s rot =
     st_bind (NewToken s) (\<lambda>access s1. st_bind (NewToken s1) (\<lambda>refresh s2.
       case rotate_rows rot access refresh (ms_rows s2) of
         None \<Rightarrow> (Inl (Sentinel ErrSessionNotFound), s2)
       | Some (rows, x) \<Rightarrow>
           (Inr (x, \<lparr>cr_Access = access, cr_Refresh = refresh, cr_ExpiresAt = ro_ExpiresAt rot\<rparr>), s2\<lparr>ms_rows := rows\<rparr>)))"

text \<open>The live sessions of an account, the latest used first (a stable sort).\<close>

definition ss_Live :: "mem_sessions \<Rightarrow> int \<Rightarrow> int \<Rightarrow> session list" where
  "ss_Live s accountID now =
     sort_key (\<lambda>x. - se_LastUsedAt x)
       (map sr_Session (filter (\<lambda>r. se_AccountID (sr_Session r) = accountID \<and> sr_live r now) (ms_rows s)))"

definition ends :: "int \<Rightarrow> int list \<Rightarrow> int \<Rightarrow> int \<Rightarrow> session_row \<Rightarrow> bool" where
  "ends accountID ids keep now r =
     (\<not> (se_AccountID (sr_Session r) \<noteq> accountID \<or> \<not> sr_live r now \<or> se_ID (sr_Session r) = keep
        \<or> (ids \<noteq> [] \<and> se_ID (sr_Session r) \<notin> set ids)))"

definition ss_End :: "mem_sessions \<Rightarrow> int \<Rightarrow> int list \<Rightarrow> int \<Rightarrow> int \<Rightarrow> int \<times> mem_sessions" where
  "ss_End s accountID ids keep now =
     (int (length (filter (ends accountID ids keep now) (ms_rows s))),
      s\<lparr>ms_rows := map (\<lambda>r. if ends accountID ids keep now r then r\<lparr>sr_revoked := True\<rparr> else r) (ms_rows s)\<rparr>)"

definition ss_EndOpenedBy :: "mem_sessions \<Rightarrow> int \<Rightarrow> int \<Rightarrow> session list \<times> mem_sessions" where
  "ss_EndOpenedBy s actorID now =
     (let theirs = (\<lambda>r. se_ActorID (sr_Session r) = actorID \<and> sr_live r now)
      in (map sr_Session (filter theirs (ms_rows s)),
          s\<lparr>ms_rows := map (\<lambda>r. if theirs r then r\<lparr>sr_revoked := True\<rparr> else r) (ms_rows s)\<rparr>))"

section \<open>The changes in memory\<close>

text \<open>The log stamps a change with its own reading of the clock.\<close>

record mem_changes =
  cl_clock :: "nat \<Rightarrow> int"
  cl_ticks :: nat
  cl_rows :: "change_entry list"

definition cl_Record :: "mem_changes \<Rightarrow> change \<Rightarrow> mem_changes" where
  "cl_Record l c =
     l\<lparr>cl_ticks := cl_ticks l + 1,
       cl_rows := cl_rows l @ [\<lparr>ce_ID = int (length (cl_rows l)) + 1, ce_Change = c, ce_At = cl_clock l (cl_ticks l)\<rparr>]\<rparr>"

record change_query =
  cq_AccountID :: int
  cq_Only :: "change_action list"
  cq_Except :: "change_action list"
  cq_Offset :: nat
  cq_Limit :: nat

definition cl_Changes :: "mem_changes \<Rightarrow> change_query \<Rightarrow> change_entry list \<times> nat" where
  "cl_Changes l q =
     (let mine = filter (\<lambda>r. ch_AccountID (ce_Change r) = cq_AccountID q
            \<and> (cq_Only q = [] \<or> ch_Action (ce_Change r) \<in> set (cq_Only q))
            \<and> ch_Action (ce_Change r) \<notin> set (cq_Except q)) (rev (cl_rows l))
      in (take (cq_Limit q) (drop (cq_Offset q) mine), length mine))"

section \<open>The memory stores as ports\<close>

record mem_identity =
  mi_accounts :: mem_accounts
  mi_signins :: mem_signins
  mi_sessions :: mem_sessions
  mi_changes :: mem_changes

definition on_accounts :: "(mem_accounts \<Rightarrow> 'a \<times> mem_accounts) \<Rightarrow> mem_identity \<Rightarrow> 'a \<times> mem_identity" where
  "on_accounts f s = (case f (mi_accounts s) of (r, a) \<Rightarrow> (r, s\<lparr>mi_accounts := a\<rparr>))"

definition on_sessions :: "(mem_sessions \<Rightarrow> 'a \<times> mem_sessions) \<Rightarrow> mem_identity \<Rightarrow> 'a \<times> mem_identity" where
  "on_sessions f s = (case f (mi_sessions s) of (r, a) \<Rightarrow> (r, s\<lparr>mi_sessions := a\<rparr>))"

definition mem_id_ops :: "(string \<Rightarrow> string) \<Rightarrow> (string \<Rightarrow> string \<Rightarrow> bool) \<Rightarrow> mem_identity id_ops" where
  "mem_id_ops uni foldeq = \<lparr>
     id_Find = \<lambda>s. ma_Find (mi_accounts s),
     id_FindByLogin = \<lambda>s. ma_FindByLogin uni (mi_accounts s),
     id_FindByEmail = \<lambda>s. ma_FindByEmail foldeq (mi_accounts s),
     id_Create = \<lambda>s a. on_accounts (\<lambda>m. ma_Create uni m a) s,
     id_Update = \<lambda>s i c. on_accounts (\<lambda>m. ma_Update uni m i c) s,
     id_SetActive = \<lambda>s i b. on_accounts (\<lambda>a. ma_SetActive a i b) s,
     id_SetPasswordHash = \<lambda>s i h. on_accounts (\<lambda>a. ma_SetPasswordHash a i h) s,
     id_SetLocale = \<lambda>s i l. on_accounts (\<lambda>a. ma_SetLocale a i l) s,
     id_Record = \<lambda>s row. (Inr (), s\<lparr>mi_signins := si_Record (mi_signins s) row\<rparr>),
     id_LockEvents = \<lambda>s a n. Inr (si_LockEvents (mi_signins s) a n),
     id_Open = \<lambda>s n. on_sessions (\<lambda>x. ss_Open x n) s,
     id_Get = \<lambda>s t now. ss_Get (mi_sessions s) t now,
     id_Touch = \<lambda>s i t ip. (Inr (), s\<lparr>mi_sessions := ss_Touch (mi_sessions s) i t ip\<rparr>),
     id_Rotate = \<lambda>s r. on_sessions (\<lambda>x. ss_Rotate x r) s,
     id_Live = \<lambda>s a now. Inr (ss_Live (mi_sessions s) a now),
     id_End = \<lambda>s a ids keep now. on_sessions (\<lambda>x. map_prod Inr id (ss_End x a ids keep now)) s,
     id_EndOpenedBy = \<lambda>s a now. on_sessions (\<lambda>x. map_prod Inr id (ss_EndOpenedBy x a now)) s,
     id_Change = \<lambda>s c. (Inr (), s\<lparr>mi_changes := cl_Record (mi_changes s) c\<rparr>)\<rparr>"

section \<open>What the services rely on\<close>

text \<open>
  The contract of the stores. What a store keeps has three parts, and no operation changes two of them: the sessions,
  the accounts and the history of lock events. A token that is spent at an instant, by a rotation, an ending, a
  revocation or because its session has run out, is refused from that instant on, by every operation and whatever
  happens next. An account that is not active is found as such. What is recorded is what the lock reads.
\<close>

locale id_store =
  fixes ops :: "'s id_ops" and sess :: "'s \<Rightarrow> 'x" and accts :: "'s \<Rightarrow> 'y" and hist :: "'s \<Rightarrow> int \<Rightarrow> sign_in_entry list"
    and sess_ok :: "'x \<Rightarrow> bool" and spent :: "'x \<Rightarrow> string \<Rightarrow> int \<Rightarrow> bool" and accts_ok :: "'y \<Rightarrow> bool" and inact :: "'y \<Rightarrow> int \<Rightarrow> bool"
  assumes only_Record: "sess (snd (id_Record ops s row)) = sess s \<and> accts (snd (id_Record ops s row)) = accts s"
    and only_Change: "sess (snd (id_Change ops s c)) = sess s \<and> accts (snd (id_Change ops s c)) = accts s \<and> hist (snd (id_Change ops s c)) = hist s"
    and only_SetActive: "sess (snd (id_SetActive ops s i b)) = sess s \<and> hist (snd (id_SetActive ops s i b)) = hist s"
    and only_SetPasswordHash: "sess (snd (id_SetPasswordHash ops s i h)) = sess s \<and> hist (snd (id_SetPasswordHash ops s i h)) = hist s"
    and only_SetLocale: "sess (snd (id_SetLocale ops s i h)) = sess s \<and> hist (snd (id_SetLocale ops s i h)) = hist s"
    and only_Update: "sess (snd (id_Update ops s i chg)) = sess s \<and> hist (snd (id_Update ops s i chg)) = hist s"
    and only_Create: "sess (snd (id_Create ops s a)) = sess s \<and> hist (snd (id_Create ops s a)) = hist s"
    and only_Open: "accts (snd (id_Open ops s ns)) = accts s \<and> hist (snd (id_Open ops s ns)) = hist s"
    and only_Touch: "accts (snd (id_Touch ops s i u ip)) = accts s \<and> hist (snd (id_Touch ops s i u ip)) = hist s"
    and only_Rotate: "accts (snd (id_Rotate ops s r)) = accts s \<and> hist (snd (id_Rotate ops s r)) = hist s"
    and only_End: "accts (snd (id_End ops s i ids keep now)) = accts s \<and> hist (snd (id_End ops s i ids keep now)) = hist s"
    and only_EndOpenedBy: "accts (snd (id_EndOpenedBy ops s i now)) = accts s \<and> hist (snd (id_EndOpenedBy ops s i now)) = hist s"
    and ok_Open: "sess_ok (sess s) \<Longrightarrow> sess_ok (sess (snd (id_Open ops s ns)))"
    and ok_Touch: "sess_ok (sess s) \<Longrightarrow> sess_ok (sess (snd (id_Touch ops s i u ip)))"
    and ok_Rotate: "sess_ok (sess s) \<Longrightarrow> sess_ok (sess (snd (id_Rotate ops s r)))"
    and ok_End: "sess_ok (sess s) \<Longrightarrow> sess_ok (sess (snd (id_End ops s i ids keep now)))"
    and ok_EndOpenedBy: "sess_ok (sess s) \<Longrightarrow> sess_ok (sess (snd (id_EndOpenedBy ops s i now)))"
    and spent_Open: "sess_ok (sess s) \<Longrightarrow> spent (sess s) t n \<Longrightarrow> spent (sess (snd (id_Open ops s ns))) t n"
    and spent_Touch: "spent (sess s) t n \<Longrightarrow> spent (sess (snd (id_Touch ops s i u ip))) t n"
    and spent_Rotate: "sess_ok (sess s) \<Longrightarrow> spent (sess s) t n \<Longrightarrow> n \<le> ro_At r \<Longrightarrow> spent (sess (snd (id_Rotate ops s r))) t n"
    and spent_End: "spent (sess s) t n \<Longrightarrow> spent (sess (snd (id_End ops s i ids keep now))) t n"
    and spent_EndOpenedBy: "spent (sess s) t n \<Longrightarrow> spent (sess (snd (id_EndOpenedBy ops s i now))) t n"
    and Get_spent: "spent (sess s) t n \<Longrightarrow> n \<le> now \<Longrightarrow> id_Get ops s t now = Inl (Sentinel ErrSessionNotFound)"
    and Rotate_spent: "spent (sess s) (ro_Refresh r) n \<Longrightarrow> n \<le> ro_At r \<Longrightarrow> \<not> is_ok (fst (id_Rotate ops s r))"
    and Rotate_spends: "sess_ok (sess s) \<Longrightarrow> id_Rotate ops s r = (Inr (x, cr), s') \<Longrightarrow>
      spent (sess s') (ro_Refresh r) n \<and> (\<forall>t now y. id_Get ops s t now = Inr y \<longrightarrow> se_ID y = se_ID x \<longrightarrow> spent (sess s') t n)"
    and End_spends: "sess_ok (sess s) \<Longrightarrow> id_End ops s i ids keep now = (Inr k, s') \<Longrightarrow> id_Get ops s t now' = Inr x \<Longrightarrow>
      se_AccountID x = i \<Longrightarrow> se_ID x \<noteq> keep \<Longrightarrow> ids = [] \<or> se_ID x \<in> set ids \<Longrightarrow> spent (sess s') t now"
    and EndOpenedBy_spends: "sess_ok (sess s) \<Longrightarrow> id_EndOpenedBy ops s i now = (Inr xs, s') \<Longrightarrow> id_Get ops s t now' = Inr x \<Longrightarrow>
      se_ActorID x = i \<Longrightarrow> spent (sess s') t now"
    and Get_ID: "sess_ok (sess s) \<Longrightarrow> id_Get ops s t now = Inr x \<Longrightarrow> 0 < se_ID x"
    and Get_sess: "sess s = sess s' \<Longrightarrow> id_Get ops s = id_Get ops s'"
    and End_leaves: "sess_ok (sess s) \<Longrightarrow> id_End ops s i ids keep now = (rk, s') \<Longrightarrow> id_Get ops s t now' = Inr x \<Longrightarrow>
      spent (sess s') t now \<or> id_Get ops s' t now' = Inr x"
    and accts_SetActive: "accts_ok (accts s) \<Longrightarrow> accts_ok (accts (snd (id_SetActive ops s i b)))"
    and accts_SetPasswordHash: "accts_ok (accts s) \<Longrightarrow> accts_ok (accts (snd (id_SetPasswordHash ops s i h)))"
    and accts_SetLocale: "accts_ok (accts s) \<Longrightarrow> accts_ok (accts (snd (id_SetLocale ops s i h)))"
    and accts_Update: "accts_ok (accts s) \<Longrightarrow> accts_ok (accts (snd (id_Update ops s i chg)))"
    and accts_Create: "accts_ok (accts s) \<Longrightarrow> accts_ok (accts (snd (id_Create ops s a)))"
    and inact_SetActive: "inact (accts s) j \<Longrightarrow> i \<noteq> j \<or> \<not> b \<Longrightarrow> inact (accts (snd (id_SetActive ops s i b))) j"
    and inact_SetPasswordHash: "inact (accts s) j \<Longrightarrow> inact (accts (snd (id_SetPasswordHash ops s i h))) j"
    and inact_SetLocale: "inact (accts s) j \<Longrightarrow> inact (accts (snd (id_SetLocale ops s i h))) j"
    and inact_Update: "inact (accts s) j \<Longrightarrow> inact (accts (snd (id_Update ops s i chg))) j"
    and inact_Create: "accts_ok (accts s) \<Longrightarrow> inact (accts s) j \<Longrightarrow> ac_ID a = 0 \<Longrightarrow> inact (accts (snd (id_Create ops s a))) j"
    and SetActive_inact: "id_SetActive ops s i False = (Inr (), s') \<Longrightarrow> inact (accts s') i"
    and Find_inact: "accts_ok (accts s) \<Longrightarrow> id_Find ops s i = Inr a \<Longrightarrow> ac_ID a = i \<and> (inact (accts s) i \<longrightarrow> \<not> ac_Active a)"
    and FindByLogin_inact: "accts_ok (accts s) \<Longrightarrow> id_FindByLogin ops s l = Inr a \<Longrightarrow> inact (accts s) (ac_ID a) \<Longrightarrow> \<not> ac_Active a"
    and LockEvents_hist: "1 \<le> m \<Longrightarrow> id_LockEvents ops s i m = Inr es \<Longrightarrow> es = take (nat m) (hist s i)"
    and hist_Record: "id_Record ops s row = (Inr (), s') \<Longrightarrow> \<exists>k. hist s' i =
      (if en_AccountID row = i \<and> LockEvent (en_Event row) then row\<lparr>en_ID := k\<rparr> # hist s i else hist s i)"
    and hist_Record_error: "id_Record ops s row = (Inl e, s') \<Longrightarrow> hist s' = hist s"

section \<open>The memory stores keep the contract\<close>

text \<open>The rows in the order they were opened, tokens drawn once and never twice.\<close>

definition row_tokens :: "session_row list \<Rightarrow> string list" where
  "row_tokens rows = concat (map (\<lambda>r. [sr_access r, sr_refresh r]) rows)"

definition drawn :: "mem_sessions \<Rightarrow> string set" where
  "drawn s = {t. \<exists>i < ms_drawn s. ms_tokens s i = Inr t}"

definition sessions_ok :: "mem_sessions \<Rightarrow> bool" where
  "sessions_ok s \<longleftrightarrow>
     (\<forall>i j t. ms_tokens s i = Inr t \<longrightarrow> ms_tokens s j = Inr t \<longrightarrow> i = j)
     \<and> distinct (row_tokens (ms_rows s)) \<and> set (row_tokens (ms_rows s)) \<subseteq> drawn s
     \<and> (\<forall>i < length (ms_rows s). se_ID (sr_Session (ms_rows s ! i)) = int i + 1)"

definition token_spent :: "mem_sessions \<Rightarrow> string \<Rightarrow> int \<Rightarrow> bool" where
  "token_spent s t n \<longleftrightarrow> t \<in> drawn s \<and> (\<forall>r \<in> set (ms_rows s). \<not> sr_live r n \<or> (sr_access r \<noteq> t \<and> sr_refresh r \<noteq> t))"

lemma row_tokens_simps [simp]:
  "row_tokens [] = []" "row_tokens (r # rs) = sr_access r # sr_refresh r # row_tokens rs"
  "row_tokens (rs @ qs) = row_tokens rs @ row_tokens qs"
  by (simp_all add: row_tokens_def)

lemma in_row_tokens: "t \<in> set (row_tokens rs) \<longleftrightarrow> (\<exists>r \<in> set rs. t = sr_access r \<or> t = sr_refresh r)"
  by (auto simp: row_tokens_def)

lemma row_tokens_map:
  "(\<And>r. sr_access (f r) = sr_access r \<and> sr_refresh (f r) = sr_refresh r) \<Longrightarrow> row_tokens (map f rs) = row_tokens rs"
  by (simp add: row_tokens_def comp_def)

lemma token_unique:
  assumes "distinct (row_tokens rs)" "r \<in> set rs" "q \<in> set rs" "t \<in> {sr_access r, sr_refresh r}" "t \<in> {sr_access q, sr_refresh q}"
  shows "r = q"
  using assms by (induction rs) (auto simp: in_row_tokens)

lemma NewToken_simps: "NewToken s = (r, s') \<longleftrightarrow> r = ms_tokens s (ms_drawn s) \<and> s' = s\<lparr>ms_drawn := ms_drawn s + 1\<rparr>"
  by (auto simp: NewToken_def)

lemma drawn_Suc: "drawn (s\<lparr>ms_drawn := Suc (ms_drawn s)\<rparr>) = drawn s \<union> {t. ms_tokens s (ms_drawn s) = Inr t}"
  by (auto simp: drawn_def less_Suc_eq)

lemma drawn_rows [simp]: "drawn (s\<lparr>ms_rows := rs\<rparr>) = drawn s" by (simp add: drawn_def)

text \<open>What every operation on the rows does to the token source: it only moves on.\<close>

lemma two_tokens:
  assumes "sessions_ok s" "ms_tokens s (ms_drawn s) = Inr a" "ms_tokens s (Suc (ms_drawn s)) = Inr b"
  shows "a \<noteq> b" "a \<notin> drawn s" "b \<notin> drawn s"
  using assms by (auto simp: sessions_ok_def drawn_def) (metis Suc_lessD less_irrefl n_not_Suc_n)+

lemma rotate_rows_Some:
  "rotate_rows rot a b rows = Some (rows', x) \<Longrightarrow>
     \<exists>pre r post. rows = pre @ r # post \<and> rows' = pre @ rotated rot a b r # post \<and> x = sr_Session (rotated rot a b r)
       \<and> sr_refresh r = ro_Refresh rot \<and> sr_live r (ro_At rot)"
proof (induction rows arbitrary: rows')
  case (Cons q qs)
  show ?case
  proof (cases "sr_refresh q \<noteq> ro_Refresh rot \<or> \<not> sr_live q (ro_At rot)")
    case True
    then obtain qs' where qs: "rotate_rows rot a b qs = Some (qs', x)" "rows' = q # qs'" using Cons.prems by auto
    from Cons.IH [OF qs(1)] obtain pre r post where "qs = pre @ r # post" "qs' = pre @ rotated rot a b r # post"
      "x = sr_Session (rotated rot a b r)" "sr_refresh r = ro_Refresh rot" "sr_live r (ro_At rot)" by blast
    then show ?thesis using qs(2) by (intro exI [of _ "q # pre"]) auto
  next
    case False
    then show ?thesis using Cons.prems by (intro exI [of _ "[]"]) (auto simp: Let_def)
  qed
qed simp

lemma opened_simps [simp]:
  "sr_access (opened i n a b) = a" "sr_refresh (opened i n a b) = b" "\<not> sr_revoked (opened i n a b)"
  "se_ID (sr_Session (opened i n a b)) = i"
  by (simp_all add: opened_def)

lemma rotated_simps [simp]:
  "sr_access (rotated rot a b r) = a" "sr_refresh (rotated rot a b r) = b" "sr_revoked (rotated rot a b r) = sr_revoked r"
  "se_ID (sr_Session (rotated rot a b r)) = se_ID (sr_Session r)"
  by (simp_all add: rotated_def)

text \<open>Both operations that draw tokens either stop at a failed draw, or go on with two fresh ones.\<close>

lemma ss_Rotate_cases:
  assumes "ss_Rotate s rot = (res, s')"
  obtains (stopped) k where "\<not> is_ok res" "s' = s\<lparr>ms_drawn := ms_drawn s + k\<rparr>"
    | (drew) a b pre r post where "ms_tokens s (ms_drawn s) = Inr a" "ms_tokens s (Suc (ms_drawn s)) = Inr b"
      "ms_rows s = pre @ r # post" "sr_refresh r = ro_Refresh rot" "sr_live r (ro_At rot)"
      "s' = s\<lparr>ms_drawn := Suc (Suc (ms_drawn s)), ms_rows := pre @ rotated rot a b r # post\<rparr>"
      "res = Inr (sr_Session (rotated rot a b r), \<lparr>cr_Access = a, cr_Refresh = b, cr_ExpiresAt = ro_ExpiresAt rot\<rparr>)"
proof (cases "ms_tokens s (ms_drawn s)")
  case (Inl e)
  then show ?thesis using assms stopped [of 1] by (auto simp: ss_Rotate_def NewToken_def)
next
  case a: (Inr a)
  show ?thesis
  proof (cases "ms_tokens s (Suc (ms_drawn s))")
    case (Inl e)
    then show ?thesis using a assms stopped [of 2] by (auto simp: ss_Rotate_def NewToken_def)
  next
    case b: (Inr b)
    show ?thesis
    proof (cases "rotate_rows rot a b (ms_rows s)")
      case None
      then show ?thesis using a b assms stopped [of 2] by (auto simp: ss_Rotate_def NewToken_def)
    next
      case (Some p)
      obtain rows x where p: "p = (rows, x)" by force
      from rotate_rows_Some [OF Some [unfolded p]] obtain pre r post where
        "ms_rows s = pre @ r # post" "rows = pre @ rotated rot a b r # post" "x = sr_Session (rotated rot a b r)"
        "sr_refresh r = ro_Refresh rot" "sr_live r (ro_At rot)" by blast
      then show ?thesis using a b assms Some p drew [of a b pre r post] by (auto simp: ss_Rotate_def NewToken_def)
    qed
  qed
qed

lemma ss_Open_cases:
  assumes "ss_Open s n = (res, s')"
  obtains (stopped) k where "\<not> is_ok res" "s' = s\<lparr>ms_drawn := ms_drawn s + k\<rparr>"
    | (drew) a b r where "ms_tokens s (ms_drawn s) = Inr a" "ms_tokens s (Suc (ms_drawn s)) = Inr b"
      "r = opened (int (length (ms_rows s)) + 1) n a b"
      "s' = s\<lparr>ms_drawn := Suc (Suc (ms_drawn s)), ms_rows := ms_rows s @ [r]\<rparr>"
proof (cases "ms_tokens s (ms_drawn s)")
  case (Inl e)
  then show ?thesis using assms stopped [of 1] by (auto simp: ss_Open_def NewToken_def)
next
  case a: (Inr a)
  show ?thesis
  proof (cases "ms_tokens s (Suc (ms_drawn s))")
    case (Inl e)
    then show ?thesis using a assms stopped [of 2] by (auto simp: ss_Open_def NewToken_def)
  next
    case b: (Inr b)
    show ?thesis using a b assms drew [of a b] by (auto simp: ss_Open_def NewToken_def)
  qed
qed

lemma drawn_mono: "drawn s \<subseteq> drawn (s\<lparr>ms_drawn := ms_drawn s + k\<rparr>)"
  by (auto simp: drawn_def intro: trans_less_add1)

lemma ok_stopped: "sessions_ok s \<Longrightarrow> sessions_ok (s\<lparr>ms_drawn := ms_drawn s + k\<rparr>)"
  using drawn_mono [of s k] by (auto simp: sessions_ok_def)

lemma spent_stopped: "token_spent s t n \<Longrightarrow> token_spent (s\<lparr>ms_drawn := ms_drawn s + k\<rparr>) t n"
  using drawn_mono [of s k] by (auto simp: token_spent_def)

lemma drawn_two:
  "ms_tokens s (ms_drawn s) = Inr a \<Longrightarrow> ms_tokens s (Suc (ms_drawn s)) = Inr b \<Longrightarrow>
     drawn (s\<lparr>ms_drawn := Suc (Suc (ms_drawn s))\<rparr>) = insert a (insert b (drawn s))"
  by (auto simp: drawn_def less_Suc_eq)

lemma ok_Open_mem: "sessions_ok s \<Longrightarrow> sessions_ok (snd (ss_Open s n))"
proof -
  assume ok: "sessions_ok s"
  obtain res s' where o: "ss_Open s n = (res, s')" by force
  from o show ?thesis
  proof (cases rule: ss_Open_cases)
    case (stopped k)
    then show ?thesis using ok_stopped [OF ok] o by simp
  next
    case (drew a b r)
    have "distinct (row_tokens (ms_rows s @ [r]))" "set (row_tokens (ms_rows s @ [r])) \<subseteq> insert a (insert b (drawn s))"
      using ok drew two_tokens [OF ok drew(1,2)] by (auto simp: sessions_ok_def)
    then show ?thesis using ok o drew by (auto simp: sessions_ok_def drawn_two nth_append less_Suc_eq)
  qed
qed

lemma spent_Open_mem: "sessions_ok s \<Longrightarrow> token_spent s t n \<Longrightarrow> token_spent (snd (ss_Open s ns)) t n"
proof -
  assume ok: "sessions_ok s" and sp: "token_spent s t n"
  obtain res s' where o: "ss_Open s ns = (res, s')" by force
  from o show ?thesis
  proof (cases rule: ss_Open_cases)
    case (stopped k)
    then show ?thesis using spent_stopped [OF sp] o by simp
  next
    case (drew a b r)
    then show ?thesis using sp o two_tokens [OF ok drew(1,2)] by (auto simp: token_spent_def drawn_two)
  qed
qed

lemma ok_Rotate_mem: "sessions_ok s \<Longrightarrow> sessions_ok (snd (ss_Rotate s rot))"
proof -
  assume ok: "sessions_ok s"
  obtain res s' where o: "ss_Rotate s rot = (res, s')" by force
  from o show ?thesis
  proof (cases rule: ss_Rotate_cases)
    case (stopped k)
    then show ?thesis using ok_stopped [OF ok] o by simp
  next
    case (drew a b pre r post)
    let ?rows = "pre @ rotated rot a b r # post"
    have fresh: "a \<noteq> b" "a \<notin> drawn s" "b \<notin> drawn s" using two_tokens [OF ok drew(1,2)] .
    have "distinct (row_tokens ?rows)" "set (row_tokens ?rows) \<subseteq> insert a (insert b (drawn s))"
      using ok drew(3) fresh by (auto simp: sessions_ok_def)
    moreover have "\<forall>i < length ?rows. se_ID (sr_Session (?rows ! i)) = int i + 1"
      using ok drew(3) unfolding sessions_ok_def by (auto simp: nth_append nth_Cons split: nat.splits if_splits)
    ultimately show ?thesis using ok o drew by (auto simp: sessions_ok_def drawn_two)
  qed
qed

lemma spent_Rotate_mem: "sessions_ok s \<Longrightarrow> token_spent s t n \<Longrightarrow> n \<le> ro_At rot \<Longrightarrow> token_spent (snd (ss_Rotate s rot)) t n"
proof -
  assume ok: "sessions_ok s" and sp: "token_spent s t n" and at: "n \<le> ro_At rot"
  obtain res s' where o: "ss_Rotate s rot = (res, s')" by force
  from o show ?thesis
  proof (cases rule: ss_Rotate_cases)
    case (stopped k)
    then show ?thesis using spent_stopped [OF sp] o by simp
  next
    case (drew a b pre r post)
    then show ?thesis using sp o two_tokens [OF ok drew(1,2)] by (auto simp: token_spent_def drawn_two)
  qed
qed

lemma Rotate_spends_mem:
  assumes ok: "sessions_ok s" and rot: "ss_Rotate s rot = (Inr (x, c), s')"
  shows "token_spent s' (ro_Refresh rot) n" and "ss_Get s t now = Inr y \<Longrightarrow> se_ID y = se_ID x \<Longrightarrow> token_spent s' t n"
proof -
  from rot obtain a b pre r post where drew: "ms_tokens s (ms_drawn s) = Inr a" "ms_tokens s (Suc (ms_drawn s)) = Inr b"
      "ms_rows s = pre @ r # post" "sr_refresh r = ro_Refresh rot"
      "s' = s\<lparr>ms_drawn := Suc (Suc (ms_drawn s)), ms_rows := pre @ rotated rot a b r # post\<rparr>" "se_ID x = se_ID (sr_Session r)"
    by (cases rule: ss_Rotate_cases) auto
  note fresh = two_tokens [OF ok drew(1,2)]
  have gone: "token_spent s' t n" if "t \<in> {sr_access r, sr_refresh r}" for t
  proof -
    have "t \<in> drawn s" "q \<in> set (pre @ post) \<Longrightarrow> sr_access q \<noteq> t \<and> sr_refresh q \<noteq> t" for q
      using ok drew(3) that unfolding sessions_ok_def by (auto simp: in_row_tokens)
    then show ?thesis using drew fresh by (auto simp: token_spent_def drawn_two)
  qed
  show "token_spent s' (ro_Refresh rot) n" using gone [of "sr_refresh r"] drew(4) by simp
  assume g: "ss_Get s t now = Inr y" "se_ID y = se_ID x"
  then obtain q where q: "q \<in> set (ms_rows s)" "sr_access q = t" "sr_Session q = y"
    by (auto simp: ss_Get_def split: option.splits dest: find_SomeD)
  obtain i j where "i < length (ms_rows s)" "ms_rows s ! i = q" "j < length (ms_rows s)" "ms_rows s ! j = r"
    using q(1) drew(3) by (metis in_set_conv_nth in_set_conv_decomp)
  then have "q = r" using ok g(2) q(3) drew(6) unfolding sessions_ok_def by (metis add_right_imp_eq of_nat_eq_iff)
  then show "token_spent s' t n" using gone q(2) by simp
qed

lemma Get_spent_mem: "token_spent s t n \<Longrightarrow> n \<le> now \<Longrightarrow> ss_Get s t now = Inl (Sentinel ErrSessionNotFound)"
  by (auto simp: ss_Get_def token_spent_def sr_live_def find_None_iff split: option.splits dest!: find_SomeD)

lemma Rotate_spent_mem: "token_spent s (ro_Refresh rot) n \<Longrightarrow> n \<le> ro_At rot \<Longrightarrow> \<not> is_ok (fst (ss_Rotate s rot))"
proof -
  assume sp: "token_spent s (ro_Refresh rot) n" "n \<le> ro_At rot"
  obtain res s' where o: "ss_Rotate s rot = (res, s')" by force
  from o show ?thesis
  proof (cases rule: ss_Rotate_cases)
    case (drew a b pre r post)
    then show ?thesis using sp by (auto simp: token_spent_def sr_live_def)
  qed (use o in auto)
qed

text \<open>Revoking some of the rows.\<close>

definition revoke :: "(session_row \<Rightarrow> bool) \<Rightarrow> mem_sessions \<Rightarrow> mem_sessions" where
  "revoke P s = s\<lparr>ms_rows := map (\<lambda>r. if P r then r\<lparr>sr_revoked := True\<rparr> else r) (ms_rows s)\<rparr>"

lemma ok_map_rows:
  assumes "sessions_ok s" "\<And>r. sr_access (f r) = sr_access r \<and> sr_refresh (f r) = sr_refresh r \<and> se_ID (sr_Session (f r)) = se_ID (sr_Session r)"
  shows "sessions_ok (s\<lparr>ms_rows := map f (ms_rows s)\<rparr>)"
  using assms by (simp add: sessions_ok_def row_tokens_map)

lemma ok_revoke: "sessions_ok s \<Longrightarrow> sessions_ok (revoke P s)"
  unfolding revoke_def by (rule ok_map_rows) auto

lemma spent_revoke: "token_spent s t n \<Longrightarrow> token_spent (revoke P s) t n"
  by (auto simp: token_spent_def revoke_def sr_live_def)

lemma ok_Touch_mem: "sessions_ok s \<Longrightarrow> sessions_ok (ss_Touch s i u ip)"
  unfolding ss_Touch_def by (rule ok_map_rows) auto

lemma spent_Touch_mem: "token_spent s t n \<Longrightarrow> token_spent (ss_Touch s i u ip) t n"
  by (auto simp: token_spent_def ss_Touch_def sr_live_def)

lemma Get_revoked:
  assumes ok: "sessions_ok s" and g: "ss_Get s t now = Inr x" and P: "\<And>r. r \<in> set (ms_rows s) \<Longrightarrow> sr_Session r = x \<Longrightarrow> sr_live r n \<Longrightarrow> P r"
  shows "token_spent (revoke P s) t n"
proof -
  obtain q where q: "q \<in> set (ms_rows s)" "sr_access q = t" "sr_Session q = x" "sr_live q now"
    using g by (auto simp: ss_Get_def split: option.splits dest: find_SomeD)
  have "t \<in> set (row_tokens (ms_rows s))" using q by (auto simp: in_row_tokens)
  then have "t \<in> drawn s" using ok by (auto simp: sessions_ok_def)
  moreover have "r = q" if "r \<in> set (ms_rows s)" "t \<in> {sr_access r, sr_refresh r}" for r
    using token_unique [of "ms_rows s" r q t] ok q that by (auto simp: sessions_ok_def)
  ultimately show ?thesis using P [OF q(1,3)] by (force simp: token_spent_def revoke_def sr_live_def)
qed

lemma find_map_same:
  "List.find Q rs = Some q \<Longrightarrow> (\<And>r. r \<in> set rs \<Longrightarrow> Q (f r) = Q r) \<Longrightarrow> f q = q \<Longrightarrow> List.find Q (map f rs) = Some q"
  by (induction rs) (auto split: if_splits)

lemma Get_revoke:
  assumes ok: "sessions_ok s" and g: "ss_Get s t now = Inr x"
  shows "token_spent (revoke P s) t n \<or> ss_Get (revoke P s) t now = Inr x"
proof -
  obtain q where f: "List.find (\<lambda>r. sr_access r = t \<and> sr_live r now) (ms_rows s) = Some q" and x: "sr_Session q = x"
    using g by (auto simp: ss_Get_def split: option.splits)
  then have q: "q \<in> set (ms_rows s)" "sr_access q = t" "sr_live q now" by (auto dest: find_SomeD)
  have only: "r = q" if "r \<in> set (ms_rows s)" "sr_access r = t \<or> sr_refresh r = t" for r
    using token_unique [of "ms_rows s" r q t] ok q that by (auto simp: sessions_ok_def)
  have "t \<in> set (row_tokens (ms_rows s))" using q by (auto simp: in_row_tokens)
  then have drawn: "t \<in> drawn s" using ok by (auto simp: sessions_ok_def)
  show ?thesis
  proof (cases "P q")
    case True
    then show ?thesis using only drawn by (force simp: token_spent_def revoke_def sr_live_def)
  next
    case False
    let ?f = "\<lambda>r. if P r then r\<lparr>sr_revoked := True\<rparr> else r"
    have "(sr_access (?f r) = t \<and> sr_live (?f r) now) = (sr_access r = t \<and> sr_live r now)" if "r \<in> set (ms_rows s)" for r
      using only [OF that] False by (cases "sr_access r = t") auto
    then have "List.find (\<lambda>r. sr_access r = t \<and> sr_live r now) (map ?f (ms_rows s)) = Some q"
      using False by (intro find_map_same [OF f]) auto
    then show ?thesis using x by (simp add: ss_Get_def revoke_def)
  qed
qed

lemma ss_End_revoke: "ss_End s i ids keep now = (int (length (filter (ends i ids keep now) (ms_rows s))), revoke (ends i ids keep now) s)"
  by (simp add: ss_End_def revoke_def)

lemma ss_EndOpenedBy_revoke:
  "snd (ss_EndOpenedBy s i now) = revoke (\<lambda>r. se_ActorID (sr_Session r) = i \<and> sr_live r now) s"
  by (simp add: ss_EndOpenedBy_def revoke_def Let_def)

lemma si_hist:
  "1 \<le> n \<Longrightarrow> si_LockEvents rows i n = take (nat n) (filter (\<lambda>r. en_AccountID r = i \<and> LockEvent (en_Event r)) (rev rows))"
  by (simp add: si_LockEvents_def Let_def)

definition mem_hist :: "mem_identity \<Rightarrow> int \<Rightarrow> sign_in_entry list" where
  "mem_hist s i = filter (\<lambda>r. en_AccountID r = i \<and> LockEvent (en_Event r)) (rev (mi_signins s))"

lemma snd_on_sessions: "snd (on_sessions f s) = s\<lparr>mi_sessions := snd (f (mi_sessions s))\<rparr>"
  by (simp add: on_sessions_def split: prod.split)

lemma fst_on_sessions: "fst (on_sessions f s) = fst (f (mi_sessions s))"
  by (simp add: on_sessions_def split: prod.split)

lemma on_sessions_eq: "on_sessions f s = (r, s') \<longleftrightarrow> (\<exists>x. f (mi_sessions s) = (r, x) \<and> s' = s\<lparr>mi_sessions := x\<rparr>)"
  by (auto simp: on_sessions_def split: prod.split)

lemma snd_on_accounts: "snd (on_accounts f s) = s\<lparr>mi_accounts := snd (f (mi_accounts s))\<rparr>"
  by (simp add: on_accounts_def split: prod.split)

text \<open>The rows by their own ids, below the next one.\<close>

definition accounts_ok :: "mem_accounts \<Rightarrow> bool" where
  "accounts_ok m \<longleftrightarrow> (\<forall>i a. fmlookup (ma_rows m) i = Some a \<longrightarrow> ac_ID a = i \<and> i < ma_next m)"

definition account_inactive :: "mem_accounts \<Rightarrow> int \<Rightarrow> bool" where
  "account_inactive m i \<longleftrightarrow> (\<exists>a. fmlookup (ma_rows m) i = Some a \<and> \<not> ac_Active a)"

lemma accounts_ok_update: "accounts_ok m \<Longrightarrow> (\<And>a. ac_ID (fn a) = ac_ID a) \<Longrightarrow> accounts_ok (snd (ma_update m i fn))"
  by (auto simp: accounts_ok_def ma_update_def split: option.split)

lemma inactive_update:
  "account_inactive m j \<Longrightarrow> (\<And>a. i = j \<Longrightarrow> \<not> ac_Active a \<Longrightarrow> \<not> ac_Active (fn a)) \<Longrightarrow> account_inactive (snd (ma_update m i fn)) j"
  by (auto simp: account_inactive_def ma_update_def split: option.split)

lemma accounts_ok_Create: "accounts_ok m \<Longrightarrow> accounts_ok (snd (ma_Create uni m a))"
  by (force simp: accounts_ok_def ma_Create_def Let_def)

lemma inactive_Create: "accounts_ok m \<Longrightarrow> account_inactive m j \<Longrightarrow> ac_ID a = 0 \<Longrightarrow> account_inactive (snd (ma_Create uni m a)) j"
  by (auto simp: accounts_ok_def account_inactive_def ma_Create_def Let_def)

lemma accounts_ok_Update: "accounts_ok m \<Longrightarrow> accounts_ok (snd (ma_Update uni m i c))"
  by (auto simp: accounts_ok_def ma_Update_def Let_def split: option.split)

lemma inactive_Update: "account_inactive m j \<Longrightarrow> account_inactive (snd (ma_Update uni m i c)) j"
  by (auto simp: account_inactive_def ma_Update_def Let_def split: option.split)

lemma ma_Find_Inr: "ma_Find m i = Inr a \<longleftrightarrow> fmlookup (ma_rows m) i = Some a"
  by (auto simp: ma_Find_def split: option.splits)

lemma ma_FindByLogin_row: "ma_FindByLogin uni m l = Inr a \<Longrightarrow> \<exists>i. fmlookup (ma_rows m) i = Some a"
  by (auto simp: ma_FindByLogin_def split: option.splits dest!: find_SomeD simp: set_map_values)

lemmas accounts_lemmas = accounts_ok_update inactive_update accounts_ok_Create inactive_Create accounts_ok_Update inactive_Update

interpretation mem_id: id_store "mem_id_ops uni foldeq" mi_sessions mi_accounts mem_hist
  sessions_ok token_spent accounts_ok account_inactive for uni foldeq
proof unfold_locales
  show "token_spent (mi_sessions s') (ro_Refresh r) n \<and>
      (\<forall>t now y. id_Get (mem_id_ops uni foldeq) s t now = Inr y \<longrightarrow> se_ID y = se_ID x \<longrightarrow> token_spent (mi_sessions s') t n)"
    if "sessions_ok (mi_sessions s)" "id_Rotate (mem_id_ops uni foldeq) s r = (Inr (x, c), s')" for s r x c s' n
    using that Rotate_spends_mem [of "mi_sessions s" r x c] by (auto simp: mem_id_ops_def on_sessions_eq)
  show "token_spent (mi_sessions s') t now"
    if "sessions_ok (mi_sessions s)" "id_End (mem_id_ops uni foldeq) s i ids keep now = (Inr k, s')"
      "id_Get (mem_id_ops uni foldeq) s t now' = Inr x" "se_AccountID x = i" "se_ID x \<noteq> keep" "ids = [] \<or> se_ID x \<in> set ids"
    for s i ids keep now k s' t now' x
  proof -
    have "mi_sessions s' = revoke (ends i ids keep now) (mi_sessions s)"
      using that(2) by (auto simp: mem_id_ops_def on_sessions_eq ss_End_revoke)
    moreover have "token_spent (revoke (ends i ids keep now) (mi_sessions s)) t now"
      using that by (intro Get_revoked [of _ _ now' x]) (auto simp: mem_id_ops_def ends_def)
    ultimately show ?thesis by simp
  qed
  show "token_spent (mi_sessions s') t now"
    if "sessions_ok (mi_sessions s)" "id_EndOpenedBy (mem_id_ops uni foldeq) s i now = (Inr xs, s')"
      "id_Get (mem_id_ops uni foldeq) s t now' = Inr x" "se_ActorID x = i" for s i now xs s' t now' x
  proof -
    have "mi_sessions s' = revoke (\<lambda>r. se_ActorID (sr_Session r) = i \<and> sr_live r now) (mi_sessions s)"
      using that(2) unfolding ss_EndOpenedBy_revoke [symmetric]
      by (cases "ss_EndOpenedBy (mi_sessions s) i now") (auto simp: mem_id_ops_def on_sessions_eq)
    moreover have "token_spent (revoke (\<lambda>r. se_ActorID (sr_Session r) = i \<and> sr_live r now) (mi_sessions s)) t now"
      using that by (intro Get_revoked [of _ _ now' x]) (auto simp: mem_id_ops_def)
    ultimately show ?thesis by simp
  qed
  show "token_spent (mi_sessions s') t now \<or> id_Get (mem_id_ops uni foldeq) s' t now' = Inr x"
    if "sessions_ok (mi_sessions s)" "id_End (mem_id_ops uni foldeq) s i ids keep now = (rk, s')"
      "id_Get (mem_id_ops uni foldeq) s t now' = Inr x" for s i ids keep now rk s' t now' x
  proof -
    have "mi_sessions s' = revoke (ends i ids keep now) (mi_sessions s)"
      using that(2) by (auto simp: mem_id_ops_def on_sessions_eq ss_End_revoke)
    then show ?thesis using Get_revoke [OF that(1), of t now' x] that(3) by (simp add: mem_id_ops_def)
  qed
  show "0 < se_ID x" if ok: "sessions_ok (mi_sessions s)" and g: "id_Get (mem_id_ops uni foldeq) s t now = Inr x" for s t now x
  proof -
    obtain q where "q \<in> set (ms_rows (mi_sessions s))" "sr_Session q = x"
      using g by (auto simp: mem_id_ops_def ss_Get_def split: option.splits dest: find_SomeD)
    then obtain i where "i < length (ms_rows (mi_sessions s))" "x = sr_Session (ms_rows (mi_sessions s) ! i)"
      by (metis in_set_conv_nth)
    then show ?thesis using ok by (simp add: sessions_ok_def)
  qed
  show "id_Get (mem_id_ops uni foldeq) s = id_Get (mem_id_ops uni foldeq) s'" if "mi_sessions s = mi_sessions s'" for s s'
    using that by (simp add: mem_id_ops_def)
  show "account_inactive (mi_accounts s') i" if "id_SetActive (mem_id_ops uni foldeq) s i False = (Inr (), s')" for s i s'
    using that by (auto simp: mem_id_ops_def on_accounts_def ma_SetActive_def ma_update_def account_inactive_def split: option.splits)
  show "ac_ID a = i \<and> (account_inactive (mi_accounts s) i \<longrightarrow> \<not> ac_Active a)"
    if "accounts_ok (mi_accounts s)" "id_Find (mem_id_ops uni foldeq) s i = Inr a" for s i a
    using that by (auto simp: mem_id_ops_def ma_Find_Inr accounts_ok_def account_inactive_def)
  show "\<not> ac_Active a" if "accounts_ok (mi_accounts s)" "id_FindByLogin (mem_id_ops uni foldeq) s l = Inr a"
    "account_inactive (mi_accounts s) (ac_ID a)" for s l a
    using that ma_FindByLogin_row [of uni "mi_accounts s" l a]
    by (fastforce simp: mem_id_ops_def accounts_ok_def account_inactive_def)
qed (auto simp: mem_id_ops_def snd_on_sessions fst_on_sessions snd_on_accounts ss_End_revoke ss_EndOpenedBy_revoke
      ok_Open_mem spent_Open_mem ok_Rotate_mem spent_Rotate_mem Rotate_spent_mem Get_spent_mem ok_Touch_mem spent_Touch_mem
      ok_revoke spent_revoke si_hist mem_hist_def si_Record_def accounts_lemmas ma_SetActive_def ma_SetPasswordHash_def ma_SetLocale_def)

end
