(* ===== verification/SignIn.thy ===== *)
theory SignIn
  imports IdentityStore Limiter
begin

text \<open>
  The sign-in service of \<^verbatim>\<open>identity/account/signin_service.go\<close> and the part of
  \<^verbatim>\<open>users.go\<close> that ends sessions: \<^verbatim>\<open>Login\<close>, \<^verbatim>\<open>Refresh\<close>,
  \<^verbatim>\<open>Logout\<close>, \<^verbatim>\<open>LoginAs\<close>, \<^verbatim>\<open>Return\<close>,
  \<^verbatim>\<open>Authenticate\<close>, \<^verbatim>\<open>Embed\<close>, \<^verbatim>\<open>RevokeSession\<close> and
  \<^verbatim>\<open>RevokeSessions\<close>, over the ports of the store theory.

  What a service holds and does not change is the record \<open>signin\<close>; what changes is the
  \<open>iworld\<close>: the stores, the counter of attempts, the clock (an answer for each reading) and the facts told to
  \<^verbatim>\<open>Notices\<close>. Comparing a password with the placeholder hash changes nothing and is not kept: it is
  there for the time it takes.
\<close>

section \<open>State\<close>

datatype end_reason =
  EndedLogout | EndedRotation | EndedRevoked | EndedPasswordChanged | EndedDeactivated | EndedLoginAsReturn | EndedOpenedBy

record login_as =
  la_ActorID :: int
  la_TargetID :: int
  la_Device :: string
  la_IP :: string

record sessions_ended =
  sd_AccountID :: int
  sd_SessionIDs :: "int list"
  sd_Reason :: end_reason
  sd_ActorID :: int

datatype notice =
    NoticeSignedInAs login_as
  | NoticeSignedOutAs login_as
  | NoticeSessionsEnded sessions_ended
  | NoticeAccountChanged int
  | NoticeAccountDeactivated int int
  | NoticeAccountActivated int int
  | NoticePasswordChanged int int
  | NoticeAccountCreated int int
  | NoticeEmailChanged int string string

record 's signin =
  sg_ops :: "'s id_ops"
  sg_cfg :: id_config
  sg_Matches :: "string \<Rightarrow> string \<Rightarrow> bool"
  sg_Permitted :: "account \<Rightarrow> go_error option"
  sg_Covers :: "account \<Rightarrow> account \<Rightarrow> go_error option"
  sg_uni :: "string \<Rightarrow> string"
  sg_rfc :: "int \<Rightarrow> string"

record 's iworld =
  iw_store :: 's
  iw_attempts :: attempts
  iw_clock :: "nat \<Rightarrow> int"
  iw_ticks :: nat
  iw_notices :: "notice list"

definition inow :: "'s iworld \<Rightarrow> int" where "inow w = iw_clock w (iw_ticks w)"

definition itick :: "'s iworld \<Rightarrow> 's iworld" where "itick w = w\<lparr>iw_ticks := iw_ticks w + 1\<rparr>"

definition tell :: "'s iworld \<Rightarrow> notice \<Rightarrow> 's iworld" where "tell w n = w\<lparr>iw_notices := iw_notices w @ [n]\<rparr>"

text \<open>A write to the stores; its error is reported as an internal one.\<close>

definition id_write :: "'s iworld \<Rightarrow> 'a result \<times> 's \<Rightarrow> 'a result \<times> 's iworld" where
  "id_write w r = (case r of (Inl e, st) \<Rightarrow> (Inl (Internal e), w\<lparr>iw_store := st\<rparr>) | (Inr x, st) \<Rightarrow> (Inr x, w\<lparr>iw_store := st\<rparr>))"

section \<open>Steps shared by the operations\<close>

definition appendEntry :: "'s id_ops \<Rightarrow> 's iworld \<Rightarrow> sign_in_entry \<Rightarrow> unit result \<times> 's iworld" where
  "appendEntry ops w row =
     (let row' = row\<lparr>en_CreatedAt := inow w, en_Device := cut (TrimSpace (en_Device row)) DeviceMax,
            en_IP := cut (TrimSpace (en_IP row)) IPMax\<rparr>
      in id_write (itick w) (id_Record ops (iw_store w) row'))"

definition entry :: "int \<Rightarrow> sign_in_event \<Rightarrow> int \<Rightarrow> string \<Rightarrow> string \<Rightarrow> sign_in_entry" where
  "entry accountID e actorID device ip =
     \<lparr>en_ID = 0, en_AccountID = accountID, en_Event = e, en_IP = ip, en_Device = device, en_ActorID = actorID, en_CreatedAt = 0\<rparr>"

definition sg_record :: "'s signin \<Rightarrow> 's iworld \<Rightarrow> int \<Rightarrow> sign_in_event \<Rightarrow> int \<Rightarrow> string \<Rightarrow> string \<Rightarrow> unit result \<times> 's iworld" where
  "sg_record s w accountID e actorID device ip = appendEntry (sg_ops s) w (entry accountID e actorID device ip)"

definition sg_open :: "'s signin \<Rightarrow> 's iworld \<Rightarrow> int \<Rightarrow> int \<Rightarrow> string \<Rightarrow> string \<Rightarrow> credentials result \<times> 's iworld" where
  "sg_open s w accountID actorID device ip =
     id_write (itick w) (id_Open (sg_ops s) (iw_store w)
       \<lparr>ns_AccountID = accountID, ns_ActorID = actorID, ns_Device = cut (TrimSpace device) DeviceMax,
        ns_IP = cut (TrimSpace ip) IPMax, ns_At = inow w, ns_ExpiresAt = inow w + cf_TokenTTL (sg_cfg s)\<rparr>)"

definition endedSession :: "session \<Rightarrow> end_reason \<Rightarrow> sessions_ended" where
  "endedSession x why = \<lparr>sd_AccountID = se_AccountID x, sd_SessionIDs = [se_ID x], sd_Reason = why, sd_ActorID = 0\<rparr>"

text \<open>An active account, or the refusal of the session.\<close>

definition active_account :: "'s signin \<Rightarrow> 's iworld \<Rightarrow> int \<Rightarrow> account result" where
  "active_account s w i =
     (case id_Find (sg_ops s) (iw_store w) i of
        Inl e \<Rightarrow> (if errors_Is e ErrNotFound then Inl sessionInvalid else Inl (Internal e))
      | Inr a \<Rightarrow> (if \<not> ac_Active a then Inl sessionInvalid else Inr a))"

definition actorOf :: "'s signin \<Rightarrow> 's iworld \<Rightarrow> session \<Rightarrow> account option result" where
  "actorOf s w x =
     (if se_ActorID x = 0 then Inr None
      else case active_account s w (se_ActorID x) of Inl e \<Rightarrow> Inl e | Inr a \<Rightarrow> Inr (Some a))"

definition get_session :: "'s signin \<Rightarrow> 's iworld \<Rightarrow> string \<Rightarrow> session result \<times> 's iworld" where
  "get_session s w token =
     (case id_Get (sg_ops s) (iw_store w) token (inow w) of
        Inl e \<Rightarrow> (Inl (if errors_Is e ErrSessionNotFound then sessionInvalid else Internal e), itick w)
      | Inr x \<Rightarrow> (Inr x, itick w))"

section \<open>Login\<close>

record login_input =
  in_Login :: string
  in_Password :: string
  in_Device :: string
  in_IP :: string

record signed =
  sd_Account :: account
  sd_Credentials :: credentials
  sd_Actor :: "account option"

definition Login :: "'s signin \<Rightarrow> 's iworld \<Rightarrow> login_input \<Rightarrow> signed result \<times> 's iworld" where
  "Login s w inp =
     (let login = NormalizeLogin (sg_uni s) (in_Login inp) in
      case at_allow (iw_attempts w) (inow w) login of ((until, ok), att) \<Rightarrow>
        let w1 = (itick w)\<lparr>iw_attempts := att\<rparr> in
        if \<not> ok then (Inl (signInLocked (sg_rfc s) until), w1)
        else if int (RuneCountInString login) > li_Login (cf_Limits (sg_cfg s)) then (Inl signInFailed, w1)
        else case id_FindByLogin (sg_ops s) (iw_store w1) login of
          Inl e \<Rightarrow> (Inl (if errors_Is e ErrNotFound then signInFailed else Internal e), w1)
        | Inr acc \<Rightarrow>
            let rec = (\<lambda>w e. sg_record s w (ac_ID acc) e 0 (in_Device inp) (in_IP inp)) in
            case id_LockEvents (sg_ops s) (iw_store w1) (ac_ID acc) (lk_After (cf_Lock (sg_cfg s))) of
              Inl e \<Rightarrow> (Inl (Internal e), w1)
            | Inr latest \<Rightarrow>
                let w2 = itick w1 in
                case LockedUntil (cf_Lock (sg_cfg s)) latest (inow w1) of
                  Some t \<Rightarrow> st_bind (rec w2 LockedOut) (\<lambda>_ w3. (Inl (signInLocked (sg_rfc s) t), w3))
                | None \<Rightarrow>
                    if \<not> sg_Matches s (ac_PasswordHash acc) (in_Password inp)
                    then st_bind (rec w2 WrongPassword) (\<lambda>_ w3. (Inl signInFailed, w3))
                    else if \<not> ac_Active acc
                    then st_bind (rec w2 RefusedInactive) (\<lambda>_ w3. (Inl signInInactive, w3))
                    else st_bind (sg_open s w2 (ac_ID acc) 0 (in_Device inp) (in_IP inp)) (\<lambda>creds w3.
                      st_bind (rec w3 SignedIn) (\<lambda>_ w4.
                        (Inr \<lparr>sd_Account = acc, sd_Credentials = creds, sd_Actor = None\<rparr>, w4))))"

section \<open>Sessions\<close>

definition Refresh :: "'s signin \<Rightarrow> 's iworld \<Rightarrow> string \<Rightarrow> string \<Rightarrow> string \<Rightarrow> signed result \<times> 's iworld" where
  "Refresh s w token device ip =
     (let t = inow w;
          rot = \<lparr>ro_Refresh = token, ro_At = t, ro_ExpiresAt = t + cf_TokenTTL (sg_cfg s),
            ro_Device = cut (TrimSpace device) DeviceMax, ro_IP = cut (TrimSpace ip) IPMax\<rparr> in
      case id_Rotate (sg_ops s) (iw_store w) rot of
        (Inl e, st) \<Rightarrow>
          (Inl (if errors_Is e ErrSessionNotFound then sessionInvalid else Internal e), (itick w)\<lparr>iw_store := st\<rparr>)
      | (Inr (x, creds), st) \<Rightarrow>
          let w1 = tell ((itick w)\<lparr>iw_store := st\<rparr>) (NoticeSessionsEnded (endedSession x EndedRotation)) in
          (res_bind (active_account s w1 (se_AccountID x)) (\<lambda>acc.
             res_bind (actorOf s w1 x) (\<lambda>actor.
               Inr \<lparr>sd_Account = acc, sd_Credentials = creds, sd_Actor = actor\<rparr>)), w1))"

definition Logout :: "'s signin \<Rightarrow> 's iworld \<Rightarrow> string \<Rightarrow> unit result \<times> 's iworld" where
  "Logout s w token =
     st_bind (get_session s w token) (\<lambda>x w1.
     st_bind (id_write (itick w1) (id_End (sg_ops s) (iw_store w1) (se_AccountID x) [se_ID x] 0 (inow w1))) (\<lambda>_ w2.
       let w3 = tell w2 (NoticeSessionsEnded (endedSession x EndedLogout)) in
       (Inr (), if se_ActorID x > 0
         then tell w3 (NoticeSignedOutAs \<lparr>la_ActorID = se_ActorID x, la_TargetID = se_AccountID x,
           la_Device = session_Label x, la_IP = se_IP x\<rparr>)
         else w3)))"

text \<open>A forbidden refusal without a reason gets the usual one.\<close>

definition reasoned :: "go_error \<Rightarrow> go_error" where
  "reasoned err =
     (case errors_As_app err of
        Some a \<Rightarrow> if Code a = CodePermissionDenied \<and> Reason a = [] then App (WithReason ''authz.forbidden'' [] a) else err
      | None \<Rightarrow> err)"

definition no_impersonation :: "account \<Rightarrow> go_error option" where
  "no_impersonation _ = Some (App (WithReason ReasonImpersonationDisabled [] (Forbidden ReasonImpersonationDisabled)))"

definition LoginAs :: "'s signin \<Rightarrow> 's iworld \<Rightarrow> int \<Rightarrow> int \<Rightarrow> string \<Rightarrow> string \<Rightarrow> signed result \<times> 's iworld" where
  "LoginAs s w actorID targetID device ip =
     (case active_account s w actorID of
        Inl e \<Rightarrow> (Inl e, w)
      | Inr actor \<Rightarrow>
          case sg_Permitted s actor of
            Some e \<Rightarrow> (Inl (reasoned e), w)
          | None \<Rightarrow>
              case id_Find (sg_ops s) (iw_store w) targetID of
                Inl e \<Rightarrow> (Inl (if errors_Is e ErrNotFound then accountNotFound else Internal e), w)
              | Inr target \<Rightarrow>
                  if \<not> ac_Active target then (Inl accountInactive, w)
                  else case sg_Covers s actor target of
                    Some e \<Rightarrow> (Inl (reasoned e), w)
                  | None \<Rightarrow>
                      st_bind (sg_open s w (ac_ID target) (ac_ID actor) device ip) (\<lambda>creds w1.
                      st_bind (sg_record s w1 (ac_ID target) SignedInAs (ac_ID actor) device ip) (\<lambda>_ w2.
                        (Inr \<lparr>sd_Account = target, sd_Credentials = creds, sd_Actor = Some actor\<rparr>,
                         tell w2 (NoticeSignedInAs \<lparr>la_ActorID = ac_ID actor, la_TargetID = ac_ID target,
                           la_Device = DeviceLabel device, la_IP = ip\<rparr>)))))"

definition not_impersonating :: go_error where
  "not_impersonating = App (WithReason ReasonImpersonationNotActive [] (BadRequest ReasonImpersonationNotActive))"

definition Return :: "'s signin \<Rightarrow> 's iworld \<Rightarrow> session \<Rightarrow> string \<Rightarrow> string \<Rightarrow> signed result \<times> 's iworld" where
  "Return s w x device ip =
     (case actorOf s w x of
        Inl e \<Rightarrow> (Inl e, w)
      | Inr None \<Rightarrow> (Inl not_impersonating, w)
      | Inr (Some actor) \<Rightarrow>
          st_bind (sg_open s w (ac_ID actor) 0 device ip) (\<lambda>creds w1.
          st_bind (id_write (itick w1) (id_End (sg_ops s) (iw_store w1) (se_AccountID x) [se_ID x] 0 (inow w1))) (\<lambda>_ w2.
            (Inr \<lparr>sd_Account = actor, sd_Credentials = creds, sd_Actor = None\<rparr>,
             tell (tell w2 (NoticeSessionsEnded (endedSession x EndedLoginAsReturn)))
               (NoticeSignedOutAs \<lparr>la_ActorID = ac_ID actor, la_TargetID = se_AccountID x, la_Device = DeviceLabel device, la_IP = ip\<rparr>)))))"

definition touchEvery :: int where "touchEvery = minute"

record authenticated =
  au_Account :: account
  au_Session :: session
  au_Actor :: "account option"

definition Authenticate :: "'s signin \<Rightarrow> 's iworld \<Rightarrow> string \<Rightarrow> authenticated result \<times> 's iworld" where
  "Authenticate s w token =
     (if token = [] then (Inl sessionInvalid, w)
      else st_bind (get_session s w token) (\<lambda>x w1.
        case active_account s w1 (se_AccountID x) of
          Inl e \<Rightarrow> (Inl e, w1)
        | Inr acc \<Rightarrow>
            st_bind (if inow w1 - se_LastUsedAt x \<ge> touchEvery
              then id_write (itick w1) (id_Touch (sg_ops s) (iw_store w1) (se_ID x) (inow w1) (se_IP x))
              else (Inr (), itick w1)) (\<lambda>_ w2.
              (res_bind (actorOf s w2 x) (\<lambda>actor. Inr \<lparr>au_Account = acc, au_Session = x, au_Actor = actor\<rparr>), w2))))"

definition EmbedTTL :: int where "EmbedTTL = 24 * hour"

definition Embed :: "'s signin \<Rightarrow> 's iworld \<Rightarrow> int \<Rightarrow> string \<Rightarrow> string \<Rightarrow> signed result \<times> 's iworld" where
  "Embed s w accountID device ip =
     (case active_account s w accountID of
        Inl e \<Rightarrow> (Inl e, w)
      | Inr acc \<Rightarrow>
          st_bind (id_write (itick w) (id_Open (sg_ops s) (iw_store w)
            \<lparr>ns_AccountID = ac_ID acc, ns_ActorID = 0, ns_Device = cut (TrimSpace device) DeviceMax,
             ns_IP = cut (TrimSpace ip) IPMax, ns_At = inow w, ns_ExpiresAt = inow w + EmbedTTL\<rparr>)) (\<lambda>creds w1.
          st_bind (sg_record s w1 (ac_ID acc) SignedIn 0 device ip) (\<lambda>_ w2.
            (Inr \<lparr>sd_Account = acc, sd_Credentials = creds\<lparr>cr_Refresh := []\<rparr>, sd_Actor = None\<rparr>, w2))))"

section \<open>Ending the sessions of an account\<close>

definition ReasonSessionCurrent :: reason where "ReasonSessionCurrent = ''identity.session.current''"
definition ReasonSessionNotFound :: reason where "ReasonSessionNotFound = ''identity.session.not_found''"

text \<open>The actor is kept only when it is somebody else than the person.\<close>

definition us_record :: "'s signin \<Rightarrow> 's iworld \<Rightarrow> int \<Rightarrow> sign_in_event \<Rightarrow> int \<Rightarrow> unit result \<times> 's iworld" where
  "us_record u w accountID e actorID =
     appendEntry (sg_ops u) w (entry accountID e (if actorID = accountID then 0 else actorID) [] [])"

definition RevokeSession :: "'s signin \<Rightarrow> 's iworld \<Rightarrow> int \<Rightarrow> int \<Rightarrow> int \<Rightarrow> int \<Rightarrow> unit result \<times> 's iworld" where
  "RevokeSession u w accountID sessionID keep actorID0 =
     (let actorID = (if actorID0 = accountID then 0 else actorID0) in
      if keep > 0 \<and> sessionID = keep then (Inl (App (WithReason ReasonSessionCurrent [] (BadRequest ReasonSessionCurrent))), w)
      else
        st_bind (id_write (itick w) (id_End (sg_ops u) (iw_store w) accountID [sessionID] keep (inow w))) (\<lambda>n w1.
        if n = 0 then (Inl (App (WithReason ReasonSessionNotFound [] (NotFound ReasonSessionNotFound))), w1)
        else st_bind (us_record u w1 accountID SessionRevoked actorID) (\<lambda>_ w2.
          (Inr (), tell w2 (NoticeSessionsEnded
            \<lparr>sd_AccountID = accountID, sd_SessionIDs = [sessionID], sd_Reason = EndedRevoked, sd_ActorID = actorID\<rparr>)))))"

text \<open>The facts to tell once the change is committed.\<close>

record pending_notices =
  pn_ended :: "sessions_ended list"
  pn_signedOut :: "login_as list"

definition announce :: "'s iworld \<Rightarrow> pending_notices \<Rightarrow> 's iworld" where
  "announce w p =
     w\<lparr>iw_notices := iw_notices w @ map NoticeSessionsEnded (pn_ended p) @ map NoticeSignedOutAs (pn_signedOut p)\<rparr>"

record revoke_input =
  rv_AccountID :: int
  rv_KeepToken :: string
  rv_ActorID :: int
  rv_Reason :: "end_reason option"

definition keptSession :: "'s signin \<Rightarrow> 's iworld \<Rightarrow> revoke_input \<Rightarrow> int \<times> 's iworld" where
  "keptSession u w req =
     (if rv_KeepToken req = [] then (0, w)
      else case id_Get (sg_ops u) (iw_store w) (rv_KeepToken req) (inow w) of
        Inl e \<Rightarrow> (0, itick w)
      | Inr x \<Rightarrow> (if se_AccountID x \<noteq> rv_AccountID req then 0 else se_ID x, itick w))"

definition liveExcept :: "'s signin \<Rightarrow> 's iworld \<Rightarrow> int \<Rightarrow> int \<Rightarrow> int \<Rightarrow> int list result" where
  "liveExcept u w accountID keep t =
     (case id_Live (sg_ops u) (iw_store w) accountID t of
        Inl e \<Rightarrow> Inl (Internal e)
      | Inr live \<Rightarrow> Inr (sort (filter (\<lambda>i. i \<noteq> keep) (map se_ID live))))"

text \<open>One fact for each account whose sessions ended, in the order they come.\<close>

fun endedOpenedBy :: "session list \<Rightarrow> int \<Rightarrow> sessions_ended list \<Rightarrow> sessions_ended list" where
  "endedOpenedBy [] actorID out = out"
| "endedOpenedBy (x # xs) actorID out =
     (if se_AccountID x \<in> set (map sd_AccountID out)
      then endedOpenedBy xs actorID (map (\<lambda>f. if sd_AccountID f = se_AccountID x
        then f\<lparr>sd_SessionIDs := sd_SessionIDs f @ [se_ID x]\<rparr> else f) out)
      else endedOpenedBy xs actorID (out @ [\<lparr>sd_AccountID = se_AccountID x, sd_SessionIDs = [se_ID x],
        sd_Reason = EndedOpenedBy, sd_ActorID = actorID\<rparr>]))"

fun record_opened :: "'s signin \<Rightarrow> 's iworld \<Rightarrow> revoke_input \<Rightarrow> session list \<Rightarrow> pending_notices \<Rightarrow> pending_notices result \<times> 's iworld" where
  "record_opened u w req [] out = (Inr out, w)"
| "record_opened u w req (x # xs) out =
     st_bind (us_record u w (se_AccountID x) SessionRevoked (rv_ActorID req)) (\<lambda>_ w1.
       record_opened u w1 req xs (out\<lparr>pn_signedOut := pn_signedOut out @ [\<lparr>la_ActorID = rv_AccountID req,
         la_TargetID = se_AccountID x, la_Device = session_Label x, la_IP = se_IP x\<rparr>]\<rparr>))"

definition endOpenedBy :: "'s signin \<Rightarrow> 's iworld \<Rightarrow> revoke_input \<Rightarrow> int \<Rightarrow> pending_notices \<Rightarrow> pending_notices result \<times> 's iworld" where
  "endOpenedBy u w req t out =
     st_bind (id_write w (id_EndOpenedBy (sg_ops u) (iw_store w) (rv_AccountID req) t)) (\<lambda>xs w1.
     st_bind (record_opened u w1 req xs out) (\<lambda>out1 w2.
       (Inr (out1\<lparr>pn_ended := pn_ended out1 @ endedOpenedBy xs (rv_ActorID req) []\<rparr>), w2)))"

definition revoke_defaults :: "revoke_input \<Rightarrow> revoke_input" where
  "revoke_defaults req =
     req\<lparr>rv_ActorID := (if rv_ActorID req = rv_AccountID req then 0 else rv_ActorID req),
         rv_Reason := Some (case rv_Reason req of None \<Rightarrow> EndedRevoked | Some why \<Rightarrow> why)\<rparr>"

definition revokeSessions :: "'s signin \<Rightarrow> 's iworld \<Rightarrow> revoke_input \<Rightarrow> pending_notices result \<times> 's iworld" where
  "revokeSessions u w req0 =
     (let req = revoke_defaults req0 in
      case keptSession u w req of (keep, w1) \<Rightarrow>
        let t = inow w1; w2 = itick w1 in
        case liveExcept u w2 (rv_AccountID req) keep t of
          Inl e \<Rightarrow> (Inl e, w2)
        | Inr ids \<Rightarrow>
            st_bind (id_write w2 (id_End (sg_ops u) (iw_store w2) (rv_AccountID req) [] keep t)) (\<lambda>_ w3.
            st_bind (us_record u w3 (rv_AccountID req) SignedOutEverywhere (rv_ActorID req)) (\<lambda>_ w4.
              endOpenedBy u w4 req t \<lparr>pn_ended = [\<lparr>sd_AccountID = rv_AccountID req, sd_SessionIDs = ids,
                sd_Reason = the (rv_Reason req), sd_ActorID = rv_ActorID req\<rparr>], pn_signedOut = []\<rparr>)))"

definition RevokeSessions :: "'s signin \<Rightarrow> 's iworld \<Rightarrow> revoke_input \<Rightarrow> unit result \<times> 's iworld" where
  "RevokeSessions u w req = st_bind (revokeSessions u w req) (\<lambda>p w1. (Inr (), announce w1 p))"

section \<open>Who gets in\<close>

lemma id_write_simps [simp]:
  "id_write w (Inl e, st) = (Inl (Internal e), w\<lparr>iw_store := st\<rparr>)" "id_write w (Inr x, st) = (Inr x, w\<lparr>iw_store := st\<rparr>)"
  by (simp_all add: id_write_def)

lemma id_write_Inr: "id_write w r = (Inr x, w') \<longleftrightarrow> (\<exists>st. r = (Inr x, st) \<and> w' = w\<lparr>iw_store := st\<rparr>)"
  by (cases r; cases "fst r") (auto simp: id_write_def)

lemma world_simps [simp]:
  "iw_store (itick w) = iw_store w" "iw_clock (itick w) = iw_clock w" "iw_ticks (itick w) = Suc (iw_ticks w)"
  "iw_store (tell w n) = iw_store w" "iw_clock (tell w n) = iw_clock w" "iw_ticks (tell w n) = iw_ticks w"
  "iw_attempts (itick w) = iw_attempts w" "iw_attempts (tell w n) = iw_attempts w"
  by (simp_all add: itick_def tell_def)

lemma revoke_defaults_simps [simp]:
  "rv_AccountID (revoke_defaults req) = rv_AccountID req" "keptSession u w (revoke_defaults req) = keptSession u w req"
  by (auto simp: revoke_defaults_def keptSession_def split: sum.split)

lemma active_account_Inr: "active_account s w i = Inr a \<longleftrightarrow> id_Find (sg_ops s) (iw_store w) i = Inr a \<and> ac_Active a"
  by (auto simp: active_account_def split: sum.splits)

lemma actorOf_Inr:
  "actorOf s w x = Inr actor \<longleftrightarrow>
     (if se_ActorID x = 0 then actor = None
      else \<exists>a. actor = Some a \<and> id_Find (sg_ops s) (iw_store w) (se_ActorID x) = Inr a \<and> ac_Active a)"
  by (cases "active_account s w (se_ActorID x)") (auto simp: actorOf_def active_account_Inr [symmetric])

lemma get_session_Inr: "get_session s w t = (Inr x, w') \<longleftrightarrow> id_Get (sg_ops s) (iw_store w) t (inow w) = Inr x \<and> w' = itick w"
  by (auto simp: get_session_def split: sum.splits)

end
