(* ===== verification/UserAdmin.thy ===== *)
theory UserAdmin
  imports SignIn
begin

text \<open>
  The users module, \<^verbatim>\<open>identity/account/admin.go\<close> with \<^verbatim>\<open>history.go\<close> and the reads of
  \<^verbatim>\<open>users.go\<close>: what an administrator does with other people's accounts. The stores are the ports of the
  store theory; the application's part (the hooks asked before a deactivation, the extension of a person, the search)
  is a parameter, and so are the hash of a password, the parser of addresses and the database's rollback and commit:
  \<^verbatim>\<open>WithinTransaction\<close> undoes what the function wrote when it fails or the commit does.
\<close>

section \<open>What the module is built on\<close>

record extension =
  ex_Ext :: "int list \<Rightarrow> (int, go_any) gomap result"
  ex_Create :: "int \<Rightarrow> string \<Rightarrow> int \<Rightarrow> go_any result"
  ex_Update :: "int \<Rightarrow> string \<Rightarrow> int \<Rightarrow> unit result"
  ex_Deactivate :: "account \<Rightarrow> string \<Rightarrow> int \<Rightarrow> go_any result"

datatype order = OrderLogin | OrderName | OrderEmail | OrderCreated

datatype last_sign_in_filter = LastSignInNever | LastSignInIdle

record acc_query =
  qu_Search :: string
  qu_Active :: "bool option"
  qu_Locked :: "bool option"
  qu_LockedIDs :: "int list"
  qu_Filters :: "(string \<times> string list) list"
  qu_LastSignIn :: "last_sign_in_filter option"
  qu_IdleBefore :: int
  qu_OrderBy :: order
  qu_Desc :: bool
  qu_Page :: int
  qu_PerPage :: int

record acc_page =
  pg_Accounts :: "account list"
  pg_Total :: int

record status_counts =
  st_Active :: int
  st_Locked :: int
  st_Inactive :: int

record 's user_admin =
  ad_Users :: "'s signin"
  ad_parse :: "string \<Rightarrow> string option"
  ad_Policy :: "string \<Rightarrow> string list"
  ad_Hash :: "string \<Rightarrow> string result"
  ad_Hooks :: "(account \<Rightarrow> int \<Rightarrow> unit result) list"
  ad_Extension :: "extension option"
  ad_rollback :: "'s \<Rightarrow> 's \<Rightarrow> 's"
  ad_commit :: "'s \<Rightarrow> unit result"
  ad_WrongPasswordsSince :: "'s \<Rightarrow> int \<Rightarrow> int list result"
  ad_LastSignIns :: "'s \<Rightarrow> int list \<Rightarrow> (int, int) gomap result"
  ad_Search :: "'s \<Rightarrow> acc_query \<Rightarrow> acc_page result"
  ad_Counts :: "'s \<Rightarrow> acc_query \<Rightarrow> status_counts result"
  ad_IdleAfter :: int

definition ad_ops :: "'s user_admin \<Rightarrow> 's id_ops" where "ad_ops d = sg_ops (ad_Users d)"

text \<open>What is not already an application error is an internal one.\<close>

definition app_error_of :: "go_error \<Rightarrow> go_error" where
  "app_error_of e = (if errors_As_app e \<noteq> None then e else Internal e)"

definition ad_within :: "'s user_admin \<Rightarrow> 's iworld \<Rightarrow> ('s iworld \<Rightarrow> 'a result \<times> 's iworld) \<Rightarrow> 'a result \<times> 's iworld" where
  "ad_within d w fn =
     (case fn w of
        (Inl e, w1) \<Rightarrow> (Inl (app_error_of e), w1\<lparr>iw_store := ad_rollback d (iw_store w) (iw_store w1)\<rparr>)
      | (Inr x, w1) \<Rightarrow>
          (case ad_commit d (iw_store w1) of
             Inl e \<Rightarrow> (Inl (app_error_of e), w1\<lparr>iw_store := ad_rollback d (iw_store w) (iw_store w1)\<rparr>)
           | Inr _ \<Rightarrow> (Inr x, w1)))"

text \<open>What a store says, as what a caller can act on.\<close>

definition stored :: "go_error \<Rightarrow> go_error" where
  "stored e =
     (if errors_Is e ErrNotFound then accountNotFound
      else if errors_Is e ErrLoginTaken then conflict ''login'' ''identity.login.taken''
      else if errors_Is e ErrEmailTaken then conflict ''email'' ''identity.email.taken''
      else if errors_As_app e \<noteq> None then e else Internal e)"

definition stored_write :: "'s iworld \<Rightarrow> 'a result \<times> 's \<Rightarrow> 'a result \<times> 's iworld" where
  "stored_write w r = (case r of (Inl e, st) \<Rightarrow> (Inl (stored e), w\<lparr>iw_store := st\<rparr>) | (Inr x, st) \<Rightarrow> (Inr x, w\<lparr>iw_store := st\<rparr>))"

text \<open>An error of the change log is passed on as it is; the transaction names it.\<close>

definition log_change :: "'s id_ops \<Rightarrow> 's iworld \<Rightarrow> change \<Rightarrow> unit result \<times> 's iworld" where
  "log_change ops w c = (case id_Change ops (iw_store w) c of (r, st) \<Rightarrow> (r, w\<lparr>iw_store := st\<rparr>))"

definition users_Get :: "'s signin \<Rightarrow> 's iworld \<Rightarrow> int \<Rightarrow> account result" where
  "users_Get u w i =
     (case id_Find (sg_ops u) (iw_store w) i of
        Inl e \<Rightarrow> Inl (if errors_Is e ErrNotFound then accountNotFound else Internal e)
      | Inr a \<Rightarrow> Inr a)"

definition emailFree :: "'s id_ops \<Rightarrow> 's iworld \<Rightarrow> string \<Rightarrow> int \<Rightarrow> unit result" where
  "emailFree ops w email except =
     (case id_FindByEmail ops (iw_store w) email of
        Inl e \<Rightarrow> (if errors_Is e ErrNotFound then Inr () else Inl (Internal e))
      | Inr owner \<Rightarrow> (if ac_ID owner \<noteq> except then Inl (conflict ''email'' ''identity.email.taken'') else Inr ()))"

fun checkAll :: "unit result list \<Rightarrow> unit result" where
  "checkAll [] = Inr ()"
| "checkAll (Inl e # rs) = Inl e"
| "checkAll (Inr _ # rs) = checkAll rs"

definition checkLocale :: "'s user_admin \<Rightarrow> string \<Rightarrow> unit result" where
  "checkLocale d locale =
     (if \<not> ValidLocale locale then Inl (invalid ''locale'' ''identity.locale.invalid'' [])
      else offers (sg_cfg (ad_Users d)) ''locale'' locale)"

section \<open>The extension and the hooks\<close>

definition extendCreate :: "'s user_admin \<Rightarrow> int \<Rightarrow> string \<Rightarrow> int \<Rightarrow> go_any option result" where
  "extendCreate d accountID ext actorID =
     (case ad_Extension d of
        None \<Rightarrow> Inr None
      | Some x \<Rightarrow> (case ex_Create x accountID ext actorID of Inl e \<Rightarrow> Inl (stored e) | Inr a \<Rightarrow> Inr (Some a)))"

definition extendUpdate :: "'s user_admin \<Rightarrow> int \<Rightarrow> string \<Rightarrow> int \<Rightarrow> unit result" where
  "extendUpdate d accountID ext actorID =
     (case ad_Extension d of
        None \<Rightarrow> Inr ()
      | Some x \<Rightarrow> (case ex_Update x accountID ext actorID of Inl e \<Rightarrow> Inl (stored e) | Inr a \<Rightarrow> Inr ()))"

definition exts :: "'s user_admin \<Rightarrow> int list \<Rightarrow> (int, go_any) gomap result" where
  "exts d ids =
     (case ad_Extension d of
        None \<Rightarrow> Inr fmempty
      | Some x \<Rightarrow> (case ex_Ext x ids of Inl e \<Rightarrow> Inl (stored e) | Inr m \<Rightarrow> Inr m))"

fun ask_hooks :: "(account \<Rightarrow> int \<Rightarrow> unit result) list \<Rightarrow> account \<Rightarrow> int \<Rightarrow> unit result" where
  "ask_hooks [] acc actorID = Inr ()"
| "ask_hooks (h # hs) acc actorID = (case h acc actorID of Inl e \<Rightarrow> Inl (stored e) | Inr _ \<Rightarrow> ask_hooks hs acc actorID)"

definition deactivating :: "'s user_admin \<Rightarrow> account \<Rightarrow> string \<Rightarrow> int \<Rightarrow> go_any option result" where
  "deactivating d acc details actorID =
     res_bind (ask_hooks (ad_Hooks d) acc actorID) (\<lambda>_.
       case ad_Extension d of
         None \<Rightarrow> Inr None
       | Some x \<Rightarrow> (case ex_Deactivate x acc details actorID of Inl e \<Rightarrow> Inl (stored e) | Inr a \<Rightarrow> Inr (Some a)))"

section \<open>Creating and changing an account\<close>

record create_account =
  cr_Login :: string
  cr_Name :: string
  cr_Email :: string
  cr_Phone :: string
  cr_Locale :: string
  cr_Password :: string
  cr_ActorID :: int
  cr_Ext :: string

record detail =
  dt_Account :: account
  dt_LastSignIn :: "int option"
  dt_LockedUntil :: "int option"
  dt_Ext :: "go_any option"

definition new_account :: "'s user_admin \<Rightarrow> create_account \<Rightarrow> account" where
  "new_account d req =
     \<lparr>ac_ID = 0, ac_Login = NormalizeLogin (sg_uni (ad_Users d)) (cr_Login req),
      ac_Email = NormalizeEmail (sg_uni (ad_Users d)) (cr_Email req), ac_Phone = TrimSpace (cr_Phone req),
      ac_Name = TrimSpace (cr_Name req), ac_Locale = cr_Locale req, ac_Active = True, ac_PasswordHash = [], ac_CreatedAt = 0\<rparr>"

definition created_change :: "account \<Rightarrow> int \<Rightarrow> change" where
  "created_change a actorID =
     \<lparr>ch_AccountID = ac_ID a, ch_ActorID = actorID, ch_Action = ChangeCreated,
      ch_Fields = [''login'', ''name'', ''email'', ''phone'', ''locale''], ch_Before = [],
      ch_After = [(''login'', ac_Login a), (''name'', ac_Name a), (''email'', ac_Email a), (''phone'', ac_Phone a),
        (''locale'', ac_Locale a)]\<rparr>"

definition CreateWithExt :: "'s user_admin \<Rightarrow> 's iworld \<Rightarrow> create_account \<Rightarrow> detail result \<times> 's iworld" where
  "CreateWithExt d w req =
     (let acc = new_account d req in
      case checkAll [checkLogin (ac_Login acc), checkName (ac_Name acc), checkEmail (ad_parse d) ''email'' (ac_Email acc),
          checkPhone (ac_Phone acc), checkLocale d (ac_Locale acc), checkPassword (ad_Policy d) ''password'' (cr_Password req)] of
        Inl e \<Rightarrow> (Inl e, w)
      | Inr _ \<Rightarrow>
          case emailFree (ad_ops d) w (ac_Email acc) 0 of
            Inl e \<Rightarrow> (Inl e, w)
          | Inr _ \<Rightarrow>
              case ad_Hash d (cr_Password req) of
                Inl e \<Rightarrow> (Inl (Internal e), w)
              | Inr hash \<Rightarrow>
                  let acc1 = acc\<lparr>ac_PasswordHash := hash, ac_CreatedAt := inow w\<rparr> in
                  st_bind (ad_within d (itick w) (\<lambda>w1.
                    st_bind (stored_write w1 (id_Create (ad_ops d) (iw_store w1) acc1)) (\<lambda>created w2.
                      case extendCreate d (ac_ID created) (cr_Ext req) (cr_ActorID req) of
                        Inl e \<Rightarrow> (Inl e, w2)
                      | Inr ext \<Rightarrow>
                          st_bind (log_change (ad_ops d) w2 (created_change created (cr_ActorID req))) (\<lambda>_ w3.
                            (Inr (created, ext), w3))))) (\<lambda>p w4.
                    (Inr \<lparr>dt_Account = fst p, dt_LastSignIn = None, dt_LockedUntil = None, dt_Ext = snd p\<rparr>,
                     tell w4 (NoticeAccountCreated (ac_ID (fst p)) (cr_ActorID req)))))"

record update_account =
  up_ID :: int
  up_Login :: string
  up_Name :: string
  up_Email :: string
  up_Phone :: string
  up_Locale :: string
  up_ActorID :: int
  up_Ext :: string

text \<open>The details that differ: the field, what it was and what it is to be.\<close>

definition differing :: "account \<Rightarrow> account \<Rightarrow> (string \<times> string \<times> string) list" where
  "differing cur nxt =
     filter (\<lambda>(f, was, now). was \<noteq> now)
       [(''login'', ac_Login cur, ac_Login nxt), (''name'', ac_Name cur, ac_Name nxt), (''email'', ac_Email cur, ac_Email nxt),
        (''phone'', ac_Phone cur, ac_Phone nxt), (''locale'', ac_Locale cur, ac_Locale nxt)]"

definition set_if :: "string \<Rightarrow> string \<Rightarrow> string option" where
  "set_if was now = (if was = now then None else Some now)"

definition changes_of :: "account \<Rightarrow> account \<Rightarrow> changes" where
  "changes_of cur nxt =
     \<lparr>chg_Login = set_if (ac_Login cur) (ac_Login nxt), chg_Email = set_if (ac_Email cur) (ac_Email nxt),
      chg_Name = set_if (ac_Name cur) (ac_Name nxt), chg_Phone = set_if (ac_Phone cur) (ac_Phone nxt),
      chg_Locale = set_if (ac_Locale cur) (ac_Locale nxt)\<rparr>"

definition updated_change :: "int \<Rightarrow> int \<Rightarrow> (string \<times> string \<times> string) list \<Rightarrow> change" where
  "updated_change i actorID fs =
     \<lparr>ch_AccountID = i, ch_ActorID = actorID, ch_Action = ChangeUpdated, ch_Fields = map fst fs,
      ch_Before = map (\<lambda>(f, was, now). (f, was)) fs, ch_After = map (\<lambda>(f, was, now). (f, now)) fs\<rparr>"

definition ad_Update :: "'s user_admin \<Rightarrow> 's iworld \<Rightarrow> update_account \<Rightarrow> account result \<times> 's iworld" where
  "ad_Update d w inp =
     (case users_Get (ad_Users d) w (up_ID inp) of
        Inl e \<Rightarrow> (Inl e, w)
      | Inr cur \<Rightarrow>
          let uni = sg_uni (ad_Users d);
              nxt = \<lparr>ac_ID = 0, ac_Login = NormalizeLogin uni (up_Login inp), ac_Email = NormalizeEmail uni (up_Email inp),
                ac_Phone = TrimSpace (up_Phone inp), ac_Name = TrimSpace (up_Name inp), ac_Locale = up_Locale inp,
                ac_Active = False, ac_PasswordHash = [], ac_CreatedAt = 0\<rparr> in
          case checkAll [checkLogin (ac_Login nxt), checkName (ac_Name nxt), checkEmail (ad_parse d) ''email'' (ac_Email nxt),
              checkPhone (ac_Phone nxt), checkLocale d (ac_Locale nxt)] of
            Inl e \<Rightarrow> (Inl e, w)
          | Inr _ \<Rightarrow>
              let fs = differing cur nxt; chg = changes_of cur nxt in
              if fs = [] \<and> ad_Extension d = None then (Inr cur, w)
              else case (if chg_Email chg \<noteq> None then emailFree (ad_ops d) w (ac_Email nxt) (ac_ID cur) else Inr ()) of
                Inl e \<Rightarrow> (Inl e, w)
              | Inr _ \<Rightarrow>
                  st_bind (ad_within d w (\<lambda>w1.
                    if fs = [] then (extendUpdate d (ac_ID cur) (up_Ext inp) (up_ActorID inp), w1)
                    else st_bind (stored_write w1 (id_Update (ad_ops d) (iw_store w1) (ac_ID cur) chg)) (\<lambda>_ w2.
                      case extendUpdate d (ac_ID cur) (up_Ext inp) (up_ActorID inp) of
                        Inl e \<Rightarrow> (Inl e, w2)
                      | Inr _ \<Rightarrow> log_change (ad_ops d) w2 (updated_change (ac_ID cur) (up_ActorID inp) fs)))) (\<lambda>_ w3.
                    let w4 = (if chg_Email chg \<noteq> None
                          then tell w3 (NoticeEmailChanged (ac_ID cur) (ac_Email cur) (ac_Email nxt)) else w3);
                        w5 = tell w4 (NoticeAccountChanged (ac_ID cur)) in
                    (users_Get (ad_Users d) w5 (ac_ID cur), w5)))"

section \<open>Access to the account\<close>

record set_password =
  sp_ID :: int
  sp_Password :: string
  sp_ActorID :: int
  sp_KeepToken :: string

definition plain_change :: "int \<Rightarrow> int \<Rightarrow> change_action \<Rightarrow> string list \<Rightarrow> (string \<times> string) list \<Rightarrow> (string \<times> string) list \<Rightarrow> change" where
  "plain_change i actorID action fs was now =
     \<lparr>ch_AccountID = i, ch_ActorID = actorID, ch_Action = action, ch_Fields = fs, ch_Before = was, ch_After = now\<rparr>"

definition SetPassword :: "'s user_admin \<Rightarrow> 's iworld \<Rightarrow> set_password \<Rightarrow> unit result \<times> 's iworld" where
  "SetPassword d w inp =
     (case users_Get (ad_Users d) w (sp_ID inp) of
        Inl e \<Rightarrow> (Inl e, w)
      | Inr _ \<Rightarrow>
          case checkPassword (ad_Policy d) ''password'' (sp_Password inp) of
            Inl e \<Rightarrow> (Inl e, w)
          | Inr _ \<Rightarrow>
              case ad_Hash d (sp_Password inp) of
                Inl e \<Rightarrow> (Inl (Internal e), w)
              | Inr hash \<Rightarrow>
                  st_bind (ad_within d w (\<lambda>w1.
                    st_bind (log_change (ad_ops d) w1
                      (plain_change (sp_ID inp) (sp_ActorID inp) ChangePassword_action [''password''] [] [])) (\<lambda>_ w2.
                    st_bind (stored_write w2 (id_SetPasswordHash (ad_ops d) (iw_store w2) (sp_ID inp) hash)) (\<lambda>_ w3.
                    st_bind (appendEntry (ad_ops d) w3 (entry (sp_ID inp) Unlocked (sp_ActorID inp) [] [])) (\<lambda>_ w4.
                      revokeSessions (ad_Users d) w4 \<lparr>rv_AccountID = sp_ID inp, rv_KeepToken = sp_KeepToken inp,
                        rv_ActorID = sp_ActorID inp, rv_Reason = Some EndedPasswordChanged\<rparr>))))) (\<lambda>pending w5.
                    (Inr (), tell (tell (announce w5 pending) (NoticePasswordChanged (sp_ID inp) (sp_ActorID inp)))
                       (NoticeAccountChanged (sp_ID inp)))))"

record deactivate_input =
  de_ID :: int
  de_ActorID :: int
  de_Details :: string

definition ReasonSelfDeactivate :: reason where "ReasonSelfDeactivate = ''identity.account.self_deactivation''"
definition ReasonAlreadyInactive :: reason where "ReasonAlreadyInactive = ''identity.account.already_inactive''"
definition ReasonAlreadyActive :: reason where "ReasonAlreadyActive = ''identity.account.already_active''"

definition DeactivateWithExt :: "'s user_admin \<Rightarrow> 's iworld \<Rightarrow> deactivate_input \<Rightarrow> go_any option result \<times> 's iworld" where
  "DeactivateWithExt d w req =
     (if de_ActorID req \<noteq> 0 \<and> de_ActorID req = de_ID req
      then (Inl (App (WithReason ReasonSelfDeactivate [] (BadRequest ReasonSelfDeactivate))), w)
      else case users_Get (ad_Users d) w (de_ID req) of
        Inl e \<Rightarrow> (Inl e, w)
      | Inr acc \<Rightarrow>
          if \<not> ac_Active acc
          then (Inl (App (WithReason ReasonAlreadyInactive [] (apperr_Wrap None ReasonAlreadyInactive CodeAlreadyExists))), w)
          else
            st_bind (ad_within d w (\<lambda>w1.
              case deactivating d acc (de_Details req) (de_ActorID req) of
                Inl e \<Rightarrow> (Inl e, w1)
              | Inr ext \<Rightarrow>
                  st_bind (stored_write w1 (id_SetActive (ad_ops d) (iw_store w1) (ac_ID acc) False)) (\<lambda>_ w2.
                  st_bind (revokeSessions (ad_Users d) w2 \<lparr>rv_AccountID = ac_ID acc, rv_KeepToken = [],
                    rv_ActorID = de_ActorID req, rv_Reason = Some EndedDeactivated\<rparr>) (\<lambda>pending w3.
                  st_bind (log_change (ad_ops d) w3 (plain_change (ac_ID acc) (de_ActorID req) ChangeDeactivated [''active'']
                    [(''active'', ''true'')] [(''active'', ''false'')])) (\<lambda>_ w4. (Inr (pending, ext), w4)))))) (\<lambda>p w5.
              (Inr (snd p), tell (tell (announce w5 (fst p)) (NoticeAccountDeactivated (ac_ID acc) (de_ActorID req)))
                 (NoticeAccountChanged (ac_ID acc)))))"

definition Activate :: "'s user_admin \<Rightarrow> 's iworld \<Rightarrow> deactivate_input \<Rightarrow> unit result \<times> 's iworld" where
  "Activate d w inp =
     (case users_Get (ad_Users d) w (de_ID inp) of
        Inl e \<Rightarrow> (Inl e, w)
      | Inr acc \<Rightarrow>
          if ac_Active acc
          then (Inl (App (WithReason ReasonAlreadyActive [] (apperr_Wrap None ReasonAlreadyActive CodeAlreadyExists))), w)
          else
            st_bind (ad_within d w (\<lambda>w1.
              st_bind (stored_write w1 (id_SetActive (ad_ops d) (iw_store w1) (ac_ID acc) True)) (\<lambda>_ w2.
                log_change (ad_ops d) w2 (plain_change (ac_ID acc) (de_ActorID inp) ChangeActivated [''active'']
                  [(''active'', ''false'')] [(''active'', ''true'')])))) (\<lambda>_ w3.
              (Inr (), tell (tell w3 (NoticeAccountActivated (ac_ID acc) (de_ActorID inp))) (NoticeAccountChanged (ac_ID acc)))))"

definition lockedUntil :: "'s signin \<Rightarrow> 's iworld \<Rightarrow> int \<Rightarrow> int option result \<times> 's iworld" where
  "lockedUntil u w accountID =
     (case id_LockEvents (sg_ops u) (iw_store w) accountID (lk_After (cf_Lock (sg_cfg u))) of
        Inl e \<Rightarrow> (Inl (Internal e), w)
      | Inr latest \<Rightarrow> (Inr (LockedUntil (cf_Lock (sg_cfg u)) latest (inow w)), itick w))"

definition Unlock :: "'s user_admin \<Rightarrow> 's iworld \<Rightarrow> int \<Rightarrow> int \<Rightarrow> bool result \<times> 's iworld" where
  "Unlock d w i actorID =
     (case users_Get (ad_Users d) w i of
        Inl e \<Rightarrow> (Inl e, w)
      | Inr _ \<Rightarrow>
          st_bind (lockedUntil (ad_Users d) w i) (\<lambda>until w1.
            if until = None then (Inr False, w1)
            else st_bind (appendEntry (ad_ops d) w1 (entry i Unlocked actorID [] [])) (\<lambda>_ w2. (Inr True, w2))))"

definition ChangeLocale :: "'s signin \<Rightarrow> 's iworld \<Rightarrow> int \<Rightarrow> string \<Rightarrow> unit result \<times> 's iworld" where
  "ChangeLocale u w accountID locale =
     (if \<not> ValidLocale locale then (Inl (App (WithReason ''identity.locale.invalid'' [] (BadRequest ''identity.locale.invalid''))), w)
      else case offers (sg_cfg u) ''locale'' locale of
        Inl e \<Rightarrow> (Inl e, w)
      | Inr _ \<Rightarrow>
          case id_SetLocale (sg_ops u) (iw_store w) accountID locale of
            (Inl e, st) \<Rightarrow> (Inl (if errors_Is e ErrNotFound then accountNotFound else Internal e), w\<lparr>iw_store := st\<rparr>)
          | (Inr _, st) \<Rightarrow> (Inr (), tell (w\<lparr>iw_store := st\<rparr>) (NoticeAccountChanged accountID)))"

section \<open>Sessions of an account\<close>

definition users_Sessions :: "'s signin \<Rightarrow> 's iworld \<Rightarrow> int \<Rightarrow> session list result \<times> 's iworld" where
  "users_Sessions u w accountID =
     (case id_Live (sg_ops u) (iw_store w) accountID (inow w) of Inl e \<Rightarrow> (Inl (Internal e), itick w) | Inr xs \<Rightarrow> (Inr xs, itick w))"

definition ad_Sessions :: "'s user_admin \<Rightarrow> 's iworld \<Rightarrow> int \<Rightarrow> session list result \<times> 's iworld" where
  "ad_Sessions d w accountID =
     (case users_Get (ad_Users d) w accountID of Inl e \<Rightarrow> (Inl e, w) | Inr _ \<Rightarrow> users_Sessions (ad_Users d) w accountID)"

definition ad_RevokeSession :: "'s user_admin \<Rightarrow> 's iworld \<Rightarrow> int \<Rightarrow> int \<Rightarrow> int \<Rightarrow> unit result \<times> 's iworld" where
  "ad_RevokeSession d w accountID sessionID actorID =
     (case users_Get (ad_Users d) w accountID of
        Inl e \<Rightarrow> (Inl e, w)
      | Inr _ \<Rightarrow> RevokeSession (ad_Users d) w accountID sessionID 0 actorID)"

definition ad_RevokeSessions :: "'s user_admin \<Rightarrow> 's iworld \<Rightarrow> int \<Rightarrow> int \<Rightarrow> unit result \<times> 's iworld" where
  "ad_RevokeSessions d w accountID actorID =
     (case users_Get (ad_Users d) w accountID of
        Inl e \<Rightarrow> (Inl e, w)
      | Inr _ \<Rightarrow> RevokeSessions (ad_Users d) w \<lparr>rv_AccountID = accountID, rv_KeepToken = [], rv_ActorID = actorID, rv_Reason = None\<rparr>)"

section \<open>The list\<close>

record paging =
  pa_Page :: int
  pa_PerPage :: int

definition MaxPerPage :: int where "MaxPerPage = 100"

definition resolved :: "paging \<Rightarrow> paging" where
  "resolved p =
     \<lparr>pa_Page = (if pa_Page p < 1 then 1 else pa_Page p),
      pa_PerPage = min (if pa_PerPage p < 1 then 20 else pa_PerPage p) MaxPerPage\<rparr>"

definition paging_offset :: "paging \<Rightarrow> int" where
  "paging_offset p = (pa_Page (resolved p) - 1) * pa_PerPage (resolved p)"

text \<open>Who is locked now and until when, of the accounts that had a wrong password within the lock's length.\<close>

fun locks_among :: "'s signin \<Rightarrow> 's iworld \<Rightarrow> int list \<Rightarrow> (int, int) gomap \<Rightarrow> (int, int) gomap result \<times> 's iworld" where
  "locks_among u w [] locked = (Inr locked, w)"
| "locks_among u w (i # is) locked =
     st_bind (lockedUntil u w i) (\<lambda>until w1.
       locks_among u w1 is (case until of None \<Rightarrow> locked | Some t \<Rightarrow> fmupd i t locked))"

definition locks :: "'s user_admin \<Rightarrow> 's iworld \<Rightarrow> (int, int) gomap result \<times> 's iworld" where
  "locks d w =
     (case ad_WrongPasswordsSince d (iw_store w) (inow w - lk_For (cf_Lock (sg_cfg (ad_Users d)))) of
        Inl e \<Rightarrow> (Inl (Internal e), itick w)
      | Inr candidates \<Rightarrow> locks_among (ad_Users d) (itick w) candidates fmempty)"

definition ad_Get :: "'s user_admin \<Rightarrow> 's iworld \<Rightarrow> int \<Rightarrow> detail result \<times> 's iworld" where
  "ad_Get d w i =
     (case users_Get (ad_Users d) w i of
        Inl e \<Rightarrow> (Inl e, w)
      | Inr acc \<Rightarrow>
          case ad_LastSignIns d (iw_store w) [i] of
            Inl e \<Rightarrow> (Inl (Internal e), w)
          | Inr last' \<Rightarrow>
              st_bind (lockedUntil (ad_Users d) w i) (\<lambda>until w1.
                case exts d [i] of
                  Inl e \<Rightarrow> (Inl e, w1)
                | Inr xs \<Rightarrow> (Inr \<lparr>dt_Account = acc, dt_LastSignIn = fmlookup last' i, dt_LockedUntil = until,
                    dt_Ext = fmlookup xs i\<rparr>, w1)))"

record list_input =
  ls_View :: string
  ls_Search :: string
  ls_OrderBy :: string
  ls_Desc :: bool
  ls_Filters :: "(string \<times> string list) list"
  ls_LastSignIn :: string
  ls_Paging :: paging

record listing =
  lg_Rows :: "detail list"
  lg_Total :: int
  lg_Page :: int
  lg_PerPage :: int
  lg_LastPage :: int
  lg_Counts :: status_counts

definition order_of :: "string \<Rightarrow> order option" where
  "order_of s = map_of [(''login'', OrderLogin), (''name'', OrderName), (''email'', OrderEmail), (''created_at'', OrderCreated)]
     (if s = [] then ''login'' else s)"

definition last_sign_in_of :: "string \<Rightarrow> last_sign_in_filter option option" where
  "last_sign_in_of s = map_of [([], None), (''never'', Some LastSignInNever), (''idle'', Some LastSignInIdle)] s"

text \<open>How a view narrows the query; the ids of the locked accounts come in no particular order.\<close>

definition view_query :: "string \<Rightarrow> int list \<Rightarrow> acc_query \<Rightarrow> acc_query option" where
  "view_query view ids q =
     (if view = [] \<or> view = ''active'' then Some (q\<lparr>qu_Active := Some True, qu_Locked := Some False, qu_LockedIDs := ids\<rparr>)
      else if view = ''locked'' then Some (q\<lparr>qu_Active := Some True, qu_Locked := Some True, qu_LockedIDs := ids\<rparr>)
      else if view = ''inactive'' then Some (q\<lparr>qu_Active := Some False\<rparr>)
      else if view = ''all'' then Some q
      else None)"

definition last_page :: "int \<Rightarrow> int \<Rightarrow> int" where
  "last_page n perPage = max ((n + perPage - 1) div perPage) 1"

definition list_row :: "(int, int) gomap \<Rightarrow> (int, int) gomap \<Rightarrow> (int, go_any) gomap \<Rightarrow> account \<Rightarrow> detail" where
  "list_row lastIns lockMap xs a =
     \<lparr>dt_Account = a, dt_LastSignIn = fmlookup lastIns (ac_ID a), dt_LockedUntil = fmlookup lockMap (ac_ID a),
      dt_Ext = fmlookup xs (ac_ID a)\<rparr>"

definition ad_List :: "'s user_admin \<Rightarrow> 's iworld \<Rightarrow> list_input \<Rightarrow> listing result \<times> 's iworld" where
  "ad_List d w inp =
     (case order_of (ls_OrderBy inp) of
        None \<Rightarrow> (Inl (invalid ''order_col'' ''identity.list.order_invalid'' []), w)
      | Some ord \<Rightarrow>
          case last_sign_in_of (ls_LastSignIn inp) of
            None \<Rightarrow> (Inl (invalid ''last_sign_in'' ''identity.list.last_sign_in_invalid'' []), w)
          | Some since \<Rightarrow>
              let pg = resolved (ls_Paging inp);
                  q = \<lparr>qu_Search = TrimSpace (ls_Search inp), qu_Active = None, qu_Locked = None, qu_LockedIDs = [],
                    qu_Filters = ls_Filters inp, qu_LastSignIn = since, qu_IdleBefore = inow w - ad_IdleAfter d,
                    qu_OrderBy = ord, qu_Desc = ls_Desc inp, qu_Page = pa_Page pg, qu_PerPage = pa_PerPage pg\<rparr> in
              st_bind (locks d (itick w)) (\<lambda>lockMap w1.
                let ids = sortedKeys lockMap in
                case view_query (ls_View inp) ids q of
                  None \<Rightarrow> (Inl (invalid ''view'' ''identity.list.view_invalid'' []), w1)
                | Some q1 \<Rightarrow>
                    case ad_Search d (iw_store w1) q1 of
                      Inl e \<Rightarrow> (Inl (Internal e), w1)
                    | Inr page \<Rightarrow>
                        case ad_Counts d (iw_store w1) (q1\<lparr>qu_LockedIDs := ids\<rparr>) of
                          Inl e \<Rightarrow> (Inl (Internal e), w1)
                        | Inr counts \<Rightarrow>
                            let rowIDs = map ac_ID (pg_Accounts page) in
                            case ad_LastSignIns d (iw_store w1) rowIDs of
                              Inl e \<Rightarrow> (Inl (Internal e), w1)
                            | Inr lastIns \<Rightarrow>
                                case exts d rowIDs of
                                  Inl e \<Rightarrow> (Inl e, w1)
                                | Inr xs \<Rightarrow>
                                    (Inr \<lparr>lg_Rows = map (list_row lastIns lockMap xs) (pg_Accounts page), lg_Total = pg_Total page,
                                       lg_Page = pa_Page pg, lg_PerPage = pa_PerPage pg,
                                       lg_LastPage = last_page (pg_Total page) (pa_PerPage pg), lg_Counts = counts\<rparr>, w1)))"

section \<open>The history\<close>

definition failedEvents :: "sign_in_event list" where
  "failedEvents = [WrongPassword, LockedOut, RefusedInactive]"

definition sign_in_view_events :: "string \<Rightarrow> sign_in_event list result" where
  "sign_in_view_events v =
     (if v = [] \<or> v = ''all'' then Inr []
      else if v = ''failed'' then Inr failedEvents
      else Inl (invalid ''view'' ''identity.history.view_invalid'' []))"

definition signInCounts :: "(sign_in_event \<times> nat) list \<Rightarrow> nat \<times> nat" where
  "signInCounts byEvent =
     (sum_list (map snd byEvent), sum_list (map snd (filter (\<lambda>(e, n). e \<in> set failedEvents) byEvent)))"

definition accessActions :: "change_action list" where
  "accessActions = [ChangePassword_action, ChangeDeactivated, ChangeActivated]"

definition change_view_narrow :: "string \<Rightarrow> (change_action list \<times> change_action list) result" where
  "change_view_narrow v =
     (if v = [] \<or> v = ''all'' then Inr ([], [])
      else if v = ''access'' then Inr (accessActions, [])
      else if v = ''details'' then Inr ([], accessActions)
      else Inl (invalid ''view'' ''identity.history.view_invalid'' []))"

definition changeCounts :: "(change_action \<times> int) list \<Rightarrow> int \<times> int \<times> int" where
  "changeCounts byAction =
     (let all = sum_list (map snd byAction);
          access = sum_list (map snd (filter (\<lambda>(a, n). a \<in> set accessActions) byAction))
      in (all, access, all - access))"

section \<open>Who is locked\<close>

lemma LockedUntil_earlier: "LockedUntil l es n = Some t \<Longrightarrow> n' \<le> n \<Longrightarrow> LockedUntil l es n' = Some t"
  by (auto simp: LockedUntil_iff Let_def)

lemma LockedUntil_same: "LockedUntil l es n = Some t \<Longrightarrow> LockedUntil l es n' = Some t' \<Longrightarrow> t' = t"
  by (auto simp: LockedUntil_iff Let_def)

lemma locks_among_world: "locks_among u w ids m0 = (Inr m, w') \<Longrightarrow> iw_store w' = iw_store w \<and> iw_clock w' = iw_clock w \<and> iw_ticks w \<le> iw_ticks w'"
  by (induction u w ids m0 rule: locks_among.induct) (fastforce simp: lockedUntil_def st_bind_Inr_iff split: sum.splits)+

lemma locks_among_exact:
  assumes "locks_among u w ids m0 = (Inr m, w')" "mono (iw_clock w)"
    and ev: "\<And>i. id_LockEvents (sg_ops u) (iw_store w) i (lk_After (cf_Lock (sg_cfg u))) = Inr (ev i)"
    and "\<And>t. fmlookup m0 i = Some t \<Longrightarrow> \<exists>n \<ge> inow w0. LockedUntil (cf_Lock (sg_cfg u)) (ev i) n = Some t" "inow w0 \<le> inow w"
  shows "(fmlookup m i = Some t \<longrightarrow> LockedUntil (cf_Lock (sg_cfg u)) (ev i) (inow w0) = Some t)
    \<and> (i \<in> set ids \<or> fmlookup m0 i \<noteq> None \<longrightarrow> LockedUntil (cf_Lock (sg_cfg u)) (ev i) (inow w') = Some t \<longrightarrow> fmlookup m i = Some t)"
  using assms
proof (induction u w ids m0 rule: locks_among.induct)
  case (1 u w locked)
  then show ?case by (auto intro: LockedUntil_earlier dest: LockedUntil_same)
next
  case (2 u w j ids m0)
  let ?l = "cf_Lock (sg_cfg u)"
  define m1 where "m1 = (case LockedUntil ?l (ev j) (inow w) of None \<Rightarrow> m0 | Some t \<Rightarrow> fmupd j t m0)"
  have lu: "lockedUntil u w j = (Inr (LockedUntil ?l (ev j) (inow w)), itick w)" using 2(4) by (simp add: lockedUntil_def)
  have r: "locks_among u (itick w) ids m1 = (Inr m, w')" using 2(2) lu by (simp add: m1_def)
  have t1: "inow w \<le> inow (itick w)" using 2(3) by (simp add: inow_def monoD)
  have w': "inow w \<le> inow w'" using locks_among_world [OF 2(2)] 2(3) by (auto simp: inow_def monoD)
  have m1: "\<exists>n \<ge> inow w0. LockedUntil ?l (ev i) n = Some t" if "fmlookup m1 i = Some t" for t
    using that 2(5) [of t] 2(6) by (auto simp: m1_def split: option.splits if_splits)
  have ih: "(fmlookup m i = Some t \<longrightarrow> LockedUntil ?l (ev i) (inow w0) = Some t)
      \<and> (i \<in> set ids \<or> fmlookup m1 i \<noteq> None \<longrightarrow> LockedUntil ?l (ev i) (inow w') = Some t \<longrightarrow> fmlookup m i = Some t)"
    using 2(1) [of "itick w" "LockedUntil ?l (ev j) (inow w)", folded m1_def, OF r] 2(3,4,6) t1 m1 by auto
  moreover have "fmlookup m1 i \<noteq> None" if "i = j \<or> fmlookup m0 i \<noteq> None" "LockedUntil ?l (ev i) (inow w') = Some t"
    using that LockedUntil_earlier [OF that(2) w'] by (auto simp: m1_def split: option.splits)
  ultimately show ?case by auto
qed

lemma WrongPasswordsSince_acc:
  "set (foldl (\<lambda>ids r. if P r \<and> f r \<notin> set ids then ids @ [f r] else ids) acc rows) = set acc \<union> f ` {r \<in> set rows. P r}"
  by (induction rows arbitrary: acc) auto

lemma in_WrongPasswordsSince:
  "i \<in> set (si_WrongPasswordsSince rows since) \<longleftrightarrow>
     (\<exists>r \<in> set rows. en_Event r = WrongPassword \<and> en_CreatedAt r > since \<and> en_AccountID r = i)"
  using WrongPasswordsSince_acc [of "\<lambda>r. en_Event r = WrongPassword \<and> en_CreatedAt r > since" en_AccountID "[]" rows]
  by (auto simp: si_WrongPasswordsSince_def conj_assoc)

end
