(* ===== verification/Profile.thy ===== *)
theory Profile
  imports UserAdmin
begin

text \<open>
  What a signed-in person does with their own account, \<^verbatim>\<open>identity/account/profile.go\<close>: the part of each operation
  that reads and writes the account, its sessions and its history. Where an operation asks the re-confirmation of the
  password or a one-time code first, it is split there: here is what follows the answer, and the whole operation, with the
  other two services, is in the theory of the profile's flows. \<^verbatim>\<open>ProfileDeps\<close> shares its users, transactor,
  policy and hasher with the users module.
\<close>

section \<open>Details\<close>

record profile_details =
  pd_AccountID :: int
  pd_Name :: string
  pd_Phone :: string

definition differing_details :: "account \<Rightarrow> string \<Rightarrow> string \<Rightarrow> (string \<times> string \<times> string) list" where
  "differing_details cur name phone =
     filter (\<lambda>(f, was, now). was \<noteq> now) [(''name'', ac_Name cur, name), (''phone'', ac_Phone cur, phone)]"

definition updateDetails :: "'s user_admin \<Rightarrow> 's iworld \<Rightarrow> profile_details \<Rightarrow> unit result \<times> 's iworld" where
  "updateDetails d w inp =
     (let name = TrimSpace (pd_Name inp); phone = TrimSpace (pd_Phone inp) in
      case checkAll [checkName name, checkPhone phone] of
        Inl e \<Rightarrow> (Inl e, w)
      | Inr _ \<Rightarrow>
          case users_Get (ad_Users d) w (pd_AccountID inp) of
            Inl e \<Rightarrow> (Inl e, w)
          | Inr current \<Rightarrow>
              if ac_Name current = name \<and> ac_Phone current = phone then (Inr (), w)
              else
                let fs = differing_details current name phone in
                st_bind (ad_within d w (\<lambda>w1.
                  st_bind (stored_write w1 (id_Update (ad_ops d) (iw_store w1) (pd_AccountID inp)
                    \<lparr>chg_Login = None, chg_Email = None, chg_Name = Some name, chg_Phone = Some phone, chg_Locale = None\<rparr>)) (\<lambda>_ w2.
                  log_change (ad_ops d) w2 (plain_change (pd_AccountID inp) 0 ChangeProfile (map fst fs)
                    (map (\<lambda>(f, was, now). (f, was)) fs) (map (\<lambda>(f, was, now). (f, now)) fs))))) (\<lambda>_ w3.
                (Inr (), tell w3 (NoticeAccountChanged (pd_AccountID inp)))))"

section \<open>The password\<close>

definition ReasonPasswordMismatch :: reason where "ReasonPasswordMismatch = ''identity.password.mismatch''"
definition ReasonCodeInvalid :: reason where "ReasonCodeInvalid = ''identity.code.invalid''"
definition ReasonPasswordSame :: reason where "ReasonPasswordSame = ''identity.password.unchanged''"
definition ReasonPasswordWrong :: reason where "ReasonPasswordWrong = ''identity.password.wrong''"
definition ReasonEmailUnchanged :: reason where "ReasonEmailUnchanged = ''identity.email.unchanged''"
definition ReasonEmailDisabled :: reason where "ReasonEmailDisabled = ''identity.email.disabled''"

record password_change =
  pc_AccountID :: int
  pc_CurrentPassword :: string
  pc_NewPassword :: string
  pc_Confirmation :: string
  pc_KeepToken :: string

text \<open>Once the current password is confirmed.\<close>

definition changePassword :: "'s user_admin \<Rightarrow> 's iworld \<Rightarrow> account \<Rightarrow> password_change \<Rightarrow> unit result \<times> 's iworld" where
  "changePassword d w acc inp =
     (case checkPassword (ad_Policy d) ''new_password'' (pc_NewPassword inp) of
        Inl e \<Rightarrow> (Inl e, w)
      | Inr _ \<Rightarrow>
          if pc_NewPassword inp \<noteq> pc_Confirmation inp then (Inl (invalid ''new_password_confirmation'' ReasonPasswordMismatch []), w)
          else if sg_Matches (ad_Users d) (ac_PasswordHash acc) (pc_NewPassword inp)
          then (Inl (invalid ''new_password'' ReasonPasswordSame []), w)
          else case ad_Hash d (pc_NewPassword inp) of
            Inl e \<Rightarrow> (Inl (Internal e), w)
          | Inr hash \<Rightarrow>
              st_bind (ad_within d w (\<lambda>w1.
                st_bind (log_change (ad_ops d) w1 (plain_change (ac_ID acc) 0 ChangePassword_action [''password''] [] [])) (\<lambda>_ w2.
                st_bind (stored_write w2 (id_SetPasswordHash (ad_ops d) (iw_store w2) (ac_ID acc) hash)) (\<lambda>_ w3.
                  revokeSessions (ad_Users d) w3 \<lparr>rv_AccountID = ac_ID acc, rv_KeepToken = pc_KeepToken inp, rv_ActorID = 0,
                    rv_Reason = Some EndedPasswordChanged\<rparr>)))) (\<lambda>pending w4.
                (Inr (), tell (tell (announce w4 pending) (NoticePasswordChanged (ac_ID acc) 0)) (NoticeAccountChanged (ac_ID acc)))))"

section \<open>The address\<close>

definition checkNewEmail :: "'s user_admin \<Rightarrow> 's iworld \<Rightarrow> account \<Rightarrow> string \<Rightarrow> unit result" where
  "checkNewEmail d w acc email =
     (case checkEmail (ad_parse d) ''email'' email of
        Inl e \<Rightarrow> Inl e
      | Inr _ \<Rightarrow>
          if email = NormalizeEmail (sg_uni (ad_Users d)) (ac_Email acc) then Inl (invalid ''email'' ReasonEmailUnchanged [])
          else emailFree (ad_ops d) w email (ac_ID acc))"

text \<open>Once the code is verified, which confirms the address.\<close>

definition confirmedEmail :: "'s user_admin \<Rightarrow> 's iworld \<Rightarrow> account \<Rightarrow> string \<Rightarrow> unit result \<times> 's iworld" where
  "confirmedEmail d w acc email =
     (case checkNewEmail d w acc email of
        Inl e \<Rightarrow> (Inl e, w)
      | Inr _ \<Rightarrow>
          st_bind (ad_within d w (\<lambda>w1.
            st_bind (stored_write w1 (id_Update (ad_ops d) (iw_store w1) (ac_ID acc)
              \<lparr>chg_Login = None, chg_Email = Some email, chg_Name = None, chg_Phone = None, chg_Locale = None\<rparr>)) (\<lambda>_ w2.
            log_change (ad_ops d) w2 (plain_change (ac_ID acc) 0 ChangeEmail [''email''] [(''email'', ac_Email acc)] [(''email'', email)])))) (\<lambda>_ w3.
          (Inr (), tell (tell w3 (NoticeEmailChanged (ac_ID acc) (ac_Email acc) email)) (NoticeAccountChanged (ac_ID acc)))))"

definition emailDisabled :: go_error where
  "emailDisabled = App (WithReason ReasonEmailDisabled [] (BadRequest ReasonEmailDisabled))"

section \<open>Sessions\<close>

definition profile_RevokeSession :: "'s user_admin \<Rightarrow> 's iworld \<Rightarrow> int \<Rightarrow> int \<Rightarrow> int \<Rightarrow> unit result \<times> 's iworld" where
  "profile_RevokeSession d w accountID sessionID current = RevokeSession (ad_Users d) w accountID sessionID current 0"

end
