(* ===== verification/Services.thy ===== *)
theory Services
  imports Profile
begin

text \<open>
  What stays true of the identity core whatever its services do. The services are one step relation, over every
  operation of the sign-in service, of the users module and of a person's profile; a property of the stores that each port keeps (the locale
  \<open>kept\<close>) is kept by every step, and so along every run. The contract of the stores gives three such
  properties: a spent token, an inactive account, and the history that the lock on sign-in leaves behind.
\<close>

section \<open>The services as steps\<close>

text \<open>
  A person's change of password or address works on the account as it was read before the password was confirmed or the
  code verified, which may be out of date: any account is allowed there. \<open>may\<close> says which accounts the
  administrators activate in the run that is looked at. Each operation is one step: the runs are those in which requests do not
  overlap within an operation, although the code holds no lock across one. Overlapping requests are treated where the stores guard
  against them, in \<open>Codes\<close> and \<open>Reauth\<close>.
\<close>

inductive service_step :: "'s user_admin \<Rightarrow> (int \<Rightarrow> bool) \<Rightarrow> 's iworld \<Rightarrow> 's iworld \<Rightarrow> bool" for d may where
  step_Login: "service_step d may w (snd (Login (ad_Users d) w inp))"
| step_Refresh: "service_step d may w (snd (Refresh (ad_Users d) w token device ip))"
| step_Logout: "service_step d may w (snd (Logout (ad_Users d) w token))"
| step_LoginAs: "service_step d may w (snd (LoginAs (ad_Users d) w actor target device ip))"
| step_Return: "service_step d may w (snd (Return (ad_Users d) w session device ip))"
| step_Authenticate: "service_step d may w (snd (Authenticate (ad_Users d) w token))"
| step_Embed: "service_step d may w (snd (Embed (ad_Users d) w i device ip))"
| step_RevokeSession: "service_step d may w (snd (RevokeSession (ad_Users d) w i sessionID keep actor))"
| step_RevokeSessions: "service_step d may w (snd (RevokeSessions (ad_Users d) w req))"
| step_ChangeLocale: "service_step d may w (snd (ChangeLocale (ad_Users d) w i loc))"
| step_Create: "service_step d may w (snd (CreateWithExt d w new))"
| step_Update: "service_step d may w (snd (ad_Update d w upd))"
| step_SetPassword: "service_step d may w (snd (SetPassword d w pw))"
| step_Deactivate: "service_step d may w (snd (DeactivateWithExt d w de))"
| step_Activate: "may (de_ID de) \<Longrightarrow> service_step d may w (snd (Activate d w de))"
| step_Unlock: "service_step d may w (snd (Unlock d w i actor))"
| step_UpdateDetails: "service_step d may w (snd (updateDetails d w pd))"
| step_ChangePassword: "service_step d may w (snd (changePassword d w acc pc))"
| step_ConfirmEmail: "service_step d may w (snd (confirmedEmail d w acc email))"
| step_List: "service_step d may w (snd (ad_List d w li))"
| step_Get: "service_step d may w (snd (ad_Get d w i))"
| step_time: "service_step d may w (itick w)"

section \<open>The clock of a service only moves on\<close>

definition ticks :: "'s iworld \<Rightarrow> 's iworld \<Rightarrow> bool" where
  "ticks w w' \<longleftrightarrow> iw_clock w' = iw_clock w \<and> iw_ticks w \<le> iw_ticks w'"

lemma ticks_refl [simp]: "ticks w w" by (simp add: ticks_def)

lemma ticks_simps [simp]:
  "ticks w (w'\<lparr>iw_store := st\<rparr>) = ticks w w'" "ticks w (tell w' n) = ticks w w'" "ticks w (announce w' p) = ticks w w'"
  by (simp_all add: ticks_def announce_def)

lemma announce_store [simp]: "iw_store (announce w p) = iw_store w"
  by (simp add: announce_def)

lemma ticks_itick: "ticks w w' \<Longrightarrow> ticks w (itick w')"
  by (simp add: ticks_def)

lemma ticks_id_write: "ticks w w' \<Longrightarrow> ticks w (snd (id_write w' r))"
  by (cases r; cases "fst r"; simp)

lemma ticks_stored_write: "ticks w w' \<Longrightarrow> ticks w (snd (stored_write w' r))"
  by (cases r; cases "fst r"; simp add: stored_write_def)

lemma ticks_log_change: "ticks w w' \<Longrightarrow> ticks w (snd (log_change ops w' c))"
  by (simp add: log_change_def split: prod.split)

lemma ticks_appendEntry: "ticks w w' \<Longrightarrow> ticks w (snd (appendEntry ops w' row))"
  by (simp add: appendEntry_def ticks_id_write ticks_itick)

lemmas ticks_intros = ticks_itick ticks_id_write ticks_stored_write ticks_log_change ticks_appendEntry

lemma ticks_bind: "ticks w (snd r) \<Longrightarrow> (\<And>x w'. ticks w w' \<Longrightarrow> ticks w (snd (f x w'))) \<Longrightarrow> ticks w (snd (st_bind r f))"
  by (rule st_bind_pres [where P = "ticks w"])

lemma ticks_record_opened: "ticks w w' \<Longrightarrow> ticks w (snd (record_opened u w' req xs out))"
  by (induction u w' req xs out rule: record_opened.induct) (auto simp: us_record_def intro!: ticks_bind ticks_intros)

lemma ticks_keptSession: "ticks w w' \<Longrightarrow> ticks w (snd (keptSession u w' req))"
  by (auto simp: keptSession_def ticks_itick split: sum.split)

lemma ticks_revokeSessions: "ticks w w' \<Longrightarrow> ticks w (snd (revokeSessions u w' req))"
proof -
  assume w: "ticks w w'"
  have k: "ticks w w1" if "keptSession u w' r = (keep, w1)" for r keep w1
    using ticks_keptSession [OF w, of u r] that by simp
  show ?thesis unfolding revokeSessions_def Let_def
    by (auto simp: us_record_def endOpenedBy_def intro!: ticks_bind ticks_intros ticks_record_opened dest!: k split: prod.split sum.split)
qed

section \<open>What every port keeps, every service keeps\<close>

locale kept =
  fixes d :: "'s user_admin" and may :: "int \<Rightarrow> bool" and I :: "'s \<Rightarrow> int \<Rightarrow> bool"
  assumes later: "I s n \<Longrightarrow> n \<le> n' \<Longrightarrow> I s n'"
    and kept_Open: "I s n \<Longrightarrow> I (snd (id_Open (ad_ops d) s ns)) n"
    and kept_Touch: "I s n \<Longrightarrow> I (snd (id_Touch (ad_ops d) s i u ip)) n"
    and kept_Rotate: "I s n \<Longrightarrow> ro_At r = n \<Longrightarrow> I (snd (id_Rotate (ad_ops d) s r)) n"
    and kept_End: "I s n \<Longrightarrow> I (snd (id_End (ad_ops d) s i ids keep now)) n"
    and kept_EndOpenedBy: "I s n \<Longrightarrow> I (snd (id_EndOpenedBy (ad_ops d) s i now)) n"
    and kept_Record: "I s n \<Longrightarrow> en_CreatedAt row = n \<Longrightarrow> en_Event row \<noteq> WrongPassword \<Longrightarrow> I (snd (id_Record (ad_ops d) s row)) n"
    and kept_Wrong: "I s n \<Longrightarrow> id_LockEvents (ad_ops d) s (en_AccountID row) (lk_After (cf_Lock (sg_cfg (ad_Users d)))) = Inr latest \<Longrightarrow>
      LockedUntil (cf_Lock (sg_cfg (ad_Users d))) latest n = None \<Longrightarrow> en_Event row = WrongPassword \<Longrightarrow> n \<le> en_CreatedAt row \<Longrightarrow>
      I (snd (id_Record (ad_ops d) s row)) (en_CreatedAt row)"
    and kept_Change: "I s n \<Longrightarrow> I (snd (id_Change (ad_ops d) s c)) n"
    and kept_SetPasswordHash: "I s n \<Longrightarrow> I (snd (id_SetPasswordHash (ad_ops d) s i h)) n"
    and kept_SetLocale: "I s n \<Longrightarrow> I (snd (id_SetLocale (ad_ops d) s i h)) n"
    and kept_Update: "I s n \<Longrightarrow> I (snd (id_Update (ad_ops d) s i chg)) n"
    and kept_Create: "I s n \<Longrightarrow> ac_ID a = 0 \<Longrightarrow> I (snd (id_Create (ad_ops d) s a)) n"
    and kept_SetActive: "I s n \<Longrightarrow> \<not> b \<or> may i \<Longrightarrow> I (snd (id_SetActive (ad_ops d) s i b)) n"
    and kept_Find: "I s n \<Longrightarrow> id_Find (ad_ops d) s i = Inr a \<Longrightarrow> ac_ID a = i"
    and kept_rollback: "I s n \<Longrightarrow> I s' n \<Longrightarrow> I (ad_rollback d s s') n"
begin

definition W :: "'s iworld \<Rightarrow> bool" where
  "W w \<longleftrightarrow> mono (iw_clock w) \<and> I (iw_store w) (inow w)"

lemma inow_itick: "W w \<Longrightarrow> inow w \<le> inow (itick w)"
  by (auto simp: W_def inow_def itick_def intro: monoD)

lemma W_itick: "W w \<Longrightarrow> W (itick w)"
  using inow_itick [of w] later [of "iw_store w" "inow w" "inow (itick w)"] by (simp add: W_def)

lemma W_store: "W w \<Longrightarrow> I st (inow w) \<Longrightarrow> W (w\<lparr>iw_store := st\<rparr>)"
  by (simp add: W_def inow_def)

lemma W_tell: "W (tell w n) = W w" and W_attempts: "W (w\<lparr>iw_attempts := a\<rparr>) = W w" and W_announce: "W (announce w p) = W w"
  by (simp_all add: W_def inow_def tell_def announce_def)

text \<open>A write at the reading of the clock that the operation then consumes.\<close>

lemma W_tick_store: "W w \<Longrightarrow> I st (inow w) \<Longrightarrow> W ((itick w)\<lparr>iw_store := st\<rparr>)"
  using W_itick later [of st] inow_itick by (blast intro: W_store)

lemma W_id_write: "W w \<Longrightarrow> I (snd r) (inow w) \<Longrightarrow> W (snd (id_write w r))" "W w \<Longrightarrow> I (snd r) (inow w) \<Longrightarrow> W (snd (id_write (itick w) r))"
  by (cases r; cases "fst r"; simp add: id_write_def W_store W_tick_store)+

lemma I_of: "W w \<Longrightarrow> I (iw_store w) (inow w)"
  by (simp add: W_def)

lemma W_appendEntry: "W w \<Longrightarrow> en_Event row \<noteq> WrongPassword \<Longrightarrow> W (snd (appendEntry (ad_ops d) w row))"
  by (auto simp: appendEntry_def intro!: W_id_write kept_Record I_of)

lemma W_wrong:
  assumes "W w" "id_LockEvents (ad_ops d) (iw_store w) (en_AccountID row) (lk_After (cf_Lock (sg_cfg (ad_Users d)))) = Inr latest"
    "LockedUntil (cf_Lock (sg_cfg (ad_Users d))) latest (inow w) = None" "en_Event row = WrongPassword"
  shows "W (snd (appendEntry (ad_ops d) (itick w) row))"
proof -
  let ?row = "row\<lparr>en_CreatedAt := inow (itick w), en_Device := cut (TrimSpace (en_Device row)) DeviceMax,
            en_IP := cut (TrimSpace (en_IP row)) IPMax\<rparr>"
  have "I (snd (id_Record (ad_ops d) (iw_store w) ?row)) (en_CreatedAt ?row)"
    using assms inow_itick [of w] by (intro kept_Wrong [of _ "inow w" _ latest]) (auto simp: I_of)
  then show ?thesis using assms by (auto simp: appendEntry_def intro!: W_id_write W_itick)
qed

lemma W_get_session: "W w \<Longrightarrow> W (snd (get_session (ad_Users d) w token))"
  by (auto simp: get_session_def W_itick split: sum.split)

lemma W_open: "W w \<Longrightarrow> W (snd (sg_open (ad_Users d) w i actor device ip))"
  by (auto simp: sg_open_def ad_ops_def [symmetric] intro!: W_id_write kept_Open I_of)

lemma W_record: "W w \<Longrightarrow> e \<noteq> WrongPassword \<Longrightarrow> W (snd (sg_record (ad_Users d) w i e actor device ip))"
  by (auto simp: sg_record_def ad_ops_def [symmetric] entry_def intro!: W_appendEntry)

lemma W_us_record: "W w \<Longrightarrow> e \<noteq> WrongPassword \<Longrightarrow> W (snd (us_record (ad_Users d) w i e actor))"
  by (auto simp: us_record_def ad_ops_def [symmetric] entry_def intro!: W_appendEntry)

lemma W_end: "W w \<Longrightarrow> W (snd (id_write w (id_End (ad_ops d) (iw_store w) i ids keep now)))"
  "W w \<Longrightarrow> W (snd (id_write (itick w) (id_End (ad_ops d) (iw_store w) i ids keep now)))"
  by (auto intro!: W_id_write kept_End I_of)

lemmas W_intros = W_itick W_open W_record W_us_record W_end W_get_session st_bind_pres [where P = W]

lemma W_Login:
  assumes "W w"
  shows "W (snd (Login (ad_Users d) w inp))"
proof -
  let ?login = "NormalizeLogin (sg_uni (ad_Users d)) (in_Login inp)"
  obtain until ok att where al: "at_allow (iw_attempts w) (inow w) ?login = ((until, ok), att)" by (metis prod.collapse)
  let ?w1 = "(itick w)\<lparr>iw_attempts := att\<rparr>"
  have w1: "W ?w1" using W_itick [OF assms] by (simp add: W_attempts)
  show ?thesis
  proof (cases "id_FindByLogin (ad_ops d) (iw_store ?w1) ?login")
    case (Inl e)
    then show ?thesis using w1 al by (simp add: Login_def ad_ops_def [symmetric] Let_def)
  next
    case acc: (Inr acc)
    show ?thesis
    proof (cases "id_LockEvents (ad_ops d) (iw_store ?w1) (ac_ID acc) (lk_After (cf_Lock (sg_cfg (ad_Users d))))")
      case (Inl e)
      then show ?thesis using w1 al acc by (simp add: Login_def ad_ops_def [symmetric] Let_def)
    next
      case (Inr latest)
      have "W (snd (sg_record (ad_Users d) (itick ?w1) (ac_ID acc) WrongPassword 0 (in_Device inp) (in_IP inp)))"
        if "LockedUntil (cf_Lock (sg_cfg (ad_Users d))) latest (inow ?w1) = None"
        using that Inr W_wrong [OF w1, of "entry (ac_ID acc) WrongPassword 0 (in_Device inp) (in_IP inp)" latest]
        by (simp add: sg_record_def ad_ops_def [symmetric] entry_def)
      then show ?thesis using w1 al acc Inr
        by (auto simp: Login_def ad_ops_def [symmetric] Let_def intro!: W_itick W_open st_bind_pres [where P = W] intro: W_record split: option.split)
    qed
  qed
qed

lemma W_Refresh: "W w \<Longrightarrow> W (snd (Refresh (ad_Users d) w token device ip))"
proof -
  assume w: "W w"
  let ?rot = "\<lparr>ro_Refresh = token, ro_At = inow w, ro_ExpiresAt = inow w + cf_TokenTTL (sg_cfg (ad_Users d)),
            ro_Device = cut (TrimSpace device) DeviceMax, ro_IP = cut (TrimSpace ip) IPMax\<rparr>"
  obtain r st where rot: "id_Rotate (ad_ops d) (iw_store w) ?rot = (r, st)" by force
  then have "I st (inow w)" using kept_Rotate [OF I_of [OF w], of ?rot] by simp
  then have "W ((itick w)\<lparr>iw_store := st\<rparr>)" using w by (simp add: W_tick_store)
  then show ?thesis using rot by (cases r) (auto simp: Refresh_def ad_ops_def [symmetric] Let_def W_tell)
qed

lemma W_Logout: "W w \<Longrightarrow> W (snd (Logout (ad_Users d) w token))"
  by (auto simp: Logout_def ad_ops_def [symmetric] Let_def W_tell intro!: W_intros)

lemma W_LoginAs: "W w \<Longrightarrow> W (snd (LoginAs (ad_Users d) w actor target device ip))"
  by (auto simp: LoginAs_def ad_ops_def [symmetric] W_tell intro!: W_intros split: sum.split option.split)

lemma W_Return: "W w \<Longrightarrow> W (snd (Return (ad_Users d) w x device ip))"
  by (auto simp: Return_def ad_ops_def [symmetric] W_tell intro!: W_intros split: sum.split option.split)

lemma W_Authenticate: "W w \<Longrightarrow> W (snd (Authenticate (ad_Users d) w token))"
  by (auto simp: Authenticate_def ad_ops_def [symmetric] intro!: W_intros W_id_write kept_Touch I_of split: sum.split)

lemma W_Embed: "W w \<Longrightarrow> W (snd (Embed (ad_Users d) w i device ip))"
  by (auto simp: Embed_def ad_ops_def [symmetric] intro!: W_intros W_id_write kept_Open I_of split: sum.split)

lemma W_RevokeSession: "W w \<Longrightarrow> W (snd (RevokeSession (ad_Users d) w i sessionID keep actor))"
  by (auto simp: RevokeSession_def ad_ops_def [symmetric] Let_def W_tell intro!: W_intros)

lemma W_record_opened: "W w \<Longrightarrow> W (snd (record_opened (ad_Users d) w req xs out))"
  by (induction "ad_Users d" w req xs out rule: record_opened.induct) (auto intro!: W_intros)

lemma W_keptSession: "W w \<Longrightarrow> W (snd (keptSession (ad_Users d) w req))"
  by (auto simp: keptSession_def W_itick split: sum.split)

lemma W_endOpenedBy: "W w \<Longrightarrow> W (snd (endOpenedBy (ad_Users d) w req t out))"
  by (auto simp: endOpenedBy_def ad_ops_def [symmetric] intro!: W_intros W_record_opened W_id_write kept_EndOpenedBy I_of)

lemma W_revokeSessions: "W w \<Longrightarrow> W (snd (revokeSessions (ad_Users d) w req))"
proof -
  assume w: "W w"
  have k: "W w1" if "keptSession (ad_Users d) w r = (keep, w1)" for r keep w1
    using W_keptSession [OF w, of r] that by simp
  show ?thesis unfolding revokeSessions_def ad_ops_def [symmetric] Let_def
    by (auto intro!: W_intros W_endOpenedBy dest!: k split: prod.split sum.split)
qed

lemma W_RevokeSessions: "W w \<Longrightarrow> W (snd (RevokeSessions (ad_Users d) w req))"
  by (auto simp: RevokeSessions_def ad_ops_def [symmetric] W_announce intro!: W_intros W_revokeSessions)

lemma W_stored_write: "W w \<Longrightarrow> I (snd r) (inow w) \<Longrightarrow> W (snd (stored_write w r))"
  by (cases r; cases "fst r"; simp add: stored_write_def W_store)

lemma W_log_change: "W w \<Longrightarrow> W (snd (log_change (ad_ops d) w c))"
  using kept_Change [OF I_of, of w c] by (auto simp: log_change_def W_store split: prod.split)

text \<open>What a transaction leaves is what it wrote or what was there.\<close>

lemma W_within:
  assumes "W w" and fn: "\<And>w. W w \<Longrightarrow> W (snd (fn w))" and clock: "ticks w (snd (fn w))"
  shows "W (snd (ad_within d w fn))"
proof -
  obtain r w1 where f: "fn w = (r, w1)" by force
  have w1: "W w1" using fn [OF assms(1)] f by simp
  have "inow w \<le> inow w1" using assms(1) clock f by (auto simp: W_def inow_def ticks_def intro: monoD)
  then have "I (iw_store w) (inow w1)" using I_of [OF assms(1)] by (rule later [rotated])
  then have "W (w1\<lparr>iw_store := ad_rollback d (iw_store w) (iw_store w1)\<rparr>)"
    using w1 by (intro W_store kept_rollback I_of)
  then show ?thesis using f w1 by (cases r) (auto simp: ad_within_def split: sum.split)
qed

lemmas W_admin = st_bind_pres [where P = W] W_itick W_stored_write W_log_change W_appendEntry W_revokeSessions

lemma W_Create: "W w \<Longrightarrow> W (snd (CreateWithExt d w req))"
  by (auto simp: CreateWithExt_def Let_def W_tell new_account_def
      intro!: W_admin W_within kept_Create I_of ticks_bind ticks_stored_write ticks_log_change split: sum.split)

lemma W_Update: "W w \<Longrightarrow> W (snd (ad_Update d w inp))"
  by (auto simp: ad_Update_def Let_def W_tell
      intro!: W_admin W_within kept_Update I_of ticks_bind ticks_intros split: sum.split)

lemma W_SetPassword: "W w \<Longrightarrow> W (snd (SetPassword d w inp))"
  by (auto simp: SetPassword_def W_tell W_announce entry_def
      intro!: W_admin W_within kept_SetPasswordHash I_of ticks_bind ticks_intros ticks_revokeSessions split: sum.split)

lemma W_Deactivate: "W w \<Longrightarrow> W (snd (DeactivateWithExt d w req))"
  by (auto simp: DeactivateWithExt_def W_tell W_announce
      intro!: W_admin W_within kept_SetActive I_of ticks_bind ticks_intros ticks_revokeSessions split: sum.split)

lemma W_Activate: "W w \<Longrightarrow> may (de_ID inp) \<Longrightarrow> W (snd (Activate d w inp))"
proof -
  assume w: "W w" "may (de_ID inp)"
  have "may (ac_ID acc)" if "users_Get (ad_Users d) w (de_ID inp) = Inr acc" for acc
    using kept_Find [OF I_of [OF w(1)], of "de_ID inp" acc] that w(2) by (auto simp: users_Get_def ad_ops_def split: sum.splits)
  then show ?thesis using w(1)
    by (auto simp: Activate_def W_tell intro!: W_admin W_within kept_SetActive I_of ticks_bind ticks_intros split: sum.split)
qed

lemma W_updateDetails: "W w \<Longrightarrow> W (snd (updateDetails d w inp))"
  by (auto simp: updateDetails_def Let_def W_tell
      intro!: W_admin W_within kept_Update I_of ticks_bind ticks_intros split: sum.split)

lemma W_changePassword: "W w \<Longrightarrow> W (snd (changePassword d w acc inp))"
  by (auto simp: changePassword_def W_tell W_announce
      intro!: W_admin W_within kept_SetPasswordHash I_of ticks_bind ticks_intros ticks_revokeSessions split: sum.split)

lemma W_confirmedEmail: "W w \<Longrightarrow> W (snd (confirmedEmail d w acc email))"
  by (auto simp: confirmedEmail_def W_tell intro!: W_admin W_within kept_Update I_of ticks_bind ticks_intros split: sum.split)

lemma W_lockedUntil: "W w \<Longrightarrow> W (snd (lockedUntil (ad_Users d) w i))"
  by (auto simp: lockedUntil_def W_itick split: sum.split)

lemma W_Unlock: "W w \<Longrightarrow> W (snd (Unlock d w i actor))"
  by (auto simp: Unlock_def entry_def intro!: W_admin W_lockedUntil split: sum.split)

lemma W_ChangeLocale: "W w \<Longrightarrow> W (snd (ChangeLocale (ad_Users d) w i loc))"
  using kept_SetLocale [OF I_of, of w i loc]
  by (auto simp: ChangeLocale_def ad_ops_def W_tell W_store split: sum.split prod.split)

lemma W_locks_among: "W w \<Longrightarrow> W (snd (locks_among (ad_Users d) w ids m))"
  by (induction "ad_Users d" w ids m rule: locks_among.induct) (auto intro!: st_bind_pres [where P = W] W_lockedUntil)

lemma W_List: "W w \<Longrightarrow> W (snd (ad_List d w inp))"
  by (auto simp: ad_List_def locks_def Let_def intro!: st_bind_pres [where P = W] W_itick W_locks_among split: sum.split option.split)

lemma W_Get: "W w \<Longrightarrow> W (snd (ad_Get d w i))"
  by (auto simp: ad_Get_def intro!: st_bind_pres [where P = W] W_lockedUntil split: sum.split)

lemma W_step: "service_step d may w w' \<Longrightarrow> W w \<Longrightarrow> W w'"
  by (induction rule: service_step.induct)
    (simp_all add: W_Login W_Refresh W_Logout W_LoginAs W_Return W_Authenticate W_Embed W_RevokeSession W_RevokeSessions
      W_ChangeLocale W_Create W_Update W_SetPassword W_Deactivate W_Activate W_Unlock W_updateDetails W_changePassword W_confirmedEmail W_List W_Get W_itick)

lemma W_run: "(service_step d may)\<^sup>*\<^sup>* w w' \<Longrightarrow> W w \<Longrightarrow> W w'"
  by (induction rule: rtranclp_induct) (auto intro: W_step)

end

section \<open>The stores under the services\<close>

text \<open>What a rolled back transaction leaves is what was there before, or what was written.\<close>

locale id_services =
  id_store "ad_ops d" sess accts hist sess_ok spent accts_ok inact
    for d :: "'s user_admin" and sess :: "'s \<Rightarrow> 'x" and accts :: "'s \<Rightarrow> 'y" and hist sess_ok spent accts_ok inact +
  assumes rollback: "ad_rollback d s s' = s \<or> ad_rollback d s s' = s'"
    and After_pos: "0 < lk_After (cf_Lock (sg_cfg (ad_Users d)))"
    and Lock_set: "lock_withDefaults (cf_Lock (sg_cfg (ad_Users d))) = cf_Lock (sg_cfg (ad_Users d))"

sublocale id_services \<subseteq> token: kept d may
  "\<lambda>s n'. accts_ok (accts s) \<and> sess_ok (sess s) \<and> spent (sess s) t n \<and> n \<le> n'" for may t n
proof unfold_locales
  show "accts_ok (accts (ad_rollback d s s')) \<and> sess_ok (sess (ad_rollback d s s')) \<and> spent (sess (ad_rollback d s s')) t n \<and> n \<le> n'"
    if "accts_ok (accts s) \<and> sess_ok (sess s) \<and> spent (sess s) t n \<and> n \<le> n'"
       "accts_ok (accts s') \<and> sess_ok (sess s') \<and> spent (sess s') t n \<and> n \<le> n'" for s s' n'
    using that rollback [of s s'] by auto
qed (auto simp: only_Record only_Change only_SetActive only_SetPasswordHash only_SetLocale only_Update only_Create only_Open only_Touch
    only_Rotate only_End only_EndOpenedBy ok_Open ok_Touch ok_Rotate ok_End ok_EndOpenedBy spent_Open spent_Touch spent_Rotate spent_End
    spent_EndOpenedBy accts_SetActive accts_SetPasswordHash accts_SetLocale accts_Update accts_Create dest: Find_inact)

sublocale id_services \<subseteq> inactive: kept d "\<lambda>j. j \<noteq> i" "\<lambda>s n. accts_ok (accts s) \<and> inact (accts s) i" for i
proof unfold_locales
  show "accts_ok (accts (ad_rollback d s s')) \<and> inact (accts (ad_rollback d s s')) i"
    if "accts_ok (accts s) \<and> inact (accts s) i" "accts_ok (accts s') \<and> inact (accts s') i" for s s'
    using that rollback [of s s'] by auto
qed (auto simp: only_Record only_Change only_Open only_Touch only_Rotate only_End only_EndOpenedBy accts_SetActive accts_SetPasswordHash
    accts_SetLocale accts_Update accts_Create inact_SetActive inact_SetPasswordHash inact_SetLocale inact_Update inact_Create dest: Find_inact)

section \<open>The history the lock leaves\<close>

text \<open>
  Lock events, newest first, in the order of time; a wrong password that follows as many of them as lock sign-in comes
  at least the lock's length after the last.
\<close>

definition all_wrong :: "sign_in_entry list \<Rightarrow> bool" where
  "all_wrong es \<longleftrightarrow> (\<forall>e \<in> set es. en_Event e = WrongPassword)"

fun throttled :: "lock \<Rightarrow> sign_in_entry list \<Rightarrow> bool" where
  "throttled l [] \<longleftrightarrow> True"
| "throttled l (e # h) \<longleftrightarrow>
     throttled l h \<and> (\<forall>x \<in> set h. en_CreatedAt x \<le> en_CreatedAt e)
     \<and> (en_Event e = WrongPassword \<and> nat (lk_After l) \<le> length h \<and> all_wrong (take (nat (lk_After l)) h)
         \<longrightarrow> en_CreatedAt (hd h) + lk_For l \<le> en_CreatedAt e)"

lemma throttled_drop: "throttled l h \<Longrightarrow> throttled l (drop m h)"
  by (induction l h arbitrary: m rule: throttled.induct) (auto simp: drop_Cons split: nat.split)

lemma throttled_nth: "throttled l h \<Longrightarrow> j < length h \<Longrightarrow> en_CreatedAt (h ! j) \<le> en_CreatedAt (hd h)"
  by (cases h) (auto simp: nth_Cons split: nat.split)

lemma throttled_gap:
  assumes t: "throttled l h" and k: "0 < lk_After l" and len: "m + nat (lk_After l) < length h"
    and wrong: "all_wrong (take (Suc (nat (lk_After l))) (drop m h))"
  shows "en_CreatedAt (h ! (m + nat (lk_After l))) + lk_For l \<le> en_CreatedAt (h ! m)"
proof -
  define k where "k = nat (lk_After l)"
  obtain j where j: "k = Suc j" using k by (metis k_def not0_implies_Suc zero_less_nat_eq less_irrefl)
  obtain e r where er: "drop m h = e # r" using len by (metis Cons_nth_drop_Suc add_lessD1)
  have len_r: "length h - m = Suc (length r)" using arg_cong [OF er, of length] by simp
  have e: "h ! m = e" "h ! (m + k) = r ! j" "k \<le> length r"
    using nth_drop [of m h 0] nth_drop [of m h k] er len len_r j by (auto simp: k_def [symmetric])
  have tr: "throttled l (e # r)" using throttled_drop [OF t, of m] er by simp
  have "en_Event e = WrongPassword" "all_wrong (take k r)" using wrong er by (auto simp: all_wrong_def k_def)
  then have "en_CreatedAt (hd r) + lk_For l \<le> en_CreatedAt e" using tr e(3) by (simp add: k_def)
  moreover have "en_CreatedAt (r ! j) \<le> en_CreatedAt (hd r)" using tr e(3) j by (intro throttled_nth [of l]) auto
  ultimately show ?thesis using e by (simp add: k_def)
qed

context id_services
begin

definition quiet :: "int \<Rightarrow> 's \<Rightarrow> int \<Rightarrow> bool" where
  "quiet i s n \<longleftrightarrow> accts_ok (accts s) \<and> throttled (cf_Lock (sg_cfg (ad_Users d))) (hist s i) \<and> (\<forall>e \<in> set (hist s i). en_CreatedAt e \<le> n)"

lemma quiet_same: "quiet i s n \<Longrightarrow> accts_ok (accts s') \<Longrightarrow> hist s' = hist s \<Longrightarrow> quiet i s' n"
  by (simp add: quiet_def)

lemma quiet_Record:
  assumes "quiet i s n" "n \<le> en_CreatedAt row"
    and "en_AccountID row = i \<Longrightarrow> en_Event row = WrongPassword \<Longrightarrow> throttled (cf_Lock (sg_cfg (ad_Users d))) (row # hist s i)"
  shows "quiet i (snd (id_Record (ad_ops d) s row)) (en_CreatedAt row)"
proof -
  obtain r s' where rec: "id_Record (ad_ops d) s row = (r, s')" by force
  have ok: "accts_ok (accts s')" using assms(1) only_Record [of s row] rec by (simp add: quiet_def)
  have old: "quiet i s (en_CreatedAt row)" using assms by (auto simp: quiet_def)
  show ?thesis
  proof (cases r)
    case (Inl e)
    then show ?thesis using hist_Record_error [of s row e s'] rec quiet_same [OF old ok] by simp
  next
    case (Inr u)
    then obtain k where k: "hist s' i = (if en_AccountID row = i \<and> LockEvent (en_Event row) then row\<lparr>en_ID := k\<rparr> # hist s i else hist s i)"
      using hist_Record [of s row s' i] rec by auto
    have "throttled (cf_Lock (sg_cfg (ad_Users d))) (row\<lparr>en_ID := k\<rparr> # hist s i)" if "en_AccountID row = i"
      using assms(3) [OF that] old by (cases "en_Event row = WrongPassword") (auto simp: quiet_def)
    then show ?thesis using k rec ok old by (auto simp: quiet_def)
  qed
qed

lemma throttled_next:
  assumes "quiet i s n" "id_LockEvents (ad_ops d) s i (lk_After (cf_Lock (sg_cfg (ad_Users d)))) = Inr latest"
    "LockedUntil (cf_Lock (sg_cfg (ad_Users d))) latest n = None" "n \<le> en_CreatedAt row"
  shows "throttled (cf_Lock (sg_cfg (ad_Users d))) (row # hist s i)"
proof -
  let ?l = "cf_Lock (sg_cfg (ad_Users d))"
  let ?k = "nat (lk_After ?l)"
  have latest: "latest = take ?k (hist s i)" using LockEvents_hist [OF _ assms(2)] After_pos by simp
  have "en_CreatedAt (hd (hist s i)) + lk_For ?l \<le> n" if "?k \<le> length (hist s i)" "all_wrong (take ?k (hist s i))"
  proof (rule ccontr)
    assume "\<not> ?thesis"
    then have "LockedUntil ?l latest n = Some (en_CreatedAt (hd (hist s i)) + lk_For ?l)"
      using that After_pos by (auto simp: LockedUntil_iff Lock_set Let_def latest all_wrong_def hd_take)
    then show False using assms(3) by simp
  qed
  then show ?thesis using assms(1,4) by (fastforce simp: quiet_def)
qed

end

sublocale id_services \<subseteq> history: kept d may "quiet i" for may i
proof unfold_locales
  show "quiet i s n'" if "quiet i s n" "n \<le> n'" for s n n'
    using that by (auto simp: quiet_def)
  show "quiet i (snd (id_Record (ad_ops d) s row)) n" if "quiet i s n" "en_CreatedAt row = n" "en_Event row \<noteq> WrongPassword" for s n row
    using quiet_Record [OF that(1), of row] that(2,3) by simp
  show "quiet i (snd (id_Record (ad_ops d) s row)) (en_CreatedAt row)"
    if "quiet i s n" "id_LockEvents (ad_ops d) s (en_AccountID row) (lk_After (cf_Lock (sg_cfg (ad_Users d)))) = Inr latest"
      "LockedUntil (cf_Lock (sg_cfg (ad_Users d))) latest n = None" "n \<le> en_CreatedAt row" for s n row latest
    using quiet_Record [OF that(1,4)] throttled_next [OF that(1) _ that(3,4)] that(2) by blast
  show "quiet i (ad_rollback d s s') n" if "quiet i s n" "quiet i s' n" for s s' n
    using that rollback [of s s'] by auto
  show "ac_ID a = j" if "quiet i s n" "id_Find (ad_ops d) s j = Inr a" for s n j a
    using that Find_inact [of s j a] by (simp add: quiet_def)
qed (auto simp: only_Change only_SetActive only_SetPasswordHash only_SetLocale only_Update only_Create only_Open only_Touch
    only_Rotate only_End only_EndOpenedBy accts_SetActive accts_SetPasswordHash accts_SetLocale accts_Update accts_Create
    quiet_def)

end
