(* ===== verification/Sessions.thy ===== *)
theory Sessions
  imports Services
begin

text \<open>
  What the identity core promises whatever its services do: ended sessions stay ended, a refresh token works once, a
  deactivated account stays out, and the lock throttles guesses that come one after another. Each is proved for any stores that keep
  the contract (inside \<open>id_services\<close>) and stated for the memory stores, which do. Operations interleave as wholes
  (\<open>service_step\<close>).
\<close>

section \<open>Ended sessions\<close>

context id_services
begin

definition sound :: "'s iworld \<Rightarrow> bool" where
  "sound w \<longleftrightarrow> mono (iw_clock w) \<and> accts_ok (accts (iw_store w)) \<and> sess_ok (sess (iw_store w))"

definition dead :: "string \<Rightarrow> 's iworld \<Rightarrow> bool" where
  "dead t w \<longleftrightarrow> sound w \<and> (\<exists>n \<le> inow w. spent (sess (iw_store w)) t n)"

lemma dead_run: "(service_step d may)\<^sup>*\<^sup>* w w' \<Longrightarrow> dead t w \<Longrightarrow> dead t w'"
  using token.W_run [of may w w' t] by (auto simp: dead_def sound_def token.W_def)

lemma dead_Authenticate: "dead t w \<Longrightarrow> fst (Authenticate (ad_Users d) w t) = Inl sessionInvalid"
  by (auto simp: dead_def Authenticate_def get_session_def ad_ops_def [symmetric] Get_spent)

lemma dead_Refresh: "dead t w \<Longrightarrow> \<not> is_ok (fst (Refresh (ad_Users d) w t device ip))"
proof -
  assume dead: "dead t w"
  let ?rot = "\<lparr>ro_Refresh = t, ro_At = inow w, ro_ExpiresAt = inow w + cf_TokenTTL (sg_cfg (ad_Users d)),
            ro_Device = cut (TrimSpace device) DeviceMax, ro_IP = cut (TrimSpace ip) IPMax\<rparr>"
  obtain r st where rot: "id_Rotate (ad_ops d) (iw_store w) ?rot = (r, st)" by force
  have "\<not> is_ok r" using dead Rotate_spent [of "iw_store w" ?rot] rot by (auto simp: dead_def)
  then show ?thesis using rot by (cases r) (auto simp: Refresh_def Let_def ad_ops_def [symmetric])
qed

lemma soundI: "sound w \<Longrightarrow> ticks w w' \<Longrightarrow> accts_ok (accts (iw_store w')) \<Longrightarrow> sess_ok (sess (iw_store w')) \<Longrightarrow> sound w'"
  by (simp add: sound_def ticks_def)

lemma Refresh_dead:
  assumes "sound w" "Refresh (ad_Users d) w t device ip = (Inr sg, w1)"
  shows "dead t w1"
proof -
  let ?rot = "\<lparr>ro_Refresh = t, ro_At = inow w, ro_ExpiresAt = inow w + cf_TokenTTL (sg_cfg (ad_Users d)),
            ro_Device = cut (TrimSpace device) DeviceMax, ro_IP = cut (TrimSpace ip) IPMax\<rparr>"
  obtain r st where rot: "id_Rotate (ad_ops d) (iw_store w) ?rot = (r, st)" by force
  then obtain x c where r: "r = Inr (x, c)"
    using assms(2) by (cases r) (auto simp: Refresh_def Let_def ad_ops_def [symmetric])
  have w1: "iw_store w1 = st" "ticks w w1"
    using assms(2) rot r by (auto simp: Refresh_def Let_def ad_ops_def [symmetric] ticks_itick)
  have ok: "sess_ok (sess st)" "accts_ok (accts st)"
    using assms(1) ok_Rotate [of "iw_store w" ?rot] only_Rotate [of "iw_store w" ?rot] rot by (auto simp: sound_def)
  have "spent (sess st) t (inow w1)" using Rotate_spends [of "iw_store w" ?rot x c st] rot r assms(1) by (auto simp: sound_def)
  then show ?thesis using soundI [OF assms(1) w1(2)] ok w1 by (auto simp: dead_def)
qed

lemma End_dead:
  assumes "sound w" "id_write (itick w) (id_End (ad_ops d) (iw_store w) i ids keep (inow w)) = (Inr k, w1)"
    and g: "id_Get (ad_ops d) (iw_store w) t now = Inr x" and x: "se_AccountID x = i" "se_ID x \<noteq> keep" "ids = [] \<or> se_ID x \<in> set ids"
  shows "dead t w1"
proof -
  obtain st where e: "id_End (ad_ops d) (iw_store w) i ids keep (inow w) = (Inr k, st)" and w1: "w1 = (itick w)\<lparr>iw_store := st\<rparr>"
    using assms(2) by (auto simp: id_write_Inr)
  have ok: "sess_ok (sess st)" "accts_ok (accts st)"
    using assms(1) ok_End [of "iw_store w" i ids keep "inow w"] only_End [of "iw_store w" i ids keep "inow w"] e by (auto simp: sound_def)
  have "spent (sess st) t (inow w)" using End_spends [OF _ e g x] assms(1) by (simp add: sound_def)
  moreover have "inow w \<le> inow w1" using assms(1) unfolding w1 by (simp add: sound_def inow_def monoD)
  moreover have "sound w1" using ok assms(1) unfolding w1 by (simp add: sound_def)
  moreover have "iw_store w1 = st" unfolding w1 by simp
  ultimately show ?thesis by (auto simp: dead_def)
qed

lemma Logout_dead:
  assumes "sound w" "Logout (ad_Users d) w t = (Inr (), w1)"
  shows "dead t w1"
proof -
  obtain x w2 k where g: "get_session (ad_Users d) w t = (Inr x, itick w)"
    and e: "id_write (itick (itick w)) (id_End (ad_ops d) (iw_store (itick w)) (se_AccountID x) [se_ID x] 0 (inow (itick w))) = (Inr k, w2)"
    and w1: "ticks w2 w1" "iw_store w1 = iw_store w2" "inow w1 = inow w2"
    using assms(2) by (auto simp: Logout_def st_bind_Inr_iff get_session_Inr ad_ops_def Let_def inow_def split: if_splits)
  have x: "id_Get (ad_ops d) (iw_store (itick w)) t (inow w) = Inr x" using g by (auto simp: get_session_Inr ad_ops_def)
  have w: "sound (itick w)" using assms(1) by (simp add: sound_def)
  have "se_ID x \<noteq> 0" using Get_ID [OF _ x] assms(1) by (simp add: sound_def)
  then have "dead t w2" using End_dead [OF w e x] by simp
  then show ?thesis using w1 by (auto simp: dead_def sound_def ticks_def)
qed

text \<open>
  Ending an account's sessions reaches the sessions of the account but the kept one, and those the account opened by
  signing in as somebody else.
\<close>

lemma id_write_store: "iw_store (snd (id_write w r)) = snd r"
  by (simp add: id_write_def split: prod.split sum.split)

lemma us_record_store: "\<exists>row. iw_store (snd (us_record (ad_Users d) w i e actor)) = snd (id_Record (ad_ops d) (iw_store w) row)"
  by (auto simp: us_record_def appendEntry_def Let_def id_write_store ad_ops_def)

lemma us_record_frame:
  "us_record (ad_Users d) w i e actor = (r, w') \<Longrightarrow>
     sess (iw_store w') = sess (iw_store w) \<and> accts (iw_store w') = accts (iw_store w) \<and> ticks w w'"
  using us_record_store [of w i e actor] only_Record ticks_appendEntry [of w w]
  by (metis us_record_def snd_conv ticks_refl)

lemma record_opened_frame:
  "record_opened (ad_Users d) w req xs out = (Inr p, w') \<Longrightarrow>
     sess (iw_store w') = sess (iw_store w) \<and> accts (iw_store w') = accts (iw_store w) \<and> ticks w w'"
proof (induction "ad_Users d" w req xs out arbitrary: p w' rule: record_opened.induct)
  case (2 w req x xs out)
  then obtain w1 where w1: "us_record (ad_Users d) w (se_AccountID x) SessionRevoked (rv_ActorID req) = (Inr (), w1)"
    by (auto simp: st_bind_Inr_iff)
  then show ?case using 2 us_record_frame [OF w1] by (force simp: ticks_def)
qed auto

lemma later_now: "sound w \<Longrightarrow> ticks w w' \<Longrightarrow> inow w \<le> inow w'"
  by (auto simp: sound_def ticks_def inow_def intro: monoD)

lemma dead_later:
  "dead t w \<Longrightarrow> ticks w w' \<Longrightarrow> sess_ok (sess (iw_store w')) \<Longrightarrow> accts_ok (accts (iw_store w')) \<Longrightarrow>
     (\<And>n. spent (sess (iw_store w)) t n \<Longrightarrow> spent (sess (iw_store w')) t n) \<Longrightarrow> dead t w'"
  unfolding dead_def by (meson later_now order_trans soundI)

lemma endOpenedBy_dead:
  assumes "sound w" "endOpenedBy (ad_Users d) w req n out = (Inr p, w')" "n \<le> inow w"
    and "dead t w \<or> (\<exists>now x. id_Get (ad_ops d) (iw_store w) t now = Inr x \<and> se_ActorID x = rv_AccountID req)"
  shows "dead t w'"
proof -
  obtain xs st out1 w2 where e: "id_EndOpenedBy (ad_ops d) (iw_store w) (rv_AccountID req) n = (Inr xs, st)"
    and r: "record_opened (ad_Users d) (w\<lparr>iw_store := st\<rparr>) req xs out = (Inr out1, w')"
    using assms(2) by (auto simp: endOpenedBy_def st_bind_Inr_iff id_write_Inr ad_ops_def)
  have ok: "sess_ok (sess st)" "accts_ok (accts st)"
    using assms(1) ok_EndOpenedBy [of "iw_store w" "rv_AccountID req" n] only_EndOpenedBy [of "iw_store w" "rv_AccountID req" n] e
    by (auto simp: sound_def)
  have s1: "sound (w\<lparr>iw_store := st\<rparr>)" using assms(1) ok by (simp add: sound_def)
  have "dead t (w\<lparr>iw_store := st\<rparr>)"
  proof (cases "dead t w")
    case True
    then show ?thesis using ok spent_EndOpenedBy [of "iw_store w" t _ "rv_AccountID req" n] e by (intro dead_later [OF True]) auto
  next
    case False
    then have "spent (sess st) t n" using assms(1,4) EndOpenedBy_spends [OF _ e] by (auto simp: sound_def)
    then show ?thesis using s1 assms(3) by (auto simp: dead_def inow_def)
  qed
  then show ?thesis using record_opened_frame [OF r] ok by (elim dead_later) auto
qed

lemma revokeSessions_dead:
  assumes w: "sound w" and r: "revokeSessions (ad_Users d) w req = (Inr p, w')" and g: "id_Get (ad_ops d) (iw_store w) t now = Inr x"
    and x: "se_AccountID x = rv_AccountID req \<and> se_ID x \<noteq> fst (keptSession (ad_Users d) w req) \<or> se_ActorID x = rv_AccountID req"
  shows "dead t w'"
proof -
  obtain keep wk where k: "keptSession (ad_Users d) w req = (keep, wk)" by force
  have wk: "sound wk" "iw_store wk = iw_store w" "ticks w wk"
    using k w by (auto simp: keptSession_def sound_def ticks_itick split: if_splits sum.splits)
  obtain n w3 w4 out where e: "id_write (itick wk) (id_End (ad_ops d) (iw_store wk) (rv_AccountID req) [] keep (inow wk)) = (Inr n, w3)"
    and u: "us_record (ad_Users d) w3 (rv_AccountID req) SignedOutEverywhere (rv_ActorID (revoke_defaults req)) = (Inr (), w4)"
    and o: "endOpenedBy (ad_Users d) w4 (revoke_defaults req) (inow wk) out = (Inr p, w')"
    using r k unfolding revokeSessions_def Let_def
    by (auto simp: ad_ops_def st_bind_Inr_iff split: sum.splits)
  obtain st where st: "id_End (ad_ops d) (iw_store wk) (rv_AccountID req) [] keep (inow wk) = (Inr n, st)"
    and w3: "w3 = (itick wk)\<lparr>iw_store := st\<rparr>"
    using e by (auto simp: id_write_Inr)
  have ok: "sess_ok (sess st)" "accts_ok (accts st)"
    using wk(1) ok_End [of "iw_store wk" "rv_AccountID req" "[]" keep "inow wk"] only_End [of "iw_store wk" "rv_AccountID req" "[]" keep "inow wk"] st
    by (auto simp: sound_def)
  have s3: "sound w3" using wk(1) ok unfolding w3 by (simp add: sound_def)
  note f = us_record_frame [OF u]
  have s4: "sound w4" using s3 f by (auto simp: sound_def ticks_def)
  have "ticks wk w4" using f unfolding w3 by (simp add: ticks_def)
  then have now: "inow wk \<le> inow w4" by (rule later_now [OF wk(1)])
  have "dead t w4 \<or> (\<exists>now x. id_Get (ad_ops d) (iw_store w4) t now = Inr x \<and> se_ActorID x = rv_AccountID (revoke_defaults req))"
  proof -
    have g': "id_Get (ad_ops d) (iw_store wk) t now = Inr x" using g wk(2) by simp
    have spent: "dead t w4" if "dead t w3" using that f s4 by (elim dead_later) (auto simp: sound_def)
    consider "se_AccountID x = rv_AccountID req" "se_ID x \<noteq> keep" | "se_ActorID x = rv_AccountID req" using x k by auto
    then show ?thesis
    proof cases
      case 1
      then show ?thesis using End_dead [OF wk(1) e g'] spent by simp
    next
      case 2
      from End_leaves [OF _ st g'] wk(1) consider "spent (sess st) t (inow wk)" | "id_Get (ad_ops d) st t now = Inr x"
        by (auto simp: sound_def)
      then show ?thesis
      proof cases
        case 1
        then have "dead t w3" using s3 later_now [OF wk(1), of w3] unfolding w3 by (auto simp: dead_def ticks_itick)
        then show ?thesis using spent by simp
      next
        case get: 2
        have "sess (iw_store w4) = sess st" using f unfolding w3 by simp
        then show ?thesis using get 2 Get_sess [of "iw_store w4" st] by auto
      qed
    qed
  qed
  then show ?thesis by (rule endOpenedBy_dead [OF s4 o now])
qed

text \<open>The writes of the users module leave the sessions alone.\<close>

lemma frame_log: "sound w \<Longrightarrow> log_change (ad_ops d) w c = (r, w') \<Longrightarrow> sound w' \<and> sess (iw_store w') = sess (iw_store w)"
  using only_Change [of "iw_store w" c] by (auto simp: log_change_def sound_def split: prod.splits)

lemma frame_append: "sound w \<Longrightarrow> appendEntry (ad_ops d) w row = (r, w') \<Longrightarrow> sound w' \<and> sess (iw_store w') = sess (iw_store w)"
proof -
  assume w: "sound w" "appendEntry (ad_ops d) w row = (r, w')"
  let ?row = "row\<lparr>en_CreatedAt := inow w, en_Device := cut (TrimSpace (en_Device row)) DeviceMax, en_IP := cut (TrimSpace (en_IP row)) IPMax\<rparr>"
  have st: "iw_store w' = snd (id_Record (ad_ops d) (iw_store w) ?row)" "ticks w w'"
    using w(2) id_write_store [of "itick w" "id_Record (ad_ops d) (iw_store w) ?row"] ticks_appendEntry [of w w "ad_ops d" row]
    by (auto simp: appendEntry_def)
  then show ?thesis using w(1) only_Record [of "iw_store w" ?row] by (auto simp: sound_def ticks_def)
qed

lemma frame_hash:
  "sound w \<Longrightarrow> stored_write w (id_SetPasswordHash (ad_ops d) (iw_store w) i h) = (r, w') \<Longrightarrow> sound w' \<and> sess (iw_store w') = sess (iw_store w)"
  using only_SetPasswordHash [of "iw_store w" i h] accts_SetPasswordHash [of "iw_store w" i h]
  by (auto simp: stored_write_def sound_def split: prod.splits sum.splits)

lemma frame_active:
  "sound w \<Longrightarrow> stored_write w (id_SetActive (ad_ops d) (iw_store w) i b) = (r, w') \<Longrightarrow> sound w' \<and> sess (iw_store w') = sess (iw_store w)"
  using only_SetActive [of "iw_store w" i b] accts_SetActive [of "iw_store w" i b]
  by (auto simp: stored_write_def sound_def split: prod.splits sum.splits)

lemma within_Inr: "ad_within d w fn = (Inr x, w') \<Longrightarrow> fn w = (Inr x, w')"
  by (auto simp: ad_within_def split: prod.splits sum.splits)

lemma keeps_none: "rv_KeepToken req = [] \<Longrightarrow> keptSession u w req = (0, w)"
  by (simp add: keptSession_def)

text \<open>The sessions of an account: its own, and those it opened as somebody else.\<close>

lemma revoke_all_dead:
  assumes "sound w" "sess (iw_store w) = sess st" "revokeSessions (ad_Users d) w req = (Inr p, w')" "rv_KeepToken req = []"
    and g: "id_Get (ad_ops d) st t now = Inr x" and x: "rv_AccountID req \<in> {se_AccountID x, se_ActorID x}"
  shows "dead t w'"
proof -
  have g': "id_Get (ad_ops d) (iw_store w) t now = Inr x" using g Get_sess [OF assms(2)] by simp
  have "0 < se_ID x" using Get_ID [OF _ g'] assms(1) by (simp add: sound_def)
  then show ?thesis using revokeSessions_dead [OF assms(1,3) g'] x keeps_none [OF assms(4), of "ad_Users d" w] by auto
qed

lemma dead_told: "dead t (tell w n) = dead t w" "dead t (announce w p) = dead t w"
  by (auto simp: dead_def sound_def inow_def announce_def tell_def)

lemma RevokeSessions_dead:
  assumes "sound w" "RevokeSessions (ad_Users d) w req = (Inr (), w')" "rv_KeepToken req = []"
    and g: "id_Get (ad_ops d) (iw_store w) t now = Inr x" and x: "rv_AccountID req \<in> {se_AccountID x, se_ActorID x}"
  shows "dead t w'"
  using assms(2) revoke_all_dead [OF assms(1) refl _ assms(3) g x] by (auto simp: RevokeSessions_def st_bind_Inr_iff dead_told)

lemma SetPassword_dead:
  assumes w: "sound w" and s: "SetPassword d w inp = (Inr (), w')" and k: "sp_KeepToken inp = []"
    and g: "id_Get (ad_ops d) (iw_store w) t now = Inr x" and x: "sp_ID inp \<in> {se_AccountID x, se_ActorID x}"
  shows "dead t w'"
proof -
  obtain w2 w3 w4 w5 h p c where st: "log_change (ad_ops d) w c = (Inr (), w2)"
    "stored_write w2 (id_SetPasswordHash (ad_ops d) (iw_store w2) (sp_ID inp) h) = (Inr (), w3)"
    "appendEntry (ad_ops d) w3 (entry (sp_ID inp) Unlocked (sp_ActorID inp) [] []) = (Inr (), w4)"
    "revokeSessions (ad_Users d) w4 \<lparr>rv_AccountID = sp_ID inp, rv_KeepToken = sp_KeepToken inp,
                        rv_ActorID = sp_ActorID inp, rv_Reason = Some EndedPasswordChanged\<rparr> = (Inr p, w5)"
    and w': "dead t w' = dead t w5"
    using s by (auto simp: SetPassword_def st_bind_Inr_iff dead_told split: sum.splits dest!: within_Inr)
  note f1 = frame_log [OF w st(1)]
  note f2 = frame_hash [OF conjunct1 [OF f1] st(2)]
  note f3 = frame_append [OF conjunct1 [OF f2] st(3)]
  have "dead t w5" using f1 f2 f3 k x by (intro revoke_all_dead [OF _ _ st(4) _ g]) auto
  then show ?thesis using w' by simp
qed

text \<open>A person's new password ends every session of theirs but the one that asks, and those they opened.\<close>

lemma changePassword_dead:
  assumes w: "sound w" and s: "changePassword d w acc inp = (Inr (), w')"
    and g: "id_Get (ad_ops d) (iw_store w) t now = Inr x"
    and x: "ac_ID acc = se_ActorID x \<or> ac_ID acc = se_AccountID x
      \<and> (\<forall>now y. id_Get (ad_ops d) (iw_store w) (pc_KeepToken inp) now = Inr y \<longrightarrow> se_ID y \<noteq> se_ID x)"
  shows "dead t w'"
proof -
  let ?req = "\<lparr>rv_AccountID = ac_ID acc, rv_KeepToken = pc_KeepToken inp, rv_ActorID = 0, rv_Reason = Some EndedPasswordChanged\<rparr>"
  obtain w2 w3 w4 h p c where st: "log_change (ad_ops d) w c = (Inr (), w2)"
    "stored_write w2 (id_SetPasswordHash (ad_ops d) (iw_store w2) (ac_ID acc) h) = (Inr (), w3)"
    "revokeSessions (ad_Users d) w3 ?req = (Inr p, w4)" and w': "dead t w' = dead t w4"
    using s by (auto simp: changePassword_def st_bind_Inr_iff dead_told split: sum.splits if_splits dest!: within_Inr)
  note f1 = frame_log [OF w st(1)]
  note f2 = frame_hash [OF conjunct1 [OF f1] st(2)]
  have get: "id_Get (ad_ops d) (iw_store w3) = id_Get (ad_ops d) (iw_store w)" using Get_sess [of "iw_store w3" "iw_store w"] f1 f2 by (auto intro!: ext)
  have "0 < se_ID x" using Get_ID [OF _ g] w by (simp add: sound_def)
  then have "ac_ID acc = se_AccountID x \<and> se_ID x \<noteq> fst (keptSession (ad_Users d) w3 ?req) \<or> ac_ID acc = se_ActorID x"
    using x get by (auto simp: keptSession_def ad_ops_def split: sum.splits) blast
  then have "dead t w4" using revokeSessions_dead [OF _ st(3), of t now x] f2 get g by auto
  then show ?thesis using w' by simp
qed

lemma Deactivate_steps:
  assumes w: "sound w" and s: "DeactivateWithExt d w de = (Inr ext, w')"
  obtains w2 w3 p c where "stored_write w (id_SetActive (ad_ops d) (iw_store w) (de_ID de) False) = (Inr (), w2)"
    "revokeSessions (ad_Users d) w2 \<lparr>rv_AccountID = de_ID de, rv_KeepToken = [],
                    rv_ActorID = de_ActorID de, rv_Reason = Some EndedDeactivated\<rparr> = (Inr p, w3)"
    "iw_store w' = snd (id_Change (ad_ops d) (iw_store w3) c)" "ticks w3 w'"
proof -
  obtain acc w2 w3 p c w4 where acc: "users_Get (ad_Users d) w (de_ID de) = Inr acc"
    and st: "stored_write w (id_SetActive (ad_ops d) (iw_store w) (ac_ID acc) False) = (Inr (), w2)"
      "revokeSessions (ad_Users d) w2 \<lparr>rv_AccountID = ac_ID acc, rv_KeepToken = [],
                    rv_ActorID = de_ActorID de, rv_Reason = Some EndedDeactivated\<rparr> = (Inr p, w3)"
      "log_change (ad_ops d) w3 c = (Inr (), w4)" and w': "iw_store w' = iw_store w4" "ticks w4 w'"
    using s by (auto simp: DeactivateWithExt_def st_bind_Inr_iff split: sum.splits if_splits dest!: within_Inr)
  have "ac_ID acc = de_ID de"
    using acc w Find_inact [of "iw_store w" "de_ID de" acc] by (auto simp: users_Get_def ad_ops_def sound_def split: sum.splits)
  moreover have "iw_store w4 = snd (id_Change (ad_ops d) (iw_store w3) c)" "ticks w3 w4"
    using st(3) by (auto simp: log_change_def split: prod.splits)
  ultimately show ?thesis using that [of w2 p w3 c] st w' by (simp add: ticks_def)
qed

lemma Deactivate_dead:
  assumes w: "sound w" and s: "DeactivateWithExt d w de = (Inr ext, w')"
    and g: "id_Get (ad_ops d) (iw_store w) t now = Inr x" and x: "de_ID de \<in> {se_AccountID x, se_ActorID x}"
  shows "dead t w'"
proof -
  from w s obtain w2 w3 p c where st: "stored_write w (id_SetActive (ad_ops d) (iw_store w) (de_ID de) False) = (Inr (), w2)"
    "revokeSessions (ad_Users d) w2 \<lparr>rv_AccountID = de_ID de, rv_KeepToken = [],
                    rv_ActorID = de_ActorID de, rv_Reason = Some EndedDeactivated\<rparr> = (Inr p, w3)"
    "iw_store w' = snd (id_Change (ad_ops d) (iw_store w3) c)" "ticks w3 w'" by (rule Deactivate_steps)
  note f = frame_active [OF w st(1)]
  have "dead t w3" using f x by (intro revoke_all_dead [OF _ _ st(2) _ g]) auto
  then show ?thesis using only_Change [of "iw_store w3" c] st(3,4) by (intro dead_later [of t w3 w']) (auto simp: dead_def sound_def)
qed

end

section \<open>Inactive accounts\<close>

context id_services
begin

lemma Deactivate_inactive:
  assumes w: "sound w" and s: "DeactivateWithExt d w de = (Inr ext, w')"
  shows "inactive.W (de_ID de) w'"
proof -
  from w s obtain w2 w3 p c where st: "stored_write w (id_SetActive (ad_ops d) (iw_store w) (de_ID de) False) = (Inr (), w2)"
    "revokeSessions (ad_Users d) w2 \<lparr>rv_AccountID = de_ID de, rv_KeepToken = [],
                    rv_ActorID = de_ActorID de, rv_Reason = Some EndedDeactivated\<rparr> = (Inr p, w3)"
    "iw_store w' = snd (id_Change (ad_ops d) (iw_store w3) c)" "ticks w3 w'" by (rule Deactivate_steps)
  obtain s2 where s2: "id_SetActive (ad_ops d) (iw_store w) (de_ID de) False = (Inr (), s2)" "iw_store w2 = s2"
    using st(1) by (auto simp: stored_write_def split: prod.splits sum.splits)
  have "sound w2" using frame_active [OF w st(1)] by simp
  then have "inactive.W (de_ID de) w2" using SetActive_inact [OF s2(1)] s2(2) by (simp add: inactive.W_def sound_def)
  then have "inactive.W (de_ID de) w3" using inactive.W_revokeSessions [of "de_ID de" w2] st(2) by (metis snd_conv)
  then show ?thesis using only_Change [of "iw_store w3" c] st(3,4) by (simp add: inactive.W_def ticks_def)
qed

lemma inactive_active_account: "inactive.W i w \<Longrightarrow> active_account (ad_Users d) w j = Inr a \<Longrightarrow> ac_ID a \<noteq> i"
  using Find_inact [of "iw_store w" j a] by (auto simp: inactive.W_def active_account_Inr ad_ops_def)

lemma inactive_actorOf: "inactive.W i w \<Longrightarrow> actorOf (ad_Users d) w x = Inr (Some a) \<Longrightarrow> ac_ID a \<noteq> i"
  using inactive_active_account [of i w "se_ActorID x" a] by (auto simp: actorOf_def split: if_splits sum.splits)

lemma inactive_Login: "inactive.W i w \<Longrightarrow> Login (ad_Users d) w inp = (Inr sg, w') \<Longrightarrow> ac_ID (sd_Account sg) \<noteq> i"
  using FindByLogin_inact [of "iw_store w" "NormalizeLogin (sg_uni (ad_Users d)) (in_Login inp)"]
  by (auto simp: Login_def Let_def inactive.W_def ad_ops_def st_bind_Inr_iff split: prod.splits sum.splits if_splits option.splits)

lemma inactive_Refresh:
  assumes "inactive.W i w" "Refresh (ad_Users d) w t device ip = (Inr sg, w')"
  shows "ac_ID (sd_Account sg) \<noteq> i \<and> (\<forall>a. sd_Actor sg = Some a \<longrightarrow> ac_ID a \<noteq> i)"
proof -
  obtain x where acc: "active_account (ad_Users d) w' (se_AccountID x) = Inr (sd_Account sg)"
    and act: "actorOf (ad_Users d) w' x = Inr (sd_Actor sg)"
    using assms(2) by (auto simp: Refresh_def Let_def res_bind_Inr_iff split: prod.splits sum.splits)
  have "inactive.W i w'" using inactive.W_Refresh [OF assms(1), of t device ip] assms(2) by simp
  then show ?thesis using inactive_active_account [OF _ acc] inactive_actorOf [of i w' x] act by auto
qed

lemma inactive_Authenticate:
  assumes "inactive.W i w" "Authenticate (ad_Users d) w t = (Inr au, w')"
  shows "ac_ID (au_Account au) \<noteq> i \<and> (\<forall>a. au_Actor au = Some a \<longrightarrow> ac_ID a \<noteq> i)"
proof -
  obtain x w1 w2 where acc: "active_account (ad_Users d) w1 (se_AccountID x) = Inr (au_Account au)"
    and w1: "get_session (ad_Users d) w t = (Inr x, w1)" and act: "actorOf (ad_Users d) w' x = Inr (au_Actor au)"
    using assms(2) by (auto simp: Authenticate_def st_bind_Inr_iff res_bind_Inr_iff split: if_splits sum.splits)
  have "inactive.W i w1" using inactive.W_get_session [OF assms(1), of t] w1 by simp
  moreover have "inactive.W i w'" using inactive.W_Authenticate [OF assms(1), of t] assms(2) by simp
  ultimately show ?thesis using inactive_active_account [OF _ acc] inactive_actorOf [of i w' x] act by auto
qed

end

section \<open>What a sign-in tells\<close>

text \<open>The account behind the login that was typed, if the store has it.\<close>

definition claimed :: "'s signin \<Rightarrow> 's iworld \<Rightarrow> login_input \<Rightarrow> account option" where
  "claimed s w inp =
     (let login = NormalizeLogin (sg_uni s) (in_Login inp) in
      if int (RuneCountInString login) > li_Login (cf_Limits (sg_cfg s)) then None
      else case id_FindByLogin (sg_ops s) (iw_store w) login of Inl _ \<Rightarrow> None | Inr acc \<Rightarrow> Some acc)"

definition knows_password :: "'s signin \<Rightarrow> 's iworld \<Rightarrow> login_input \<Rightarrow> bool" where
  "knows_password s w inp =
     (case claimed s w inp of None \<Rightarrow> False | Some acc \<Rightarrow> sg_Matches s (ac_PasswordHash acc) (in_Password inp))"

definition claimed_lock :: "'s signin \<Rightarrow> 's iworld \<Rightarrow> login_input \<Rightarrow> int option" where
  "claimed_lock s w inp =
     (case claimed s w inp of
        None \<Rightarrow> None
      | Some acc \<Rightarrow>
          (case id_LockEvents (sg_ops s) (iw_store w) (ac_ID acc) (lk_After (cf_Lock (sg_cfg s))) of
             Inl _ \<Rightarrow> None | Inr latest \<Rightarrow> LockedUntil (cf_Lock (sg_cfg s)) latest (inow (itick w))))"

text \<open>Stores that answer: a lookup fails only for a login nobody has, reads and writes of the history and opening succeed.\<close>

definition stores_answer :: "'s id_ops \<Rightarrow> 's \<Rightarrow> bool" where
  "stores_answer ops st \<longleftrightarrow>
     (\<forall>login e. id_FindByLogin ops st login = Inl e \<longrightarrow> errors_Is e ErrNotFound)
     \<and> (\<forall>i n. is_ok (id_LockEvents ops st i n)) \<and> (\<forall>row. is_ok (fst (id_Record ops st row)))
     \<and> (\<forall>ns. is_ok (fst (id_Open ops st ns)) \<and> (\<forall>row. is_ok (fst (id_Record ops (snd (id_Open ops st ns)) row))))"

lemma record_ok:
  "(\<And>row. is_ok (fst (id_Record (sg_ops s) (iw_store w) row))) \<Longrightarrow> \<exists>w'. sg_record s w i e actor device ip = (Inr (), w')"
  by (auto simp: sg_record_def appendEntry_def Let_def is_ok_iff id_write_Inr) (metis prod.collapse)

lemma open_ok:
  "stores_answer (sg_ops s) (iw_store w) \<Longrightarrow>
     \<exists>c w'. sg_open s w i actor device ip = (Inr c, w') \<and> (\<forall>row. is_ok (fst (id_Record (sg_ops s) (iw_store w') row)))"
  unfolding stores_answer_def sg_open_def id_write_Inr is_ok_iff
  by (metis (no_types, lifting) iworld.select_convs(1) iworld.surjective iworld.update_convs(1) prod.collapse)

text \<open>
  C6: what a sign-in answers, over stores that answer. Whoever does not know the password of the account behind the
  login learns the same from an unknown login, a login too long to exist, a wrong password, an inactive account: sign-in
  failed, or until when the login is throttled or the account locked; never that the account is inactive. Whoever does
  know it is let in when the account is active and told that it is not otherwise, unless throttled or locked.
\<close>

theorem Login_answers:
  assumes "stores_answer (sg_ops s) (iw_store w)"
    and "at_allow (iw_attempts w) (inow w) (NormalizeLogin (sg_uni s) (in_Login inp)) = ((until, ok), att)"
  shows "(\<not> ok \<longrightarrow> fst (Login s w inp) = Inl (signInLocked (sg_rfc s) until))
    \<and> (ok \<longrightarrow> (case claimed_lock s w inp of
         Some t \<Rightarrow> fst (Login s w inp) = Inl (signInLocked (sg_rfc s) t)
       | None \<Rightarrow>
           if \<not> knows_password s w inp then fst (Login s w inp) = Inl signInFailed
           else \<exists>acc. claimed s w inp = Some acc \<and>
             (if ac_Active acc then \<exists>c. fst (Login s w inp) = Inr \<lparr>sd_Account = acc, sd_Credentials = c, sd_Actor = None\<rparr>
              else fst (Login s w inp) = Inl signInInactive)))"
proof (cases "\<not> ok \<or> claimed s w inp = None")
  case True
  then show ?thesis using assms
    by (auto simp: Login_def Let_def claimed_lock_def claimed_def knows_password_def stores_answer_def split: sum.splits if_splits)
next
  case False
  let ?login = "NormalizeLogin (sg_uni s) (in_Login inp)"
  let ?w2 = "itick ((itick w)\<lparr>iw_attempts := att\<rparr>)"
  from False obtain acc where acc: "claimed s w inp = Some acc" "id_FindByLogin (sg_ops s) (iw_store w) ?login = Inr acc"
      "\<not> int (RuneCountInString ?login) > li_Login (cf_Limits (sg_cfg s))"
    by (auto simp: claimed_def Let_def split: if_splits sum.splits)
  obtain latest where latest: "id_LockEvents (sg_ops s) (iw_store w) (ac_ID acc) (lk_After (cf_Lock (sg_cfg s))) = Inr latest"
    using assms(1) unfolding stores_answer_def is_ok_iff by blast
  have now: "inow ((itick w)\<lparr>iw_attempts := att\<rparr>) = inow (itick w)" by (simp add: inow_def)
  have rec: "\<exists>w'. sg_record s ?w2 (ac_ID acc) e 0 (in_Device inp) (in_IP inp) = (Inr (), w')" for e
    using assms(1) by (intro record_ok) (simp add: stores_answer_def)
  have "stores_answer (sg_ops s) (iw_store ?w2)" using assms(1) by simp
  then obtain c w3 where op: "sg_open s ?w2 (ac_ID acc) 0 (in_Device inp) (in_IP inp) = (Inr c, w3)"
      "\<forall>row. is_ok (fst (id_Record (sg_ops s) (iw_store w3) row))"
    using open_ok by blast
  then have "\<exists>w'. sg_record s w3 (ac_ID acc) SignedIn 0 (in_Device inp) (in_IP inp) = (Inr (), w')" by (intro record_ok) simp
  then show ?thesis using False assms(2) acc latest now rec [of LockedOut] rec [of WrongPassword] rec [of RefusedInactive] op(1)
    by (auto simp: Login_def Let_def claimed_lock_def knows_password_def split: option.split)
qed

section \<open>The services over the memory stores\<close>

text \<open>
  The stores of \<^verbatim>\<open>identitytest\<close> under the services: its transactor runs the function and cannot undo it, and
  the lock has its defaults, as \<^verbatim>\<open>account.New\<close> sets them.
\<close>

definition on_memory :: "(string \<Rightarrow> string) \<Rightarrow> (string \<Rightarrow> string \<Rightarrow> bool) \<Rightarrow> mem_identity user_admin \<Rightarrow> mem_identity user_admin" where
  "on_memory uni foldeq d =
     d\<lparr>ad_Users := (ad_Users d)\<lparr>sg_ops := mem_id_ops uni foldeq,
         sg_cfg := (sg_cfg (ad_Users d))\<lparr>cf_Lock := lock_withDefaults (cf_Lock (sg_cfg (ad_Users d)))\<rparr>\<rparr>,
       ad_rollback := (\<lambda>before after. after), ad_commit := (\<lambda>_. Inr ())\<rparr>"

lemma on_memory_ops [simp]: "ad_ops (on_memory uni foldeq d) = mem_id_ops uni foldeq"
  by (simp add: on_memory_def ad_ops_def)

interpretation mem: id_services "on_memory uni foldeq d" mi_sessions mi_accounts mem_hist
  sessions_ok token_spent accounts_ok account_inactive for uni foldeq d
proof -
  have "id_store (ad_ops (on_memory uni foldeq d)) mi_sessions mi_accounts mem_hist sessions_ok token_spent accounts_ok account_inactive"
    unfolding on_memory_ops by (rule mem_id.id_store_axioms)
  then show "id_services (on_memory uni foldeq d) mi_sessions mi_accounts mem_hist sessions_ok token_spent accounts_ok account_inactive"
    by (intro id_services.intro id_services_axioms.intro) (auto simp: on_memory_def)
qed

section \<open>The properties\<close>

text \<open>What ends a session for good: signing out, and ending all sessions of its account or of the account that opened it.\<close>

definition ends_session :: "mem_identity user_admin \<Rightarrow> mem_identity iworld \<Rightarrow> string \<Rightarrow> session \<Rightarrow> mem_identity iworld \<Rightarrow> bool" where
  "ends_session d w token x w' \<longleftrightarrow>
     Logout (ad_Users d) w token = (Inr (), w')
     \<or> (\<exists>req. RevokeSessions (ad_Users d) w req = (Inr (), w') \<and> rv_KeepToken req = [] \<and> rv_AccountID req \<in> {se_AccountID x, se_ActorID x})
     \<or> (\<exists>pw. SetPassword d w pw = (Inr (), w') \<and> sp_KeepToken pw = [] \<and> sp_ID pw \<in> {se_AccountID x, se_ActorID x})
     \<or> (\<exists>acc pc. changePassword d w acc pc = (Inr (), w') \<and> (ac_ID acc = se_ActorID x \<or> ac_ID acc = se_AccountID x
           \<and> (\<forall>now y. ss_Get (mi_sessions (iw_store w)) (pc_KeepToken pc) now = Inr y \<longrightarrow> se_ID y \<noteq> se_ID x)))
     \<or> (\<exists>de ext. DeactivateWithExt d w de = (Inr ext, w') \<and> de_ID de \<in> {se_AccountID x, se_ActorID x})"

text \<open>
  C5: a session that was signed out, or ended because its account (or the account that opened it by signing in as
  somebody) had its sessions ended, got a new password (from an administrator, or from the person, who keeps only the
  session that asked) or was deactivated, never authenticates again, whatever the
  services do afterwards: its access token is refused as invalid in every state that is reached.
\<close>

theorem ended_sessions_stay_ended:
  assumes "d = on_memory uni foldeq d0" "mono (iw_clock w)" "accounts_ok (mi_accounts (iw_store w))" "sessions_ok (mi_sessions (iw_store w))"
    and "ss_Get (mi_sessions (iw_store w)) token now = Inr x" "ends_session d w token x w'"
    and "(service_step d may)\<^sup>*\<^sup>* w' w''"
  shows "fst (Authenticate (ad_Users d) w'' token) = Inl sessionInvalid"
proof -
  have s: "mem.sound w" using assms(2-4) by (simp add: mem.sound_def)
  have g: "id_Get (ad_ops (on_memory uni foldeq d0)) (iw_store w) token now = Inr x" using assms(5) by (simp add: mem_id_ops_def)
  have g': "id_Get (ad_ops (on_memory uni foldeq d0)) s k n = ss_Get (mi_sessions s) k n" for s k n by (simp add: mem_id_ops_def)
  have "mem.dead token w'" using assms(6) unfolding assms(1) ends_session_def g' [symmetric]
    by (auto intro: mem.changePassword_dead [OF s _ g] mem.Logout_dead [OF s] mem.RevokeSessions_dead [OF s _ _ g] mem.SetPassword_dead [OF s _ _ g]
        mem.Deactivate_dead [OF s _ g])
  then show ?thesis using mem.dead_run [of uni foldeq d0 may w' w'' token] mem.dead_Authenticate assms(1,7) by blast
qed

text \<open>
  C8: a refresh token works once. After a refresh that succeeded, no later refresh with the same token does, and no
  request authenticates with it.
\<close>

theorem refresh_once:
  assumes "d = on_memory uni foldeq d0" "mono (iw_clock w)" "accounts_ok (mi_accounts (iw_store w))" "sessions_ok (mi_sessions (iw_store w))"
    and "Refresh (ad_Users d) w token device ip = (Inr sg, w')" "(service_step d may)\<^sup>*\<^sup>* w' w''"
  shows "\<not> is_ok (fst (Refresh (ad_Users d) w'' token device' ip')) \<and> fst (Authenticate (ad_Users d) w'' token) = Inl sessionInvalid"
proof -
  have "mem.sound w" using assms(2-4) by (simp add: mem.sound_def)
  then have "mem.dead token w'" using mem.Refresh_dead assms(1,5) by blast
  then have "mem.dead token w''" using mem.dead_run [of uni foldeq d0 may w' w'' token] assms(1,6) by blast
  then show ?thesis using mem.dead_Refresh mem.dead_Authenticate assms(1) by blast
qed

text \<open>
  C7: once an account is deactivated, and until it is activated, nobody is it: no sign-in, refresh or request
  succeeds for the account, and none succeeds for somebody else with the account as the one who opened the session.
\<close>

theorem deactivated_stays_out:
  assumes "d = on_memory uni foldeq d0" "mono (iw_clock w)" "accounts_ok (mi_accounts (iw_store w))" "sessions_ok (mi_sessions (iw_store w))"
    and "DeactivateWithExt d w de = (Inr ext, w')" "(service_step d (\<lambda>j. j \<noteq> de_ID de))\<^sup>*\<^sup>* w' w''"
  shows "(\<forall>sg. fst (Login (ad_Users d) w'' inp) = Inr sg \<longrightarrow> ac_ID (sd_Account sg) \<noteq> de_ID de)
    \<and> (\<forall>sg. fst (Refresh (ad_Users d) w'' token device ip) = Inr sg \<longrightarrow>
         ac_ID (sd_Account sg) \<noteq> de_ID de \<and> (\<forall>a. sd_Actor sg = Some a \<longrightarrow> ac_ID a \<noteq> de_ID de))
    \<and> (\<forall>au. fst (Authenticate (ad_Users d) w'' token) = Inr au \<longrightarrow>
         ac_ID (au_Account au) \<noteq> de_ID de \<and> (\<forall>a. au_Actor au = Some a \<longrightarrow> ac_ID a \<noteq> de_ID de))"
proof -
  have "mem.sound w" using assms(2-4) by (simp add: mem.sound_def)
  then have "mem.inactive.W (de_ID de) w'" using mem.Deactivate_inactive assms(1,5) by blast
  then have "mem.inactive.W (de_ID de) w''" using mem.inactive.W_run assms(1,6) by blast
  note out = mem.inactive_Login [OF this] mem.inactive_Refresh [OF this] mem.inactive_Authenticate [OF this]
  show ?thesis unfolding assms(1)
    using out(1) [of uni foldeq d0 inp] out(2) [of uni foldeq d0 token device ip] out(3) [of uni foldeq d0 token] by (simp add: prod_eq_iff)
qed

text \<open>
  The lock throttles guessing, when the sign-ins of an account come one after another: in the history that a run of whole operations
  leaves, the wrong passwords of an account that come in a row, one more than lock sign-in, span at least the lock's length. The code
  holds no lock between reading the history and recording an attempt, so sign-ins that overlap may all be checked before the first is
  recorded (\<^verbatim>\<open>attempts.go\<close> says so); those are bounded by the attempts of a login in its window
  (\<open>windows_bounded\<close>) and not by this.
\<close>

theorem lock_throttles:
  assumes "d = on_memory uni foldeq d0" "l = cf_Lock (sg_cfg (ad_Users d))" "mono (iw_clock w)" "accounts_ok (mi_accounts (iw_store w))"
    and "mi_signins (iw_store w) = []" "(service_step d may)\<^sup>*\<^sup>* w w'" "h = mem_hist (iw_store w') i"
    and "m + nat (lk_After l) < length h" "all_wrong (take (Suc (nat (lk_After l))) (drop m h))"
  shows "en_CreatedAt (h ! (m + nat (lk_After l))) + lk_For l \<le> en_CreatedAt (h ! m)"
proof -
  have "mem.history.W uni foldeq d0 i w" using assms(3-5) by (simp add: mem.history.W_def mem.quiet_def mem_hist_def)
  then have "mem.history.W uni foldeq d0 i w'" using mem.history.W_run assms(1,6) by blast
  then have "throttled l h" using assms(1,2,7) by (simp add: mem.history.W_def mem.quiet_def)
  then show ?thesis using assms(8,9) mem.After_pos [of uni foldeq d0] assms(1,2) by (intro throttled_gap) auto
qed

text \<open>
  C39: the list of the accounts that are locked is exact, although it asks only about those with a wrong password within
  the lock's length: who is listed was locked until then when the listing began, and who is still locked when it ends is
  listed.
\<close>

theorem locks_exact:
  assumes "ad_ops d = mem_id_ops uni foldeq" "mono (iw_clock w)" "l = cf_Lock (sg_cfg (ad_Users d))" "l = lock_withDefaults l"
    and "\<And>st since. ad_WrongPasswordsSince d st since = Inr (si_WrongPasswordsSince (mi_signins st) since)"
    and "locks d w = (Inr m, w')" "es = si_LockEvents (mi_signins (iw_store w)) i (lk_After l)"
  shows "(fmlookup m i = Some t \<longrightarrow> LockedUntil l es (inow w) = Some t)
    \<and> (LockedUntil l es (inow w') = Some t \<longrightarrow> fmlookup m i = Some t)"
proof -
  let ?ev = "\<lambda>i. si_LockEvents (mi_signins (iw_store w)) i (lk_After l)"
  let ?ids = "si_WrongPasswordsSince (mi_signins (iw_store w)) (inow w - lk_For l)"
  have r: "locks_among (ad_Users d) (itick w) ?ids fmempty = (Inr m, w')" using assms(3,5,6) by (simp add: locks_def)
  have ev: "id_LockEvents (sg_ops (ad_Users d)) (iw_store (itick w)) j (lk_After (cf_Lock (sg_cfg (ad_Users d)))) = Inr (?ev j)" for j
    using assms(1,3) by (simp add: ad_ops_def mem_id_ops_def)
  have n: "inow w \<le> inow (itick w)" "mono (iw_clock (itick w))" using assms(2) by (auto simp: inow_def monoD)
  have n': "inow w \<le> inow w'" using locks_among_world [OF r] assms(2) by (auto simp: inow_def monoD)
  have "i \<in> set ?ids" if "LockedUntil l es (inow w') = Some t"
  proof -
    have k: "0 < nat (lk_After l)" using assms(4) by (metis lock_withDefaults_pos(1) zero_less_nat_eq)
    have u: "nat (lk_After l) \<le> length es" "\<forall>e \<in> set (take (nat (lk_After l)) es). en_Event e = WrongPassword"
      "inow w' < en_CreatedAt (hd es) + lk_For l"
      using that assms(4) by (auto simp: LockedUntil_iff Let_def)
    have "es \<noteq> []" using u(1) k by auto
    then have "hd es \<in> set (take (nat (lk_After l)) es)"
      using k hd_in_set [of "take (nat (lk_After l)) es"] by (auto simp: hd_take)
    then have until: "es \<noteq> []" "en_Event (hd es) = WrongPassword" "inow w' < en_CreatedAt (hd es) + lk_For l" using u \<open>es \<noteq> []\<close> by auto
    then have "hd es \<in> set es" by simp
    then have "hd es \<in> set (mi_signins (iw_store w))" "en_AccountID (hd es) = i"
      unfolding assms(7) si_LockEvents_def Let_def by (auto split: if_splits dest: in_set_takeD)
    then show ?thesis using until n' by (auto simp: in_WrongPasswordsSince)
  qed
  then show ?thesis
    using locks_among_exact [OF r n(2) ev, of i w t] n(1) assms(3,7) by auto
qed

section \<open>Examples\<close>

text \<open>One person with one session, and an administrator's module over the memory stores.\<close>

definition demo_signin :: "mem_identity signin" where
  "demo_signin =
     \<lparr>sg_ops = mem_id_ops id (=),
      sg_cfg = \<lparr>cf_TokenTTL = hour, cf_Lock = \<lparr>lk_After = 1, lk_For = 5\<rparr>, cf_AttemptsPerMinute = 10, cf_Locales = [],
        cf_Limits = \<lparr>li_Login = 100, li_Name = 150, li_Email = 255, li_Phone = 30\<rparr>\<rparr>,
      sg_Matches = (=), sg_Permitted = (\<lambda>_. None), sg_Covers = (\<lambda>_ _. None), sg_uni = id, sg_rfc = (\<lambda>_. [])\<rparr>"

definition demo_admin :: "mem_identity user_admin" where
  "demo_admin =
     \<lparr>ad_Users = demo_signin, ad_parse = Some, ad_Policy = (\<lambda>_. []), ad_Hash = Inr, ad_Hooks = [], ad_Extension = None,
      ad_rollback = (\<lambda>before after. after), ad_commit = (\<lambda>_. Inr ()),
      ad_WrongPasswordsSince = (\<lambda>s since. Inr (si_WrongPasswordsSince (mi_signins s) since)),
      ad_LastSignIns = (\<lambda>s ids. Inr (si_LastSignIns (mi_signins s) ids)),
      ad_Search = (\<lambda>s q. Inr \<lparr>pg_Accounts = [], pg_Total = 0\<rparr>),
      ad_Counts = (\<lambda>s q. Inr \<lparr>st_Active = 0, st_Locked = 0, st_Inactive = 0\<rparr>), ad_IdleAfter = hour\<rparr>"

definition demo_account :: account where
  "demo_account =
     \<lparr>ac_ID = 1, ac_Login = ''a'', ac_Email = [], ac_Phone = [], ac_Name = [], ac_Locale = [], ac_Active = True,
      ac_PasswordHash = ''pw'', ac_CreatedAt = 0\<rparr>"

definition demo_store :: mem_identity where
  "demo_store =
     \<lparr>mi_accounts = \<lparr>ma_next = 2, ma_rows = fmupd 1 demo_account fmempty\<rparr>, mi_signins = [],
      mi_sessions = \<lparr>
        ms_rows = [opened 1 \<lparr>ns_AccountID = 1, ns_ActorID = 0, ns_Device = [], ns_IP = [], ns_At = 0, ns_ExpiresAt = hour\<rparr> ''t'' ''tt''],
        ms_tokens = (\<lambda>n. Inr (replicate (Suc n) CHR ''t'')), ms_drawn = 2\<rparr>,
      mi_changes = \<lparr>cl_clock = (\<lambda>_. 0), cl_ticks = 0, cl_rows = []\<rparr>\<rparr>"

definition demo_world :: "mem_identity iworld" where
  "demo_world = \<lparr>iw_store = demo_store, iw_attempts = newAttempts 10, iw_clock = (\<lambda>n. 10 * int n), iw_ticks = 0, iw_notices = []\<rparr>"

lemma demo_ok:
  "mono (iw_clock demo_world)" "accounts_ok (mi_accounts (iw_store demo_world))" "sessions_ok (mi_sessions (iw_store demo_world))"
  by (auto simp: demo_world_def demo_store_def demo_account_def accounts_ok_def sessions_ok_def drawn_def mono_def less_2_cases_iff
      intro: exI [of _ 0] exI [of _ 1])

lemmas demo_defs = demo_world_def demo_store_def demo_account_def demo_admin_def demo_signin_def on_memory_def mem_id_ops_def

definition demo_mem :: "mem_identity user_admin" where "demo_mem = on_memory id (=) demo_admin"

definition demo_guess :: login_input where
  "demo_guess = \<lparr>in_Login = ''a'', in_Password = ''x'', in_Device = [], in_IP = []\<rparr>"

theorem ended_sessions_stay_ended_witness:
  "fst (Authenticate (ad_Users demo_mem)
     (snd (Refresh (ad_Users demo_mem) (snd (Logout (ad_Users demo_mem) demo_world ''t'')) ''tt'' [] [])) ''t'') = Inl sessionInvalid"
proof (rule ended_sessions_stay_ended [OF demo_mem_def demo_ok])
  have "fst (Logout (ad_Users demo_mem) demo_world ''t'') = Inr ()" by code_simp
  then show "ends_session demo_mem demo_world ''t'' (sr_Session (hd (ms_rows (mi_sessions demo_store))))
      (snd (Logout (ad_Users demo_mem) demo_world ''t''))"
    by (simp add: ends_session_def prod_eq_iff)
  show "ss_Get (mi_sessions (iw_store demo_world)) ''t'' 0 = Inr (sr_Session (hd (ms_rows (mi_sessions demo_store))))"
    by code_simp
  show "(service_step demo_mem (\<lambda>_. True))\<^sup>*\<^sup>* (snd (Logout (ad_Users demo_mem) demo_world ''t''))
      (snd (Refresh (ad_Users demo_mem) (snd (Logout (ad_Users demo_mem) demo_world ''t'')) ''tt'' [] []))"
    by (rule r_into_rtranclp) (rule step_Refresh)
qed

theorem refresh_once_witness:
  "\<not> is_ok (fst (Refresh (ad_Users demo_mem) (snd (Refresh (ad_Users demo_mem) demo_world ''tt'' [] [])) ''tt'' [] []))"
proof -
  have "is_ok (fst (Refresh (ad_Users demo_mem) demo_world ''tt'' [] []))" by code_simp
  then obtain sg where "Refresh (ad_Users demo_mem) demo_world ''tt'' [] [] = (Inr sg, snd (Refresh (ad_Users demo_mem) demo_world ''tt'' [] []))"
    by (metis is_ok_iff prod.collapse)
  from refresh_once [OF demo_mem_def demo_ok this rtranclp.rtrancl_refl] show ?thesis by blast
qed

theorem deactivated_stays_out_witness:
  "\<not> (\<exists>sg. fst (Login (ad_Users demo_mem) (snd (DeactivateWithExt demo_mem demo_world \<lparr>de_ID = 1, de_ActorID = 2, de_Details = []\<rparr>))
      (demo_guess\<lparr>in_Password := ''pw''\<rparr>)) = Inr sg \<and> ac_ID (sd_Account sg) = 1)"
proof -
  let ?de = "\<lparr>de_ID = 1, de_ActorID = 2, de_Details = []\<rparr>"
  have "fst (DeactivateWithExt demo_mem demo_world ?de) = Inr None" by code_simp
  then have "DeactivateWithExt demo_mem demo_world ?de = (Inr None, snd (DeactivateWithExt demo_mem demo_world ?de))"
    by (metis prod.collapse)
  from deactivated_stays_out [OF demo_mem_def demo_ok this rtranclp.rtrancl_refl] show ?thesis by fastforce
qed

theorem Login_answers_witness:
  "fst (Login (ad_Users demo_mem) demo_world demo_guess) = Inl signInFailed"
proof -
  let ?s = "ad_Users demo_mem" and ?login = "NormalizeLogin (sg_uni (ad_Users demo_mem)) (in_Login demo_guess)"
  obtain until ok att where al: "at_allow (iw_attempts demo_world) (inow demo_world) ?login = ((until, ok), att)" by (metis prod.collapse)
  have "snd (fst (at_allow (iw_attempts demo_world) (inow demo_world) ?login))" by code_simp
  then have ok: "ok" using al by simp
  have st: "claimed_lock ?s demo_world demo_guess = None" "\<not> knows_password ?s demo_world demo_guess" by code_simp+
  have "stores_answer (sg_ops ?s) (iw_store demo_world)"
    by (auto simp: stores_answer_def demo_mem_def demo_defs ma_FindByLogin_def on_sessions_def ss_Open_def NewToken_def split: option.splits)
  from Login_answers [OF this al] show ?thesis using ok st by simp
qed

text \<open>Two wrong passwords for the same person; the lock (one wrong password, for 5) stands between them.\<close>

definition demo_after :: "mem_identity iworld" where
  "demo_after = snd (Login (ad_Users demo_mem) (snd (Login (ad_Users demo_mem) demo_world demo_guess)) demo_guess)"

theorem lock_throttles_witness:
  "en_CreatedAt (mem_hist (iw_store demo_after) 1 ! 1) + 5 \<le> en_CreatedAt (mem_hist (iw_store demo_after) 1 ! 0)"
proof -
  have run: "(service_step demo_mem (\<lambda>_. True))\<^sup>*\<^sup>* demo_world demo_after"
    unfolding demo_after_def by (meson converse_rtranclp_into_rtranclp rtranclp.rtrancl_refl step_Login)
  have lock: "cf_Lock (sg_cfg (ad_Users demo_mem)) = \<lparr>lk_After = 1, lk_For = 5\<rparr>" by code_simp
  have none: "mi_signins (iw_store demo_world) = []" by (simp add: demo_world_def demo_store_def)
  have "length (mem_hist (iw_store demo_after) 1) = 2" "list_all (\<lambda>e. en_Event e = WrongPassword) (mem_hist (iw_store demo_after) 1)"
    by code_simp+
  then have h: "0 + nat (lk_After (cf_Lock (sg_cfg (ad_Users demo_mem)))) < length (mem_hist (iw_store demo_after) 1)"
    "all_wrong (take (Suc (nat (lk_After (cf_Lock (sg_cfg (ad_Users demo_mem)))))) (drop 0 (mem_hist (iw_store demo_after) 1)))"
    by (auto simp: lock all_wrong_def list_all_iff dest: in_set_takeD)
  from lock_throttles [OF demo_mem_def refl demo_ok(1,2) none run refl h] show ?thesis by (simp add: lock)
qed

text \<open>A wrong password a moment ago, and the listing of the locked.\<close>

definition demo_locked :: "mem_identity iworld" where
  "demo_locked = snd (Login (ad_Users demo_mem) (demo_world\<lparr>iw_clock := int\<rparr>) demo_guess)"

theorem locks_exact_witness:
  "fmlookup (projr (fst (locks demo_mem demo_locked))) 1 = Some 7"
proof -
  have "is_ok (fst (locks demo_mem demo_locked))" by code_simp
  then obtain m where m: "locks demo_mem demo_locked = (Inr m, snd (locks demo_mem demo_locked))"
    by (metis is_ok_iff prod.collapse)
  let ?l = "\<lparr>lk_After = 1, lk_For = 5\<rparr>"
  let ?es = "si_LockEvents (mi_signins (iw_store demo_locked)) 1 (lk_After ?l)"
  have "ad_ops demo_mem = mem_id_ops id (=)" by (simp add: demo_mem_def)
  moreover have "mono (iw_clock demo_locked)"
  proof -
    have "mem.history.W id (=) demo_admin 1 (demo_world\<lparr>iw_clock := int\<rparr>)"
      using demo_ok(2) by (auto simp: mem.history.W_def mem.quiet_def mono_def demo_world_def demo_store_def mem_hist_def)
    from mem.history.W_Login [OF this] show ?thesis by (simp add: mem.history.W_def demo_locked_def demo_mem_def)
  qed
  moreover have "?l = cf_Lock (sg_cfg (ad_Users demo_mem))" "?l = lock_withDefaults ?l" by code_simp+
  moreover have "\<And>st since. ad_WrongPasswordsSince demo_mem st since = Inr (si_WrongPasswordsSince (mi_signins st) since)"
    by (simp add: demo_mem_def demo_defs)
  moreover have "LockedUntil ?l ?es (inow (snd (locks demo_mem demo_locked))) = Some 7" by code_simp
  ultimately have "fmlookup m 1 = Some 7" using locks_exact [OF _ _ _ _ _ m refl, where i = 1 and t = 7] by metis
  then show ?thesis using m by (metis fst_conv sum.sel(2))
qed

end
