(* ===== verification/Rounds.thy ===== *)
theory Rounds
  imports Apperr
begin

text \<open>
  The retry loop of the optimistic writes: \<^verbatim>\<open>for range n\<close> around a read and a conditional save, where a save
  that lost the race goes round again (a round that ends with None) and running out of rounds is an internal error. The
  codes and the re-confirmation of passwords (\<^verbatim>\<open>identity/account/codes.go\<close>,
  \<^verbatim>\<open>reauth.go\<close>) are written with it. A round is given its number, counted down: what other requests do
  meanwhile may differ from round to round.
\<close>

fun rounds :: "string \<Rightarrow> (nat \<Rightarrow> 'w \<Rightarrow> 'a result option \<times> 'w) \<Rightarrow> nat \<Rightarrow> 'w \<Rightarrow> 'a result \<times> 'w" where
  "rounds conflict once 0 w = (Inl (Internal (Sentinel conflict)), w)"
| "rounds conflict once (Suc n) w =
     (case once n w of (None, w1) \<Rightarrow> rounds conflict once n w1 | (Some r, w1) \<Rightarrow> (r, w1))"

text \<open>A round of a function that reports the lost race as an error: the check with \<^verbatim>\<open>errors.Is\<close>.\<close>

definition unless_lost :: "string \<Rightarrow> 'a result \<times> 'w \<Rightarrow> 'a result option \<times> 'w" where
  "unless_lost conflict out =
     (case out of
        (Inl e, w) \<Rightarrow> (if errors_Is e conflict then None else Some (Inl e), w)
      | (Inr x, w) \<Rightarrow> (Some (Inr x), w))"

lemma unless_lost_None: "unless_lost conflict out = (None, w) \<longleftrightarrow> (\<exists>e. out = (Inl e, w) \<and> errors_Is e conflict)"
  by (auto simp: unless_lost_def split: sum.splits prod.splits)

lemma unless_lost_Some:
  "unless_lost conflict out = (Some r, w) \<longleftrightarrow> out = (r, w) \<and> (\<forall>e. r = Inl e \<longrightarrow> \<not> errors_Is e conflict)"
  by (auto simp: unless_lost_def split: sum.splits prod.splits)

text \<open>A value that the loop answers is that of a round, which follows rounds that were lost.\<close>

lemma rounds_answered:
  "rounds conflict once n w = (Inr x, w') \<Longrightarrow> \<exists>m v. (\<lambda>a b. \<exists>k. once k a = (None, b))\<^sup>*\<^sup>* w v \<and> once m v = (Some (Inr x), w')"
proof (induction n arbitrary: w)
  case (Suc n)
  obtain y w1 where o: "once n w = (y, w1)" by force
  show ?case
  proof (cases y)
    case None
    then have "rounds conflict once n w1 = (Inr x, w')" using Suc.prems o by simp
    then obtain m v where "(\<lambda>a b. \<exists>k. once k a = (None, b))\<^sup>*\<^sup>* w1 v" "once m v = (Some (Inr x), w')" using Suc.IH by blast
    moreover have "\<exists>k. once k w = (None, w1)" using o None by blast
    ultimately show ?thesis
      using converse_rtranclp_into_rtranclp [where r = "\<lambda>a b. \<exists>k. once k a = (None, b)", of w w1 v] by blast
  next
    case (Some r)
    then show ?thesis using Suc.prems o by auto
  qed
qed simp

text \<open>
  Enough rounds give a definite answer: every lost round uses up some of what the interference has to spend.
\<close>

locale enough_rounds =
  fixes conflict :: string and once :: "nat \<Rightarrow> 'w \<Rightarrow> 'a result option \<times> 'w" and I :: "'w \<Rightarrow> bool" and rank :: "'w \<Rightarrow> nat"
  assumes lost: "I w \<Longrightarrow> once n w = (None, w') \<Longrightarrow> I w' \<and> rank w' < rank w"
begin

text \<open>The loop's answer is that of one of its rounds.\<close>

lemma answered:
  "I w \<Longrightarrow> rank w < n \<Longrightarrow> rounds conflict once n w = (r, w') \<Longrightarrow> \<exists>m v. I v \<and> rank v \<le> rank w \<and> once m v = (Some r, w')"
proof (induction n arbitrary: w)
  case (Suc n)
  obtain x w1 where o: "once n w = (x, w1)" by force
  show ?case
  proof (cases x)
    case None
    have "I w1" "rank w1 < rank w" using lost [OF Suc.prems(1)] o None by blast+
    then show ?thesis using Suc.IH [of w1] Suc.prems(2,3) o None by fastforce
  next
    case (Some y)
    then show ?thesis using Suc.prems(1,3) o by auto
  qed
qed simp

end

end
