(* ===== verification/Codes.thy ===== *)
theory Codes
  imports Account Rounds
begin

text \<open>
  One-time codes: the service of \<^verbatim>\<open>identity/account/codes.go\<close> over its store, and the memory store of
  \<^verbatim>\<open>identity/identitytest/stores.go\<close>.

  The HMAC (\<^verbatim>\<open>crypto/hmac\<close>, keyed), the random digits and the sender are parameters. \<^verbatim>\<open>Verify\<close>
  runs beside other requests: what they do to the store between the read and the save of a round is the argument
  \<open>others\<close>, the identity where the request is alone.
\<close>

section \<open>Codes and their rules\<close>

type_synonym purpose = string

definition PurposeEmailChange :: purpose where "PurposeEmailChange = ''email_change''"
definition PurposePasswordReset :: purpose where "PurposePasswordReset = ''password_reset''"

definition CodeLength :: nat where "CodeLength = 6"

record code_rules =
  cr_TTL :: int
  cr_Attempts :: int
  cr_Cooldown :: int
  cr_PerHour :: int

definition rules_withDefaults :: "code_rules \<Rightarrow> code_rules" where
  "rules_withDefaults r =
     \<lparr>cr_TTL = (if cr_TTL r \<le> 0 then 15 * minute else cr_TTL r), cr_Attempts = (if cr_Attempts r \<le> 0 then 5 else cr_Attempts r),
      cr_Cooldown = (if cr_Cooldown r \<le> 0 then 60 * second else cr_Cooldown r), cr_PerHour = (if cr_PerHour r \<le> 0 then 5 else cr_PerHour r)\<rparr>"

definition codeWindow :: int where "codeWindow = hour"

record otp =
  co_ID :: int
  co_AccountID :: int
  co_Purpose :: purpose
  co_Target :: string
  co_Hash :: string
  co_Attempts :: int
  co_ExpiresAt :: int
  co_ConsumedAt :: "int option"
  co_InvalidatedAt :: "int option"
  co_IP :: string
  co_CreatedAt :: int

definition otp_Live :: "otp \<Rightarrow> int \<Rightarrow> bool" where
  "otp_Live c now = (co_ConsumedAt c = None \<and> co_InvalidatedAt c = None \<and> now < co_ExpiresAt c)"

definition ErrCodeNotFound :: string where "ErrCodeNotFound = ''identity: no code was issued''"
definition ErrCodeConflict :: string where "ErrCodeConflict = ''identity: the code changed since it was read''"

definition ReasonCodeResendTooSoon :: reason where "ReasonCodeResendTooSoon = ''identity.code.resend_too_soon''"
definition ReasonCodeTooManyRequests :: reason where "ReasonCodeTooManyRequests = ''identity.code.too_many_requests''"
definition ReasonCodeNoPending :: reason where "ReasonCodeNoPending = ''identity.code.no_pending''"
definition ReasonCodeExpired :: reason where "ReasonCodeExpired = ''identity.code.expired''"
definition ReasonCodeMismatch :: reason where "ReasonCodeMismatch = ''identity.code.mismatch''"
definition ReasonCodeTooManyAttempts :: reason where "ReasonCodeTooManyAttempts = ''identity.code.too_many_attempts''"
definition ReasonCodeNotDelivered :: reason where "ReasonCodeNotDelivered = ''identity.code.not_delivered''"

section \<open>The store\<close>

record 's code_ops =
  cd_Latest :: "'s \<Rightarrow> int \<Rightarrow> purpose \<Rightarrow> otp result"
  cd_IssuedSince :: "'s \<Rightarrow> int \<Rightarrow> purpose \<Rightarrow> int \<Rightarrow> (int \<times> int) result"
  cd_Issue :: "'s \<Rightarrow> otp \<Rightarrow> int \<Rightarrow> otp result \<times> 's"
  cd_SaveVerification :: "'s \<Rightarrow> otp \<Rightarrow> int \<Rightarrow> int \<Rightarrow> unit result \<times> 's"
  cd_InvalidateLive :: "'s \<Rightarrow> int \<Rightarrow> purpose \<Rightarrow> int \<Rightarrow> unit result \<times> 's"

record mem_codes =
  mc_next :: int
  mc_rows :: "otp list"

definition NewCodes_mem :: mem_codes where "NewCodes_mem = \<lparr>mc_next = 1, mc_rows = []\<rparr>"

definition mc_Latest :: "mem_codes \<Rightarrow> int \<Rightarrow> purpose \<Rightarrow> otp result" where
  "mc_Latest s accountID p =
     (case List.find (\<lambda>c. co_AccountID c = accountID \<and> co_Purpose c = p) (rev (mc_rows s)) of
        None \<Rightarrow> Inl (Sentinel ErrCodeNotFound) | Some c \<Rightarrow> Inr c)"

text \<open>How many were issued after an instant, and when the oldest of them (the zero time, here 0, when there are none).\<close>

definition mc_IssuedSince :: "mem_codes \<Rightarrow> int \<Rightarrow> purpose \<Rightarrow> int \<Rightarrow> int \<times> int" where
  "mc_IssuedSince s accountID p since =
     foldl (\<lambda>(n, oldest) c.
       if co_AccountID c \<noteq> accountID \<or> co_Purpose c \<noteq> p \<or> \<not> co_CreatedAt c > since then (n, oldest)
       else (n + 1, if n = 0 \<or> co_CreatedAt c < oldest then co_CreatedAt c else oldest)) (0, 0) (mc_rows s)"

definition endLocked :: "mem_codes \<Rightarrow> int \<Rightarrow> purpose \<Rightarrow> int \<Rightarrow> mem_codes" where
  "endLocked s accountID p now =
     s\<lparr>mc_rows := map (\<lambda>c. if co_AccountID c = accountID \<and> co_Purpose c = p \<and> co_ConsumedAt c = None \<and> co_InvalidatedAt c = None
        then c\<lparr>co_InvalidatedAt := Some now\<rparr> else c) (mc_rows s)\<rparr>"

definition mc_Issue :: "mem_codes \<Rightarrow> otp \<Rightarrow> int \<Rightarrow> otp \<times> mem_codes" where
  "mc_Issue s c now =
     (let s1 = endLocked s (co_AccountID c) (co_Purpose c) now; c1 = c\<lparr>co_ID := mc_next s1\<rparr>
      in (c1, s1\<lparr>mc_next := mc_next s1 + 1, mc_rows := mc_rows s1 @ [c1]\<rparr>))"

fun save_rows :: "otp list \<Rightarrow> otp \<Rightarrow> int \<Rightarrow> otp list option" where
  "save_rows [] c readAttempts = None"
| "save_rows (r # rs) c readAttempts =
     (if co_ID r \<noteq> co_ID c then map_option (\<lambda>rs'. r # rs') (save_rows rs c readAttempts)
      else if co_ConsumedAt r \<noteq> None \<or> co_InvalidatedAt r \<noteq> None \<or> co_Attempts r \<noteq> readAttempts then None
      else Some (r\<lparr>co_Attempts := co_Attempts c, co_ConsumedAt := co_ConsumedAt c, co_InvalidatedAt := co_InvalidatedAt c\<rparr> # rs))"

definition mc_SaveVerification :: "mem_codes \<Rightarrow> otp \<Rightarrow> int \<Rightarrow> unit result \<times> mem_codes" where
  "mc_SaveVerification s c readAttempts =
     (case save_rows (mc_rows s) c readAttempts of
        None \<Rightarrow> (Inl (Sentinel ErrCodeConflict), s) | Some rows \<Rightarrow> (Inr (), s\<lparr>mc_rows := rows\<rparr>))"

definition mem_code_ops :: "mem_codes code_ops" where
  "mem_code_ops = \<lparr>
     cd_Latest = mc_Latest,
     cd_IssuedSince = (\<lambda>s a p since. Inr (mc_IssuedSince s a p since)),
     cd_Issue = (\<lambda>s c now. case mc_Issue s c now of (c1, s1) \<Rightarrow> (Inr c1, s1)),
     cd_SaveVerification = (\<lambda>s c n _. mc_SaveVerification s c n),
     cd_InvalidateLive = (\<lambda>s a p now. (Inr (), endLocked s a p now))\<rparr>"

section \<open>The service\<close>

record code_message =
  cm_Purpose :: purpose
  cm_Recipient :: string
  cm_Name :: string
  cm_Locale :: string
  cm_Code :: string
  cm_ExpiresAt :: int

record 's codes =
  cs_ops :: "'s code_ops"
  cs_rules :: code_rules
  cs_mac :: "string \<Rightarrow> string"
  cs_send :: "code_message \<Rightarrow> unit result"

text \<open>The store, the clock, the random numbers drawn from \<^verbatim>\<open>crypto/rand\<close> and the messages handed to the sender.\<close>

record 's cworld =
  cw_store :: 's
  cw_clock :: "nat \<Rightarrow> int"
  cw_ticks :: nat
  cw_draws :: "nat \<Rightarrow> nat result"
  cw_drawn :: nat
  cw_sent :: "code_message list"

definition cnow :: "'s cworld \<Rightarrow> int" where "cnow w = cw_clock w (cw_ticks w)"

definition ctick :: "'s cworld \<Rightarrow> 's cworld" where "ctick w = w\<lparr>cw_ticks := cw_ticks w + 1\<rparr>"

definition code_hash :: "'s codes \<Rightarrow> int \<Rightarrow> purpose \<Rightarrow> string \<Rightarrow> string" where
  "code_hash c accountID p plain = cs_mac c (show_int accountID @ ''|'' @ p @ ''|'' @ plain)"

definition digits_of :: "nat \<Rightarrow> string" where
  "digits_of n = (let s = show_int (int n) in replicate (CodeLength - length s) CHR ''0'' @ s)"

definition newCode :: "'s cworld \<Rightarrow> string result \<times> 's cworld" where
  "newCode w =
     (case cw_draws w (cw_drawn w) of
        Inl e \<Rightarrow> (Inl (Wrapf (''identity: reading random digits: '' @ error_text e) e), w\<lparr>cw_drawn := cw_drawn w + 1\<rparr>)
      | Inr n \<Rightarrow> (Inr (digits_of n), w\<lparr>cw_drawn := cw_drawn w + 1\<rparr>))"

record issue_code =
  ic_AccountID :: int
  ic_Purpose :: purpose
  ic_Target :: string
  ic_Recipient :: string
  ic_Name :: string
  ic_Locale :: string
  ic_IP :: string

record pending_code =
  pc_Target :: string
  pc_ExpiresAt :: int
  pc_ResendAvailableAt :: int
  pc_AttemptsLeft :: int

definition pending_of :: "'s codes \<Rightarrow> otp \<Rightarrow> pending_code" where
  "pending_of c code =
     \<lparr>pc_Target = co_Target code, pc_ExpiresAt = co_ExpiresAt code, pc_ResendAvailableAt = co_CreatedAt code + cr_Cooldown (cs_rules c),
      pc_AttemptsLeft = max (cr_Attempts (cs_rules c) - co_Attempts code) 0\<rparr>"

definition retryAfter :: "reason \<Rightarrow> int \<Rightarrow> level \<Rightarrow> go_error" where
  "retryAfter reason d l =
     App (WithLog l (WithReason reason [fmupd ''retry_after'' (AnyInt (retry_seconds d)) fmempty] (apperr_Wrap None reason CodeBadRequest)))"

definition checkCanIssue :: "'s codes \<Rightarrow> 's \<Rightarrow> issue_code \<Rightarrow> int \<Rightarrow> unit result" where
  "checkCanIssue c st inp now =
     (let issued = (case cd_IssuedSince (cs_ops c) st (ic_AccountID inp) (ic_Purpose inp) (now - codeWindow) of
          Inl e \<Rightarrow> Inl (Internal e)
        | Inr (n, oldest) \<Rightarrow>
            if n \<ge> cr_PerHour (cs_rules c) then Inl (retryAfter ReasonCodeTooManyRequests (oldest + codeWindow - now) LevelWarn)
            else Inr ()) in
      case cd_Latest (cs_ops c) st (ic_AccountID inp) (ic_Purpose inp) of
        Inl e \<Rightarrow> (if \<not> errors_Is e ErrCodeNotFound then Inl (Internal e) else issued)
      | Inr latest \<Rightarrow>
          if now < co_CreatedAt latest + cr_Cooldown (cs_rules c)
          then Inl (retryAfter ReasonCodeResendTooSoon (co_CreatedAt latest + cr_Cooldown (cs_rules c) - now) LevelInfo)
          else issued)"

definition codes_Issue :: "'s codes \<Rightarrow> 's cworld \<Rightarrow> issue_code \<Rightarrow> pending_code result \<times> 's cworld" where
  "codes_Issue c w inp =
     (let now = cnow w; w1 = ctick w in
      case checkCanIssue c (cw_store w1) inp now of
        Inl e \<Rightarrow> (Inl e, w1)
      | Inr _ \<Rightarrow>
          case newCode w1 of
            (Inl e, w2) \<Rightarrow> (Inl (Internal e), w2)
          | (Inr plain, w2) \<Rightarrow>
              case cd_Issue (cs_ops c) (cw_store w2)
                  \<lparr>co_ID = 0, co_AccountID = ic_AccountID inp, co_Purpose = ic_Purpose inp, co_Target = ic_Target inp,
                   co_Hash = code_hash c (ic_AccountID inp) (ic_Purpose inp) plain, co_Attempts = 0,
                   co_ExpiresAt = now + cr_TTL (cs_rules c), co_ConsumedAt = None, co_InvalidatedAt = None,
                   co_IP = cut (ic_IP inp) IPMax, co_CreatedAt = now\<rparr> now of
                (Inl e, st) \<Rightarrow> (Inl (Internal e), w2\<lparr>cw_store := st\<rparr>)
              | (Inr code, st) \<Rightarrow>
                  let m = \<lparr>cm_Purpose = ic_Purpose inp, cm_Recipient = ic_Recipient inp, cm_Name = ic_Name inp,
                        cm_Locale = ic_Locale inp, cm_Code = plain, cm_ExpiresAt = co_ExpiresAt code\<rparr>;
                      w3 = w2\<lparr>cw_store := st, cw_sent := cw_sent w2 @ [m]\<rparr> in
                  case cs_send c m of
                    Inr _ \<Rightarrow> (Inr (pending_of c code), w3)
                  | Inl sendErr \<Rightarrow>
                      case cd_InvalidateLive (cs_ops c) (cw_store w3) (ic_AccountID inp) (ic_Purpose inp) (cnow w3) of
                        (Inl e, st') \<Rightarrow> (Inl (Internal (Joined [sendErr, e])), (ctick w3)\<lparr>cw_store := st'\<rparr>)
                      | (Inr _, st') \<Rightarrow>
                          (Inl (App (WithReason ReasonCodeNotDelivered [] (apperr_Wrap (Some sendErr) ReasonCodeNotDelivered CodeInternal))),
                           (ctick w3)\<lparr>cw_store := st'\<rparr>))"

section \<open>Verifying\<close>

definition code_refusal :: "reason \<Rightarrow> level \<Rightarrow> go_error" where
  "code_refusal reason l = App (WithLog l (WithReason reason [] (apperr_Wrap None reason CodeInvalidArgument)))"

text \<open>What a guess does to the code it was read against, and the refusal of a wrong one.\<close>

definition judge :: "code_rules \<Rightarrow> string \<Rightarrow> int \<Rightarrow> otp \<Rightarrow> otp \<times> go_error option" where
  "judge rules hash now c =
     (if co_Hash c = hash then (c\<lparr>co_ConsumedAt := Some now\<rparr>, None)
      else
        let c1 = c\<lparr>co_Attempts := co_Attempts c + 1\<rparr> in
        if co_Attempts c1 \<ge> cr_Attempts rules
        then (c1\<lparr>co_InvalidatedAt := Some now\<rparr>, Some (code_refusal ReasonCodeTooManyAttempts LevelWarn))
        else (c1, Some (App (WithLog LevelInfo (WithReason ReasonCodeMismatch
          [fmupd ''attempts_left'' (AnyInt (cr_Attempts rules - co_Attempts c1)) fmempty] (apperr_Wrap None ReasonCodeMismatch CodeInvalidArgument))))))"

text \<open>A guess that was read and judged, before it is saved: the attempts it was read at, the time, the code after it.\<close>

record guess =
  gu_read :: int
  gu_now :: int
  gu_code :: otp
  gu_refusal :: "go_error option"

definition verify_read :: "'s codes \<Rightarrow> 's cworld \<Rightarrow> int \<Rightarrow> purpose \<Rightarrow> string \<Rightarrow> guess result \<times> 's cworld" where
  "verify_read c w accountID p hash =
     (case cd_Latest (cs_ops c) (cw_store w) accountID p of
        Inl e \<Rightarrow> (Inl (if errors_Is e ErrCodeNotFound then code_refusal ReasonCodeNoPending LevelInfo else Internal e), w)
      | Inr code \<Rightarrow>
          if co_ConsumedAt code \<noteq> None \<or> co_InvalidatedAt code \<noteq> None then (Inl (code_refusal ReasonCodeNoPending LevelInfo), w)
          else
            let now = cnow w; w1 = ctick w in
            if \<not> otp_Live code now then (Inl (code_refusal ReasonCodeExpired LevelInfo), w1)
            else case judge (cs_rules c) hash now code of (code', refusal) \<Rightarrow>
              (Inr \<lparr>gu_read = co_Attempts code, gu_now = now, gu_code = code', gu_refusal = refusal\<rparr>, w1))"

definition verify_save :: "'s codes \<Rightarrow> 's cworld \<Rightarrow> guess \<Rightarrow> string result \<times> 's cworld" where
  "verify_save c w g =
     (case cd_SaveVerification (cs_ops c) (cw_store w) (gu_code g) (gu_read g) (gu_now g) of
        (Inl e, st) \<Rightarrow> (Inl (if errors_Is e ErrCodeConflict then e else Internal e), w\<lparr>cw_store := st\<rparr>)
      | (Inr _, st) \<Rightarrow>
          (case gu_refusal g of Some e \<Rightarrow> Inl e | None \<Rightarrow> Inr (co_Target (gu_code g)), w\<lparr>cw_store := st\<rparr>))"

definition verifyOnce :: "'s codes \<Rightarrow> ('s \<Rightarrow> 's) \<Rightarrow> 's cworld \<Rightarrow> int \<Rightarrow> purpose \<Rightarrow> string \<Rightarrow> string result \<times> 's cworld" where
  "verifyOnce c others w accountID p hash =
     st_bind (verify_read c w accountID p hash) (\<lambda>g w1. verify_save c (w1\<lparr>cw_store := others (cw_store w1)\<rparr>) g)"

definition Verify :: "'s codes \<Rightarrow> (nat \<Rightarrow> 's \<Rightarrow> 's) \<Rightarrow> 's cworld \<Rightarrow> int \<Rightarrow> purpose \<Rightarrow> string \<Rightarrow> string result \<times> 's cworld" where
  "Verify c others w accountID p plain =
     rounds ErrCodeConflict (\<lambda>n w. unless_lost ErrCodeConflict (verifyOnce c (others n) w accountID p (code_hash c accountID p plain)))
       (nat (cr_Attempts (cs_rules c) + 1)) w"

definition codes_Cancel :: "'s codes \<Rightarrow> 's cworld \<Rightarrow> int \<Rightarrow> purpose \<Rightarrow> unit result \<times> 's cworld" where
  "codes_Cancel c w accountID p =
     (case cd_InvalidateLive (cs_ops c) (cw_store w) accountID p (cnow w) of
        (Inl e, st) \<Rightarrow> (Inl (Internal e), (ctick w)\<lparr>cw_store := st\<rparr>) | (Inr _, st) \<Rightarrow> (Inr (), (ctick w)\<lparr>cw_store := st\<rparr>))"

definition codes_Pending :: "'s codes \<Rightarrow> 's cworld \<Rightarrow> int \<Rightarrow> purpose \<Rightarrow> pending_code option result \<times> 's cworld" where
  "codes_Pending c w accountID p =
     (case cd_Latest (cs_ops c) (cw_store w) accountID p of
        Inl e \<Rightarrow> (if errors_Is e ErrCodeNotFound then Inr None else Inl (Internal e), w)
      | Inr code \<Rightarrow> (if \<not> otp_Live code (cnow w) then Inr None else Inr (Some (pending_of c code)), ctick w))"

section \<open>Codes under concurrent requests\<close>

text \<open>
  The service with its requests in flight: guesses that were read and not yet saved, and the log of those that were
  (the code, and whether the guess matched), newest first.
\<close>

record 's code_sys =
  ks_world :: "'s cworld"
  ks_flight :: "guess list"
  ks_log :: "(int \<times> bool) list"

inductive code_step :: "'s codes \<Rightarrow> 's code_sys \<Rightarrow> 's code_sys \<Rightarrow> bool" for c where
  guess_read: "verify_read c (ks_world k) accountID p hash = (Inr g, w') \<Longrightarrow>
    code_step c k (k\<lparr>ks_world := w', ks_flight := g # ks_flight k\<rparr>)"
| guess_saved: "g \<in> set (ks_flight k) \<Longrightarrow> verify_save c (ks_world k) g = (r, w') \<Longrightarrow>
    (\<And>e. r = Inl e \<Longrightarrow> \<not> errors_Is e ErrCodeConflict) \<Longrightarrow>
    code_step c k (k\<lparr>ks_world := w', ks_flight := remove1 g (ks_flight k), ks_log := (co_ID (gu_code g), is_ok r) # ks_log k\<rparr>)"
| guess_lost: "g \<in> set (ks_flight k) \<Longrightarrow> verify_save c (ks_world k) g = (Inl e, w') \<Longrightarrow> errors_Is e ErrCodeConflict \<Longrightarrow>
    code_step c k (k\<lparr>ks_world := w', ks_flight := remove1 g (ks_flight k)\<rparr>)"
| code_issued: "codes_Issue c (ks_world k) inp = (r', w') \<Longrightarrow> code_step c k (k\<lparr>ks_world := w'\<rparr>)"
| code_cancelled: "codes_Cancel c (ks_world k) accountID p = (r'', w') \<Longrightarrow> code_step c k (k\<lparr>ks_world := w'\<rparr>)"
| code_time: "code_step c k (k\<lparr>ks_world := ctick (ks_world k)\<rparr>)"

text \<open>The guesses of one code, newest first.\<close>

definition guesses :: "int \<Rightarrow> (int \<times> bool) list \<Rightarrow> bool list" where
  "guesses i hist = map snd (filter (\<lambda>e. fst e = i) hist)"

lemma guesses_simps [simp]: "guesses i [] = []" "guesses i (e # l) = (if fst e = i then snd e # guesses i l else guesses i l)"
  by (simp_all add: guesses_def)

definition open_row :: "otp \<Rightarrow> bool" where
  "open_row r \<longleftrightarrow> co_ConsumedAt r = None \<and> co_InvalidatedAt r = None"

text \<open>A row and the guesses that were counted against it.\<close>

definition row_ok :: "int \<Rightarrow> (int \<times> bool) list \<Rightarrow> otp \<Rightarrow> bool" where
  "row_ok n hist r \<longleftrightarrow>
     (let gs = guesses (co_ID r) hist in
      if co_ConsumedAt r = None then co_Attempts r = int (length gs) \<and> True \<notin> set gs \<and> length gs \<le> nat n \<and> (open_row r \<longrightarrow> length gs < nat n)
      else length gs \<le> nat n \<and> True \<notin> set (tl gs))"

definition guess_ok :: "int \<Rightarrow> guess \<Rightarrow> bool" where
  "guess_ok n g \<longleftrightarrow>
     (if gu_refusal g = None then co_ConsumedAt (gu_code g) \<noteq> None
      else co_ConsumedAt (gu_code g) = None \<and> co_Attempts (gu_code g) = gu_read g + 1
        \<and> (co_InvalidatedAt (gu_code g) = None \<longrightarrow> gu_read g + 1 < n)
        \<and> \<not> errors_Is (the (gu_refusal g)) ErrCodeConflict)"

definition sys_ok :: "int \<Rightarrow> mem_codes code_sys \<Rightarrow> bool" where
  "sys_ok n k \<longleftrightarrow>
     (let s = cw_store (ks_world k) in
      distinct (map co_ID (mc_rows s)) \<and> (\<forall>r \<in> set (mc_rows s). co_ID r < mc_next s \<and> row_ok n (ks_log k) r)
      \<and> fst ` set (ks_log k) \<subseteq> co_ID ` set (mc_rows s) \<and> (\<forall>g \<in> set (ks_flight k). guess_ok n g))"

lemma save_rows_Some:
  "save_rows rs c n = Some rs' \<Longrightarrow>
     \<exists>pre r post. rs = pre @ r # post \<and> co_ID r = co_ID c \<and> open_row r \<and> co_Attempts r = n
       \<and> rs' = pre @ r\<lparr>co_Attempts := co_Attempts c, co_ConsumedAt := co_ConsumedAt c, co_InvalidatedAt := co_InvalidatedAt c\<rparr> # post"
proof (induction rs c n arbitrary: rs' rule: save_rows.induct)
  case (2 r rs c n)
  show ?case
  proof (cases "co_ID r = co_ID c")
    case True
    then show ?thesis using 2(2) by (intro exI [of _ "[]"]) (auto simp: open_row_def split: if_splits)
  next
    case False
    then obtain rs1 where "save_rows rs c n = Some rs1" "rs' = r # rs1" using 2(2) by auto
    then show ?thesis using 2(1) [OF False] by (metis append_Cons)
  qed
qed simp

lemma row_ok_other: "co_ID r \<noteq> i \<Longrightarrow> row_ok n ((i, b) # hist) r = row_ok n hist r"
  by (simp add: row_ok_def)

lemma row_ok_saved:
  assumes "row_ok n hist r" "open_row r" "co_Attempts r = gu_read g" "guess_ok n g" "co_ID r = co_ID (gu_code g)"
  shows "row_ok n ((co_ID (gu_code g), gu_refusal g = None) # hist)
    (r\<lparr>co_Attempts := co_Attempts (gu_code g), co_ConsumedAt := co_ConsumedAt (gu_code g), co_InvalidatedAt := co_InvalidatedAt (gu_code g)\<rparr>)"
  using assms by (cases "gu_refusal g") (auto simp: row_ok_def guess_ok_def open_row_def Let_def)

lemma judge_ok: "judge rules hash now code = (code', refusal) \<Longrightarrow> open_row code \<Longrightarrow>
    guess_ok (cr_Attempts rules) \<lparr>gu_read = co_Attempts code, gu_now = now, gu_code = code', gu_refusal = refusal\<rparr>"
  by (auto simp: judge_def guess_ok_def open_row_def Let_def code_refusal_def apperr_Wrap_def newWithSkip_def split: if_splits)

lemma verify_read_ok:
  assumes "verify_read c w accountID p hash = (Inr g, w')"
  shows "guess_ok (cr_Attempts (cs_rules c)) g \<and> cw_store w' = cw_store w"
proof -
  obtain code where code: "cd_Latest (cs_ops c) (cw_store w) accountID p = Inr code" "open_row code"
    using assms by (auto simp: verify_read_def open_row_def split: sum.splits if_splits)
  obtain code' refusal where j: "judge (cs_rules c) hash (cnow w) code = (code', refusal)" by force
  show ?thesis using assms code judge_ok [OF j code(2)] j
    by (auto simp: verify_read_def Let_def open_row_def ctick_def split: if_splits)
qed

text \<open>Ending the open codes of a purpose touches no count.\<close>

lemma row_ok_ended: "row_ok n hist r \<Longrightarrow> row_ok n hist (r\<lparr>co_InvalidatedAt := Some t\<rparr>)"
  by (auto simp: row_ok_def open_row_def Let_def)

lemma endLocked_ok:
  assumes "sys_ok n k" "s = cw_store (ks_world k)" "cw_store w' = endLocked s a p t"
  shows "sys_ok n (k\<lparr>ks_world := w'\<rparr>)"
proof -
  define f :: "otp \<Rightarrow> otp" where "f = (\<lambda>c. if co_AccountID c = a \<and> co_Purpose c = p \<and> co_ConsumedAt c = None \<and> co_InvalidatedAt c = None
        then c\<lparr>co_InvalidatedAt := Some t\<rparr> else c)"
  have f: "co_ID (f c) = co_ID c" "row_ok n l c \<Longrightarrow> row_ok n l (f c)" for c l by (auto simp: f_def row_ok_ended)
  have "co_ID ` f ` R = co_ID ` R" for R by (simp add: image_image f(1))
  moreover have "mc_rows (cw_store w') = map f (mc_rows s)" "mc_next (cw_store w') = mc_next s"
    using assms(3) by (simp_all add: endLocked_def f_def)
  moreover have "co_ID \<circ> f = co_ID" using f(1) by auto
  ultimately show ?thesis using assms(1,2) f by (simp add: sys_ok_def Let_def)
qed

lemma sys_ok_store: "sys_ok n k \<Longrightarrow> cw_store w' = cw_store (ks_world k) \<Longrightarrow> sys_ok n (k\<lparr>ks_world := w'\<rparr>)"
  by (simp add: sys_ok_def)

lemma Issue_mem_ok:
  assumes "sys_ok n k" "0 < n" "mc_Issue (cw_store (ks_world k)) cd t = (cd', st)" "cw_store w' = st"
    "co_Attempts cd = 0" "co_ConsumedAt cd = None"
  shows "sys_ok n (k\<lparr>ks_world := w'\<rparr>)"
proof -
  let ?s = "endLocked (cw_store (ks_world k)) (co_AccountID cd) (co_Purpose cd) t"
  have k1: "sys_ok n (k\<lparr>ks_world := (ks_world k)\<lparr>cw_store := ?s\<rparr>\<rparr>)"
    by (rule endLocked_ok [OF assms(1) refl]) simp
  have new: "guesses (mc_next ?s) (ks_log k) = []"
  proof -
    have "mc_next ?s \<notin> fst ` set (ks_log k)" using k1 by (fastforce simp: sys_ok_def Let_def)
    then show ?thesis by (force simp: guesses_def filter_empty_conv)
  qed
  have st: "mc_rows st = mc_rows ?s @ [cd\<lparr>co_ID := mc_next ?s\<rparr>]" "mc_next st = mc_next ?s + 1"
    using assms(3) by (auto simp: mc_Issue_def Let_def)
  have "row_ok n (ks_log k) (cd\<lparr>co_ID := mc_next ?s\<rparr>)" using new assms(2,5,6) by (simp add: row_ok_def)
  then show ?thesis using k1 assms(4) st by (fastforce simp: sys_ok_def Let_def)
qed

lemma sys_ok_saved:
  assumes "sys_ok n k" "g \<in> set (ks_flight k)" "mc_SaveVerification (cw_store (ks_world k)) (gu_code g) (gu_read g) = (Inr (), s')"
    "cw_store w' = s'" "b = (gu_refusal g = None)"
  shows "sys_ok n (k\<lparr>ks_world := w', ks_flight := remove1 g (ks_flight k), ks_log := (co_ID (gu_code g), b) # ks_log k\<rparr>)"
proof -
  let ?s = "cw_store (ks_world k)"
  obtain rs where rs: "save_rows (mc_rows ?s) (gu_code g) (gu_read g) = Some rs" "s' = ?s\<lparr>mc_rows := rs\<rparr>"
    using assms(3) by (auto simp: mc_SaveVerification_def split: option.splits)
  obtain pre r post where r: "mc_rows ?s = pre @ r # post" "co_ID r = co_ID (gu_code g)" "open_row r" "co_Attempts r = gu_read g"
    "rs = pre @ r\<lparr>co_Attempts := co_Attempts (gu_code g), co_ConsumedAt := co_ConsumedAt (gu_code g),
       co_InvalidatedAt := co_InvalidatedAt (gu_code g)\<rparr> # post"
    using save_rows_Some [OF rs(1)] by blast
  have g: "guess_ok n g" "row_ok n (ks_log k) r" using assms(1,2) r(1) by (auto simp: sys_ok_def Let_def)
  have saved: "row_ok n ((co_ID (gu_code g), b) # ks_log k)
      (r\<lparr>co_Attempts := co_Attempts (gu_code g), co_ConsumedAt := co_ConsumedAt (gu_code g), co_InvalidatedAt := co_InvalidatedAt (gu_code g)\<rparr>)"
    unfolding assms(5) using row_ok_saved [OF g(2) r(3,4) g(1) r(2)] .
  have "row_ok n ((co_ID (gu_code g), b) # ks_log k) q" if "q \<in> set pre \<union> set post" for q
  proof -
    have "co_ID q \<noteq> co_ID (gu_code g)" using that assms(1) r(1,2) by (auto simp: sys_ok_def Let_def rev_image_eqI)
    moreover have "row_ok n (ks_log k) q" using that assms(1) r(1) by (auto simp: sys_ok_def Let_def)
    ultimately show ?thesis by (simp add: row_ok_other)
  qed
  then show ?thesis using assms(1,4) rs(2) r saved by (auto simp: sys_ok_def Let_def dest: notin_set_remove1)
qed

lemma verify_save_mem:
  assumes "verify_save c w g = (r, w')" "cs_ops c = mem_code_ops" "guess_ok n g"
  shows "(\<exists>e. r = Inl e \<and> errors_Is e ErrCodeConflict \<and> cw_store w' = cw_store w
         \<and> save_rows (mc_rows (cw_store w)) (gu_code g) (gu_read g) = None)
    \<or> (is_ok r = (gu_refusal g = None) \<and> mc_SaveVerification (cw_store w) (gu_code g) (gu_read g) = (Inr (), cw_store w')
         \<and> (\<forall>e. r = Inl e \<longrightarrow> \<not> errors_Is e ErrCodeConflict))"
proof (cases "save_rows (mc_rows (cw_store w)) (gu_code g) (gu_read g)")
  case None
  then have "cd_SaveVerification (cs_ops c) (cw_store w) (gu_code g) (gu_read g) (gu_now g) = (Inl (Sentinel ErrCodeConflict), cw_store w)"
    using assms(2) by (simp add: mem_code_ops_def mc_SaveVerification_def)
  then show ?thesis using assms(1) None by (auto simp: verify_save_def)
next
  case (Some rows)
  then have save: "mc_SaveVerification (cw_store w) (gu_code g) (gu_read g) = (Inr (), (cw_store w)\<lparr>mc_rows := rows\<rparr>)"
    by (simp add: mc_SaveVerification_def)
  then have "cd_SaveVerification (cs_ops c) (cw_store w) (gu_code g) (gu_read g) (gu_now g) = (Inr (), (cw_store w)\<lparr>mc_rows := rows\<rparr>)"
    using assms(2) by (simp add: mem_code_ops_def)
  then show ?thesis using assms(1,3) save by (cases "gu_refusal g") (auto simp: verify_save_def guess_ok_def)
qed

lemma codes_Issue_ok:
  assumes "codes_Issue c (ks_world k) inp = (r, w')" "cs_ops c = mem_code_ops" "0 < n" "sys_ok n k"
  shows "sys_ok n (k\<lparr>ks_world := w'\<rparr>)"
proof -
  let ?w = "ks_world k"
  obtain q w2 where q: "newCode (ctick ?w) = (q, w2)" by force
  have w2: "cw_store w2 = cw_store ?w" using q by (auto simp: newCode_def ctick_def split: sum.splits)
  show ?thesis
  proof (cases "checkCanIssue c (cw_store (ctick ?w)) inp (cnow ?w)")
    case (Inl e)
    then show ?thesis using assms(1,4) by (intro sys_ok_store) (auto simp: codes_Issue_def Let_def ctick_def)
  next
    case (Inr u)
    note can = this
    show ?thesis
    proof (cases q)
      case (Inl e)
      then show ?thesis using assms(1,4) q w2 can by (intro sys_ok_store) (auto simp: codes_Issue_def Let_def)
    next
      case (Inr plain)
      define cd :: otp where "cd = \<lparr>co_ID = 0, co_AccountID = ic_AccountID inp, co_Purpose = ic_Purpose inp, co_Target = ic_Target inp,
                   co_Hash = code_hash c (ic_AccountID inp) (ic_Purpose inp) plain, co_Attempts = 0,
                   co_ExpiresAt = cnow ?w + cr_TTL (cs_rules c), co_ConsumedAt = None, co_InvalidatedAt = None,
                   co_IP = cut (ic_IP inp) IPMax, co_CreatedAt = cnow ?w\<rparr>"
      obtain cd' st where st: "mc_Issue (cw_store ?w) cd (cnow ?w) = (cd', st)" by force
      have "cd_Issue (cs_ops c) (cw_store w2) cd (cnow ?w) = (Inr cd', st)" using st assms(2) w2 by (simp add: mem_code_ops_def)
      then have "cw_store w' = st \<or> (\<exists>t. cw_store w' = endLocked st (ic_AccountID inp) (ic_Purpose inp) t)"
        using assms(1,2) q can Inr by (auto simp: codes_Issue_def Let_def cd_def mem_code_ops_def ctick_def split: sum.splits)
      moreover have issued: "sys_ok n (k\<lparr>ks_world := v\<rparr>)" if "cw_store v = st" for v
        by (rule Issue_mem_ok [OF assms(4,3) st that]) (simp_all add: cd_def)
      ultimately show ?thesis
        using issued [of w'] endLocked_ok [OF issued [of "?w\<lparr>cw_store := st\<rparr>"] refl, of w'] by auto
    qed
  qed
qed

lemma code_step_ok:
  assumes "code_step c k k'" "cs_ops c = mem_code_ops" "n = cr_Attempts (cs_rules c)" "0 < n" "sys_ok n k"
  shows "sys_ok n k'"
  using assms
proof (induction rule: code_step.induct)
  case (guess_read k accountID p hash g w')
  then show ?case using verify_read_ok [OF guess_read(1)] by (auto simp: sys_ok_def Let_def)
next
  case (guess_saved g k r w')
  have "guess_ok n g" using guess_saved(1,7) by (simp add: sys_ok_def Let_def)
  from verify_save_mem [OF guess_saved(2,4) this] guess_saved(3)
  have "is_ok r = (gu_refusal g = None)" "mc_SaveVerification (cw_store (ks_world k)) (gu_code g) (gu_read g) = (Inr (), cw_store w')" by blast+
  then show ?case by (intro sys_ok_saved [OF guess_saved(7,1)]) simp_all
next
  case (guess_lost g k e w')
  have "guess_ok n g" using guess_lost(1,7) by (simp add: sys_ok_def Let_def)
  from verify_save_mem [OF guess_lost(2,4) this] guess_lost(3)
  have "cw_store w' = cw_store (ks_world k)" by blast
  then show ?case using guess_lost(7) by (auto simp: sys_ok_def Let_def dest: notin_set_remove1)
next
  case (code_issued k inp r' w')
  then show ?case by (intro codes_Issue_ok)
next
  case (code_cancelled k accountID p r'' w')
  then show ?case using endLocked_ok [OF code_cancelled(5) refl, of w']
    by (auto simp: codes_Cancel_def mem_code_ops_def ctick_def)
next
  case (code_time k)
  then show ?case by (intro sys_ok_store) (auto simp: ctick_def)
qed


lemma code_run_ok:
  assumes "(code_step c)\<^sup>*\<^sup>* k k'" "cs_ops c = mem_code_ops" "0 < cr_Attempts (cs_rules c)" "sys_ok (cr_Attempts (cs_rules c)) k"
  shows "sys_ok (cr_Attempts (cs_rules c)) k'"
  using assms(1)
proof (induction rule: rtranclp_induct)
  case base
  show ?case using assms(4) .
next
  case (step y z)
  then show ?case using code_step_ok [OF step(2) assms(2) refl assms(3)] by blast
qed

lemma sys_ok_guesses:
  assumes "sys_ok n k"
  shows "length (guesses i (ks_log k)) \<le> nat n \<and> True \<notin> set (tl (guesses i (ks_log k)))"
proof (cases "i \<in> co_ID ` set (mc_rows (cw_store (ks_world k)))")
  case True
  then obtain r where "row_ok n (ks_log k) r" "i = co_ID r" using assms by (auto simp: sys_ok_def Let_def)
  then show ?thesis by (auto simp: row_ok_def Let_def split: if_splits dest: in_set_tl)
next
  case False
  then have "i \<notin> fst ` set (ks_log k)" using assms by (auto simp: sys_ok_def Let_def)
  then have "guesses i (ks_log k) = []" by (force simp: guesses_def filter_empty_conv)
  then show ?thesis by simp
qed

section \<open>Enough rounds\<close>

text \<open>
  What a request finds in the store after other verifications were saved there: any guess, read at any earlier time.
\<close>

definition guessed :: "'s codes \<Rightarrow> 's \<Rightarrow> 's \<Rightarrow> bool" where
  "guessed c s s' \<longleftrightarrow> (\<exists>w accountID p hash g w1 w2 r w3. verify_read c w accountID p hash = (Inr g, w1)
     \<and> verify_save c w2 g = (r, w3) \<and> cw_store w2 = s \<and> cw_store w3 = s')"

lemma guessedI:
  "verify_read c w accountID p hash = (Inr g, w1) \<Longrightarrow> verify_save c w2 g = (r, w3) \<Longrightarrow> guessed c (cw_store w2) (cw_store w3)"
  unfolding guessed_def by blast

text \<open>A row after some guesses: as it was, closed, or open with more attempts used.\<close>

definition later_row :: "int \<Rightarrow> otp \<Rightarrow> otp \<Rightarrow> bool" where
  "later_row n r r' \<longleftrightarrow> co_ID r' = co_ID r \<and> co_AccountID r' = co_AccountID r \<and> co_Purpose r' = co_Purpose r
     \<and> co_Target r' = co_Target r \<and> co_Hash r' = co_Hash r
     \<and> (r' = r \<or> \<not> open_row r' \<or> open_row r \<and> co_Attempts r < co_Attempts r' \<and> co_Attempts r' < n)"

definition later_rows :: "int \<Rightarrow> mem_codes \<Rightarrow> mem_codes \<Rightarrow> bool" where
  "later_rows n s s' \<longleftrightarrow> list_all2 (later_row n) (mc_rows s) (mc_rows s')"

lemma later_row_refl: "later_row n r r" by (simp add: later_row_def)

lemma later_row_trans: "later_row n a b \<Longrightarrow> later_row n b c \<Longrightarrow> later_row n a c"
  by (auto simp: later_row_def)

lemma guessed_later:
  assumes "guessed c s s'" "cs_ops c = mem_code_ops"
  shows "later_rows (cr_Attempts (cs_rules c)) s s'"
proof -
  let ?n = "cr_Attempts (cs_rules c)"
  obtain w a p h g w1 w2 r w3 where g: "verify_read c w a p h = (Inr g, w1)" "verify_save c w2 g = (r, w3)" "cw_store w2 = s" "cw_store w3 = s'"
    using assms(1) unfolding guessed_def by blast
  have ok: "guess_ok ?n g" using verify_read_ok [OF g(1)] by blast
  have refl: "list_all2 (later_row ?n) xs xs" for xs by (simp add: list_all2_refl later_row_refl)
  from verify_save_mem [OF g(2) assms(2) ok] consider "s' = s" | "mc_SaveVerification s (gu_code g) (gu_read g) = (Inr (), s')"
    using g(3,4) by blast
  then show ?thesis
  proof cases
    case 1
    then show ?thesis using refl by (simp add: later_rows_def)
  next
    case 2
    then obtain rs where rs: "save_rows (mc_rows s) (gu_code g) (gu_read g) = Some rs" "s' = s\<lparr>mc_rows := rs\<rparr>"
      by (auto simp: mc_SaveVerification_def split: option.splits)
    then show ?thesis using save_rows_Some [OF rs(1)] refl ok
      by (auto simp: later_rows_def later_row_def guess_ok_def open_row_def list_all2_append split: if_splits)
  qed
qed

lemma guesses_later:
  assumes "(guessed c)\<^sup>*\<^sup>* s s'" "cs_ops c = mem_code_ops"
  shows "later_rows (cr_Attempts (cs_rules c)) s s'"
  using assms(1)
proof (induction rule: rtranclp_induct)
  case base
  show ?case by (simp add: later_rows_def list_all2_refl later_row_refl)
next
  case (step y z)
  let ?R = "later_row (cr_Attempts (cs_rules c))"
  have "list_all2 ?R (mc_rows y) (mc_rows z)" using guessed_later [OF step(2) assms(2)] by (simp add: later_rows_def)
  then show ?case using step(3) list_all2_trans [of ?R ?R ?R "mc_rows s" "mc_rows y" "mc_rows z"] later_row_trans
    unfolding later_rows_def by blast
qed

lemma Latest_later:
  assumes "later_rows n s s'" "mc_Latest s a p = Inr r"
  shows "\<exists>r'. mc_Latest s' a p = Inr r' \<and> later_row n r r'"
proof -
  have "rel_option (later_row n) (List.find (\<lambda>c. co_AccountID c = a \<and> co_Purpose c = p) (rev (mc_rows s)))
      (List.find (\<lambda>c. co_AccountID c = a \<and> co_Purpose c = p) (rev (mc_rows s')))"
    by (rule find_list_all2) (use assms(1) in \<open>auto simp: later_rows_def later_row_def\<close>)
  then show ?thesis using assms(2) by (auto simp: mc_Latest_def split: option.splits elim: option.rel_cases)
qed

text \<open>The interference of a request, and what is left of it: the attempts of the code it is read against.\<close>

definition verify_inv :: "mem_codes codes \<Rightarrow> (nat \<Rightarrow> mem_codes \<Rightarrow> mem_codes) \<Rightarrow> mem_codes cworld \<Rightarrow> bool" where
  "verify_inv c others w \<longleftrightarrow> cs_ops c = mem_code_ops \<and> (\<forall>n s. (guessed c)\<^sup>*\<^sup>* s (others n s))
     \<and> distinct (map co_ID (mc_rows (cw_store w)))
     \<and> (\<forall>r \<in> set (mc_rows (cw_store w)). open_row r \<longrightarrow> 0 \<le> co_Attempts r \<and> co_Attempts r < cr_Attempts (cs_rules c))"

definition attempts_left :: "mem_codes codes \<Rightarrow> int \<Rightarrow> purpose \<Rightarrow> mem_codes cworld \<Rightarrow> nat" where
  "attempts_left c accountID p w =
     (case mc_Latest (cw_store w) accountID p of
        Inl _ \<Rightarrow> 0 | Inr r \<Rightarrow> if open_row r then nat (cr_Attempts (cs_rules c) - co_Attempts r) else 0)"

lemma verify_inv_later:
  assumes "verify_inv c others w" "later_rows (cr_Attempts (cs_rules c)) (cw_store w) (cw_store w')"
  shows "verify_inv c others w'"
proof -
  let ?n = "cr_Attempts (cs_rules c)"
  have l: "list_all2 (later_row ?n) (mc_rows (cw_store w)) (mc_rows (cw_store w'))" using assms(2) by (simp add: later_rows_def)
  have "map co_ID (mc_rows (cw_store w')) = map co_ID (mc_rows (cw_store w))"
    using l by (induction rule: list_all2_induct) (auto simp: later_row_def)
  moreover have "0 \<le> co_Attempts r' \<and> co_Attempts r' < ?n" if r': "r' \<in> set (mc_rows (cw_store w'))" "open_row r'" for r'
  proof -
    obtain r where "r \<in> set (mc_rows (cw_store w))" "later_row ?n r r'" using list_all2_backwards [OF l r'(1)] by blast
    then show ?thesis using assms(1) r'(2) by (auto simp: verify_inv_def later_row_def)
  qed
  ultimately show ?thesis using assms(1) by (simp add: verify_inv_def)
qed

text \<open>A save that lost the race found the code closed, or with more attempts used.\<close>

lemma save_rows_None:
  "save_rows rs c n = None \<Longrightarrow> distinct (map co_ID rs) \<Longrightarrow> r \<in> set rs \<Longrightarrow> co_ID r = co_ID c \<Longrightarrow> \<not> open_row r \<or> co_Attempts r \<noteq> n"
  by (induction rs c n rule: save_rows.induct) (auto simp: open_row_def rev_image_eqI split: if_splits)

lemma Latest_mem: "mc_Latest s a p = Inr r \<Longrightarrow> r \<in> set (mc_rows s)"
  by (auto simp: mc_Latest_def split: option.splits dest: find_SomeD)

lemma verify_read_Inr:
  assumes "verify_read c w a p h = (Inr g, w')" "cs_ops c = mem_code_ops"
  shows "\<exists>r. mc_Latest (cw_store w) a p = Inr r \<and> open_row r \<and> gu_read g = co_Attempts r \<and> co_ID (gu_code g) = co_ID r"
proof -
  obtain r where r: "mc_Latest (cw_store w) a p = Inr r" "open_row r"
    using assms by (auto simp: verify_read_def mem_code_ops_def open_row_def split: sum.splits if_splits)
  obtain c' e where j: "judge (cs_rules c) h (cnow w) r = (c', e)" by force
  have "co_ID c' = co_ID r" using j by (auto simp: judge_def Let_def split: if_splits)
  then show ?thesis using assms r j by (auto simp: verify_read_def mem_code_ops_def Let_def open_row_def split: if_splits)
qed

lemma verify_lost:
  assumes inv: "verify_inv c others w" and lost: "verifyOnce c (others n) w a p h = (Inl e, w')" "errors_Is e ErrCodeConflict"
  shows "verify_inv c others w' \<and> attempts_left c a p w' < attempts_left c a p w"
proof -
  let ?n = "cr_Attempts (cs_rules c)"
  have ops: "cs_ops c = mem_code_ops" using inv by (simp add: verify_inv_def)
  obtain q w1 where q: "verify_read c w a p h = (q, w1)" by force
  obtain g where g: "q = Inr g"
    using lost q by (cases q) (auto simp: verifyOnce_def verify_read_def mem_code_ops_def ops mc_Latest_def code_refusal_def
      apperr_Wrap_def newWithSkip_def Let_def split: sum.splits if_splits option.splits prod.splits)
  have ok: "guess_ok ?n g" "cw_store w1 = cw_store w" using verify_read_ok q g by blast+
  obtain r where r: "mc_Latest (cw_store w) a p = Inr r" "open_row r" "gu_read g = co_Attempts r" "co_ID (gu_code g) = co_ID r"
    using verify_read_Inr ops q g by blast
  let ?s = "others n (cw_store w)"
  have "verify_save c (w1\<lparr>cw_store := ?s\<rparr>) g = (Inl e, w')" using lost(1) q g ok(2) by (simp add: verifyOnce_def)
  from verify_save_mem [OF this ops ok(1)] lost(2) have s: "cw_store w' = ?s" and None: "save_rows (mc_rows ?s) (gu_code g) (gu_read g) = None" by simp_all
  have later: "later_rows ?n (cw_store w) (cw_store w')" unfolding s using inv ops by (intro guesses_later) (auto simp: verify_inv_def)
  then have inv': "verify_inv c others w'" by (rule verify_inv_later [OF inv])
  obtain r' where r': "mc_Latest (cw_store w') a p = Inr r'" "later_row ?n r r'" using Latest_later [OF later r(1)] by blast
  have "\<not> open_row r' \<or> co_Attempts r' \<noteq> gu_read g"
    using save_rows_None [OF None [folded s]] inv' Latest_mem [OF r'(1)] r(4) r'(2) by (auto simp: verify_inv_def later_row_def)
  moreover have "co_Attempts r < ?n" using inv r(2) Latest_mem [OF r(1)] by (auto simp: verify_inv_def)
  ultimately have "attempts_left c a p w' < attempts_left c a p w"
    using r r' by (auto simp: attempts_left_def later_row_def)
  then show ?thesis using inv' by blast
qed

interpretation verifying: enough_rounds ErrCodeConflict "\<lambda>n w. unless_lost ErrCodeConflict (verifyOnce c (others n) w a p h)"
    "verify_inv c others" "attempts_left c a p"
  for c others a p h
  by unfold_locales (auto simp: unless_lost_None dest: verify_lost)

lemma row_ok_open: "row_ok n hist r \<Longrightarrow> open_row r \<Longrightarrow> 0 \<le> co_Attempts r \<and> co_Attempts r < n"
proof -
  assume "row_ok n hist r" "open_row r"
  moreover from this have "co_ConsumedAt r = None" by (simp add: open_row_def)
  ultimately show ?thesis by (simp add: row_ok_def Let_def) linarith
qed

lemma sys_ok_inv:
  assumes "sys_ok (cr_Attempts (cs_rules c)) k" "cs_ops c = mem_code_ops" "\<forall>n s. (guessed c)\<^sup>*\<^sup>* s (others n s)"
  shows "verify_inv c others (ks_world k)"
  using assms by (auto simp: verify_inv_def sys_ok_def Let_def row_ok_open)

lemma attempts_left_bound:
  "verify_inv c others w \<Longrightarrow> 0 < cr_Attempts (cs_rules c) \<Longrightarrow> attempts_left c a p w < nat (cr_Attempts (cs_rules c) + 1)"
  by (auto simp: attempts_left_def verify_inv_def split: sum.splits dest!: Latest_mem)

text \<open>What one round that was not lost answers.\<close>

definition verified :: "'s codes \<Rightarrow> int \<Rightarrow> purpose \<Rightarrow> string \<Rightarrow> string result \<Rightarrow> mem_codes \<Rightarrow> bool" where
  "verified c accountID p plain r s =
     (case r of
        Inl e \<Rightarrow> (\<exists>reason \<in> {ReasonCodeNoPending, ReasonCodeExpired, ReasonCodeMismatch, ReasonCodeTooManyAttempts}. HasReason e reason)
      | Inr target \<Rightarrow> \<exists>code \<in> set (mc_rows s). co_AccountID code = accountID \<and> co_Purpose code = p \<and> co_Target code = target
          \<and> co_Hash code = code_hash c accountID p plain \<and> co_ConsumedAt code \<noteq> None)"

lemma judge_refusal:
  assumes "judge rules h t r = (r', Some e)"
  shows "HasReason e ReasonCodeMismatch \<or> HasReason e ReasonCodeTooManyAttempts"
  using assms by (auto simp: judge_def Let_def HasReason_def code_refusal_def apperr_Wrap_def newWithSkip_def split: if_splits)

lemma judge_match:
  assumes "judge rules h t r = (r', None)"
  shows "co_Hash r = h \<and> r' = r\<lparr>co_ConsumedAt := Some t\<rparr>"
  using assms by (auto simp: judge_def Let_def split: if_splits)

lemma verify_read_Inl:
  assumes "verify_read c w a p h = (Inl e, w')" "cs_ops c = mem_code_ops"
  shows "HasReason e ReasonCodeNoPending \<or> HasReason e ReasonCodeExpired"
  using assms by (auto simp: verify_read_def mem_code_ops_def mc_Latest_def Let_def HasReason_def code_refusal_def apperr_Wrap_def
    newWithSkip_def split: sum.splits option.splits if_splits prod.splits)

lemma verify_read_judged:
  assumes "verify_read c w a p h = (Inr g, w')" "cs_ops c = mem_code_ops" "mc_Latest (cw_store w) a p = Inr r"
  shows "judge (cs_rules c) h (cnow w) r = (gu_code g, gu_refusal g)"
  using assms by (auto simp: verify_read_def mem_code_ops_def Let_def split: if_splits prod.splits)

lemma Latest_SomeD: "mc_Latest s a p = Inr r \<Longrightarrow> r \<in> set (mc_rows s) \<and> co_AccountID r = a \<and> co_Purpose r = p"
  by (auto simp: mc_Latest_def split: option.splits dest: find_SomeD)

lemma save_later_row:
  assumes "later_rows n s s'" "distinct (map co_ID (mc_rows s))" "r \<in> set (mc_rows s)" "r' \<in> set (mc_rows s')" "co_ID r' = co_ID r"
  shows "later_row n r r'"
proof -
  obtain r0 where r0: "r0 \<in> set (mc_rows s)" "later_row n r0 r'"
    using list_all2_backwards [OF _ assms(4)] assms(1) unfolding later_rows_def by blast
  then have "co_ID r0 = co_ID r" using assms(5) by (simp add: later_row_def)
  then have "r0 = r" using assms(2,3) r0(1) by (metis distinct_map inj_onD)
  then show ?thesis using r0(2) by simp
qed

lemma verifyOnce_verified:
  assumes inv: "verify_inv c others w" and once: "verifyOnce c (others n) w a p (code_hash c a p plain) = (q, w')"
    and kept: "\<forall>e. q = Inl e \<longrightarrow> \<not> errors_Is e ErrCodeConflict"
  shows "verified c a p plain q (cw_store w')"
proof -
  let ?n = "cr_Attempts (cs_rules c)" and ?h = "code_hash c a p plain" and ?s = "others n (cw_store w)"
  have ops: "cs_ops c = mem_code_ops" using inv by (simp add: verify_inv_def)
  obtain x w1 where x: "verify_read c w a p ?h = (x, w1)" by force
  show ?thesis
  proof (cases x)
    case (Inl e)
    then have "q = Inl e" using once x by (simp add: verifyOnce_def)
    then show ?thesis using verify_read_Inl [of c w a p ?h e w1] x Inl ops by (auto simp: verified_def)
  next
    case (Inr g)
    have ok: "guess_ok ?n g" "cw_store w1 = cw_store w" using verify_read_ok x Inr by blast+
    obtain r where r: "mc_Latest (cw_store w) a p = Inr r" "co_ID (gu_code g) = co_ID r" using verify_read_Inr ops x Inr by blast
    have j: "judge (cs_rules c) ?h (cnow w) r = (gu_code g, gu_refusal g)" using verify_read_judged ops x Inr r(1) by blast
    have sv: "verify_save c (w1\<lparr>cw_store := ?s\<rparr>) g = (q, w')" using once x Inr ok(2) by (simp add: verifyOnce_def)
    from verify_save_mem [OF sv ops ok(1)] kept
    have saved: "mc_SaveVerification ?s (gu_code g) (gu_read g) = (Inr (), cw_store w')" by auto
    then have q: "q = (case gu_refusal g of Some e \<Rightarrow> Inl e | None \<Rightarrow> Inr (co_Target (gu_code g)))"
      using sv by (auto simp: verify_save_def ops mem_code_ops_def)
    show ?thesis
    proof (cases "gu_refusal g")
      case (Some e)
      then show ?thesis using q judge_refusal [of "cs_rules c" ?h "cnow w" r "gu_code g" e] j by (auto simp: verified_def)
    next
      case None
      have m: "co_Hash r = ?h" "gu_code g = r\<lparr>co_ConsumedAt := Some (cnow w)\<rparr>" using judge_match j None by metis+
      obtain rs where rs: "save_rows (mc_rows ?s) (gu_code g) (gu_read g) = Some rs" "cw_store w' = ?s\<lparr>mc_rows := rs\<rparr>"
        using saved by (auto simp: mc_SaveVerification_def split: option.splits)
      obtain pre r' post where r': "mc_rows ?s = pre @ r' # post" "co_ID r' = co_ID (gu_code g)"
        "rs = pre @ r'\<lparr>co_Attempts := co_Attempts (gu_code g), co_ConsumedAt := co_ConsumedAt (gu_code g),
           co_InvalidatedAt := co_InvalidatedAt (gu_code g)\<rparr> # post"
        using save_rows_Some [OF rs(1)] by blast
      have "later_rows ?n (cw_store w) ?s" using inv ops by (intro guesses_later) (auto simp: verify_inv_def)
      then have "later_row ?n r r'"
        using inv Latest_SomeD [OF r(1)] r' r(2) by (intro save_later_row) (auto simp: verify_inv_def)
      then show ?thesis using q None m rs(2) r'(3) Latest_SomeD [OF r(1)] by (auto simp: verified_def later_row_def)
    qed
  qed
qed

section \<open>A run of the service\<close>

definition demo_codes :: "mem_codes codes" where
  "demo_codes = \<lparr>cs_ops = mem_code_ops, cs_rules = rules_withDefaults \<lparr>cr_TTL = 0, cr_Attempts = 2, cr_Cooldown = 0, cr_PerHour = 0\<rparr>,
     cs_mac = (\<lambda>s. s), cs_send = (\<lambda>_. Inr ())\<rparr>"

definition demo_cworld :: "mem_codes cworld" where
  "demo_cworld = \<lparr>cw_store = NewCodes_mem, cw_clock = int, cw_ticks = 0, cw_draws = (\<lambda>_. Inr 42), cw_drawn = 0, cw_sent = []\<rparr>"

definition demo_issue :: issue_code where
  "demo_issue = \<lparr>ic_AccountID = 7, ic_Purpose = PurposeEmailChange, ic_Target = ''new@x'', ic_Recipient = ''new@x'', ic_Name = [],
     ic_Locale = [], ic_IP = []\<rparr>"

definition demo_issued :: "mem_codes cworld" where
  "demo_issued = snd (codes_Issue demo_codes demo_cworld demo_issue)"

text \<open>A guess of 000001 read against the code, and the store after it was saved.\<close>

definition demo_wrong :: guess where
  "demo_wrong = projr (fst (verify_read demo_codes demo_issued 7 PurposeEmailChange (code_hash demo_codes 7 PurposeEmailChange ''000001'')))"

definition demo_others :: "nat \<Rightarrow> mem_codes \<Rightarrow> mem_codes" where
  "demo_others n s = (if n = 1 then cw_store (snd (verify_save demo_codes (demo_issued\<lparr>cw_store := s\<rparr>) demo_wrong)) else s)"

lemma demo_read:
  "verify_read demo_codes demo_issued 7 PurposeEmailChange (code_hash demo_codes 7 PurposeEmailChange ''000001'') = (Inr demo_wrong, ctick demo_issued)"
proof -
  have "is_ok (fst (verify_read demo_codes demo_issued 7 PurposeEmailChange (code_hash demo_codes 7 PurposeEmailChange ''000001'')))" by code_simp
  then show ?thesis by (auto simp: demo_wrong_def verify_read_def Let_def split: sum.splits if_splits prod.splits)
qed

lemma demo_guessed: "(guessed demo_codes)\<^sup>*\<^sup>* s (demo_others n s)"
proof (cases "n = 1")
  case True
  obtain r w3 where w3: "verify_save demo_codes (demo_issued\<lparr>cw_store := s\<rparr>) demo_wrong = (r, w3)" by force
  then have "guessed demo_codes s (demo_others n s)" using guessedI [OF demo_read w3] True by (simp add: demo_others_def)
  then show ?thesis by blast
qed (simp add: demo_others_def)

lemma defaults_pos: "0 < cr_Attempts (rules_withDefaults r)" by (simp add: rules_withDefaults_def)

lemma Verify_verified:
  assumes "cs_ops c = mem_code_ops" "cs_rules c = rules_withDefaults rules" "cw_store w = NewCodes_mem"
    and "(code_step c)\<^sup>*\<^sup>* \<lparr>ks_world = w, ks_flight = [], ks_log = []\<rparr> k"
    and others: "\<forall>n s. (guessed c)\<^sup>*\<^sup>* s (others n s)"
  shows "case Verify c others (ks_world k) a p plain of (r, w') \<Rightarrow> verified c a p plain r (cw_store w')"
proof -
  have pos: "0 < cr_Attempts (cs_rules c)" using assms(2) defaults_pos by simp
  have "sys_ok (cr_Attempts (cs_rules c)) \<lparr>ks_world = w, ks_flight = [], ks_log = []\<rparr>"
    using assms(3) by (simp add: sys_ok_def NewCodes_mem_def)
  then have inv: "verify_inv c others (ks_world k)" using code_run_ok [OF assms(4,1) pos] assms(1) others by (intro sys_ok_inv)
  obtain r w' where v: "Verify c others (ks_world k) a p plain = (r, w')" by force
  obtain m u where "verify_inv c others u" "verifyOnce c (others m) u a p (code_hash c a p plain) = (r, w')"
    "\<forall>e. r = Inl e \<longrightarrow> \<not> errors_Is e ErrCodeConflict"
    using verifying.answered [OF inv attempts_left_bound [OF inv pos, of a p] v [unfolded Verify_def]] unfolding unless_lost_Some by blast
  then have "verified c a p plain r (cw_store w')" by (rule verifyOnce_verified)
  then show ?thesis using v by simp
qed

section \<open>The properties\<close>

definition demo_sys :: "mem_codes cworld \<Rightarrow> guess list \<Rightarrow> (int \<times> bool) list \<Rightarrow> mem_codes code_sys" where
  "demo_sys w flight hist = \<lparr>ks_world = w, ks_flight = flight, ks_log = hist\<rparr>"

lemma demo_run_issued: "(code_step demo_codes)\<^sup>*\<^sup>* (demo_sys demo_cworld [] []) (demo_sys demo_issued [] [])"
proof -
  have "codes_Issue demo_codes (ks_world (demo_sys demo_cworld [] [])) demo_issue = (fst (codes_Issue demo_codes demo_cworld demo_issue), demo_issued)"
    by (simp add: demo_issued_def demo_sys_def)
  from code_issued [OF this] show ?thesis by (simp add: demo_sys_def)
qed

lemma demo_run_guessed:
  "(code_step demo_codes)\<^sup>*\<^sup>* (demo_sys demo_cworld [] [])
     (demo_sys (snd (verify_save demo_codes (ctick demo_issued) demo_wrong)) [] [(1, False)])"
proof -
  let ?r = "fst (verify_save demo_codes (ctick demo_issued) demo_wrong)" and ?w = "snd (verify_save demo_codes (ctick demo_issued) demo_wrong)"
  let ?k = "demo_sys (ctick demo_issued) [demo_wrong] []"
  have "code_step demo_codes (demo_sys demo_issued [] []) ?k"
    using guess_read [of demo_codes "demo_sys demo_issued [] []"] demo_read by (fastforce simp: demo_sys_def)
  moreover have "code_step demo_codes ?k (demo_sys ?w [] [(1, False)])"
  proof -
    have "\<not> is_ok ?r" "\<not> errors_Is (projl ?r) ErrCodeConflict" "co_ID (gu_code demo_wrong) = 1" by code_simp+
    moreover from this(2) have "\<not> errors_Is e ErrCodeConflict" if "?r = Inl e" for e using that by simp
    ultimately show ?thesis using guess_saved [of demo_wrong ?k demo_codes ?r ?w] by (simp add: demo_sys_def)
  qed
  ultimately show ?thesis using demo_run_issued by simp
qed

text \<open>
  C9: A code answers at most one guess, however requests interleave. From the empty store, after any sequence of issues,
  cancellations, reads and saves of guesses by concurrent requests, the guesses counted against one code are at most the
  configured attempts, and a guess that matched is the last of them: no code is used twice, none is guessed after it was used
  and none more often than the rules allow.
\<close>

theorem codes_used_once:
  assumes "cs_ops c = mem_code_ops" "cs_rules c = rules_withDefaults rules" "cw_store w = NewCodes_mem"
    and "(code_step c)\<^sup>*\<^sup>* \<lparr>ks_world = w, ks_flight = [], ks_log = []\<rparr> k"
  shows "length (guesses i (ks_log k)) \<le> nat (cr_Attempts (cs_rules c)) \<and> True \<notin> set (tl (guesses i (ks_log k)))"
proof -
  have "sys_ok (cr_Attempts (cs_rules c)) \<lparr>ks_world = w, ks_flight = [], ks_log = []\<rparr>"
    using assms(3) by (simp add: sys_ok_def NewCodes_mem_def)
  then show ?thesis using code_run_ok [OF assms(4,1)] assms(2) defaults_pos by (simp add: sys_ok_guesses)
qed

theorem codes_used_once_witness:
  "length (guesses 1 [(1, False)]) \<le> nat (cr_Attempts (cs_rules demo_codes)) \<and> True \<notin> set (tl (guesses 1 [(1, False)]))"
  using codes_used_once [OF _ _ _ demo_run_guessed [unfolded demo_sys_def],
    of "\<lparr>cr_TTL = 0, cr_Attempts = 2, cr_Cooldown = 0, cr_PerHour = 0\<rparr>" 1]
  by (simp add: demo_codes_def demo_cworld_def)

text \<open>
  C20: Verifying a code gives a definite answer under contention. In any reachable state, whatever guesses other requests save
  between its read and its write in each round, Verify within its Attempts + 1 rounds either confirms the target of a code of
  that account and purpose whose hash is that of the plain text, now consumed, or refuses with one of its four reasons; the
  loop never runs out.
\<close>

theorem Verify_answers:
  assumes "cs_ops c = mem_code_ops" "cs_rules c = rules_withDefaults rules" "cw_store w = NewCodes_mem"
    and "(code_step c)\<^sup>*\<^sup>* \<lparr>ks_world = w, ks_flight = [], ks_log = []\<rparr> k"
    and others: "\<forall>n s. (guessed c)\<^sup>*\<^sup>* s (others n s)"
  shows "case Verify c others (ks_world k) a p plain of (r, w') \<Rightarrow> verified c a p plain r (cw_store w')"
  using assms by (rule Verify_verified)

theorem Verify_answers_witness:
  "(\<forall>n s. (guessed demo_codes)\<^sup>*\<^sup>* s (demo_others n s))
   \<and> fst (Verify demo_codes demo_others demo_issued 7 PurposeEmailChange ''000042'') = Inr ''new@x''
   \<and> (case Verify demo_codes demo_others demo_issued 7 PurposeEmailChange ''000042'' of
        (r, w') \<Rightarrow> verified demo_codes 7 PurposeEmailChange ''000042'' r (cw_store w'))"
proof -
  have "fst (Verify demo_codes demo_others demo_issued 7 PurposeEmailChange ''000042'') = Inr ''new@x''" by code_simp
  then show ?thesis
    using Verify_answers [OF _ _ _ demo_run_issued [unfolded demo_sys_def], of "\<lparr>cr_TTL = 0, cr_Attempts = 2, cr_Cooldown = 0, cr_PerHour = 0\<rparr>"
      demo_others 7 PurposeEmailChange "''000042''"] demo_guessed
    by (simp add: demo_codes_def demo_cworld_def)
qed

end
