(* ===== verification/Reauth.thy ===== *)
theory Reauth
  imports Account Rounds
begin

text \<open>
  Re-confirming a password inside a session: the counter of \<^verbatim>\<open>identity/account/reauth.go\<close> over its store,
  and the memory store of \<^verbatim>\<open>identity/identitytest/stores.go\<close>.

  The hasher is a parameter. Each loop runs beside other requests: what they do to the store between the read and the
  write of a round is the argument \<open>others\<close>. The attempt is counted before the password is checked, so the
  limit holds for requests that run in parallel; that is the first property, over a step relation whose steps are the
  reads and the writes. The second one is that the loops answer.
\<close>

section \<open>The counter and its store\<close>

definition ReasonReauthLocked :: reason where "ReasonReauthLocked = ''identity.reauth.locked''"
definition ErrWrongPassword :: string where "ErrWrongPassword = ''identity: the password does not match''"
definition ErrReauthNotFound :: string where "ErrReauthNotFound = ''identity: no re-confirmation attempts yet''"
definition ErrReauthConflict :: string where
  "ErrReauthConflict = ''identity: the re-confirmation attempts changed since they were read''"

record reauth_attempts =
  at_AccountID :: int
  at_Failures :: int
  at_LockedUntil :: "int option"
  at_UpdatedAt :: int

text \<open>\<^verbatim>\<open>Attempts{AccountID: accountID}\<close>; the zero time is 0 here.\<close>

definition no_attempts :: "int \<Rightarrow> reauth_attempts" where
  "no_attempts accountID = \<lparr>at_AccountID = accountID, at_Failures = 0, at_LockedUntil = None, at_UpdatedAt = 0\<rparr>"

definition at_Locked :: "reauth_attempts \<Rightarrow> int \<Rightarrow> bool" where
  "at_Locked a now = (case at_LockedUntil a of None \<Rightarrow> False | Some until \<Rightarrow> now < until)"

record 's reauth_ops =
  ro_Find :: "'s \<Rightarrow> int \<Rightarrow> reauth_attempts result"
  ro_Create :: "'s \<Rightarrow> reauth_attempts \<Rightarrow> unit result \<times> 's"
  ro_Save :: "'s \<Rightarrow> reauth_attempts \<Rightarrow> reauth_attempts \<Rightarrow> unit result \<times> 's"

type_synonym mem_reauth = "int \<Rightarrow> reauth_attempts option"

definition NewReauth_mem :: mem_reauth where "NewReauth_mem = (\<lambda>_. None)"

definition mr_Find :: "mem_reauth \<Rightarrow> int \<Rightarrow> reauth_attempts result" where
  "mr_Find rows accountID = (case rows accountID of None \<Rightarrow> Inl (Sentinel ErrReauthNotFound) | Some a \<Rightarrow> Inr a)"

definition mr_Create :: "mem_reauth \<Rightarrow> reauth_attempts \<Rightarrow> unit result \<times> mem_reauth" where
  "mr_Create rows a =
     (case rows (at_AccountID a) of
        Some _ \<Rightarrow> (Inl (Sentinel ErrReauthConflict), rows)
      | None \<Rightarrow> (Inr (), rows(at_AccountID a \<mapsto> a)))"

text \<open>Two optional times: both missing, or the same instant.\<close>

definition sameTime :: "int option \<Rightarrow> int option \<Rightarrow> bool" where
  "sameTime a b = (case (a, b) of (Some x, Some y) \<Rightarrow> x = y | _ \<Rightarrow> a = None \<and> b = None)"

definition mr_Save :: "mem_reauth \<Rightarrow> reauth_attempts \<Rightarrow> reauth_attempts \<Rightarrow> unit result \<times> mem_reauth" where
  "mr_Save rows a read =
     (case rows (at_AccountID read) of
        None \<Rightarrow> (Inl (Sentinel ErrReauthConflict), rows)
      | Some cur \<Rightarrow>
          if at_Failures cur \<noteq> at_Failures read \<or> \<not> sameTime (at_LockedUntil cur) (at_LockedUntil read)
          then (Inl (Sentinel ErrReauthConflict), rows)
          else (Inr (), rows(at_AccountID a \<mapsto> a)))"

definition mem_reauth_ops :: "mem_reauth reauth_ops" where
  "mem_reauth_ops = \<lparr>ro_Find = mr_Find, ro_Create = mr_Create, ro_Save = mr_Save\<rparr>"

section \<open>The service\<close>

record 's reauth =
  re_ops :: "'s reauth_ops"
  re_lock :: lock
  re_Matches :: "string \<Rightarrow> string \<Rightarrow> bool"
  re_rfc :: "int \<Rightarrow> string"

record 's rworld =
  rw_store :: 's
  rw_clock :: "nat \<Rightarrow> int"
  rw_ticks :: nat

definition rnow :: "'s rworld \<Rightarrow> int" where "rnow w = rw_clock w (rw_ticks w)"

definition rtick :: "'s rworld \<Rightarrow> 's rworld" where "rtick w = w\<lparr>rw_ticks := rw_ticks w + 1\<rparr>"

definition reauthLocked :: "(int \<Rightarrow> string) \<Rightarrow> reauth_attempts \<Rightarrow> int \<Rightarrow> go_error" where
  "reauthLocked rfc a now =
     (let until = the (at_LockedUntil a) in
      App (WithLog LevelWarn (WithReason ReasonReauthLocked
        [fmupd ''retry_after'' (AnyInt (retry_seconds (until - now))) (fmupd ''locked_until'' (AnyString (rfc until)) fmempty)]
        (apperr_Wrap None ReasonReauthLocked CodeBadRequest))))"

definition reauth_rounds :: "'s reauth \<Rightarrow> nat" where
  "reauth_rounds r = nat (lk_After (re_lock r) + 2)"

definition reauth_find :: "'s reauth \<Rightarrow> 's \<Rightarrow> int \<Rightarrow> (reauth_attempts \<times> bool) result" where
  "reauth_find r s accountID =
     (case ro_Find (re_ops r) s accountID of
        Inr a \<Rightarrow> Inr (a, True)
      | Inl e \<Rightarrow> if errors_Is e ErrReauthNotFound then Inr (no_attempts accountID, False) else Inl (Internal e))"

text \<open>The count that an attempt at \<^verbatim>\<open>now\<close> makes of the one it read.\<close>

definition next_attempts :: "lock \<Rightarrow> reauth_attempts \<Rightarrow> int \<Rightarrow> reauth_attempts" where
  "next_attempts l read now =
     (let a = (if at_LockedUntil read \<noteq> None then read\<lparr>at_Failures := 0, at_LockedUntil := None\<rparr> else read);
          b = a\<lparr>at_Failures := at_Failures a + 1, at_UpdatedAt := now\<rparr>
      in if at_Failures b \<ge> lk_After l then b\<lparr>at_LockedUntil := Some (now + lk_For l)\<rparr> else b)"

text \<open>An attempt that was read and not yet written.\<close>

record counting =
  cg_read :: reauth_attempts
  cg_found :: bool
  cg_next :: reauth_attempts

definition begin_read :: "'s reauth \<Rightarrow> 's rworld \<Rightarrow> int \<Rightarrow> counting result \<times> 's rworld" where
  "begin_read r w accountID =
     (case reauth_find r (rw_store w) accountID of
        Inl e \<Rightarrow> (Inl e, w)
      | Inr (read, found) \<Rightarrow>
          let now = rnow w; w1 = rtick w in
          if at_Locked read now then (Inl (reauthLocked (re_rfc r) read now), w1)
          else (Inr \<lparr>cg_read = read, cg_found = found, cg_next = next_attempts (re_lock r) read now\<rparr>, w1))"

definition begin_write :: "'s reauth \<Rightarrow> 's rworld \<Rightarrow> counting \<Rightarrow> reauth_attempts result option \<times> 's rworld" where
  "begin_write r w g =
     (case (if cg_found g then ro_Save (re_ops r) (rw_store w) (cg_next g) (cg_read g) else ro_Create (re_ops r) (rw_store w) (cg_next g)) of
        (Inr _, s) \<Rightarrow> (Some (Inr (cg_next g)), w\<lparr>rw_store := s\<rparr>)
      | (Inl e, s) \<Rightarrow> (if \<not> errors_Is e ErrReauthConflict then Some (Inl (Internal e)) else None, w\<lparr>rw_store := s\<rparr>))"

definition begin_round :: "'s reauth \<Rightarrow> ('s \<Rightarrow> 's) \<Rightarrow> 's rworld \<Rightarrow> int \<Rightarrow> reauth_attempts result option \<times> 's rworld" where
  "begin_round r others w accountID =
     (case begin_read r w accountID of
        (Inl e, w1) \<Rightarrow> (Some (Inl e), w1)
      | (Inr g, w1) \<Rightarrow> begin_write r (w1\<lparr>rw_store := others (rw_store w1)\<rparr>) g)"

definition reauth_begin :: "'s reauth \<Rightarrow> (nat \<Rightarrow> 's \<Rightarrow> 's) \<Rightarrow> 's rworld \<Rightarrow> int \<Rightarrow> reauth_attempts result \<times> 's rworld" where
  "reauth_begin r others w accountID =
     rounds ErrReauthConflict (\<lambda>n w. begin_round r (others n) w accountID) (reauth_rounds r) w"

text \<open>Clearing: what was read, and the write, whose time is read just before it.\<close>

definition succeed_read :: "'s reauth \<Rightarrow> 's rworld \<Rightarrow> int \<Rightarrow> reauth_attempts option result" where
  "succeed_read r w accountID =
     (case reauth_find r (rw_store w) accountID of
        Inl e \<Rightarrow> Inl e
      | Inr (read, found) \<Rightarrow> if \<not> found \<or> at_Failures read = 0 \<and> at_LockedUntil read = None then Inr None else Inr (Some read))"

definition succeed_write :: "'s reauth \<Rightarrow> 's rworld \<Rightarrow> int \<Rightarrow> reauth_attempts \<Rightarrow> unit result option \<times> 's rworld" where
  "succeed_write r w accountID read =
     (case ro_Save (re_ops r) (rw_store w) ((no_attempts accountID)\<lparr>at_UpdatedAt := rnow w\<rparr>) read of
        (Inr _, s) \<Rightarrow> (Some (Inr ()), (rtick w)\<lparr>rw_store := s\<rparr>)
      | (Inl e, s) \<Rightarrow> (if \<not> errors_Is e ErrReauthConflict then Some (Inl (Internal e)) else None, (rtick w)\<lparr>rw_store := s\<rparr>))"

definition succeed_round :: "'s reauth \<Rightarrow> ('s \<Rightarrow> 's) \<Rightarrow> 's rworld \<Rightarrow> int \<Rightarrow> unit result option \<times> 's rworld" where
  "succeed_round r others w accountID =
     (case succeed_read r w accountID of
        Inl e \<Rightarrow> (Some (Inl e), w)
      | Inr None \<Rightarrow> (Some (Inr ()), w)
      | Inr (Some read) \<Rightarrow> succeed_write r (w\<lparr>rw_store := others (rw_store w)\<rparr>) accountID read)"

definition reauth_succeed :: "'s reauth \<Rightarrow> (nat \<Rightarrow> 's \<Rightarrow> 's) \<Rightarrow> 's rworld \<Rightarrow> int \<Rightarrow> unit result \<times> 's rworld" where
  "reauth_succeed r others w accountID =
     rounds ErrReauthConflict (\<lambda>n w. succeed_round r (others n) w accountID) (reauth_rounds r) w"

text \<open>\<open>meanwhile\<close> is what others do while the password is checked.\<close>

definition Confirm ::
  "'s reauth \<Rightarrow> (nat \<Rightarrow> 's \<Rightarrow> 's) \<Rightarrow> ('s \<Rightarrow> 's) \<Rightarrow> (nat \<Rightarrow> 's \<Rightarrow> 's) \<Rightarrow> 's rworld \<Rightarrow> int \<Rightarrow> string \<Rightarrow> string \<Rightarrow> unit result \<times> 's rworld" where
  "Confirm r others meanwhile others' w accountID hash password =
     st_bind (reauth_begin r others w accountID) (\<lambda>counted w0.
       let w1 = w0\<lparr>rw_store := meanwhile (rw_store w0)\<rparr> in
       if re_Matches r hash password then reauth_succeed r others' w1 accountID
       else if at_Locked counted (rnow w1) then (Inl (reauthLocked (re_rfc r) counted (rnow w1)), rtick w1)
       else (Inl (Sentinel ErrWrongPassword), rtick w1))"

text \<open>
  What a re-confirmation does before it looks at the password: after rounds that were lost to other requests, the count of the account is
  read and is not locked, and one attempt more is written over what was read.
\<close>

definition counted_attempt :: "'s reauth \<Rightarrow> (nat \<Rightarrow> 's \<Rightarrow> 's) \<Rightarrow> 's rworld \<Rightarrow> int \<Rightarrow> reauth_attempts \<Rightarrow> 's rworld \<Rightarrow> bool" where
  "counted_attempt r others w i counted w0 \<longleftrightarrow>
     (\<exists>v m read found. (\<lambda>a b. \<exists>n. begin_round r (others n) a i = (None, b))\<^sup>*\<^sup>* w v
        \<and> reauth_find r (rw_store v) i = Inr (read, found) \<and> \<not> at_Locked read (rnow v) \<and> counted = next_attempts (re_lock r) read (rnow v)
        \<and> begin_write r ((rtick v)\<lparr>rw_store := others m (rw_store v)\<rparr>) \<lparr>cg_read = read, cg_found = found, cg_next = counted\<rparr>
          = (Some (Inr counted), w0))"

lemma begin_round_counted:
  assumes "begin_round r o' v i = (Some (Inr counted), w0)"
  shows "\<exists>read found. reauth_find r (rw_store v) i = Inr (read, found) \<and> \<not> at_Locked read (rnow v)
    \<and> counted = next_attempts (re_lock r) read (rnow v)
    \<and> begin_write r ((rtick v)\<lparr>rw_store := o' (rw_store v)\<rparr>) \<lparr>cg_read = read, cg_found = found, cg_next = counted\<rparr> = (Some (Inr counted), w0)"
proof -
  have "cg_next g = counted" if "begin_write r w g = (Some (Inr counted), w0)" for w g
    using that by (auto simp: begin_write_def split: prod.splits sum.splits if_splits)
  then show ?thesis using assms
    by (fastforce simp: begin_round_def begin_read_def rtick_def Let_def split: sum.splits prod.splits if_splits)
qed

lemma reauth_begin_counted:
  assumes "reauth_begin r others w i = (Inr counted, w0)"
  shows "counted_attempt r others w i counted w0"
proof -
  obtain m v where "(\<lambda>a b. \<exists>n. begin_round r (others n) a i = (None, b))\<^sup>*\<^sup>* w v" "begin_round r (others m) v i = (Some (Inr counted), w0)"
    using rounds_answered [OF assms [unfolded reauth_begin_def]] by blast
  then show ?thesis unfolding counted_attempt_def using begin_round_counted by blast
qed

lemma Confirm_steps:
  assumes "Confirm r others meanwhile others' w i hash password = (Inr (), w')"
  shows "\<exists>counted w0. counted_attempt r others w i counted w0 \<and> re_Matches r hash password
    \<and> reauth_succeed r others' (w0\<lparr>rw_store := meanwhile (rw_store w0)\<rparr>) i = (Inr (), w')"
  using assms by (auto simp: Confirm_def st_bind_Inr_iff Let_def split: if_splits dest!: reauth_begin_counted)

section \<open>Attempts under concurrent requests\<close>

text \<open>
  The requests in flight (attempts and clearings that were read and not yet written) and the log of what was written,
  newest first. Any request may clear at any time: what is shown of the counter does not rest on who does.
\<close>

datatype reauth_event = Counted int int | Cleared int

record 's reauth_sys =
  rs_world :: "'s rworld"
  rs_counting :: "counting list"
  rs_clearing :: "(int \<times> reauth_attempts) list"
  rs_log :: "reauth_event list"

inductive reauth_step :: "'s reauth \<Rightarrow> 's reauth_sys \<Rightarrow> 's reauth_sys \<Rightarrow> bool" for r where
  count_read: "begin_read r (rs_world k) accountID = (Inr g, w') \<Longrightarrow>
    reauth_step r k (k\<lparr>rs_world := w', rs_counting := g # rs_counting k\<rparr>)"
| count_written: "g \<in> set (rs_counting k) \<Longrightarrow> begin_write r (rs_world k) g = (Some (Inr a), w') \<Longrightarrow>
    reauth_step r k (k\<lparr>rs_world := w', rs_counting := remove1 g (rs_counting k), rs_log := Counted (at_AccountID a) (at_UpdatedAt a) # rs_log k\<rparr>)"
| count_lost: "g \<in> set (rs_counting k) \<Longrightarrow> begin_write r (rs_world k) g = (None, w') \<Longrightarrow>
    reauth_step r k (k\<lparr>rs_world := w', rs_counting := remove1 g (rs_counting k)\<rparr>)"
| clear_read: "succeed_read r (rs_world k) accountID = Inr (Some read) \<Longrightarrow>
    reauth_step r k (k\<lparr>rs_clearing := (accountID, read) # rs_clearing k\<rparr>)"
| clear_written: "(accountID, read) \<in> set (rs_clearing k) \<Longrightarrow> succeed_write r (rs_world k) accountID read = (Some (Inr ()), w') \<Longrightarrow>
    reauth_step r k (k\<lparr>rs_world := w', rs_clearing := remove1 (accountID, read) (rs_clearing k), rs_log := Cleared accountID # rs_log k\<rparr>)"
| clear_lost: "(accountID, read) \<in> set (rs_clearing k) \<Longrightarrow> succeed_write r (rs_world k) accountID read = (None, w') \<Longrightarrow>
    reauth_step r k (k\<lparr>rs_world := w', rs_clearing := remove1 (accountID, read) (rs_clearing k)\<rparr>)"
| reauth_time: "reauth_step r k (k\<lparr>rs_world := rtick (rs_world k)\<rparr>)"

text \<open>The times of an account's attempts since its count was last cleared, newest first.\<close>

fun since_clear :: "int \<Rightarrow> reauth_event list \<Rightarrow> int list" where
  "since_clear i [] = []"
| "since_clear i (Counted j t # l) = (if j = i then t # since_clear i l else since_clear i l)"
| "since_clear i (Cleared j # l) = (if j = i then [] else since_clear i l)"

text \<open>Attempts in blocks of \<open>n\<close>, with the lock between the last of a block and the first of the next.\<close>

fun spaced :: "nat \<Rightarrow> int \<Rightarrow> int list \<Rightarrow> bool" where
  "spaced n d [] = True"
| "spaced n d (t # ts) = (spaced n d ts \<and> (ts \<noteq> [] \<and> length ts mod n = 0 \<longrightarrow> hd ts + d \<le> t))"

lemma spaced_nth: "spaced n d ts \<Longrightarrow> a + 1 < length ts \<Longrightarrow> (length ts - 1 - a) mod n = 0 \<Longrightarrow> ts ! (a + 1) + d \<le> ts ! a"
proof (induction n d ts arbitrary: a rule: spaced.induct)
  case (2 n d t ts)
  then show ?case by (cases a) (auto simp: hd_conv_nth)
qed simp

lemma spaced_window:
  assumes "spaced n d ts" "0 < n" "j + n < length ts"
  shows "\<exists>a. j \<le> a \<and> a < j + n \<and> ts ! (a + 1) + d \<le> ts ! a"
proof -
  let ?m = "length ts - 1 - j"
  define a where "a = j + ?m mod n"
  have "?m mod n < n" "?m mod n \<le> ?m" using assms(2) by auto
  then have a: "j \<le> a" "a < j + n" "length ts - 1 - a = ?m - ?m mod n" using assms(3) by (auto simp: a_def)
  have "(length ts - 1 - a) mod n = 0" unfolding a(3) by (simp add: minus_mod_eq_mult_div)
  then show ?thesis using spaced_nth [OF assms(1), of a] a assms(3) by auto
qed

lemma next_attempts_sel [simp]:
  "at_AccountID (next_attempts l a t) = at_AccountID a" "at_UpdatedAt (next_attempts l a t) = t"
  "at_Failures (next_attempts l a t) = (if at_LockedUntil a = None then at_Failures a + 1 else 1)"
  "at_LockedUntil (next_attempts l a t) = (if at_Failures (next_attempts l a t) \<ge> lk_After l then Some (t + lk_For l) else None)"
  by (simp_all add: next_attempts_def Let_def)

text \<open>A counter and the attempts it stands for.\<close>

definition count_ok :: "lock \<Rightarrow> int list \<Rightarrow> int \<Rightarrow> int option \<Rightarrow> bool" where
  "count_ok l ts f until \<longleftrightarrow>
     spaced (nat (lk_After l)) (lk_For l) ts
     \<and> f = (if ts = [] then 0 else int ((length ts - 1) mod nat (lk_After l)) + 1)
     \<and> until = (if f \<ge> lk_After l then Some (hd ts + lk_For l) else None)"

lemma count_ok_next:
  assumes "count_ok l ts (at_Failures a) (at_LockedUntil a)" "\<not> at_Locked a t" "0 < lk_After l"
  shows "count_ok l (t # ts) (at_Failures (next_attempts l a t)) (at_LockedUntil (next_attempts l a t))"
proof -
  let ?n = "nat (lk_After l)"
  have n: "0 < ?n" "int ?n = lk_After l" using assms(3) by auto
  have f: "at_Failures (next_attempts l a t) = int (length ts mod ?n) + 1 \<and> (ts \<noteq> [] \<and> length ts mod ?n = 0 \<longrightarrow> hd ts + lk_For l \<le> t)"
  proof (cases ts)
    case Nil
    then show ?thesis using assms by (simp add: count_ok_def)
  next
    case (Cons x xs)
    have m: "length ts mod ?n = (if Suc (length xs mod ?n) = ?n then 0 else Suc (length xs mod ?n))"
      using Cons n(1) by (simp add: mod_Suc)
    have "length xs mod ?n < ?n" using n(1) by simp
    then have "Suc (length xs mod ?n) = ?n \<longleftrightarrow> lk_After l \<le> int (length xs mod ?n) + 1" using n by linarith
    then show ?thesis using assms Cons m n by (auto simp: count_ok_def at_Locked_def split: if_splits)
  qed
  then show ?thesis using assms(1) by (auto simp: count_ok_def)
qed

lemma sameTime_eq [simp]: "sameTime a b \<longleftrightarrow> a = b"
  by (auto simp: sameTime_def split: option.splits)

text \<open>The state of the requests, with the counter of every account.\<close>

definition counting_ok :: "lock \<Rightarrow> counting \<Rightarrow> bool" where
  "counting_ok l g \<longleftrightarrow> (\<exists>t. \<not> at_Locked (cg_read g) t \<and> cg_next g = next_attempts l (cg_read g) t)
     \<and> (\<not> cg_found g \<longrightarrow> cg_read g = no_attempts (at_AccountID (cg_read g)))"

definition row_counts :: "lock \<Rightarrow> reauth_event list \<Rightarrow> int \<Rightarrow> reauth_attempts option \<Rightarrow> bool" where
  "row_counts l hist i row =
     (case row of
        None \<Rightarrow> since_clear i hist = []
      | Some a \<Rightarrow> at_AccountID a = i \<and> count_ok l (since_clear i hist) (at_Failures a) (at_LockedUntil a))"

definition reauth_ok :: "lock \<Rightarrow> mem_reauth reauth_sys \<Rightarrow> bool" where
  "reauth_ok l k \<longleftrightarrow> (\<forall>i. row_counts l (rs_log k) i (rw_store (rs_world k) i))
     \<and> (\<forall>g \<in> set (rs_counting k). counting_ok l g) \<and> (\<forall>(i, a) \<in> set (rs_clearing k). at_AccountID a = i)"

lemma begin_read_Inr:
  assumes "begin_read r w i = (Inr g, w')" "re_ops r = mem_reauth_ops" "\<forall>a. rw_store w i = Some a \<longrightarrow> at_AccountID a = i"
  shows "w' = rtick w \<and> counting_ok (re_lock r) g \<and> at_AccountID (cg_read g) = i \<and> cg_found g = (rw_store w i \<noteq> None)
    \<and> \<not> at_Locked (cg_read g) (rnow w) \<and> cg_next g = next_attempts (re_lock r) (cg_read g) (rnow w)
    \<and> (case rw_store w i of None \<Rightarrow> cg_read g = no_attempts i | Some a \<Rightarrow> cg_read g = a)"
proof (cases "rw_store w i")
  case None
  then show ?thesis using assms
    by (auto simp: begin_read_def reauth_find_def mem_reauth_ops_def mr_Find_def Let_def counting_ok_def no_attempts_def split: if_splits)
next
  case (Some a)
  then show ?thesis using assms
    by (auto simp: begin_read_def reauth_find_def mem_reauth_ops_def mr_Find_def Let_def counting_ok_def split: if_splits)
qed

lemma begin_write_mem:
  assumes "begin_write r w g = (q, w')" "re_ops r = mem_reauth_ops" "counting_ok (re_lock r) g"
  shows "(q = None \<and> rw_store w' = rw_store w)
    \<or> (\<exists>t. q = Some (Inr (cg_next g)) \<and> cg_next g = next_attempts (re_lock r) (cg_read g) t \<and> \<not> at_Locked (cg_read g) t
         \<and> rw_store w' = (rw_store w)(at_AccountID (cg_read g) \<mapsto> cg_next g)
         \<and> (case rw_store w (at_AccountID (cg_read g)) of
              None \<Rightarrow> \<not> cg_found g
            | Some a \<Rightarrow> cg_found g \<and> at_Failures a = at_Failures (cg_read g) \<and> at_LockedUntil a = at_LockedUntil (cg_read g)))"
proof -
  obtain t where t: "cg_next g = next_attempts (re_lock r) (cg_read g) t" "\<not> at_Locked (cg_read g) t"
    using assms(3) by (auto simp: counting_ok_def)
  then have id: "at_AccountID (cg_next g) = at_AccountID (cg_read g)" by simp
  show ?thesis
  proof (cases "cg_found g")
    case True
    then show ?thesis using assms(1,2) t id
      by (auto simp: begin_write_def mem_reauth_ops_def mr_Save_def split: option.splits if_splits)
  next
    case False
    then show ?thesis using assms(1,2) t id
      by (auto simp: begin_write_def mem_reauth_ops_def mr_Create_def split: option.splits)
  qed
qed

lemma succeed_write_mem:
  assumes "succeed_write r w i a = (q, w')" "re_ops r = mem_reauth_ops" "at_AccountID a = i"
  shows "(q = None \<and> rw_store w' = rw_store w) \<or>
    (q = Some (Inr ()) \<and> rw_store w' = (rw_store w)(i \<mapsto> (no_attempts i)\<lparr>at_UpdatedAt := rnow w\<rparr>)
       \<and> (\<exists>cur. rw_store w i = Some cur \<and> at_Failures cur = at_Failures a \<and> at_LockedUntil cur = at_LockedUntil a))"
  using assms by (auto simp: succeed_write_def mem_reauth_ops_def mr_Save_def no_attempts_def rtick_def split: option.splits if_splits)

lemma row_counts_other [simp]:
  "j \<noteq> i \<Longrightarrow> row_counts l (Counted j t # hist) i row = row_counts l hist i row"
  "j \<noteq> i \<Longrightarrow> row_counts l (Cleared j # hist) i row = row_counts l hist i row"
  by (auto simp: row_counts_def split: option.splits)

lemma count_ok_nil [simp]: "0 < lk_After l \<Longrightarrow> count_ok l [] 0 None" by (simp add: count_ok_def)

lemma reauth_ok_written:
  assumes "reauth_ok l k" "0 < lk_After l" "i = at_AccountID (cg_read g)" "counting_ok l g"
    "cg_next g = next_attempts l (cg_read g) t" "\<not> at_Locked (cg_read g) t"
    "case rw_store (rs_world k) i of None \<Rightarrow> \<not> cg_found g
       | Some a \<Rightarrow> cg_found g \<and> at_Failures a = at_Failures (cg_read g) \<and> at_LockedUntil a = at_LockedUntil (cg_read g)"
  shows "row_counts l (Counted i t # rs_log k) i (Some (cg_next g))"
proof -
  have row: "row_counts l (rs_log k) i (rw_store (rs_world k) i)" using assms(1) by (simp add: reauth_ok_def)
  have "count_ok l (since_clear i (rs_log k)) (at_Failures (cg_read g)) (at_LockedUntil (cg_read g))"
  proof (cases "rw_store (rs_world k) i")
    case None
    then have "cg_read g = no_attempts i" "since_clear i (rs_log k) = []"
      using assms(3,4,7) row by (simp_all add: counting_ok_def row_counts_def)
    then show ?thesis using assms(2) by (simp add: no_attempts_def)
  next
    case (Some a)
    then show ?thesis using row assms(7) by (simp add: row_counts_def)
  qed
  then show ?thesis using count_ok_next [OF _ assms(6,2)] assms(3,5) by (simp add: row_counts_def)
qed

lemma reauth_step_ok:
  assumes "reauth_step r k k'" "re_ops r = mem_reauth_ops" "l = re_lock r" "0 < lk_After l" "reauth_ok l k"
  shows "reauth_ok l k'"
  using assms
proof (induction rule: reauth_step.induct)
  case (count_read k accountID g w')
  have "\<forall>a. rw_store (rs_world k) accountID = Some a \<longrightarrow> at_AccountID a = accountID"
    using count_read(5) by (auto simp: reauth_ok_def row_counts_def split: option.splits)
  then show ?case using begin_read_Inr [OF count_read(1,2)] count_read(3,5) by (auto simp: reauth_ok_def rtick_def)
next
  case (count_written g k a w')
  have g: "counting_ok l g" using count_written(1,6) by (simp add: reauth_ok_def)
  let ?i = "at_AccountID (cg_read g)" and ?s = "rw_store (rs_world k)"
  from begin_write_mem [OF count_written(2,3)] g count_written(4) obtain t where t: "a = cg_next g"
    "cg_next g = next_attempts l (cg_read g) t" "\<not> at_Locked (cg_read g) t" "rw_store w' = ?s(?i \<mapsto> cg_next g)"
    "case ?s ?i of None \<Rightarrow> \<not> cg_found g
       | Some a \<Rightarrow> cg_found g \<and> at_Failures a = at_Failures (cg_read g) \<and> at_LockedUntil a = at_LockedUntil (cg_read g)"
    by auto
  have "row_counts l (Counted ?i t # rs_log k) i (rw_store w' i)" for i
    using reauth_ok_written [OF count_written(6,5) refl g t(2,3,5)] t(4) count_written(6) by (cases "i = ?i") (auto simp: reauth_ok_def)
  then show ?case using t(1,2) count_written(6) by (auto simp: reauth_ok_def dest: notin_set_remove1)
next
  case (count_lost g k w')
  have "counting_ok l g" using count_lost(1,6) by (simp add: reauth_ok_def)
  then have "rw_store w' = rw_store (rs_world k)" using begin_write_mem [OF count_lost(2,3)] count_lost(4) by auto
  then show ?case using count_lost(6) by (auto simp: reauth_ok_def dest: notin_set_remove1)
next
  case (clear_read k accountID read)
  then have "rw_store (rs_world k) accountID = Some read"
    by (auto simp: succeed_read_def reauth_find_def mem_reauth_ops_def mr_Find_def split: option.splits if_splits)
  then have "at_AccountID read = accountID" using clear_read(5) by (auto simp: reauth_ok_def row_counts_def split: option.splits)
  then show ?case using clear_read(5) by (simp add: reauth_ok_def)
next
  case (clear_written accountID read k w')
  have "at_AccountID read = accountID" using clear_written(1,6) by (auto simp: reauth_ok_def)
  then have "rw_store w' = (rw_store (rs_world k))(accountID \<mapsto> (no_attempts accountID)\<lparr>at_UpdatedAt := rnow (rs_world k)\<rparr>)"
    using succeed_write_mem [OF clear_written(2,3)] by auto
  then have "row_counts l (Cleared accountID # rs_log k) i (rw_store w' i)" for i
    using clear_written(5,6) by (cases "i = accountID") (auto simp: reauth_ok_def row_counts_def [of _ _ accountID] no_attempts_def)
  then show ?case using clear_written(6) set_remove1_subset [of "(accountID, read)" "rs_clearing k"] by (auto simp: reauth_ok_def)
next
  case (clear_lost accountID read k w')
  have "at_AccountID read = accountID" using clear_lost(1,6) by (auto simp: reauth_ok_def)
  then have "rw_store w' = rw_store (rs_world k)" using succeed_write_mem [OF clear_lost(2,3)] by auto
  then show ?case using clear_lost(6) set_remove1_subset [of "(accountID, read)" "rs_clearing k"] by (auto simp: reauth_ok_def)
next
  case (reauth_time k)
  then show ?case by (simp add: reauth_ok_def rtick_def)
qed

lemma reauth_run_ok:
  assumes "(reauth_step r)\<^sup>*\<^sup>* k k'" "re_ops r = mem_reauth_ops" "0 < lk_After (re_lock r)" "reauth_ok (re_lock r) k"
  shows "reauth_ok (re_lock r) k'"
  using assms(1)
proof (induction rule: rtranclp_induct)
  case base
  show ?case using assms(4) .
next
  case (step y z)
  then show ?case using reauth_step_ok [OF step(2) assms(2) refl assms(3)] by blast
qed

lemma reauth_ok_spaced: "reauth_ok l k \<Longrightarrow> spaced (nat (lk_After l)) (lk_For l) (since_clear i (rs_log k))"
  by (auto simp: reauth_ok_def row_counts_def count_ok_def split: option.splits dest!: spec [of _ i])

section \<open>Enough rounds\<close>

text \<open>Rows are kept under their account, and an open counter has attempts left.\<close>

definition reauth_wf :: "lock \<Rightarrow> mem_reauth \<Rightarrow> bool" where
  "reauth_wf l s \<longleftrightarrow> (\<forall>i a. s i = Some a \<longrightarrow> at_AccountID a = i \<and> 0 \<le> at_Failures a \<and> (at_LockedUntil a = None \<longrightarrow> at_Failures a < lk_After l))"

text \<open>
  What the store looks like after another request's attempt was written: one whose reading of the clock lies in the
  window of one lock time that starts at \<open>t0\<close>.
\<close>

definition guessed_in :: "mem_reauth reauth \<Rightarrow> int \<Rightarrow> mem_reauth \<Rightarrow> mem_reauth \<Rightarrow> bool" where
  "guessed_in r t0 s s' \<longleftrightarrow> (\<exists>w i g w1 w2 q w3. reauth_wf (re_lock r) (rw_store w) \<and> begin_read r w i = (Inr g, w1)
     \<and> t0 \<le> rnow w \<and> rnow w < t0 + lk_For (re_lock r) \<and> begin_write r w2 g = (q, w3) \<and> rw_store w2 = s \<and> rw_store w3 = s')"

text \<open>How often a counter can still be written by attempts of the window.\<close>

fun writes_left :: "lock \<Rightarrow> int \<Rightarrow> reauth_attempts option \<Rightarrow> nat" where
  "writes_left l t0 None = nat (lk_After l)"
| "writes_left l t0 (Some a) =
     (case at_LockedUntil a of
        None \<Rightarrow> nat (lk_After l - at_Failures a)
      | Some until \<Rightarrow> if t0 + lk_For l \<le> until then 0 else nat (lk_After l))"

lemma writes_left_next:
  assumes "0 < lk_After l" "0 \<le> at_Failures a" "at_LockedUntil a = None \<longrightarrow> at_Failures a < lk_After l"
    and t: "t0 \<le> t" "t < t0 + lk_For l" "\<not> at_Locked a t"
  shows "writes_left l t0 (Some (next_attempts l a t)) < writes_left l t0 (Some a)"
  using assms by (auto simp: at_Locked_def split: option.splits)

definition fewer_writes :: "lock \<Rightarrow> int \<Rightarrow> mem_reauth \<Rightarrow> mem_reauth \<Rightarrow> bool" where
  "fewer_writes l t0 s s' \<longleftrightarrow> (\<forall>i. s' i = s i \<or> writes_left l t0 (s' i) < writes_left l t0 (s i))"

lemma fewer_writes_trans:
  assumes "fewer_writes l t0 s s1" "fewer_writes l t0 s1 s2"
  shows "fewer_writes l t0 s s2"
  unfolding fewer_writes_def
proof
  fix i
  have "s1 i = s i \<or> writes_left l t0 (s1 i) < writes_left l t0 (s i)" "s2 i = s1 i \<or> writes_left l t0 (s2 i) < writes_left l t0 (s1 i)"
    using assms by (simp_all add: fewer_writes_def)
  then show "s2 i = s i \<or> writes_left l t0 (s2 i) < writes_left l t0 (s i)" by (metis less_trans)
qed

lemma next_attempts_wf:
  assumes "0 < lk_After l" "0 \<le> at_Failures a"
  shows "0 \<le> at_Failures (next_attempts l a t) \<and> (at_LockedUntil (next_attempts l a t) = None \<longrightarrow> at_Failures (next_attempts l a t) < lk_After l)"
  using assms by (auto split: if_splits)

lemma begin_write_wf:
  assumes "begin_write r w g = (q, w')" "re_ops r = mem_reauth_ops" "counting_ok (re_lock r) g" "0 < lk_After (re_lock r)"
    "reauth_wf (re_lock r) (rw_store w)"
  shows "reauth_wf (re_lock r) (rw_store w')"
proof -
  let ?i = "at_AccountID (cg_read g)" and ?l = "re_lock r"
  show ?thesis
  proof (cases "rw_store w' = rw_store w")
    case False
    then obtain t where t: "cg_next g = next_attempts ?l (cg_read g) t" "rw_store w' = (rw_store w)(?i \<mapsto> cg_next g)"
      "case rw_store w ?i of None \<Rightarrow> \<not> cg_found g | Some a \<Rightarrow> cg_found g \<and> at_Failures a = at_Failures (cg_read g)
         \<and> at_LockedUntil a = at_LockedUntil (cg_read g)"
      using begin_write_mem [OF assms(1-3)] by blast
    have "0 \<le> at_Failures (cg_read g)"
    proof (cases "rw_store w ?i")
      case None
      then have "cg_read g = no_attempts ?i" using assms(3) t(3) by (simp add: counting_ok_def)
      then show ?thesis by (metis no_attempts_def reauth_attempts.select_convs(2) order_refl)
    next
      case (Some a)
      then have "0 \<le> at_Failures a" using assms(5) unfolding reauth_wf_def by blast
      then show ?thesis using t(3) Some by simp
    qed
    then show ?thesis using assms(5) t(1,2) next_attempts_wf [OF assms(4)] by (simp add: reauth_wf_def del: next_attempts_sel(3,4))
  qed (use assms(5) in simp)
qed

lemma guessed_in_fewer:
  assumes "guessed_in r t0 s s'" "re_ops r = mem_reauth_ops" "0 < lk_After (re_lock r)" "reauth_wf (re_lock r) s"
  shows "fewer_writes (re_lock r) t0 s s' \<and> reauth_wf (re_lock r) s'"
proof -
  let ?l = "re_lock r"
  obtain w i g w1 w2 q w3 where g: "reauth_wf ?l (rw_store w)" "begin_read r w i = (Inr g, w1)" "t0 \<le> rnow w" "rnow w < t0 + lk_For ?l"
    "begin_write r w2 g = (q, w3)" "rw_store w2 = s" "rw_store w3 = s'" using assms(1) unfolding guessed_in_def by blast
  have "\<forall>a. rw_store w i = Some a \<longrightarrow> at_AccountID a = i" using g(1) by (simp add: reauth_wf_def)
  from begin_read_Inr [OF g(2) assms(2) this] have rd: "counting_ok ?l g" "at_AccountID (cg_read g) = i" "\<not> at_Locked (cg_read g) (rnow w)"
    "cg_next g = next_attempts ?l (cg_read g) (rnow w)" by auto
  have wf: "reauth_wf ?l s'" using begin_write_wf [OF g(5) assms(2) rd(1) assms(3)] assms(4) g(6,7) by simp
  from begin_write_mem [OF g(5) assms(2) rd(1)] consider "s' = s"
    | "s' = s(i \<mapsto> cg_next g)" "s i = None" "\<not> cg_found g"
    | a where "s' = s(i \<mapsto> cg_next g)" "s i = Some a" "at_Failures a = at_Failures (cg_read g)" "at_LockedUntil a = at_LockedUntil (cg_read g)"
    using g(6,7) rd(2) by (auto split: option.splits)
  then show ?thesis
  proof cases
    case 1
    then show ?thesis using assms(4) by (simp add: fewer_writes_def)
  next
    case 2
    have read: "cg_read g = no_attempts i" using rd(1,2) 2(3) by (simp add: counting_ok_def)
    then have "writes_left ?l t0 (Some (cg_next g)) < writes_left ?l t0 None" using assms(3) g(3,4) rd(4) by (simp add: no_attempts_def)
    then show ?thesis using 2 wf by (auto simp: fewer_writes_def)
  next
    case 3
    have a: "0 \<le> at_Failures (cg_read g)" "at_LockedUntil (cg_read g) = None \<longrightarrow> at_Failures (cg_read g) < lk_After ?l"
      using assms(4) 3 by (metis reauth_wf_def)+
    then have "writes_left ?l t0 (Some (cg_next g)) < writes_left ?l t0 (Some (cg_read g))"
      unfolding rd(4) using assms(3) g(3,4) rd(3) by (intro writes_left_next)
    moreover have "writes_left ?l t0 (Some (cg_read g)) = writes_left ?l t0 (s i)" using 3 by (auto split: option.splits)
    ultimately show ?thesis using 3(1) wf by (auto simp: fewer_writes_def)
  qed
qed

lemma guesses_in_fewer:
  assumes "(guessed_in r t0)\<^sup>*\<^sup>* s s'" "re_ops r = mem_reauth_ops" "0 < lk_After (re_lock r)" "reauth_wf (re_lock r) s"
  shows "fewer_writes (re_lock r) t0 s s' \<and> reauth_wf (re_lock r) s'"
  using assms(1)
proof (induction rule: rtranclp_induct)
  case base
  show ?case using assms(4) by (simp add: fewer_writes_def)
next
  case (step y z)
  then have "fewer_writes (re_lock r) t0 y z" "reauth_wf (re_lock r) z" using guessed_in_fewer [OF step(2) assms(2,3)] by blast+
  then show ?case using step.IH fewer_writes_trans by blast
qed

text \<open>The state of a round, and the interference of its loop.\<close>

definition round_inv :: "mem_reauth reauth \<Rightarrow> int \<Rightarrow> (nat \<Rightarrow> mem_reauth \<Rightarrow> mem_reauth) \<Rightarrow> mem_reauth rworld \<Rightarrow> bool" where
  "round_inv r t0 others w \<longleftrightarrow> re_ops r = mem_reauth_ops \<and> 0 < lk_After (re_lock r) \<and> (\<forall>n s. (guessed_in r t0)\<^sup>*\<^sup>* s (others n s))
     \<and> reauth_wf (re_lock r) (rw_store w)"

definition round_rank :: "mem_reauth reauth \<Rightarrow> int \<Rightarrow> int \<Rightarrow> mem_reauth rworld \<Rightarrow> nat" where
  "round_rank r t0 i w = writes_left (re_lock r) t0 (rw_store w i)"

lemma round_rank_bound: "round_inv r t0 others w \<Longrightarrow> round_rank r t0 i w < reauth_rounds r"
proof (cases "rw_store w i")
  case (Some a)
  assume "round_inv r t0 others w"
  moreover from this have "0 \<le> at_Failures a" using Some by (auto simp: round_inv_def reauth_wf_def)
  ultimately show ?thesis using Some by (auto simp: round_rank_def reauth_rounds_def round_inv_def split: option.splits)
qed (auto simp: round_rank_def reauth_rounds_def round_inv_def)

text \<open>A write that was refused found another counter than the one that was read.\<close>

lemma lost_round:
  assumes "round_inv r t0 others w" "rw_store w' = others n (rw_store w)" "rw_store w' i \<noteq> rw_store w i"
  shows "round_inv r t0 others w' \<and> round_rank r t0 i w' < round_rank r t0 i w"
  using assms guesses_in_fewer [of r t0 "rw_store w" "rw_store w'"] by (auto simp: round_inv_def round_rank_def fewer_writes_def)

lemma begin_round_lost:
  assumes "round_inv r t0 others w" "begin_round r (others n) w i = (None, w')"
  shows "round_inv r t0 others w' \<and> round_rank r t0 i w' < round_rank r t0 i w"
proof -
  have ops: "re_ops r = mem_reauth_ops" "\<forall>a. rw_store w i = Some a \<longrightarrow> at_AccountID a = i"
    using assms(1) by (auto simp: round_inv_def reauth_wf_def)
  obtain g w1 where g: "begin_read r w i = (Inr g, w1)" "begin_write r (w1\<lparr>rw_store := others n (rw_store w1)\<rparr>) g = (None, w')"
    using assms(2) by (auto simp: begin_round_def split: prod.splits sum.splits)
  note rd = begin_read_Inr [OF g(1) ops]
  have w1: "rw_store w1 = rw_store w" using rd by (simp add: rtick_def)
  have w': "rw_store w' = others n (rw_store w)" using begin_write_mem [OF g(2) ops(1)] rd w1 by auto
  have "others n (rw_store w) i \<noteq> rw_store w i"
    using g(2) rd w1 ops(1) by (auto simp: begin_write_def mem_reauth_ops_def mr_Save_def mr_Create_def split: option.splits if_splits)
  then show ?thesis using lost_round [OF assms(1) w'] w' by simp
qed

lemma succeed_round_lost:
  assumes "round_inv r t0 others w" "succeed_round r (others n) w i = (None, w')"
  shows "round_inv r t0 others w' \<and> round_rank r t0 i w' < round_rank r t0 i w"
proof -
  have ops: "re_ops r = mem_reauth_ops" using assms(1) by (simp add: round_inv_def)
  obtain a where a: "succeed_read r w i = Inr (Some a)" "succeed_write r (w\<lparr>rw_store := others n (rw_store w)\<rparr>) i a = (None, w')"
    using assms(2) by (auto simp: succeed_round_def split: sum.splits option.splits)
  have row: "rw_store w i = Some a" using a(1) ops
    by (auto simp: succeed_read_def reauth_find_def mem_reauth_ops_def mr_Find_def split: option.splits if_splits)
  then have id: "at_AccountID a = i" using assms(1) by (auto simp: round_inv_def reauth_wf_def)
  have w': "rw_store w' = others n (rw_store w)" using succeed_write_mem [OF a(2) ops id] by auto
  have "others n (rw_store w) i \<noteq> rw_store w i"
    using a(2) row id ops by (auto simp: succeed_write_def mem_reauth_ops_def mr_Save_def split: option.splits if_splits)
  then show ?thesis using lost_round [OF assms(1) w'] w' by simp
qed

interpretation counting: enough_rounds ErrReauthConflict "\<lambda>n w. begin_round r (others n) w i" "round_inv r t0 others" "round_rank r t0 i"
  for r t0 others i
  by unfold_locales (rule begin_round_lost)

interpretation clearing: enough_rounds ErrReauthConflict "\<lambda>n w. succeed_round r (others n) w i" "round_inv r t0 others" "round_rank r t0 i"
  for r t0 others i
  by unfold_locales (rule succeed_round_lost)

lemma reauthLocked_reason: "HasReason (reauthLocked rfc a t) ReasonReauthLocked"
  by (simp add: reauthLocked_def Let_def HasReason_def apperr_Wrap_def newWithSkip_def)

lemma begin_round_answer:
  assumes "round_inv r t0 others w" "begin_round r (others n) w i = (Some q, w')"
  shows "reauth_wf (re_lock r) (rw_store w') \<and> (\<forall>e. q = Inl e \<longrightarrow> HasReason e ReasonReauthLocked)"
proof -
  have ops: "re_ops r = mem_reauth_ops" "\<forall>a. rw_store w i = Some a \<longrightarrow> at_AccountID a = i"
    and wf: "reauth_wf (re_lock r) (rw_store w)" and pos: "0 < lk_After (re_lock r)" and
    "(guessed_in r t0)\<^sup>*\<^sup>* (rw_store w) (others n (rw_store w))"
    using assms(1) by (auto simp: round_inv_def reauth_wf_def)
  then have wf': "reauth_wf (re_lock r) (others n (rw_store w))" using guesses_in_fewer by blast
  obtain x w1 where x: "begin_read r w i = (x, w1)" by force
  show ?thesis
  proof (cases x)
    case (Inl e)
    then have "HasReason e ReasonReauthLocked" "rw_store w1 = rw_store w" using x ops(1) reauthLocked_reason
      by (auto simp: begin_read_def reauth_find_def mem_reauth_ops_def mr_Find_def Let_def rtick_def split: option.splits if_splits)
    then show ?thesis using assms(2) wf x Inl by (auto simp: begin_round_def)
  next
    case (Inr g)
    note rd = begin_read_Inr [OF x [unfolded Inr] ops]
    then have "rw_store w1 = rw_store w" by (simp add: rtick_def)
    then have wr: "begin_write r (w1\<lparr>rw_store := others n (rw_store w)\<rparr>) g = (Some q, w')" using assms(2) x Inr by (simp add: begin_round_def)
    have "reauth_wf (re_lock r) (rw_store w')" using begin_write_wf [OF wr ops(1) _ pos] rd wf' by simp
    then show ?thesis using begin_write_mem [OF wr ops(1)] rd by auto
  qed
qed

lemma succeed_round_answer:
  assumes "round_inv r t0 others w" "succeed_round r (others n) w i = (Some q, w')"
  shows "q = Inr ()"
proof -
  have ops: "re_ops r = mem_reauth_ops" "\<forall>a. rw_store w i = Some a \<longrightarrow> at_AccountID a = i"
    using assms(1) by (auto simp: round_inv_def reauth_wf_def)
  show ?thesis
  proof (cases "succeed_read r w i")
    case (Inl e)
    then show ?thesis using ops(1) by (auto simp: succeed_read_def reauth_find_def mem_reauth_ops_def mr_Find_def split: option.splits if_splits)
  next
    case (Inr x)
    show ?thesis
    proof (cases x)
      case None
      then show ?thesis using assms(2) Inr by (simp add: succeed_round_def)
    next
      case (Some a)
      then have "rw_store w i = Some a" using ops(1) Inr
        by (auto simp: succeed_read_def reauth_find_def mem_reauth_ops_def mr_Find_def split: option.splits if_splits)
      then have "at_AccountID a = i" using ops(2) by simp
      then show ?thesis using succeed_write_mem [OF _ ops(1)] assms(2) Inr Some by (fastforce simp: succeed_round_def)
    qed
  qed
qed

lemma reauth_ok_wf: "reauth_ok l k \<Longrightarrow> 0 < lk_After l \<Longrightarrow> reauth_wf l (rw_store (rs_world k))"
  unfolding reauth_wf_def
proof (intro allI impI)
  fix i a
  assume "reauth_ok l k" "rw_store (rs_world k) i = Some a" "0 < lk_After l"
  moreover from this have "row_counts l (rs_log k) i (Some a)" unfolding reauth_ok_def by metis
  ultimately show "at_AccountID a = i \<and> 0 \<le> at_Failures a \<and> (at_LockedUntil a = None \<longrightarrow> at_Failures a < lk_After l)"
    by (auto simp: row_counts_def count_ok_def split: if_splits)
qed

section \<open>A run of the service\<close>

definition demo_reauth :: "mem_reauth reauth" where
  "demo_reauth = \<lparr>re_ops = mem_reauth_ops, re_lock = lock_withDefaults \<lparr>lk_After = 2, lk_For = 10\<rparr>, re_Matches = (=), re_rfc = show_int\<rparr>"

definition demo_rworld :: "mem_reauth rworld" where
  "demo_rworld = \<lparr>rw_store = NewReauth_mem, rw_clock = (\<lambda>n. 20 * int n), rw_ticks = 0\<rparr>"

text \<open>One attempt of account 7, read and written.\<close>

definition demo_counting :: "mem_reauth rworld \<Rightarrow> counting" where
  "demo_counting w = projr (fst (begin_read demo_reauth w 7))"

definition demo_attempt :: "mem_reauth rworld \<Rightarrow> mem_reauth rworld" where
  "demo_attempt w = snd (begin_write demo_reauth (snd (begin_read demo_reauth w 7)) (demo_counting w))"

definition demo_counted :: "mem_reauth rworld \<Rightarrow> bool" where
  "demo_counted w =
     (is_ok (fst (begin_read demo_reauth w 7))
      \<and> (case fst (begin_write demo_reauth (snd (begin_read demo_reauth w 7)) (demo_counting w)) of
           Some (Inr a) \<Rightarrow> at_AccountID a = 7 \<and> at_UpdatedAt a = rnow w | _ \<Rightarrow> False))"

definition demo_rsys :: "mem_reauth rworld \<Rightarrow> reauth_event list \<Rightarrow> mem_reauth reauth_sys" where
  "demo_rsys w hist = \<lparr>rs_world = w, rs_counting = [], rs_clearing = [], rs_log = hist\<rparr>"

lemma demo_attempt_run:
  assumes "demo_counted w"
  shows "(reauth_step demo_reauth)\<^sup>*\<^sup>* (demo_rsys w hist) (demo_rsys (demo_attempt w) (Counted 7 (rnow w) # hist))"
proof -
  let ?k = "demo_rsys w hist" and ?g = "demo_counting w"
  obtain w1 where rd: "begin_read demo_reauth (rs_world ?k) 7 = (Inr ?g, w1)"
    using assms by (cases "begin_read demo_reauth w 7") (auto simp: demo_counted_def demo_counting_def demo_rsys_def is_ok_def split: sum.splits)
  let ?k1 = "?k\<lparr>rs_world := w1, rs_counting := ?g # rs_counting ?k\<rparr>"
  obtain a w2 where wr: "begin_write demo_reauth (rs_world ?k1) ?g = (Some (Inr a), w2)" "at_AccountID a = 7" "at_UpdatedAt a = rnow w"
    using assms rd by (cases "begin_write demo_reauth w1 ?g") (auto simp: demo_counted_def demo_rsys_def split: option.splits sum.splits)
  have "reauth_step demo_reauth ?k ?k1" by (rule count_read [OF rd])
  moreover have "reauth_step demo_reauth ?k1 (demo_rsys (demo_attempt w) (Counted 7 (rnow w) # hist))"
    using count_written [OF _ wr(1)] wr rd by (simp add: demo_rsys_def demo_attempt_def)
  ultimately show ?thesis by simp
qed

text \<open>Three attempts of which the third comes after the lock.\<close>

lemma demo_three:
  "(reauth_step demo_reauth)\<^sup>*\<^sup>* (demo_rsys demo_rworld [])
     (demo_rsys (demo_attempt (demo_attempt (demo_attempt demo_rworld))) [Counted 7 40, Counted 7 20, Counted 7 0])"
proof -
  let ?w1 = "demo_attempt demo_rworld" and ?w2 = "demo_attempt (demo_attempt demo_rworld)"
  have "demo_counted demo_rworld" "demo_counted ?w1" "demo_counted ?w2" by code_simp+
  moreover have "rnow demo_rworld = 0" "rnow ?w1 = 20" "rnow ?w2 = 40" by code_simp+
  ultimately show ?thesis using demo_attempt_run [of demo_rworld "[]"] demo_attempt_run [of ?w1] demo_attempt_run [of ?w2]
    by (metis rtranclp_trans)
qed

text \<open>Another request's wrong guess, read at the start.\<close>

definition demo_rothers :: "nat \<Rightarrow> mem_reauth \<Rightarrow> mem_reauth" where
  "demo_rothers n s = (if n = 3 then rw_store (snd (begin_write demo_reauth (demo_rworld\<lparr>rw_store := s\<rparr>) (demo_counting demo_rworld))) else s)"

lemma guessed_inI:
  "reauth_wf (re_lock r) (rw_store w) \<Longrightarrow> begin_read r w i = (Inr g, w1) \<Longrightarrow> t0 \<le> rnow w \<Longrightarrow> rnow w < t0 + lk_For (re_lock r) \<Longrightarrow>
   begin_write r w2 g = (q, w3) \<Longrightarrow> guessed_in r t0 (rw_store w2) (rw_store w3)"
  unfolding guessed_in_def by blast

lemma demo_rothers_guess: "(guessed_in demo_reauth 0)\<^sup>*\<^sup>* s (demo_rothers n s)"
proof (cases "n = 3")
  case True
  obtain q w3 where w3: "begin_write demo_reauth (demo_rworld\<lparr>rw_store := s\<rparr>) (demo_counting demo_rworld) = (q, w3)" by force
  have "is_ok (fst (begin_read demo_reauth demo_rworld 7))" "rnow demo_rworld = 0" "lk_For (re_lock demo_reauth) = 10" by code_simp+
  moreover from this(1) obtain w1 where "begin_read demo_reauth demo_rworld 7 = (Inr (demo_counting demo_rworld), w1)"
    by (cases "begin_read demo_reauth demo_rworld 7") (auto simp: demo_counting_def is_ok_def split: sum.splits)
  moreover have "reauth_wf l (rw_store demo_rworld)" for l by (simp add: reauth_wf_def demo_rworld_def NewReauth_mem_def)
  ultimately have "guessed_in demo_reauth 0 (rw_store (demo_rworld\<lparr>rw_store := s\<rparr>)) (rw_store w3)" using w3 by (intro guessed_inI) auto
  then show ?thesis using w3 True by (simp add: demo_rothers_def)
qed (simp add: demo_rothers_def)

section \<open>The properties\<close>

text \<open>
  C10: The limit on guesses holds for requests that run in parallel. From the empty store, after any interleaving of the
  reads and writes of attempts and clearings, among any After + 1 successive attempts counted for an account since its
  count was last cleared there are two neighbours of which the later was made at least the lock time after the earlier:
  no more than After passwords are checked per lock.
\<close>

theorem reauth_attempts_spaced:
  assumes "re_ops r = mem_reauth_ops" "re_lock r = lock_withDefaults l" "rw_store w = NewReauth_mem"
    and "(reauth_step r)\<^sup>*\<^sup>* \<lparr>rs_world = w, rs_counting = [], rs_clearing = [], rs_log = []\<rparr> k"
    and "ts = since_clear i (rs_log k)" "j + nat (lk_After (re_lock r)) < length ts"
  shows "\<exists>a. j \<le> a \<and> a < j + nat (lk_After (re_lock r)) \<and> ts ! (a + 1) + lk_For (re_lock r) \<le> ts ! a"
proof -
  have pos: "0 < lk_After (re_lock r)" using assms(2) by simp
  have "reauth_ok (re_lock r) \<lparr>rs_world = w, rs_counting = [], rs_clearing = [], rs_log = []\<rparr>"
    using assms(3) by (simp add: reauth_ok_def NewReauth_mem_def row_counts_def)
  then have "reauth_ok (re_lock r) k" by (rule reauth_run_ok [OF assms(4,1) pos])
  then have "spaced (nat (lk_After (re_lock r))) (lk_For (re_lock r)) ts" unfolding assms(5) by (rule reauth_ok_spaced)
  then show ?thesis using assms(6) pos by (intro spaced_window) auto
qed

theorem reauth_attempts_spaced_witness:
  "\<exists>a<2. [40, 20, 0] ! (a + 1) + lk_For (re_lock demo_reauth) \<le> [40, 20, 0 :: int] ! a"
proof -
  have "since_clear 7 [Counted 7 40, Counted 7 20, Counted 7 0] = [40, 20, 0]" "nat (lk_After (re_lock demo_reauth)) = 2" by code_simp+
  then show ?thesis
    using reauth_attempts_spaced [OF _ _ _ demo_three [unfolded demo_rsys_def], of "\<lparr>lk_After = 2, lk_For = 10\<rparr>" "[40, 20, 0]" 7 0]
    by (simp add: demo_reauth_def demo_rworld_def numeral_2_eq_2)
qed

text \<open>
  C21: Confirm gives a definite answer under contention. In any reachable state, whatever attempts other requests make
  between its reads and its writes, as long as they read the clock within one lock time, Confirm never runs out of rounds:
  it succeeds, and then the password matched; or it says that the password, which does not match, is wrong; or that
  re-confirmation is locked.
\<close>

theorem Confirm_answers:
  assumes "re_ops r = mem_reauth_ops" "re_lock r = lock_withDefaults l" "rw_store w = NewReauth_mem"
    and "(reauth_step r)\<^sup>*\<^sup>* \<lparr>rs_world = w, rs_counting = [], rs_clearing = [], rs_log = []\<rparr> k"
    and others: "\<forall>n s. (guessed_in r t0)\<^sup>*\<^sup>* s (others n s)" "\<forall>s. (guessed_in r t0)\<^sup>*\<^sup>* s (meanwhile s)"
      "\<forall>n s. (guessed_in r t0)\<^sup>*\<^sup>* s (others' n s)"
  shows "case fst (Confirm r others meanwhile others' (rs_world k) i hash password) of
      Inr _ \<Rightarrow> re_Matches r hash password
    | Inl e \<Rightarrow> e = Sentinel ErrWrongPassword \<and> \<not> re_Matches r hash password \<or> HasReason e ReasonReauthLocked"
proof -
  have pos: "0 < lk_After (re_lock r)" using assms(2) by simp
  have "reauth_ok (re_lock r) \<lparr>rs_world = w, rs_counting = [], rs_clearing = [], rs_log = []\<rparr>"
    using assms(3) by (simp add: reauth_ok_def NewReauth_mem_def row_counts_def)
  then have "reauth_wf (re_lock r) (rw_store (rs_world k))" using reauth_run_ok [OF assms(4,1) pos] pos by (intro reauth_ok_wf)
  then have inv: "round_inv r t0 others (rs_world k)" using assms(1) pos others by (simp add: round_inv_def)
  obtain q w1 where b: "reauth_begin r others (rs_world k) i = (q, w1)" by force
  obtain m v where m: "round_inv r t0 others v" "begin_round r (others m) v i = (Some q, w1)"
    using counting.answered [OF inv round_rank_bound [OF inv] b [unfolded reauth_begin_def]] by blast
  note begun = begin_round_answer [OF m]
  let ?w = "w1\<lparr>rw_store := meanwhile (rw_store w1)\<rparr>"
  have "reauth_wf (re_lock r) (rw_store ?w)" using guesses_in_fewer [OF others(2) [rule_format] assms(1) pos] begun by simp
  then have inv': "round_inv r t0 others' ?w" using assms(1) pos others by (simp add: round_inv_def)
  obtain q' w' where s: "reauth_succeed r others' ?w i = (q', w')" by force
  have "q' = Inr ()" using clearing.answered [OF inv' round_rank_bound [OF inv'] s [unfolded reauth_succeed_def]] succeed_round_answer by blast
  then show ?thesis using b begun s reauthLocked_reason by (cases q) (auto simp: Confirm_def Let_def)
qed

theorem Confirm_answers_witness:
  "fst (Confirm demo_reauth demo_rothers (\<lambda>s. s) demo_rothers demo_rworld 7 ''secret'' ''secret'') = Inr ()
   \<and> (case fst (Confirm demo_reauth demo_rothers (\<lambda>s. s) demo_rothers demo_rworld 7 ''secret'' ''secret'') of
        Inr _ \<Rightarrow> re_Matches demo_reauth ''secret'' ''secret''
      | Inl e \<Rightarrow> e = Sentinel ErrWrongPassword \<and> \<not> re_Matches demo_reauth ''secret'' ''secret'' \<or> HasReason e ReasonReauthLocked)"
proof -
  have "fst (Confirm demo_reauth demo_rothers (\<lambda>s. s) demo_rothers demo_rworld 7 ''secret'' ''secret'') = Inr ()" by code_simp
  moreover have "(reauth_step demo_reauth)\<^sup>*\<^sup>* (demo_rsys demo_rworld []) (demo_rsys demo_rworld [])" by simp
  ultimately show ?thesis
    using Confirm_answers [where r = demo_reauth and l = "\<lparr>lk_After = 2, lk_For = 10\<rparr>" and w = demo_rworld and k = "demo_rsys demo_rworld []"
        and ?t0.0 = 0 and others = demo_rothers and meanwhile = "\<lambda>s. s" and others' = demo_rothers and i = 7
        and hash = "''secret''" and password = "''secret''"] demo_rothers_guess
    by (simp add: demo_rsys_def demo_reauth_def demo_rworld_def)
qed

end
