(* ===== verification/ProfileFlow.thy ===== *)
theory ProfileFlow
  imports Sessions Codes Reauth
begin

text \<open>
  The whole operations of \<^verbatim>\<open>identity/account/profile.go\<close>: a person's account together with the
  re-confirmation of their password and the codes that confirm an address. Each of the three services has its own state;
  what other requests do to it while an operation runs is in the record \<open>meanwhile\<close>.
\<close>

section \<open>The services of a profile\<close>

record ('s, 'c, 'r) profile =
  pf_ad :: "'s user_admin"
  pf_Reauth :: "'r reauth"
  pf_Codes :: "'c codes option"

record ('s, 'c, 'r) pworld =
  pw_id :: "'s iworld"
  pw_codes :: "'c cworld"
  pw_reauth :: "'r rworld"

record ('s, 'c, 'r) meanwhile =
  mw_count :: "nat \<Rightarrow> 'r \<Rightarrow> 'r"
  mw_match :: "'r \<Rightarrow> 'r"
  mw_clear :: "nat \<Rightarrow> 'r \<Rightarrow> 'r"
  mw_verify :: "nat \<Rightarrow> 'c \<Rightarrow> 'c"
  mw_id :: "'s iworld \<Rightarrow> 's iworld"

record profile_view =
  vw_Account :: account
  vw_PendingEmail :: "pending_code option"

definition profile_Get :: "('s, 'c, 'r) profile \<Rightarrow> ('s, 'c, 'r) pworld \<Rightarrow> int \<Rightarrow> profile_view result \<times> ('s, 'c, 'r) pworld" where
  "profile_Get p pw accountID =
     (case users_Get (ad_Users (pf_ad p)) (pw_id pw) accountID of
        Inl e \<Rightarrow> (Inl e, pw)
      | Inr acc \<Rightarrow>
          case pf_Codes p of
            None \<Rightarrow> (Inr \<lparr>vw_Account = acc, vw_PendingEmail = None\<rparr>, pw)
          | Some c \<Rightarrow>
              case codes_Pending c (pw_codes pw) accountID PurposeEmailChange of
                (Inl e, cw) \<Rightarrow> (Inl e, pw\<lparr>pw_codes := cw\<rparr>)
              | (Inr pending, cw) \<Rightarrow> (Inr \<lparr>vw_Account = acc, vw_PendingEmail = pending\<rparr>, pw\<lparr>pw_codes := cw\<rparr>))"

definition UpdateDetails ::
  "('s, 'c, 'r) profile \<Rightarrow> ('s, 'c, 'r) pworld \<Rightarrow> profile_details \<Rightarrow> profile_view result \<times> ('s, 'c, 'r) pworld" where
  "UpdateDetails p pw inp =
     (case updateDetails (pf_ad p) (pw_id pw) inp of
        (Inl e, w) \<Rightarrow> (Inl e, pw\<lparr>pw_id := w\<rparr>)
      | (Inr _, w) \<Rightarrow> profile_Get p (pw\<lparr>pw_id := w\<rparr>) (pd_AccountID inp))"

text \<open>The re-confirmation: a wrong password is an error of its field, a lock passes through with its reason.\<close>

definition profile_confirm ::
  "('s, 'c, 'r) profile \<Rightarrow> ('s, 'c, 'r) meanwhile \<Rightarrow> ('s, 'c, 'r) pworld \<Rightarrow> account \<Rightarrow> string \<Rightarrow> unit result \<times> ('s, 'c, 'r) pworld" where
  "profile_confirm p mw pw acc password =
     (case Confirm (pf_Reauth p) (mw_count mw) (mw_match mw) (mw_clear mw) (pw_reauth pw) (ac_ID acc) (ac_PasswordHash acc) password of
        (Inl e, rw) \<Rightarrow> (Inl (if errors_Is e ErrWrongPassword then invalid ''current_password'' ReasonPasswordWrong [] else e), pw\<lparr>pw_reauth := rw\<rparr>)
      | (Inr _, rw) \<Rightarrow> (Inr (), pw\<lparr>pw_reauth := rw\<rparr>))"

text \<open>What other requests did to the accounts while the password was confirmed or the code verified.\<close>

definition id_meanwhile :: "('s, 'c, 'r) meanwhile \<Rightarrow> ('s, 'c, 'r) pworld \<Rightarrow> ('s, 'c, 'r) pworld" where
  "id_meanwhile mw pw = pw\<lparr>pw_id := mw_id mw (pw_id pw)\<rparr>"

definition on_id :: "('s iworld \<Rightarrow> 'a result \<times> 's iworld) \<Rightarrow> ('s, 'c, 'r) pworld \<Rightarrow> 'a result \<times> ('s, 'c, 'r) pworld" where
  "on_id f pw = (case f (pw_id pw) of (r, w) \<Rightarrow> (r, pw\<lparr>pw_id := w\<rparr>))"

definition ChangePassword ::
  "('s, 'c, 'r) profile \<Rightarrow> ('s, 'c, 'r) meanwhile \<Rightarrow> ('s, 'c, 'r) pworld \<Rightarrow> password_change \<Rightarrow> unit result \<times> ('s, 'c, 'r) pworld" where
  "ChangePassword p mw pw inp =
     (case users_Get (ad_Users (pf_ad p)) (pw_id pw) (pc_AccountID inp) of
        Inl e \<Rightarrow> (Inl e, pw)
      | Inr acc \<Rightarrow>
          st_bind (profile_confirm p mw pw acc (pc_CurrentPassword inp)) (\<lambda>_ pw1.
            on_id (\<lambda>w. changePassword (pf_ad p) w acc inp) (id_meanwhile mw pw1)))"

section \<open>Changing the address\<close>

definition profile_issue ::
  "'c codes \<Rightarrow> ('s, 'c, 'r) pworld \<Rightarrow> account \<Rightarrow> string \<Rightarrow> string \<Rightarrow> pending_code result \<times> ('s, 'c, 'r) pworld" where
  "profile_issue c pw acc email ip =
     (case codes_Issue c (pw_codes pw) \<lparr>ic_AccountID = ac_ID acc, ic_Purpose = PurposeEmailChange, ic_Target = email, ic_Recipient = email,
        ic_Name = ac_Name acc, ic_Locale = ac_Locale acc, ic_IP = ip\<rparr> of (r, cw) \<Rightarrow> (r, pw\<lparr>pw_codes := cw\<rparr>))"

record request_email =
  rq_AccountID :: int
  rq_Email :: string
  rq_CurrentPassword :: string
  rq_IP :: string

definition RequestEmailChange ::
  "('s, 'c, 'r) profile \<Rightarrow> ('s, 'c, 'r) meanwhile \<Rightarrow> ('s, 'c, 'r) pworld \<Rightarrow> request_email \<Rightarrow> pending_code result \<times> ('s, 'c, 'r) pworld" where
  "RequestEmailChange p mw pw inp =
     (case pf_Codes p of
        None \<Rightarrow> (Inl emailDisabled, pw)
      | Some c \<Rightarrow>
          case users_Get (ad_Users (pf_ad p)) (pw_id pw) (rq_AccountID inp) of
            Inl e \<Rightarrow> (Inl e, pw)
          | Inr acc \<Rightarrow>
              st_bind (profile_confirm p mw pw acc (rq_CurrentPassword inp)) (\<lambda>_ pw1.
                let pw2 = id_meanwhile mw pw1; email = NormalizeEmail (sg_uni (ad_Users (pf_ad p))) (rq_Email inp) in
                case checkNewEmail (pf_ad p) (pw_id pw2) acc email of
                  Inl e \<Rightarrow> (Inl e, pw2)
                | Inr _ \<Rightarrow> profile_issue c pw2 acc email (rq_IP inp)))"

definition ResendEmailChange ::
  "('s, 'c, 'r) profile \<Rightarrow> ('s, 'c, 'r) pworld \<Rightarrow> int \<Rightarrow> string \<Rightarrow> pending_code result \<times> ('s, 'c, 'r) pworld" where
  "ResendEmailChange p pw accountID ip =
     (case pf_Codes p of
        None \<Rightarrow> (Inl emailDisabled, pw)
      | Some c \<Rightarrow>
          case users_Get (ad_Users (pf_ad p)) (pw_id pw) accountID of
            Inl e \<Rightarrow> (Inl e, pw)
          | Inr acc \<Rightarrow>
              case codes_Pending c (pw_codes pw) accountID PurposeEmailChange of
                (Inl e, cw) \<Rightarrow> (Inl e, pw\<lparr>pw_codes := cw\<rparr>)
              | (Inr None, cw) \<Rightarrow> (Inl (code_refusal ReasonCodeNoPending LevelInfo), pw\<lparr>pw_codes := cw\<rparr>)
              | (Inr (Some pending), cw) \<Rightarrow> profile_issue c (pw\<lparr>pw_codes := cw\<rparr>) acc (pc_Target pending) ip)"

definition only_digits :: "string \<Rightarrow> string" where
  "only_digits = filter (byte_in 48 57)"

definition ConfirmEmailChange ::
  "('s, 'c, 'r) profile \<Rightarrow> ('s, 'c, 'r) meanwhile \<Rightarrow> ('s, 'c, 'r) pworld \<Rightarrow> int \<Rightarrow> string \<Rightarrow> profile_view result \<times> ('s, 'c, 'r) pworld" where
  "ConfirmEmailChange p mw pw accountID typed =
     (case pf_Codes p of
        None \<Rightarrow> (Inl emailDisabled, pw)
      | Some c \<Rightarrow>
          let code = only_digits typed in
          if length code \<noteq> CodeLength then (Inl (invalid ''code'' ReasonCodeInvalid []), pw)
          else case users_Get (ad_Users (pf_ad p)) (pw_id pw) accountID of
            Inl e \<Rightarrow> (Inl e, pw)
          | Inr acc \<Rightarrow>
              case Verify c (mw_verify mw) (pw_codes pw) (ac_ID acc) PurposeEmailChange code of
                (Inl e, cw) \<Rightarrow> (Inl e, pw\<lparr>pw_codes := cw\<rparr>)
              | (Inr email, cw) \<Rightarrow>
                  st_bind (on_id (\<lambda>w. confirmedEmail (pf_ad p) w acc email) (id_meanwhile mw (pw\<lparr>pw_codes := cw\<rparr>))) (\<lambda>_ pw1.
                    profile_Get p pw1 (ac_ID acc)))"

definition CancelEmailChange :: "('s, 'c, 'r) profile \<Rightarrow> ('s, 'c, 'r) pworld \<Rightarrow> int \<Rightarrow> unit result \<times> ('s, 'c, 'r) pworld" where
  "CancelEmailChange p pw accountID =
     (case pf_Codes p of
        None \<Rightarrow> (Inr (), pw)
      | Some c \<Rightarrow> case codes_Cancel c (pw_codes pw) accountID PurposeEmailChange of (r, cw) \<Rightarrow> (r, pw\<lparr>pw_codes := cw\<rparr>))"

section \<open>What the operations do\<close>

text \<open>Ending sessions leaves the accounts alone.\<close>

context id_services
begin

definition accts_are :: "'y \<Rightarrow> 's iworld \<Rightarrow> bool" where "accts_are a w \<longleftrightarrow> accts (iw_store w) = a"

lemma accts_simps [simp]: "accts_are a (itick w) = accts_are a w" "accts_are a (tell w n) = accts_are a w" "accts_are a (announce w p) = accts_are a w"
  by (simp_all add: accts_are_def)

lemma accts_id_write: "accts (snd r) = a \<Longrightarrow> accts_are a (snd (id_write w r))"
  by (simp add: accts_are_def id_write_store)

lemma accts_us_record: "accts_are a w \<Longrightarrow> accts_are a (snd (us_record (ad_Users d) w i e actor))"
  using us_record_frame [of w i e actor] by (metis accts_are_def prod.collapse)

lemmas accts_bind = st_bind_pres [where P = "accts_are a" for a]

lemma accts_record_opened: "accts_are a w \<Longrightarrow> accts_are a (snd (record_opened (ad_Users d) w req xs out))"
  by (induction "ad_Users d" w req xs out rule: record_opened.induct) (auto intro!: accts_bind accts_us_record)

lemma accts_revokeSessions: "accts_are a w \<Longrightarrow> accts_are a (snd (revokeSessions (ad_Users d) w req))"
proof -
  assume w: "accts_are a w"
  have k: "accts_are a w1" if "keptSession (ad_Users d) w r = (keep, w1)" for r keep w1
    using that w by (auto simp: keptSession_def split: if_splits sum.splits)
  have e: "accts_are a w1 \<Longrightarrow> accts_are a (snd (id_write (itick w1) (id_End (ad_ops d) (iw_store w1) i ids keep now)))" for w1 i ids keep now
    using only_End by (auto simp: accts_are_def id_write_store)
  have o: "accts_are a w1 \<Longrightarrow> accts_are a (snd (id_write w1 (id_EndOpenedBy (ad_ops d) (iw_store w1) i now)))" for w1 i now
    using only_EndOpenedBy by (auto simp: accts_are_def id_write_store)
  show ?thesis unfolding revokeSessions_def endOpenedBy_def Let_def ad_ops_def [symmetric]
    by (auto intro!: accts_bind accts_us_record accts_record_opened e o dest!: k split: prod.split sum.split)
qed

end

lemma changePassword_stored:
  assumes "changePassword (on_memory uni foldeq d0) w acc inp = (Inr (), w')"
  shows "\<exists>hash a. ad_Hash d0 (pc_NewPassword inp) = Inr hash \<and> fmlookup (ma_rows (mi_accounts (iw_store w'))) (ac_ID acc) = Some a
    \<and> ac_PasswordHash a = hash"
proof -
  let ?d = "on_memory uni foldeq d0"
  obtain w2 w3 w4 hash p c where st: "log_change (ad_ops ?d) w c = (Inr (), w2)" "ad_Hash ?d (pc_NewPassword inp) = Inr hash"
    "stored_write w2 (id_SetPasswordHash (ad_ops ?d) (iw_store w2) (ac_ID acc) hash) = (Inr (), w3)"
    "revokeSessions (ad_Users ?d) w3 \<lparr>rv_AccountID = ac_ID acc, rv_KeepToken = pc_KeepToken inp, rv_ActorID = 0,
      rv_Reason = Some EndedPasswordChanged\<rparr> = (Inr p, w4)" and w': "iw_store w' = iw_store w4"
    using assms by (auto simp: changePassword_def st_bind_Inr_iff split: sum.splits if_splits dest!: mem.within_Inr)
  have "mi_accounts (iw_store w4) = mi_accounts (iw_store w3)"
    using mem.accts_revokeSessions [of "mi_accounts (iw_store w3)" w3 uni foldeq d0] st(4) by (metis mem.accts_are_def snd_conv)
  moreover have "\<exists>a. fmlookup (ma_rows (mi_accounts (iw_store w3))) (ac_ID acc) = Some a \<and> ac_PasswordHash a = hash"
    using st(3) by (auto simp: mem_id_ops_def on_accounts_def ma_SetPasswordHash_def ma_update_def stored_write_def
        split: prod.splits sum.splits option.splits)
  ultimately show ?thesis using st(2) w' by (auto simp: on_memory_def)
qed

lemma changePassword_checked:
  assumes "changePassword d w acc inp = (Inr (), w')"
  shows "ad_Policy d (pc_NewPassword inp) = [] \<and> pc_NewPassword inp = pc_Confirmation inp
    \<and> \<not> sg_Matches (ad_Users d) (ac_PasswordHash acc) (pc_NewPassword inp)"
  using assms by (auto simp: changePassword_def checkPassword_def Let_def split: sum.splits if_splits)

lemma ChangePassword_steps:
  assumes "ChangePassword p mw pw inp = (Inr (), pw')"
  obtains acc counted rw where "users_Get (ad_Users (pf_ad p)) (pw_id pw) (pc_AccountID inp) = Inr acc"
    "counted_attempt (pf_Reauth p) (mw_count mw) (pw_reauth pw) (ac_ID acc) counted rw"
    "re_Matches (pf_Reauth p) (ac_PasswordHash acc) (pc_CurrentPassword inp)"
    "reauth_succeed (pf_Reauth p) (mw_clear mw) (rw\<lparr>rw_store := mw_match mw (rw_store rw)\<rparr>) (ac_ID acc) = (Inr (), pw_reauth pw')"
    "changePassword (pf_ad p) (mw_id mw (pw_id pw)) acc inp = (Inr (), pw_id pw')"
proof -
  obtain acc pw1 where a: "users_Get (ad_Users (pf_ad p)) (pw_id pw) (pc_AccountID inp) = Inr acc"
    "profile_confirm p mw pw acc (pc_CurrentPassword inp) = (Inr (), pw1)"
    "on_id (\<lambda>w. changePassword (pf_ad p) w acc inp) (id_meanwhile mw pw1) = (Inr (), pw')"
    using assms by (auto simp: ChangePassword_def st_bind_Inr_iff split: sum.splits)
  have "Confirm (pf_Reauth p) (mw_count mw) (mw_match mw) (mw_clear mw) (pw_reauth pw) (ac_ID acc) (ac_PasswordHash acc) (pc_CurrentPassword inp)
      = (Inr (), pw_reauth pw1)" "pw_id pw1 = pw_id pw"
    using a(2) by (auto simp: profile_confirm_def split: prod.splits sum.splits)
  moreover have "pw_reauth pw' = pw_reauth pw1" "changePassword (pf_ad p) (mw_id mw (pw_id pw1)) acc inp = (Inr (), pw_id pw')"
    using a(3) by (auto simp: on_id_def id_meanwhile_def split: prod.splits)
  ultimately show thesis using that [OF a(1)] Confirm_steps by metis
qed

lemma confirmedEmail_stored:
  assumes "confirmedEmail (on_memory uni foldeq d0) w acc email = (Inr (), w')"
  shows "\<exists>a. fmlookup (ma_rows (mi_accounts (iw_store w))) (ac_ID acc) = Some a
    \<and> ma_rows (mi_accounts (iw_store w')) = fmupd (ac_ID acc) (a\<lparr>ac_Email := NormalizeEmail uni email\<rparr>) (ma_rows (mi_accounts (iw_store w)))"
proof -
  let ?d = "on_memory uni foldeq d0" and ?chg = "\<lparr>chg_Login = None, chg_Email = Some email, chg_Name = None, chg_Phone = None, chg_Locale = None\<rparr>"
  obtain w2 w3 c where st: "stored_write w (id_Update (ad_ops ?d) (iw_store w) (ac_ID acc) ?chg) = (Inr (), w2)"
    "log_change (ad_ops ?d) w2 c = (Inr (), w3)" and w': "iw_store w' = iw_store w3"
    using assms by (auto simp: confirmedEmail_def st_bind_Inr_iff split: sum.splits dest!: mem.within_Inr)
  have "mi_accounts (iw_store w3) = mi_accounts (iw_store w2)" using st(2) by (auto simp: log_change_def mem_id_ops_def)
  then show ?thesis using st(1) w'
    by (auto simp: mem_id_ops_def on_accounts_def ma_Update_def set_field_def stored_write_def Let_def split: prod.splits sum.splits option.splits if_splits)
qed

lemma ConfirmEmailChange_steps:
  assumes "ConfirmEmailChange p mw pw i typed = (Inr view, pw')" "pf_Codes p = Some c"
  obtains acc email cw where "users_Get (ad_Users (pf_ad p)) (pw_id pw) i = Inr acc" "length (only_digits typed) = CodeLength"
    "Verify c (mw_verify mw) (pw_codes pw) (ac_ID acc) PurposeEmailChange (only_digits typed) = (Inr email, cw)"
    "confirmedEmail (pf_ad p) (mw_id mw (pw_id pw)) acc email = (Inr (), pw_id pw')" "cw_store (pw_codes pw') = cw_store cw"
proof -
  obtain acc email cw pw1 where a: "users_Get (ad_Users (pf_ad p)) (pw_id pw) i = Inr acc" "length (only_digits typed) = CodeLength"
    "Verify c (mw_verify mw) (pw_codes pw) (ac_ID acc) PurposeEmailChange (only_digits typed) = (Inr email, cw)"
    "on_id (\<lambda>w. confirmedEmail (pf_ad p) w acc email) (id_meanwhile mw (pw\<lparr>pw_codes := cw\<rparr>)) = (Inr (), pw1)"
    "profile_Get p pw1 (ac_ID acc) = (Inr view, pw')"
    using assms by (auto simp: ConfirmEmailChange_def Let_def st_bind_Inr_iff split: sum.splits if_splits prod.splits)
  have "pw_id pw' = pw_id pw1" "cw_store (pw_codes pw') = cw_store (pw_codes pw1)"
    using a(5) assms(2) by (auto simp: profile_Get_def codes_Pending_def ctick_def split: sum.splits prod.splits)
  moreover have "confirmedEmail (pf_ad p) (mw_id mw (pw_id pw)) acc email = (Inr (), pw_id pw1)" "pw_codes pw1 = cw"
    using a(4) by (auto simp: on_id_def id_meanwhile_def split: prod.splits)
  ultimately show thesis using that a(1-3) by simp
qed

section \<open>A person's requests\<close>

definition demo_profile :: "(mem_identity, mem_codes, mem_reauth) profile" where
  "demo_profile = \<lparr>pf_ad = demo_mem, pf_Reauth = demo_reauth, pf_Codes = Some demo_codes\<rparr>"

definition alone :: "(mem_identity, mem_codes, mem_reauth) meanwhile" where
  "alone = \<lparr>mw_count = (\<lambda>_ s. s), mw_match = (\<lambda>s. s), mw_clear = (\<lambda>_ s. s), mw_verify = (\<lambda>_ s. s), mw_id = (\<lambda>w. w)\<rparr>"

definition demo_email_issue :: issue_code where
  "demo_email_issue = demo_issue\<lparr>ic_AccountID := 1\<rparr>"

definition demo_pworld :: "(mem_identity, mem_codes, mem_reauth) pworld" where
  "demo_pworld = \<lparr>pw_id = demo_world, pw_codes = snd (codes_Issue demo_codes demo_cworld demo_email_issue), pw_reauth = demo_rworld\<rparr>"

definition demo_new_password :: password_change where
  "demo_new_password = \<lparr>pc_AccountID = 1, pc_CurrentPassword = ''pw'', pc_NewPassword = ''new'', pc_Confirmation = ''new'', pc_KeepToken = []\<rparr>"

lemma demo_email_run:
  "(code_step demo_codes)\<^sup>*\<^sup>* \<lparr>ks_world = demo_cworld, ks_flight = [], ks_log = []\<rparr> \<lparr>ks_world = pw_codes demo_pworld, ks_flight = [], ks_log = []\<rparr>"
proof -
  have "codes_Issue demo_codes (ks_world \<lparr>ks_world = demo_cworld, ks_flight = [], ks_log = []\<rparr>) demo_email_issue
      = (fst (codes_Issue demo_codes demo_cworld demo_email_issue), pw_codes demo_pworld)" by (simp add: demo_pworld_def)
  from code_issued [OF this] show ?thesis by simp
qed

section \<open>The properties\<close>

text \<open>
  C18: Changing one's own password. When it succeeds, the re-confirmation read a count of attempts that was not locked and wrote
  one attempt more over it, before the current password was compared with the account's hash, which it matched, and the count was
  cleared; the new password satisfies the policy, equals its confirmation and is not the old one; and its hash is what the account now
  has. Whatever other requests did meanwhile and whatever the services do afterwards, no session of the account other than the one that
  asked (nor any the account opened as somebody else) authenticates any more.
\<close>

theorem ChangePassword_safe:
  assumes "pf_ad p = on_memory uni foldeq d0" "accounts_ok (mi_accounts (iw_store (pw_id pw)))"
    and "ChangePassword p mw pw inp = (Inr (), pw')" "w = mw_id mw (pw_id pw)"
    and "mono (iw_clock w)" "accounts_ok (mi_accounts (iw_store w))" "sessions_ok (mi_sessions (iw_store w))"
  shows "(\<exists>acc counted rw. users_Get (ad_Users (pf_ad p)) (pw_id pw) (pc_AccountID inp) = Inr acc
        \<and> counted_attempt (pf_Reauth p) (mw_count mw) (pw_reauth pw) (pc_AccountID inp) counted rw
        \<and> re_Matches (pf_Reauth p) (ac_PasswordHash acc) (pc_CurrentPassword inp)
        \<and> reauth_succeed (pf_Reauth p) (mw_clear mw) (rw\<lparr>rw_store := mw_match mw (rw_store rw)\<rparr>) (pc_AccountID inp) = (Inr (), pw_reauth pw')
        \<and> \<not> sg_Matches (ad_Users (pf_ad p)) (ac_PasswordHash acc) (pc_NewPassword inp))
    \<and> ad_Policy (pf_ad p) (pc_NewPassword inp) = [] \<and> pc_NewPassword inp = pc_Confirmation inp
    \<and> (\<exists>hash a. ad_Hash d0 (pc_NewPassword inp) = Inr hash
        \<and> fmlookup (ma_rows (mi_accounts (iw_store (pw_id pw')))) (pc_AccountID inp) = Some a \<and> ac_PasswordHash a = hash)
    \<and> (\<forall>token now x may w''. ss_Get (mi_sessions (iw_store w)) token now = Inr x
        \<longrightarrow> (pc_AccountID inp = se_ActorID x \<or> pc_AccountID inp = se_AccountID x
          \<and> (\<forall>now y. ss_Get (mi_sessions (iw_store w)) (pc_KeepToken inp) now = Inr y \<longrightarrow> se_ID y \<noteq> se_ID x))
        \<longrightarrow> (service_step (pf_ad p) may)\<^sup>*\<^sup>* (pw_id pw') w'' \<longrightarrow> fst (Authenticate (ad_Users (pf_ad p)) w'' token) = Inl sessionInvalid)"
proof -
  obtain acc counted rw where acc: "users_Get (ad_Users (pf_ad p)) (pw_id pw) (pc_AccountID inp) = Inr acc"
    and confirmed: "counted_attempt (pf_Reauth p) (mw_count mw) (pw_reauth pw) (ac_ID acc) counted rw"
      "re_Matches (pf_Reauth p) (ac_PasswordHash acc) (pc_CurrentPassword inp)"
      "reauth_succeed (pf_Reauth p) (mw_clear mw) (rw\<lparr>rw_store := mw_match mw (rw_store rw)\<rparr>) (ac_ID acc) = (Inr (), pw_reauth pw')"
    and change: "changePassword (pf_ad p) w acc inp = (Inr (), pw_id pw')"
    using ChangePassword_steps [OF assms(3)] unfolding assms(4) by blast
  have id: "ac_ID acc = pc_AccountID inp"
    using acc assms(1,2) by (auto simp: users_Get_def on_memory_def mem_id_ops_def ma_Find_Inr accounts_ok_def split: sum.splits)
  have s: "mem.sound w" using assms(5-7) by (simp add: mem.sound_def)
  have g: "id_Get (ad_ops (on_memory uni foldeq d0)) st k n = ss_Get (mi_sessions st) k n" for st k n by (simp add: mem_id_ops_def)
  have ended: "fst (Authenticate (ad_Users (pf_ad p)) w'' token) = Inl sessionInvalid"
    if x: "ss_Get (mi_sessions (iw_store w)) token now = Inr x"
      and other: "pc_AccountID inp = se_ActorID x \<or> pc_AccountID inp = se_AccountID x
        \<and> (\<forall>now y. ss_Get (mi_sessions (iw_store w)) (pc_KeepToken inp) now = Inr y \<longrightarrow> se_ID y \<noteq> se_ID x)"
      and run: "(service_step (pf_ad p) may)\<^sup>*\<^sup>* (pw_id pw') w''" for token now x may w''
  proof -
    have "mem.dead token (pw_id pw')"
      using mem.changePassword_dead [OF s, of uni foldeq d0 acc inp "pw_id pw'" token now x] change assms(1) x other id unfolding g by simp
    then show ?thesis
      using mem.dead_run [of uni foldeq d0 may "pw_id pw'" w'' token] mem.dead_Authenticate assms(1) run by metis
  qed
  show ?thesis
  proof (intro conjI)
    show "\<exists>acc counted rw. users_Get (ad_Users (pf_ad p)) (pw_id pw) (pc_AccountID inp) = Inr acc
        \<and> counted_attempt (pf_Reauth p) (mw_count mw) (pw_reauth pw) (pc_AccountID inp) counted rw
        \<and> re_Matches (pf_Reauth p) (ac_PasswordHash acc) (pc_CurrentPassword inp)
        \<and> reauth_succeed (pf_Reauth p) (mw_clear mw) (rw\<lparr>rw_store := mw_match mw (rw_store rw)\<rparr>) (pc_AccountID inp) = (Inr (), pw_reauth pw')
        \<and> \<not> sg_Matches (ad_Users (pf_ad p)) (ac_PasswordHash acc) (pc_NewPassword inp)"
      using acc confirmed changePassword_checked [OF change] unfolding id by blast
    show "ad_Policy (pf_ad p) (pc_NewPassword inp) = []" "pc_NewPassword inp = pc_Confirmation inp"
      using changePassword_checked [OF change] by blast+
    show "\<exists>hash a. ad_Hash d0 (pc_NewPassword inp) = Inr hash
        \<and> fmlookup (ma_rows (mi_accounts (iw_store (pw_id pw')))) (pc_AccountID inp) = Some a \<and> ac_PasswordHash a = hash"
      using changePassword_stored [of uni foldeq d0 w acc inp "pw_id pw'"] change assms(1) id by simp
  qed (use ended in blast)
qed

theorem ChangePassword_safe_witness:
  "fst (ChangePassword demo_profile alone demo_pworld demo_new_password) = Inr ()
   \<and> fst (Authenticate (ad_Users demo_mem) (pw_id (snd (ChangePassword demo_profile alone demo_pworld demo_new_password))) ''t'') = Inl sessionInvalid"
proof -
  let ?r = "ChangePassword demo_profile alone demo_pworld demo_new_password"
  let ?x = "sr_Session (hd (ms_rows (mi_sessions demo_store)))"
  have ok: "fst ?r = Inr ()" "ss_Get (mi_sessions (iw_store demo_world)) ''t'' 0 = Inr ?x" "se_AccountID ?x = 1" by code_simp+
  have keep: "ss_Get (mi_sessions (iw_store demo_world)) [] now \<noteq> Inr y" for now y
    by (simp add: demo_world_def demo_store_def ss_Get_def opened_def)
  have demo: "pf_ad demo_profile = on_memory id (=) demo_admin" "accounts_ok (mi_accounts (iw_store (pw_id demo_pworld)))"
    "ChangePassword demo_profile alone demo_pworld demo_new_password = (Inr (), snd ?r)" "demo_world = mw_id alone (pw_id demo_pworld)"
    using ok(1) demo_ok by (simp_all add: demo_profile_def demo_mem_def demo_pworld_def alone_def prod_eq_iff)
  have x: "pc_AccountID demo_new_password = se_AccountID ?x" "pc_KeepToken demo_new_password = []"
    using ok(3) by (simp_all add: demo_new_password_def)
  note safe = ChangePassword_safe [OF demo demo_ok]
  have "fst (Authenticate (ad_Users (pf_ad demo_profile)) (pw_id (snd ?r)) ''t'') = Inl sessionInvalid"
    using safe ok(2) keep x rtranclp.rtrancl_refl [where r = "service_step (pf_ad demo_profile) (\<lambda>_. True)" and a = "pw_id (snd ?r)"] by metis
  then show ?thesis using ok(1) by (simp add: demo_profile_def)
qed

text \<open>
  C19: An address is changed by its code alone. In any reachable state of the codes, and whatever verifications other requests
  save meanwhile, when confirming an address succeeds there is a code that was issued to this account for an e-mail
  change, whose digits are the ones that were typed and which is now consumed; and all that changed among the accounts is
  that this one has the address the code was sent to.
\<close>

theorem ConfirmEmailChange_safe:
  assumes "pf_ad p = on_memory uni foldeq d0" "accounts_ok (mi_accounts (iw_store (pw_id pw)))" "pf_Codes p = Some c"
    and "cs_ops c = mem_code_ops" "cs_rules c = rules_withDefaults rules" "cw_store v = NewCodes_mem"
    and "(code_step c)\<^sup>*\<^sup>* \<lparr>ks_world = v, ks_flight = [], ks_log = []\<rparr> k" "pw_codes pw = ks_world k"
    and "\<forall>n s. (guessed c)\<^sup>*\<^sup>* s (mw_verify mw n s)"
    and "ConfirmEmailChange p mw pw i typed = (Inr view, pw')" "w = mw_id mw (pw_id pw)"
  shows "\<exists>code \<in> set (mc_rows (cw_store (pw_codes pw'))). \<exists>a.
    co_AccountID code = i \<and> co_Purpose code = PurposeEmailChange \<and> co_ConsumedAt code \<noteq> None
    \<and> co_Hash code = code_hash c i PurposeEmailChange (only_digits typed) \<and> length (only_digits typed) = CodeLength
    \<and> fmlookup (ma_rows (mi_accounts (iw_store w))) i = Some a
    \<and> ma_rows (mi_accounts (iw_store (pw_id pw'))) = fmupd i (a\<lparr>ac_Email := NormalizeEmail uni (co_Target code)\<rparr>) (ma_rows (mi_accounts (iw_store w)))"
proof -
  obtain acc email cw where s: "users_Get (ad_Users (pf_ad p)) (pw_id pw) i = Inr acc" "length (only_digits typed) = CodeLength"
    "Verify c (mw_verify mw) (pw_codes pw) (ac_ID acc) PurposeEmailChange (only_digits typed) = (Inr email, cw)"
    "confirmedEmail (pf_ad p) w acc email = (Inr (), pw_id pw')" "cw_store (pw_codes pw') = cw_store cw"
    using ConfirmEmailChange_steps [OF assms(10,3)] unfolding assms(11) by blast
  have id: "ac_ID acc = i"
    using s(1) assms(1,2) by (auto simp: users_Get_def on_memory_def mem_id_ops_def ma_Find_Inr accounts_ok_def split: sum.splits)
  have "verified c i PurposeEmailChange (only_digits typed) (Inr email) (cw_store cw)"
    using Verify_verified [OF assms(4-7,9), of i PurposeEmailChange "only_digits typed"] s(3) assms(8) id by simp
  then obtain code where "code \<in> set (mc_rows (cw_store cw))" "co_AccountID code = i" "co_Purpose code = PurposeEmailChange"
    "co_Target code = email" "co_Hash code = code_hash c i PurposeEmailChange (only_digits typed)" "co_ConsumedAt code \<noteq> None"
    by (auto simp: verified_def)
  then show ?thesis using confirmedEmail_stored [of uni foldeq d0 w acc email "pw_id pw'"] s assms(1) id by auto
qed

theorem ConfirmEmailChange_safe_witness:
  "is_ok (fst (ConfirmEmailChange demo_profile alone demo_pworld 1 ''000-042''))
   \<and> (\<exists>(code :: otp) (a :: account). co_AccountID code = 1 \<and> co_ConsumedAt code \<noteq> None
     \<and> ma_rows (mi_accounts (iw_store (pw_id (snd (ConfirmEmailChange demo_profile alone demo_pworld 1 ''000-042'')))))
       = fmupd 1 (a\<lparr>ac_Email := NormalizeEmail id (co_Target code)\<rparr>) (ma_rows (mi_accounts demo_store)))"
proof -
  let ?r = "ConfirmEmailChange demo_profile alone demo_pworld 1 ''000-042''"
  have ok: "is_ok (fst ?r)" by code_simp
  then obtain view where "fst ?r = Inr view" by (cases "fst ?r") auto
  then have r: "ConfirmEmailChange demo_profile alone demo_pworld 1 ''000-042'' = (Inr view, snd ?r)" by (simp add: prod_eq_iff)
  have d: "pf_ad demo_profile = on_memory id (=) demo_admin" "accounts_ok (mi_accounts (iw_store (pw_id demo_pworld)))"
    "pf_Codes demo_profile = Some demo_codes" "cs_ops demo_codes = mem_code_ops" "cw_store demo_cworld = NewCodes_mem"
    "cs_rules demo_codes = rules_withDefaults \<lparr>cr_TTL = 0, cr_Attempts = 2, cr_Cooldown = 0, cr_PerHour = 0\<rparr>"
    "pw_codes demo_pworld = ks_world \<lparr>ks_world = pw_codes demo_pworld, ks_flight = [], ks_log = []\<rparr>"
    "\<forall>n s. (guessed demo_codes)\<^sup>*\<^sup>* s (mw_verify alone n s)" "demo_world = mw_id alone (pw_id demo_pworld)"
    using demo_ok by (simp_all add: demo_profile_def demo_mem_def demo_pworld_def demo_codes_def demo_cworld_def alone_def)
  have store: "iw_store demo_world = demo_store" by (simp add: demo_world_def)
  from ConfirmEmailChange_safe [OF d(1-4,6,5) demo_email_run d(7,8) r d(9)] show ?thesis unfolding store
    by (elim bexE exE conjE) (intro conjI exI, rule ok, assumption+)
qed

end
