(* ===== verification/Navigation.thy ===== *)
theory Navigation
  imports GoText Apperr
begin

text \<open>
  The menu of \<^verbatim>\<open>navigation/navigation.go\<close>: the tree an application declares, its check, and the filter
  that cuts it down to what one person may reach. \<^verbatim>\<open>url.Parse\<close> is the parameter \<open>parse\<close>: the scheme
  and the host of a text it accepts.

  The filter is compared with a reading of its rules as an inductive predicate (\<open>seen\<close>), and what that gives
  for the menu as a whole is stated over paths: the ways from the top of a menu to one of its nodes.
\<close>

section \<open>The menu and its check\<close>

datatype node =
  Node (nd_I18n: string) (nd_Icon: string) (nd_Route: string) (nd_Href: string) (nd_Children: "node list")
    (nd_Permissions: "string list") (nd_Gate: "string list") (nd_Requires: "string list")

definition ErrInvalid_node :: string where "ErrInvalid_node = ''invalid navigation node''"

definition validHref :: "(string \<Rightarrow> (string \<times> string) option) \<Rightarrow> string \<Rightarrow> bool" where
  "validHref parse href =
     (if has_prefix ''/'' href
      then \<not> has_prefix ''//'' href \<and> \<not> has_prefix [CHR ''/'', CHR 0x5C] href \<and> \<not> list_ex (\<lambda>c. c \<in> set [CHR 0x0D, CHR 0x0A, CHR 0x09]) href
      else case parse href of None \<Rightarrow> False | Some (scheme, host) \<Rightarrow> (scheme = ''http'' \<or> scheme = ''https'') \<and> host \<noteq> [])"

fun nav_Validate :: "(string \<Rightarrow> (string \<times> string) option) \<Rightarrow> node list \<Rightarrow> unit result" where
  "nav_Validate parse [] = Inr ()"
| "nav_Validate parse (Node i18n icon route href children permissions gate requires # nodes) =
     (if route \<noteq> [] \<and> href \<noteq> [] then Inl (sentinel_with ErrInvalid_node (go_quote i18n @ '' has both route and href''))
      else if href \<noteq> [] \<and> \<not> validHref parse href
      then Inl (sentinel_with ErrInvalid_node (go_quote i18n @ '' has href '' @ go_quote href @ '', which is neither a path nor an http(s) URL''))
      else case nav_Validate parse children of Inl e \<Rightarrow> Inl e | Inr _ \<Rightarrow> nav_Validate parse nodes)"

section \<open>The filter\<close>

fun holdsAll_of :: "string list \<Rightarrow> (string \<Rightarrow> bool) \<Rightarrow> bool" where
  "holdsAll_of [] held = True"
| "holdsAll_of (p # required) held = (if \<not> held p then False else holdsAll_of required held)"

fun holdsOne :: "string list \<Rightarrow> (string \<Rightarrow> bool) \<Rightarrow> bool" where
  "holdsOne [] held = False"
| "holdsOne (p # permissions) held = (if held p then True else holdsOne permissions held)"

definition Held :: "string list \<Rightarrow> string \<Rightarrow> bool" where
  "Held permissions p = (p \<in> set permissions)"

fun nav_Filter :: "node list \<Rightarrow> (string \<Rightarrow> bool) \<Rightarrow> node list" where
  "nav_Filter [] held = []"
| "nav_Filter (Node i18n icon route href children permissions gate requires # nodes) held =
     (if \<not> holdsAll_of requires held then nav_Filter nodes held
      else
        let children' = nav_Filter children held; n = Node i18n icon route href children' permissions gate requires in
        if children' \<noteq> [] then n # nav_Filter nodes held
        else if permissions \<noteq> [] \<or> gate \<noteq> []
        then (if holdsOne permissions held \<or> holdsOne gate held then n # nav_Filter nodes held else nav_Filter nodes held)
        else if children \<noteq> [] then nav_Filter nodes held
        else n # nav_Filter nodes held)"

lemma holdsAll_of_iff [simp]: "holdsAll_of required held \<longleftrightarrow> (\<forall>p \<in> set required. held p)"
  by (induction required) auto

lemma holdsOne_iff [simp]: "holdsOne permissions held \<longleftrightarrow> (\<exists>p \<in> set permissions. held p)"
  by (induction permissions) auto

section \<open>Who sees a node\<close>

text \<open>
  With everything it requires held, a node is seen on the way to a child that is, for one of its permissions or gates, or as
  a plain link.
\<close>

inductive seen :: "(string \<Rightarrow> bool) \<Rightarrow> node \<Rightarrow> bool" for held where
  on_the_way: "\<forall>p \<in> set (nd_Requires n). held p \<Longrightarrow> m \<in> set (nd_Children n) \<Longrightarrow> seen held m \<Longrightarrow> seen held n"
| permitted: "\<forall>p \<in> set (nd_Requires n). held p \<Longrightarrow> p \<in> set (nd_Permissions n) \<union> set (nd_Gate n) \<Longrightarrow> held p \<Longrightarrow> seen held n"
| plain_link: "\<forall>p \<in> set (nd_Requires n). held p \<Longrightarrow> nd_Permissions n = [] \<Longrightarrow> nd_Gate n = [] \<Longrightarrow> nd_Children n = [] \<Longrightarrow> seen held n"

inductive_simps seen_Node: "seen held (Node i18n icon route href children permissions gate requires)"

lemma seen_requires: "seen held n \<Longrightarrow> \<forall>p \<in> set (nd_Requires n). held p"
  by (induction rule: seen.induct) auto

lemma seen_mono: "seen held n \<Longrightarrow> (\<And>p. held p \<Longrightarrow> held' p) \<Longrightarrow> seen held' n"
  by (induction rule: seen.induct) (blast intro: seen.intros)+

text \<open>A node with other children.\<close>

definition with_children :: "node list \<Rightarrow> node \<Rightarrow> node" where
  "with_children ms n = Node (nd_I18n n) (nd_Icon n) (nd_Route n) (nd_Href n) ms (nd_Permissions n) (nd_Gate n) (nd_Requires n)"

lemma Filter_seen: "nav_Filter nodes held = map (\<lambda>n. with_children (nav_Filter (nd_Children n) held) n) (filter (seen held) nodes)"
proof (induction nodes held rule: nav_Filter.induct)
  case (2 i18n icon route href children permissions gate requires nodes held)
  let ?n = "Node i18n icon route href children permissions gate requires"
  show ?case
  proof (cases "\<forall>p \<in> set requires. held p")
    case False
    then have "\<not> seen held ?n" using seen_requires by fastforce
    then show ?thesis using False "2.IH"(1) by (simp add: holdsAll_of_iff)
  next
    case True
    have children: "nav_Filter children held \<noteq> [] \<longleftrightarrow> (\<exists>m \<in> set children. seen held m)"
      using "2.IH"(2) True by (auto simp: filter_empty_conv)
    have "seen held ?n \<longleftrightarrow> nav_Filter children held \<noteq> [] \<or> (\<exists>p \<in> set permissions \<union> set gate. held p)
        \<or> permissions = [] \<and> gate = [] \<and> children = []"
      unfolding children using True by (auto simp: seen_Node)
    then show ?thesis using True "2.IH"(3-) by (auto simp: Let_def with_children_def)
  qed
qed simp

section \<open>Paths\<close>

text \<open>The ways into a menu: a node at the top, or a path of the children of one. A node without its children is its bare form.\<close>

inductive path :: "node list \<Rightarrow> node list \<Rightarrow> bool" where
  path_top: "n \<in> set nodes \<Longrightarrow> path nodes [n]"
| path_below: "n \<in> set nodes \<Longrightarrow> path (nd_Children n) p \<Longrightarrow> path nodes (n # p)"

inductive_simps path_Cons: "path nodes (n # p)"
inductive_cases path_Nil: "path nodes []"

abbreviation bare :: "node \<Rightarrow> node" where "bare n \<equiv> with_children [] n"

lemma bare_with_children [simp]: "bare (with_children ms n) = bare n" by (simp add: with_children_def)

lemma nd_Children_with [simp]: "nd_Children (with_children ms n) = ms" by (simp add: with_children_def)

lemma path_filtered: "path (nav_Filter nodes held) q \<Longrightarrow> \<exists>p. path nodes p \<and> map bare p = map bare q \<and> (\<forall>n \<in> set p. seen held n)"
proof (induction q arbitrary: nodes)
  case (Cons m q)
  then obtain n where n: "n \<in> set nodes" "seen held n" "m = with_children (nav_Filter (nd_Children n) held) n"
    by (auto simp: path_Cons Filter_seen [of nodes])
  show ?case
  proof (cases q)
    case Nil
    then show ?thesis using n by (intro exI [of _ "[n]"]) (simp add: path_top)
  next
    case (Cons m' q')
    then have "path (nav_Filter (nd_Children n) held) q" using Cons.prems n(3) by (simp add: path_Cons)
    then obtain p where "path (nd_Children n) p" "map bare p = map bare q" "\<forall>n \<in> set p. seen held n" using Cons.IH by blast
    then show ?thesis using n by (intro exI [of _ "n # p"]) (simp add: path_below)
  qed
qed (auto elim: path_Nil)

lemma path_kept: "path nodes p \<Longrightarrow> \<forall>n \<in> set p. seen held n \<Longrightarrow> \<exists>q. path (nav_Filter nodes held) q \<and> map bare q = map bare p"
proof (induction rule: path.induct)
  case (path_top n nodes)
  then show ?case by (intro exI [of _ "[with_children (nav_Filter (nd_Children n) held) n]"]) (auto simp: Filter_seen [of nodes] intro: path.path_top)
next
  case (path_below n nodes p)
  then obtain q where "path (nav_Filter (nd_Children n) held) q" "map bare q = map bare p" by auto
  then show ?case using path_below
    by (intro exI [of _ "with_children (nav_Filter (nd_Children n) held) n # q"]) (auto simp: Filter_seen [of nodes] intro!: path.path_below)
qed

lemma path_seen:
  "path nodes p \<Longrightarrow> \<forall>n \<in> set p. \<forall>r \<in> set (nd_Requires n). held r \<Longrightarrow> seen held (last p) \<Longrightarrow> \<forall>n \<in> set p. seen held n"
proof (induction rule: path.induct)
  case (path_below n nodes p)
  then have p: "\<forall>n \<in> set p. seen held n" by (auto elim: path_Nil split: if_splits)
  obtain m p' where m: "p = m # p'" using path_below(2) by (cases p) (auto elim: path_Nil)
  then have "m \<in> set (nd_Children n)" using path_below(2) by (auto simp: path_Cons)
  then have "seen held n" using p m path_below.prems(1) by (intro on_the_way [of n held m]) auto
  then show ?case using p by simp
qed simp

lemma path_last: "path nodes p \<Longrightarrow> last p \<in> set p"
  by (cases p) (auto elim: path_Nil)

text \<open>What the check asks of a node, which its children do not change.\<close>

definition link_ok :: "(string \<Rightarrow> (string \<times> string) option) \<Rightarrow> node \<Rightarrow> bool" where
  "link_ok parse n \<longleftrightarrow> (nd_Route n = [] \<or> nd_Href n = []) \<and> (nd_Href n = [] \<or> validHref parse (nd_Href n))"

lemma link_ok_bare: "bare n = bare m \<Longrightarrow> link_ok parse n = link_ok parse m"
  by (simp add: with_children_def link_ok_def)

lemma all_paths_Cons:
  "(\<forall>p. path (n # nodes) p \<longrightarrow> P (last p)) \<longleftrightarrow>
     P n \<and> (\<forall>p. path (nd_Children n) p \<longrightarrow> P (last p)) \<and> (\<forall>p. path nodes p \<longrightarrow> P (last p))"
proof -
  have below: "path ms p \<Longrightarrow> last (n # p) = last p" for ms p by (cases p) (auto elim: path_Nil)
  have "path (n # nodes) p \<longleftrightarrow> p = [n] \<or> (\<exists>p'. p = n # p' \<and> path (nd_Children n) p') \<or> path nodes p" for p
    by (cases p) (auto simp: path_Cons elim: path_Nil)
  then show ?thesis using below by (metis last.simps)
qed

lemma Validate_paths: "nav_Validate parse nodes = Inr () \<longleftrightarrow> (\<forall>p. path nodes p \<longrightarrow> link_ok parse (last p))"
proof (induction parse nodes rule: nav_Validate.induct)
  case (1 parse)
  then show ?case by (auto elim: path.cases)
next
  case (2 parse i18n icon route href children permissions gate requires nodes)
  let ?n = "Node i18n icon route href children permissions gate requires"
  show ?case
  proof (cases "link_ok parse ?n")
    case True
    then have "\<not> (route \<noteq> [] \<and> href \<noteq> [])" "\<not> (href \<noteq> [] \<and> \<not> validHref parse href)" by (auto simp: link_ok_def)
    then show ?thesis using "2.IH" True by (subst all_paths_Cons) (auto split: sum.splits)
  next
    case False
    then show ?thesis by (subst all_paths_Cons) (auto simp: link_ok_def)
  qed
qed

lemma Validate_invalid: "nav_Validate parse nodes = Inl e \<Longrightarrow> errors_Is e ErrInvalid_node"
  by (induction parse nodes rule: nav_Validate.induct) (auto split: if_splits sum.splits)

section \<open>The properties\<close>

text \<open>
  C22: The filtered menu is exactly what the person may reach. A way into the filtered menu, read without the children of
  its nodes, is a way into the declared one on which everything required is held and whose last node is seen: it leads on to
  one that is, or one of its permissions or gates is held, or it is a plain link with no conditions. Nothing else is
  shown and nothing that may be shown is lost, and holding more never shows less.
\<close>

theorem Filter_paths:
  "((\<exists>q. path (nav_Filter nodes held) q \<and> map bare q = hs) \<longleftrightarrow>
      (\<exists>p. path nodes p \<and> map bare p = hs \<and> (\<forall>n \<in> set p. \<forall>r \<in> set (nd_Requires n). held r) \<and> seen held (last p)))
   \<and> ((\<forall>p. held p \<longrightarrow> held' p) \<longrightarrow> path (nav_Filter nodes held) q \<longrightarrow> (\<exists>q'. path (nav_Filter nodes held') q' \<and> map bare q' = map bare q))"
proof (intro conjI impI)
  show "(\<exists>q. path (nav_Filter nodes held) q \<and> map bare q = hs) \<longleftrightarrow>
      (\<exists>p. path nodes p \<and> map bare p = hs \<and> (\<forall>n \<in> set p. \<forall>r \<in> set (nd_Requires n). held r) \<and> seen held (last p))"
    using path_filtered [of nodes held] path_kept [of nodes _ held] path_seen [of nodes _ held] seen_requires path_last by metis
  show "\<exists>q'. path (nav_Filter nodes held') q' \<and> map bare q' = map bare q" if "\<forall>p. held p \<longrightarrow> held' p" "path (nav_Filter nodes held) q"
    using path_filtered [OF that(2)] path_kept [of nodes _ held'] seen_mono [of held _ held'] that(1) by metis
qed

definition demo_menu :: "node list" where
  "demo_menu = [Node ''nav.tickets'' [] ''tickets.index'' [] [] [''tickets.ticket:view''] [] [],
     Node ''nav.admin'' [] [] [] [Node ''nav.roles'' [] ''roles.index'' [] [] [''access.role:view''] [] []] [] [] [],
     Node ''nav.legacy'' [] [] ''/admin-legacy/pages'' [] [] [] []]"

theorem Filter_paths_witness:
  "map nd_I18n (nav_Filter demo_menu (Held [''access.role:view''])) = [''nav.admin'', ''nav.legacy'']
   \<and> (\<exists>q'. path (nav_Filter demo_menu (Held [''access.role:view'', ''tickets.ticket:view''])) q'
        \<and> map bare q' = [hd (drop 2 demo_menu)])"
proof -
  let ?f = "nav_Filter demo_menu (Held [''access.role:view''])" and ?n = "hd (drop 2 demo_menu)"
  have "map nd_I18n ?f = [''nav.admin'', ''nav.legacy'']" "?n \<in> set ?f" "bare ?n = ?n" by code_simp+
  moreover from this(2) have "path ?f [?n]" by (rule path_top)
  ultimately show ?thesis
    using Filter_paths [of demo_menu "Held [''access.role:view'']" "[]" "Held [''access.role:view'', ''tickets.ticket:view'']" "[?n]"]
    by (simp add: Held_def)
qed

text \<open>
  Validate accepts a menu exactly when every node at the end of a way into it has at most one of a route and an href, and
  an href only of the allowed forms; it refuses every other with ErrInvalid; and no filter makes an accepted menu
  invalid.
\<close>

theorem Validate_menu:
  "(nav_Validate parse nodes = Inr () \<longleftrightarrow> (\<forall>p. path nodes p \<longrightarrow> link_ok parse (last p)))
   \<and> (nav_Validate parse nodes = Inl e \<longrightarrow> errors_Is e ErrInvalid_node)
   \<and> (nav_Validate parse nodes = Inr () \<longrightarrow> nav_Validate parse (nav_Filter nodes held) = Inr ())"
proof (intro conjI impI)
  assume valid: "nav_Validate parse nodes = Inr ()"
  have "link_ok parse (last q)" if q: "path (nav_Filter nodes held) q" for q
  proof -
    obtain p where p: "path nodes p" "map bare p = map bare q" using path_filtered [OF q] by blast
    have "p \<noteq> []" "q \<noteq> []" using p(1) q by (auto elim: path_Nil)
    then have "bare (last p) = bare (last q)" using p(2) by (metis last_map)
    moreover have "link_ok parse (last p)" using p(1) valid unfolding Validate_paths by blast
    ultimately show ?thesis using link_ok_bare [of "last p" "last q"] by simp
  qed
  then show "nav_Validate parse (nav_Filter nodes held) = Inr ()" by (simp add: Validate_paths)
qed (rule Validate_paths, erule Validate_invalid)

theorem Validate_menu_witness:
  "nav_Validate (\<lambda>_. None) demo_menu = Inr () \<and> nav_Validate (\<lambda>_. None) (nav_Filter demo_menu (Held [])) = Inr ()"
proof -
  have "nav_Validate (\<lambda>_. None) demo_menu = Inr ()" by code_simp
  then show ?thesis using Validate_menu [of "\<lambda>_. None" demo_menu "Plain []" "Held []"] by simp
qed

end
