(* ===== verification/Lease.thy ===== *)
theory Lease
  imports Apperr
begin

text \<open>
  Named leases: \<^verbatim>\<open>lock/lock.go\<close> over the SQL store of \<^verbatim>\<open>lock/gormstore/gormstore.go\<close>.

  The table \<^verbatim>\<open>locks\<close> is a map from keys to rows, and each SQL statement is one step on it. A statement that
  reports an error may have written all the same, unless the error is a deadlock, which the database rolled back. The precision in which
  the column keeps an instant (\<open>lc_stored\<close>), whether an UPDATE counts the rows it found or those it changed
  (\<open>lc_found_rows\<close>), which errors are deadlocks and the text of a duration are parameters. Every call of \<^verbatim>\<open>Hold\<close> has an owner of its own
  (\<^verbatim>\<open>newOwner\<close>), and runs through the phases below: once it has the lease, its function and its heartbeat are two
  goroutines, and the release waits for both. The statements, clock readings and returns of all of them interleave. The clock is
  shared, as the package asks of its servers.
\<close>

section \<open>The table\<close>

record lease =
  le_owner :: string
  le_until :: int

type_synonym lock_table = "string \<Rightarrow> lease option"

record lock_cfg =
  lc_key :: "string \<Rightarrow> string"
  lc_ttl :: "string \<Rightarrow> int"
  lc_stored :: "int \<Rightarrow> int"
  lc_found_rows :: bool
  lc_deadlock :: "go_error \<Rightarrow> bool"
  lc_duration :: "int \<Rightarrow> string"

definition lease_row :: "lock_cfg \<Rightarrow> string \<Rightarrow> int \<Rightarrow> lease" where
  "lease_row c owner until = \<lparr>le_owner = owner, le_until = lc_stored c until\<rparr>"

text \<open>The UPDATE of \<^verbatim>\<open>acquire\<close>: whether it affected a row, and the table after it.\<close>

definition sql_take :: "lock_cfg \<Rightarrow> lock_table \<Rightarrow> string \<Rightarrow> string \<Rightarrow> int \<Rightarrow> int \<Rightarrow> bool \<times> lock_table" where
  "sql_take c rows key owner now until =
     (case rows key of
        None \<Rightarrow> (False, rows)
      | Some l \<Rightarrow>
          if le_owner l = owner \<or> le_until l < now
          then (lc_found_rows c \<or> l \<noteq> lease_row c owner until, rows(key \<mapsto> lease_row c owner until)) else (False, rows))"

definition sql_mine :: "lock_table \<Rightarrow> string \<Rightarrow> string \<Rightarrow> bool" where
  "sql_mine rows key owner = (case rows key of None \<Rightarrow> False | Some l \<Rightarrow> le_owner l = owner)"

text \<open>\<^verbatim>\<open>CreateUnlessDuplicate\<close>: the primary key refuses a second row.\<close>

definition sql_insert :: "lock_cfg \<Rightarrow> lock_table \<Rightarrow> string \<Rightarrow> string \<Rightarrow> int \<Rightarrow> bool \<times> lock_table" where
  "sql_insert c rows key owner until =
     (case rows key of None \<Rightarrow> (True, rows(key \<mapsto> lease_row c owner until)) | Some _ \<Rightarrow> (False, rows))"

definition sql_extend :: "lock_cfg \<Rightarrow> lock_table \<Rightarrow> string \<Rightarrow> string \<Rightarrow> int \<Rightarrow> bool \<times> lock_table" where
  "sql_extend c rows key owner until =
     (if sql_mine rows key owner
      then (lc_found_rows c \<or> rows key \<noteq> Some (lease_row c owner until), rows(key \<mapsto> lease_row c owner until)) else (False, rows))"

definition sql_delete :: "lock_table \<Rightarrow> string \<Rightarrow> string \<Rightarrow> lock_table" where
  "sql_delete rows key owner = (if sql_mine rows key owner then rows(key := None) else rows)"

section \<open>The phases of a holder\<close>

definition ErrHeld :: string where "ErrHeld = ''lock: held by someone else''"
definition ErrLost :: string where "ErrLost = ''lock: lease lost''"

definition acquire_attempts :: nat where "acquire_attempts = 5"

text \<open>
  Acquiring: the reading of the clock and the retries left, before each of the three statements. Holding: the end of the lease that
  was last confirmed, whether the heartbeat found it lost, whether the function still runs (or what \<^verbatim>\<open>Hold\<close> will answer), and
  where the heartbeat is: not begun, waiting for the ticker with the end it keeps for itself, in a beat (its reading of the clock, the
  second one made by \<^verbatim>\<open>Refresh\<close>, and the count that follows an update of no rows), over, or over with the lease given back.
\<close>

datatype heart =
    Unstarted
  | Waiting int
  | Beating int int
  | Refreshing int int int
  | Recounting int int int
  | Stopped
  | Freed

datatype run_state = Busy | Returned "go_error option"

datatype phase =
    Idle
  | Updating int nat
  | Counting int nat
  | Inserting int nat
  | Holding int bool run_state heart
  | Gone "go_error option"

definition hold_start :: "lock_cfg \<Rightarrow> string \<Rightarrow> int \<Rightarrow> phase" where
  "hold_start c owner now =
     (if lc_ttl c owner \<le> 0 then Gone (Some (Plain (''lock: ttl must be positive, got '' @ lc_duration c (lc_ttl c owner))))
      else Updating now (acquire_attempts - 1))"

text \<open>An attempt that failed: again after a deadlock, while there are retries; and \<^verbatim>\<open>Hold\<close> returns any other error.\<close>

definition acquire_failed :: "lock_cfg \<Rightarrow> int \<Rightarrow> nat \<Rightarrow> go_error \<Rightarrow> phase" where
  "acquire_failed c now n e = (if lc_deadlock c e \<and> 0 < n then Updating now (n - 1) else Gone (Some e))"

definition update_next :: "lock_cfg \<Rightarrow> string \<Rightarrow> int \<Rightarrow> nat \<Rightarrow> bool result \<Rightarrow> phase" where
  "update_next c owner now n r =
     (case r of
        Inl e \<Rightarrow> acquire_failed c now n (Wrapf (''lock: acquire: '' @ error_text e) e)
      | Inr affected \<Rightarrow> if affected then Holding (now + lc_ttl c owner) False Busy Unstarted else Counting now n)"

definition count_next :: "lock_cfg \<Rightarrow> string \<Rightarrow> int \<Rightarrow> nat \<Rightarrow> bool result \<Rightarrow> phase" where
  "count_next c owner now n r =
     (case r of
        Inl e \<Rightarrow> acquire_failed c now n (Wrapf (''lock: read: '' @ error_text e) e)
      | Inr held \<Rightarrow> if held then Holding (now + lc_ttl c owner) False Busy Unstarted else Inserting now n)"

definition insert_next :: "lock_cfg \<Rightarrow> string \<Rightarrow> int \<Rightarrow> nat \<Rightarrow> bool result \<Rightarrow> phase" where
  "insert_next c owner now n r =
     (case r of
        Inl e \<Rightarrow> acquire_failed c now n (Wrapf (''lock: acquire: '' @ error_text e) e)
      | Inr created \<Rightarrow>
          if created then Holding (now + lc_ttl c owner) False Busy Unstarted else Gone (Some (sentinel_with ErrHeld (go_quote (lc_key c owner)))))"

text \<open>
  The switch of the heartbeat, after a refresh whose clock reading was \<open>reading\<close>: what is confirmed and whether the lease is lost
  from then on, and where the heartbeat is. The function of the call is not touched.
\<close>

definition heartbeat_next ::
  "lock_cfg \<Rightarrow> string \<Rightarrow> int \<Rightarrow> bool \<Rightarrow> int \<Rightarrow> int \<Rightarrow> int \<Rightarrow> bool \<Rightarrow> bool result \<Rightarrow> int \<times> bool \<times> heart" where
  "heartbeat_next c owner confirmed lost until now reading cancelled r =
     (if cancelled then (confirmed, lost, Stopped)
      else case r of
        Inl e \<Rightarrow> if now < until then (confirmed, lost, Waiting until) else (confirmed, True, Stopped)
      | Inr held \<Rightarrow>
          if \<not> held then (confirmed, True, Stopped) else (reading + lc_ttl c owner, lost, Waiting (now + lc_ttl c owner)))"

definition refresh_next ::
  "lock_cfg \<Rightarrow> string \<Rightarrow> int \<Rightarrow> bool \<Rightarrow> int \<Rightarrow> int \<Rightarrow> int \<Rightarrow> bool \<Rightarrow> bool result \<Rightarrow> int \<times> bool \<times> heart" where
  "refresh_next c owner confirmed lost until now reading cancelled r =
     (case r of
        Inr False \<Rightarrow> (confirmed, lost, Recounting until now reading)
      | _ \<Rightarrow> heartbeat_next c owner confirmed lost until now reading cancelled r)"

definition with_heart :: "run_state \<Rightarrow> int \<times> bool \<times> heart \<Rightarrow> phase" where
  "with_heart run x = (case x of (confirmed, lost, hb) \<Rightarrow> Holding confirmed lost run hb)"

text \<open>What \<^verbatim>\<open>Hold\<close> answers, decided when its function returns.\<close>

definition hold_result :: "lock_cfg \<Rightarrow> string \<Rightarrow> bool \<Rightarrow> go_error option \<Rightarrow> go_error option" where
  "hold_result c owner lost run =
     (if lost then Some (Joined (sentinel_with ErrLost (go_quote (lc_key c owner)) # (case run of None \<Rightarrow> [] | Some e \<Rightarrow> [e]))) else run)"

section \<open>Holders together\<close>

record lease_sys =
  ls_rows :: lock_table
  ls_now :: int
  ls_phase :: "string \<Rightarrow> phase"

definition at_phase :: "string \<Rightarrow> phase \<Rightarrow> lease_sys \<Rightarrow> lease_sys" where
  "at_phase h p s = s\<lparr>ls_phase := (ls_phase s)(h := p)\<rparr>"

text \<open>
  A failed statement has two rules where it writes: it did not, and it did. The context of a call may be cancelled at any time; the
  heartbeat then ends, the function goes on until it returns.
\<close>

inductive hold_step :: "lock_cfg \<Rightarrow> lease_sys \<Rightarrow> lease_sys \<Rightarrow> bool" for c where
  hold_time: "ls_now s \<le> t \<Longrightarrow> hold_step c s (s\<lparr>ls_now := t\<rparr>)"
| hold_starts: "ls_phase s h = Idle \<Longrightarrow> hold_step c s (at_phase h (hold_start c h (ls_now s)) s)"
| updated: "ls_phase s h = Updating now n \<Longrightarrow> sql_take c (ls_rows s) (lc_key c h) h now (now + lc_ttl c h) = (affected, rows) \<Longrightarrow>
    hold_step c s (at_phase h (update_next c h now n (Inr affected)) (s\<lparr>ls_rows := rows\<rparr>))"
| update_failed: "ls_phase s h = Updating now n \<Longrightarrow> hold_step c s (at_phase h (update_next c h now n (Inl e)) s)"
| update_unsure: "ls_phase s h = Updating now n \<Longrightarrow> sql_take c (ls_rows s) (lc_key c h) h now (now + lc_ttl c h) = (affected, rows) \<Longrightarrow>
    update_next c h now n (Inl e) = Gone r \<Longrightarrow> hold_step c s (at_phase h (Gone r) (s\<lparr>ls_rows := rows\<rparr>))"
| counted: "ls_phase s h = Counting now n \<Longrightarrow>
    hold_step c s (at_phase h (count_next c h now n (Inr (sql_mine (ls_rows s) (lc_key c h) h))) s)"
| count_failed: "ls_phase s h = Counting now n \<Longrightarrow> hold_step c s (at_phase h (count_next c h now n (Inl e)) s)"
| inserted: "ls_phase s h = Inserting now n \<Longrightarrow> sql_insert c (ls_rows s) (lc_key c h) h (now + lc_ttl c h) = (created, rows) \<Longrightarrow>
    hold_step c s (at_phase h (insert_next c h now n (Inr created)) (s\<lparr>ls_rows := rows\<rparr>))"
| insert_failed: "ls_phase s h = Inserting now n \<Longrightarrow> hold_step c s (at_phase h (insert_next c h now n (Inl e)) s)"
| insert_unsure: "ls_phase s h = Inserting now n \<Longrightarrow> sql_insert c (ls_rows s) (lc_key c h) h (now + lc_ttl c h) = (created, rows) \<Longrightarrow>
    insert_next c h now n (Inl e) = Gone r \<Longrightarrow> hold_step c s (at_phase h (Gone r) (s\<lparr>ls_rows := rows\<rparr>))"
| heart_starts: "ls_phase s h = Holding confirmed lost run Unstarted \<Longrightarrow>
    hold_step c s (at_phase h (Holding confirmed lost run (Waiting (ls_now s + lc_ttl c h))) s)"
| heart_cancelled: "ls_phase s h = Holding confirmed lost run (Waiting until) \<Longrightarrow> hold_step c s (at_phase h (Holding confirmed lost run Stopped) s)"
| beat: "ls_phase s h = Holding confirmed lost run (Waiting until) \<Longrightarrow>
    hold_step c s (at_phase h (Holding confirmed lost run (Beating until (ls_now s))) s)"
| refreshes: "ls_phase s h = Holding confirmed lost run (Beating until now) \<Longrightarrow>
    hold_step c s (at_phase h (Holding confirmed lost run (Refreshing until now (ls_now s))) s)"
| refreshed: "ls_phase s h = Holding confirmed lost run (Refreshing until now reading) \<Longrightarrow>
    sql_extend c (ls_rows s) (lc_key c h) h (reading + lc_ttl c h) = (affected, rows) \<Longrightarrow>
    hold_step c s (at_phase h (with_heart run (refresh_next c h confirmed lost until now reading cancelled (Inr affected))) (s\<lparr>ls_rows := rows\<rparr>))"
| refresh_failed: "ls_phase s h = Holding confirmed lost run (Refreshing until now reading) \<Longrightarrow>
    hold_step c s (at_phase h (with_heart run (refresh_next c h confirmed lost until now reading cancelled (Inl e))) s)"
| refresh_unsure: "ls_phase s h = Holding confirmed lost run (Refreshing until now reading) \<Longrightarrow>
    sql_extend c (ls_rows s) (lc_key c h) h (reading + lc_ttl c h) = (affected, rows) \<Longrightarrow>
    hold_step c s (at_phase h (with_heart run (refresh_next c h confirmed lost until now reading cancelled (Inl e))) (s\<lparr>ls_rows := rows\<rparr>))"
| recounted: "ls_phase s h = Holding confirmed lost run (Recounting until now reading) \<Longrightarrow>
    hold_step c s (at_phase h (with_heart run
      (heartbeat_next c h confirmed lost until now reading cancelled (Inr (sql_mine (ls_rows s) (lc_key c h) h)))) s)"
| recount_failed: "ls_phase s h = Holding confirmed lost run (Recounting until now reading) \<Longrightarrow>
    hold_step c s (at_phase h (with_heart run (heartbeat_next c h confirmed lost until now reading cancelled (Inl e))) s)"
| run_returns: "ls_phase s h = Holding confirmed lost Busy hb \<Longrightarrow>
    hold_step c s (at_phase h (Holding confirmed lost (Returned (hold_result c h lost err)) hb) s)"
| released: "ls_phase s h = Holding confirmed lost (Returned r) Stopped \<Longrightarrow>
    hold_step c s (at_phase h (Holding confirmed lost (Returned r) Freed) (s\<lparr>ls_rows := sql_delete (ls_rows s) (lc_key c h) h\<rparr>))"
| release_failed: "ls_phase s h = Holding confirmed lost (Returned r) Stopped \<Longrightarrow>
    hold_step c s (at_phase h (Holding confirmed lost (Returned r) Freed) s)"

section \<open>What a holder can rely on\<close>

text \<open>The end of the lease a call was last told of, while its function runs.\<close>

fun holding :: "phase \<Rightarrow> int option" where
  "holding (Holding confirmed lost Busy hb) = Some confirmed"
| "holding p = None"

definition owned :: "string \<Rightarrow> lease option \<Rightarrow> bool" where
  "owned h row = (case row of None \<Rightarrow> False | Some l \<Rightarrow> le_owner l = h)"

lemma sql_mine_owned [simp]: "sql_mine rows k h = owned h (rows k)" by (simp add: sql_mine_def owned_def)

lemma owned_simps [simp]: "\<not> owned h None" "owned h (Some l) \<longleftrightarrow> le_owner l = h" "le_owner (lease_row c h u) = h"
  "le_until (lease_row c h u) = lc_stored c u"
  by (simp_all add: owned_def lease_row_def)

lemma lease_row_eq [simp]: "lease_row c h u = lease_row c h' u' \<longleftrightarrow> h = h' \<and> lc_stored c u = lc_stored c u'"
  by (simp add: lease_row_def)

text \<open>
  A phase, the row of its key and the time: before it has the lease, the row is not its own and it read the clock in the past; while
  it has it, and until it gives it back, the row is its own for as long as the confirmed lease lasts, and ends no earlier. The clock
  reading of a refresh is no earlier than the one that was confirmed.
\<close>

fun heart_ok :: "lock_cfg \<Rightarrow> string \<Rightarrow> int \<Rightarrow> lease option \<Rightarrow> int \<Rightarrow> heart \<Rightarrow> bool" where
  "heart_ok c h t row confirmed (Refreshing u now reading) = (confirmed \<le> reading + lc_ttl c h \<and> reading \<le> t)"
| "heart_ok c h t row confirmed (Recounting u now reading) =
     (confirmed \<le> reading + lc_ttl c h \<and> reading \<le> t \<and> (owned h row \<longrightarrow> row = Some (lease_row c h (reading + lc_ttl c h))))"
| "heart_ok c h t row confirmed hb = True"

definition lease_kept :: "lock_cfg \<Rightarrow> string \<Rightarrow> int \<Rightarrow> lease option \<Rightarrow> int \<Rightarrow> bool" where
  "lease_kept c h t row confirmed \<longleftrightarrow>
     confirmed \<le> t + lc_ttl c h \<and> (t \<le> lc_stored c confirmed \<longrightarrow> owned h row \<and> lc_stored c confirmed \<le> le_until (the row))"

fun holder_ok :: "lock_cfg \<Rightarrow> string \<Rightarrow> int \<Rightarrow> lease option \<Rightarrow> phase \<Rightarrow> bool" where
  "holder_ok c h t row Idle = (\<not> owned h row)"
| "holder_ok c h t row (Updating now n) = (\<not> owned h row \<and> now \<le> t)"
| "holder_ok c h t row (Counting now n) = (\<not> owned h row \<and> now \<le> t)"
| "holder_ok c h t row (Inserting now n) = (\<not> owned h row \<and> now \<le> t)"
| "holder_ok c h t row (Holding confirmed lost run hb) =
     (if hb = Freed then run \<noteq> Busy else lease_kept c h t row confirmed \<and> heart_ok c h t row confirmed hb)"
| "holder_ok c h t row (Gone e) = True"

text \<open>What the statements of others do to a row: nothing, or it is not the holder's afterwards, and was not or had run out.\<close>

definition foreign :: "string \<Rightarrow> int \<Rightarrow> lease option \<Rightarrow> lease option \<Rightarrow> bool" where
  "foreign h t row row' \<longleftrightarrow> row' = row \<or> \<not> owned h row' \<and> (owned h row \<longrightarrow> le_until (the row) < t)"

lemma lease_kept_foreign: "lease_kept c h t row confirmed \<Longrightarrow> foreign h t row row' \<Longrightarrow> lease_kept c h t row' confirmed"
  by (auto simp: foreign_def lease_kept_def)

lemma heart_ok_foreign: "heart_ok c h t row confirmed hb \<Longrightarrow> foreign h t row row' \<Longrightarrow> heart_ok c h t row' confirmed hb"
  by (cases hb) (auto simp: foreign_def)

lemma heart_ok_time: "heart_ok c h t row confirmed hb \<Longrightarrow> t \<le> t' \<Longrightarrow> heart_ok c h t' row confirmed hb"
  by (cases hb) auto

lemma holder_ok_foreign: "holder_ok c h t row p \<Longrightarrow> foreign h t row row' \<Longrightarrow> holder_ok c h t row' p"
  by (cases p) (auto simp: foreign_def intro: lease_kept_foreign heart_ok_foreign)

lemma holder_ok_time: "holder_ok c h t row p \<Longrightarrow> t \<le> t' \<Longrightarrow> holder_ok c h t' row p"
  by (cases p) (auto simp: lease_kept_def intro: heart_ok_time)

lemma foreign_take:
  assumes "sql_take c rows k h' now until = (b, rows')" "h' \<noteq> h" "now \<le> t"
  shows "foreign h t (rows k') (rows' k')"
  using assms by (auto simp: sql_take_def foreign_def split: option.splits if_splits)

lemma foreign_insert: "sql_insert c rows k h' until = (b, rows') \<Longrightarrow> h' \<noteq> h \<Longrightarrow> foreign h t (rows k') (rows' k')"
  by (cases "k' = k") (auto simp: sql_insert_def foreign_def split: option.splits)

lemma foreign_extend: "sql_extend c rows k h' until = (b, rows') \<Longrightarrow> h' \<noteq> h \<Longrightarrow> foreign h t (rows k') (rows' k')"
  by (cases "rows k") (auto simp: sql_extend_def foreign_def split: if_splits)

lemma foreign_delete: "h' \<noteq> h \<Longrightarrow> foreign h t (rows k') (sql_delete rows k h' k')"
  by (cases "rows k") (auto simp: sql_delete_def foreign_def)

definition holders_ok :: "lock_cfg \<Rightarrow> lease_sys \<Rightarrow> bool" where
  "holders_ok c s \<longleftrightarrow> (\<forall>h. holder_ok c h (ls_now s) (ls_rows s (lc_key c h)) (ls_phase s h))"

text \<open>A step of one holder: its own phase afterwards, and statements that are foreign to the others.\<close>

lemma holders_ok_step:
  assumes "holders_ok c s" "holder_ok c h (ls_now s) (rows (lc_key c h)) p"
    and "\<And>h'. h' \<noteq> h \<Longrightarrow> foreign h' (ls_now s) (ls_rows s (lc_key c h')) (rows (lc_key c h'))"
  shows "holders_ok c (at_phase h p (s\<lparr>ls_rows := rows\<rparr>))"
  using assms by (auto simp: holders_ok_def at_phase_def intro: holder_ok_foreign)

lemma holders_ok_phase:
  assumes "holders_ok c s" "holder_ok c h (ls_now s) (ls_rows s (lc_key c h)) p"
  shows "holders_ok c (at_phase h p s)"
  using assms by (auto simp: holders_ok_def at_phase_def)

lemma holders_okD: "holders_ok c s \<Longrightarrow> ls_phase s h = p \<Longrightarrow> holder_ok c h (ls_now s) (ls_rows s (lc_key c h)) p"
  by (auto simp: holders_ok_def)

lemma failed_ok: "now \<le> t \<Longrightarrow> \<not> owned h row \<Longrightarrow> holder_ok c h t row (acquire_failed c now n e)"
  by (simp add: acquire_failed_def)

text \<open>The end of a beat, and what its statement did to the row.\<close>

lemma heartbeat_next_ok:
  assumes "lease_kept c h t row confirmed" "r = Inr True \<Longrightarrow> lease_kept c h t row (reading + lc_ttl c h)"
  shows "holder_ok c h t row (with_heart run (heartbeat_next c h confirmed lost until now reading cancelled r))"
  using assms by (cases r) (auto simp: heartbeat_next_def with_heart_def)

lemma extend_kept:
  assumes "mono (lc_stored c)" "lease_kept c h t (rows (lc_key c h)) confirmed" "confirmed \<le> reading + lc_ttl c h" "reading \<le> t"
    and "sql_extend c rows (lc_key c h) h (reading + lc_ttl c h) = (affected, rows')"
  shows "lease_kept c h t (rows' (lc_key c h)) confirmed"
    and "affected \<Longrightarrow> lease_kept c h t (rows' (lc_key c h)) (reading + lc_ttl c h)"
    and "\<not> affected \<Longrightarrow> owned h (rows' (lc_key c h)) \<Longrightarrow> rows' (lc_key c h) = Some (lease_row c h (reading + lc_ttl c h))"
  using assms(2-5) monoD [OF assms(1,3)] by (auto simp: sql_extend_def lease_kept_def split: if_splits)

lemma refresh_next_ok:
  assumes "mono (lc_stored c)" "lease_kept c h t (rows (lc_key c h)) confirmed" "confirmed \<le> reading + lc_ttl c h" "reading \<le> t"
    and "sql_extend c rows (lc_key c h) h (reading + lc_ttl c h) = (affected, rows')" "r = Inr affected \<or> r = Inl e"
  shows "holder_ok c h t (rows' (lc_key c h)) (with_heart run (refresh_next c h confirmed lost until now reading cancelled r))"
proof -
  note kept = extend_kept [OF assms(1-5)]
  show ?thesis
  proof (cases "r = Inr False")
    case True
    then show ?thesis using kept assms(3,4,6) by (auto simp: refresh_next_def with_heart_def)
  next
    case False
    then have eq: "refresh_next c h confirmed lost until now reading cancelled r = heartbeat_next c h confirmed lost until now reading cancelled r"
      by (auto simp: refresh_next_def split: sum.splits bool.splits)
    have "lease_kept c h t (rows' (lc_key c h)) (reading + lc_ttl c h)" if "r = Inr True" using that assms(6) by (intro kept(2)) auto
    from heartbeat_next_ok [OF kept(1) this] show ?thesis by (simp only: eq)
  qed
qed

lemma hold_step_ok:
  assumes "mono (lc_stored c)" "hold_step c s s'" "holders_ok c s"
  shows "holders_ok c s'"
  using assms(2,3)
proof (induction rule: hold_step.induct)
  case (hold_time s t)
  then show ?case by (auto simp: holders_ok_def intro: holder_ok_time)
next
  case (hold_starts s h)
  then show ?case using holders_okD [OF hold_starts(2,1)] by (intro holders_ok_phase) (auto simp: hold_start_def)
next
  case (updated s h now n affected rows)
  have h: "\<not> owned h (ls_rows s (lc_key c h))" "now \<le> ls_now s" using holders_okD [OF updated(3,1)] by simp_all
  show ?case using foreign_take [OF updated(2) _ h(2)] updated(2) h
    by (intro holders_ok_step [OF updated(3)]) (auto simp: update_next_def sql_take_def lease_kept_def split: option.splits if_splits)
next
  case (update_failed s h now n e)
  then show ?case using holders_okD [OF update_failed(2,1)] by (intro holders_ok_phase) (auto simp: update_next_def failed_ok)
next
  case (update_unsure s h now n affected rows e r)
  have "now \<le> ls_now s" using holders_okD [OF update_unsure(4,1)] by simp
  then show ?case using foreign_take [OF update_unsure(2)] by (intro holders_ok_step [OF update_unsure(4)]) auto
next
  case (counted s h now n)
  then show ?case using holders_okD [OF counted(2,1)] by (intro holders_ok_phase) (auto simp: count_next_def)
next
  case (count_failed s h now n e)
  then show ?case using holders_okD [OF count_failed(2,1)] by (intro holders_ok_phase) (auto simp: count_next_def failed_ok)
next
  case (inserted s h now n created rows)
  have h: "\<not> owned h (ls_rows s (lc_key c h))" "now \<le> ls_now s" using holders_okD [OF inserted(3,1)] by simp_all
  show ?case using foreign_insert [OF inserted(2)] inserted(2) h
    by (intro holders_ok_step [OF inserted(3)]) (auto simp: insert_next_def sql_insert_def lease_kept_def split: option.splits if_splits)
next
  case (insert_failed s h now n e)
  then show ?case using holders_okD [OF insert_failed(2,1)] by (intro holders_ok_phase) (auto simp: insert_next_def failed_ok)
next
  case (insert_unsure s h now n created rows e r)
  then show ?case using foreign_insert [OF insert_unsure(2)] by (intro holders_ok_step [OF insert_unsure(4)]) auto
next
  case (refreshes s h confirmed lost run until now)
  then show ?case using holders_okD [OF refreshes(2,1)] by (intro holders_ok_phase) (auto simp: lease_kept_def)
next
  case (refreshed s h confirmed lost run until now reading affected rows cancelled)
  then show ?case using holders_okD [OF refreshed(3,1)] foreign_extend [OF refreshed(2)]
    by (intro holders_ok_step [OF refreshed(3)] refresh_next_ok [OF assms(1) _ _ _ refreshed(2)]) auto
next
  case (refresh_failed s h confirmed lost run until now reading cancelled e)
  then show ?case using holders_okD [OF refresh_failed(2,1)]
    by (intro holders_ok_phase) (auto simp: refresh_next_def intro: heartbeat_next_ok)
next
  case (refresh_unsure s h confirmed lost run until now reading affected rows cancelled e)
  then show ?case using holders_okD [OF refresh_unsure(3,1)] foreign_extend [OF refresh_unsure(2)]
    by (intro holders_ok_step [OF refresh_unsure(3)] refresh_next_ok [OF assms(1) _ _ _ refresh_unsure(2)]) auto
next
  case (recounted s h confirmed lost run until now reading cancelled)
  then show ?case using holders_okD [OF recounted(2,1)]
    by (intro holders_ok_phase heartbeat_next_ok) (auto simp: lease_kept_def)
next
  case (recount_failed s h confirmed lost run until now reading cancelled e)
  then show ?case using holders_okD [OF recount_failed(2,1)] by (intro holders_ok_phase heartbeat_next_ok) auto
next
  case (released s h confirmed lost r)
  then show ?case using foreign_delete by (intro holders_ok_step) auto
next
  case (heart_starts s h confirmed lost run)
  then show ?case using holders_okD [OF heart_starts(2,1)] by (intro holders_ok_phase) simp_all
next
  case (heart_cancelled s h confirmed lost run until)
  then show ?case using holders_okD [OF heart_cancelled(2,1)] by (intro holders_ok_phase) simp_all
next
  case (beat s h confirmed lost run until)
  then show ?case using holders_okD [OF beat(2,1)] by (intro holders_ok_phase) simp_all
next
  case (run_returns s h confirmed lost hb err)
  then show ?case using holders_okD [OF run_returns(2,1)] by (intro holders_ok_phase) simp_all
next
  case (release_failed s h confirmed lost r)
  then show ?case by (intro holders_ok_phase) simp_all
qed

lemma hold_run_ok:
  assumes "mono (lc_stored c)" "(hold_step c)\<^sup>*\<^sup>* s s'" "holders_ok c s"
  shows "holders_ok c s'"
  using assms(2,3) by (induction rule: rtranclp_induct) (auto intro: hold_step_ok [OF assms(1)])

lemma holding_row:
  "holder_ok c h t row p \<Longrightarrow> holding p = Some confirmed \<Longrightarrow> t \<le> lc_stored c confirmed \<Longrightarrow>
     \<exists>l. row = Some l \<and> le_owner l = h \<and> lc_stored c confirmed \<le> le_until l"
  by (cases p rule: holding.cases) (auto simp: lease_kept_def owned_def split: option.splits if_splits)

section \<open>The property\<close>

text \<open>The empty table, and nobody has called yet.\<close>

definition lease_start :: "int \<Rightarrow> lease_sys" where
  "lease_start t = \<lparr>ls_rows = (\<lambda>_. None), ls_now = t, ls_phase = (\<lambda>_. Idle)\<rparr>"

text \<open>
  C11: Leases exclude. However the statements, clock readings, failures, retries, heartbeats, cancellations and returns of all the
  calls of \<^verbatim>\<open>Hold\<close> interleave, from before the function of a call runs until it has returned (its heartbeat may be over by then), and
  while the lease that its last confirmed write gave it, as the table keeps it, has not run out, the row of its key is its own and
  ends no earlier, and no other call for the same key has its function running on a lease that has not run out. A failed statement
  may have written all the same, except after a deadlock; the calls share one clock, and the column keeps instants in order.
\<close>

theorem leases_exclude:
  assumes "mono (lc_stored c)" and "(hold_step c)\<^sup>*\<^sup>* (lease_start t) s"
    and "holding (ls_phase s h) = Some confirmed" "ls_now s \<le> lc_stored c confirmed"
  shows "(\<exists>l. ls_rows s (lc_key c h) = Some l \<and> le_owner l = h \<and> lc_stored c confirmed \<le> le_until l)
    \<and> (\<forall>h' confirmed'. lc_key c h' = lc_key c h \<and> holding (ls_phase s h') = Some confirmed' \<and> ls_now s \<le> lc_stored c confirmed' \<longrightarrow> h' = h)"
proof -
  have "holders_ok c (lease_start t)" by (simp add: holders_ok_def lease_start_def)
  then have ok: "holders_ok c s" by (rule hold_run_ok [OF assms(1,2)])
  have row: "\<exists>l. ls_rows s (lc_key c h') = Some l \<and> le_owner l = h' \<and> lc_stored c u \<le> le_until l"
    if "holding (ls_phase s h') = Some u" "ls_now s \<le> lc_stored c u" for h' u
    using holding_row [OF holders_okD [OF ok refl]] that by blast
  obtain l where l: "ls_rows s (lc_key c h) = Some l" "le_owner l = h" "lc_stored c confirmed \<le> le_until l"
    using row [OF assms(3,4)] by blast
  have "h' = h" if key: "lc_key c h' = lc_key c h" and run: "holding (ls_phase s h') = Some u" "ls_now s \<le> lc_stored c u" for h' u
  proof -
    from row [OF run] obtain l' where "ls_rows s (lc_key c h') = Some l'" "le_owner l' = h'" by blast
    with l(1,2) key show ?thesis by simp
  qed
  with l show ?thesis by blast
qed

definition demo_lock :: lock_cfg where
  "demo_lock = \<lparr>lc_key = (\<lambda>_. ''import''), lc_ttl = (\<lambda>_. 30), lc_stored = (\<lambda>t. t), lc_found_rows = True, lc_deadlock = (\<lambda>_. False),
     lc_duration = (\<lambda>_. [])\<rparr>"

definition demo_running :: lease_sys where
  "demo_running = \<lparr>ls_rows = (\<lambda>_. None)(''import'' \<mapsto> lease_row demo_lock ''ana'' 30), ls_now = 0, ls_phase = (\<lambda>_. Idle)(''ana'' := Holding 30 False Busy Unstarted)\<rparr>"

lemma demo_hold_run: "(hold_step demo_lock)\<^sup>*\<^sup>* (lease_start 0) demo_running"
proof -
  let ?s = "lease_start 0"
  let ?s1 = "at_phase ''ana'' (Updating 0 4) ?s"
  let ?s2 = "at_phase ''ana'' (Counting 0 4) ?s1"
  let ?s3 = "at_phase ''ana'' (Inserting 0 4) ?s2"
  have a: "hold_step demo_lock ?s ?s1" using hold_starts [of ?s "''ana''" demo_lock]
    by (simp add: lease_start_def hold_start_def demo_lock_def acquire_attempts_def)
  have b: "hold_step demo_lock ?s1 ?s2" using updated [of ?s1 "''ana''" 0 4 demo_lock False "ls_rows ?s1"]
    by (simp add: lease_start_def at_phase_def demo_lock_def sql_take_def update_next_def)
  have d: "hold_step demo_lock ?s2 ?s3" using counted [of ?s2 "''ana''" 0 4 demo_lock]
    by (simp add: lease_start_def at_phase_def demo_lock_def count_next_def)
  have e: "hold_step demo_lock ?s3 demo_running"
    using inserted [of ?s3 "''ana''" 0 4 demo_lock True "ls_rows demo_running"]
    by (simp add: lease_start_def at_phase_def demo_lock_def sql_insert_def insert_next_def demo_running_def)
  note into = converse_rtranclp_into_rtranclp [where r = "hold_step demo_lock"]
  show ?thesis by (rule into [OF a into [OF b into [OF d into [OF e rtranclp.rtrancl_refl]]]])
qed

theorem leases_exclude_witness:
  "holding (ls_phase demo_running ''ana'') = Some 30
    \<and> (\<exists>l. ls_rows demo_running ''import'' = Some l \<and> le_owner l = ''ana'' \<and> 30 \<le> le_until l)"
proof -
  have "mono (lc_stored demo_lock)" "holding (ls_phase demo_running ''ana'') = Some 30" "ls_now demo_running \<le> lc_stored demo_lock 30"
    by (simp_all add: demo_running_def demo_lock_def mono_def)
  then show ?thesis using leases_exclude [OF _ demo_hold_run] by (simp add: demo_lock_def)
qed

end
