(* ===== verification/Outbox.thy ===== *)
theory Outbox
  imports Account
begin

text \<open>
  The transactional outbox of \<^verbatim>\<open>event/\<close>: the queue (\<^verbatim>\<open>queue.go\<close>), its workers
  (\<^verbatim>\<open>worker.go\<close>), the retry policy (\<^verbatim>\<open>typed.go\<close>), dead letters
  (\<^verbatim>\<open>deadletter.go\<close>) and housekeeping (\<^verbatim>\<open>housekeeping.go\<close>).

  The two tables are lists of rows, \<^verbatim>\<open>outbox_events\<close> and \<^verbatim>\<open>event_consumer_attempts\<close>. Every
  transaction locks the outbox rows it works on first, by primary key, so a transaction is one step; the plain read that
  picks candidates is outside and may be out of date. A transaction that fails changes nothing. What a handler does with an
  event is a parameter; a worker may stop at any time and its events come due again when the lease ends.
\<close>

section \<open>The tables\<close>

record outbox_event =
  ob_ID :: nat
  ob_EventType :: string
  ob_Envelope :: string
  ob_ProcessedAt :: "int option"

record attempt_row =
  ar_EventID :: nat
  ar_Consumer :: string
  ar_Attempts :: int
  ar_NextAttemptAt :: int
  ar_LastError :: string
  ar_DoneAt :: "int option"
  ar_DeadAt :: "int option"
  ar_UpdatedAt :: int

record queue_db =
  qd_outbox :: "outbox_event list"
  qd_attempts :: "attempt_row list"

definition batchSize :: nat where "batchSize = 50"
definition claimLease :: int where "claimLease = 5 * minute"
definition maxErrorRunes :: nat where "maxErrorRunes = 500"

text \<open>A time as the columns keep it, to the second.\<close>

definition whole :: "int \<Rightarrow> int" where "whole t = t - t mod second"

definition find_attempt :: "queue_db \<Rightarrow> nat \<Rightarrow> string \<Rightarrow> attempt_row option" where
  "find_attempt q i consumer = List.find (\<lambda>a. ar_EventID a = i \<and> ar_Consumer a = consumer) (qd_attempts q)"

text \<open>INSERT with ON CONFLICT on the key: \<open>assign\<close> is what the conflicting row takes over.\<close>

fun upsert_rows :: "(attempt_row \<Rightarrow> attempt_row) \<Rightarrow> attempt_row \<Rightarrow> attempt_row list \<Rightarrow> attempt_row list" where
  "upsert_rows assign row [] = [row]"
| "upsert_rows assign row (a # as) =
     (if ar_EventID a = ar_EventID row \<and> ar_Consumer a = ar_Consumer row then assign a # as else a # upsert_rows assign row as)"

section \<open>Retries\<close>

record retry_policy =
  rp_attempts :: int
  rp_firstDelay :: int
  rp_maxDelay :: int

definition defaultRetry :: retry_policy where
  "defaultRetry = \<lparr>rp_attempts = 5, rp_firstDelay = 5 * second, rp_maxDelay = 30 * minute\<rparr>"

text \<open>The loop of \<^verbatim>\<open>delay\<close>, \<open>n\<close> the doublings that are left.\<close>

fun delay_loop :: "retry_policy \<Rightarrow> nat \<Rightarrow> int \<Rightarrow> int" where
  "delay_loop p 0 d = d"
| "delay_loop p (Suc n) d = (if d < rp_maxDelay p then delay_loop p n (d * 2) else d)"

definition retry_delay :: "retry_policy \<Rightarrow> int \<Rightarrow> int" where
  "retry_delay p failures = min (delay_loop p (nat (failures - 1)) (rp_firstDelay p)) (rp_maxDelay p)"

text \<open>The payload's Go type is a number, the handler a parameter of the operations that call it.\<close>

record consumer =
  cn_name :: string
  cn_event :: string
  cn_version :: int
  cn_payload :: nat
  cn_retry :: retry_policy

section \<open>Claiming\<close>

record claimed_event =
  qe_ID :: nat
  qe_EventType :: string
  qe_Envelope :: string
  qe_Attempts :: int

definition open_attempt :: "queue_db \<Rightarrow> nat \<Rightarrow> string \<Rightarrow> int \<Rightarrow> bool" where
  "open_attempt q i consumer now =
     (case find_attempt q i consumer of
        None \<Rightarrow> True | Some a \<Rightarrow> ar_DoneAt a = None \<and> ar_DeadAt a = None \<and> ar_NextAttemptAt a \<le> now)"

definition due_ids :: "queue_db \<Rightarrow> consumer \<Rightarrow> int \<Rightarrow> nat \<Rightarrow> nat list" where
  "due_ids q c now limit =
     take limit (sort (map ob_ID (filter (\<lambda>o'. ob_ProcessedAt o' = None \<and> ob_EventType o' = cn_event c \<and> open_attempt q (ob_ID o') (cn_name c) now)
       (qd_outbox q))))"

definition lease_row_of :: "string \<Rightarrow> int \<Rightarrow> int \<Rightarrow> claimed_event \<Rightarrow> attempt_row" where
  "lease_row_of consumer now leaseUntil e =
     \<lparr>ar_EventID = qe_ID e, ar_Consumer = consumer, ar_Attempts = qe_Attempts e, ar_NextAttemptAt = leaseUntil, ar_LastError = [],
      ar_DoneAt = None, ar_DeadAt = None, ar_UpdatedAt = now\<rparr>"

definition lease_claimed :: "queue_db \<Rightarrow> string \<Rightarrow> nat list \<Rightarrow> int \<Rightarrow> claimed_event list" where
  "lease_claimed q consumer candidates now =
     (let locked = sort_key ob_ID (filter (\<lambda>o'. ob_ID o' \<in> set candidates \<and> ob_ProcessedAt o' = None) (qd_outbox q)) in
      map (\<lambda>o'. \<lparr>qe_ID = ob_ID o', qe_EventType = ob_EventType o', qe_Envelope = ob_Envelope o',
          qe_Attempts = (case find_attempt q (ob_ID o') consumer of None \<Rightarrow> 0 | Some a \<Rightarrow> ar_Attempts a)\<rparr>)
        (filter (\<lambda>o'. open_attempt q (ob_ID o') consumer now) locked))"

definition queue_lease ::
  "go_error option \<Rightarrow> queue_db \<Rightarrow> string \<Rightarrow> nat list \<Rightarrow> int \<Rightarrow> int \<Rightarrow> claimed_event list result \<times> queue_db" where
  "queue_lease fault q consumer candidates now leaseUntil =
     (if candidates = [] then (Inr [], q)
      else case fault of
        Some e \<Rightarrow> (Inl (Wrapf (''claim events for '' @ go_quote consumer @ '': '' @ error_text e) e), q)
      | None \<Rightarrow>
          let claimed = lease_claimed q consumer candidates now in
          (Inr claimed, q\<lparr>qd_attempts := foldl (\<lambda>rows e. upsert_rows (\<lambda>a. a\<lparr>ar_NextAttemptAt := leaseUntil, ar_UpdatedAt := now\<rparr>)
             (lease_row_of consumer now leaseUntil e) rows) (qd_attempts q) claimed\<rparr>))"

definition queue_claim ::
  "go_error option \<Rightarrow> go_error option \<Rightarrow> queue_db \<Rightarrow> consumer \<Rightarrow> int \<Rightarrow> int \<Rightarrow> nat \<Rightarrow> claimed_event list result \<times> queue_db" where
  "queue_claim unread fault q c now leaseUntil limit =
     (case unread of
        Some e \<Rightarrow> (Inl (Wrapf (''select due events: '' @ error_text e) e), q)
      | None \<Rightarrow> queue_lease fault q (cn_name c) (due_ids q c now limit) now leaseUntil)"

section \<open>Finishing\<close>

definition finished_row :: "attempt_row \<Rightarrow> bool" where
  "finished_row a \<longleftrightarrow> ar_DoneAt a \<noteq> None \<or> ar_DeadAt a \<noteq> None"

definition set_processed :: "nat \<Rightarrow> int option \<Rightarrow> outbox_event list \<Rightarrow> outbox_event list" where
  "set_processed i t = map (\<lambda>o'. if ob_ID o' = i then o'\<lparr>ob_ProcessedAt := t\<rparr> else o')"

definition queue_finish :: "go_error option \<Rightarrow> queue_db \<Rightarrow> attempt_row \<Rightarrow> string list \<Rightarrow> unit result \<times> queue_db" where
  "queue_finish fault q row siblings =
     (case fault of
        Some e \<Rightarrow> (Inl (Wrapf (''record event '' @ show_nat (ar_EventID row) @ '' for '' @ go_quote (ar_Consumer row) @ '': '' @ error_text e) e), q)
      | None \<Rightarrow>
          let found = list_ex (\<lambda>o'. ob_ID o' = ar_EventID row) (qd_outbox q);
              q1 = q\<lparr>qd_attempts := upsert_rows (\<lambda>_. row) row (qd_attempts q)\<rparr>;
              finished = length (filter (\<lambda>a. ar_EventID a = ar_EventID row \<and> ar_Consumer a \<in> set siblings \<and> finished_row a) (qd_attempts q1)) in
          if \<not> found \<or> \<not> finished_row row then (Inr (), q1)
          else if finished < length siblings then (Inr (), q1)
          else (Inr (), q1\<lparr>qd_outbox := set_processed (ar_EventID row) (Some (ar_UpdatedAt row)) (qd_outbox q1)\<rparr>))"

definition siblings :: "consumer list \<Rightarrow> string \<Rightarrow> string list" where
  "siblings consumers eventName = map cn_name (filter (\<lambda>c. cn_event c = eventName) consumers)"

definition ErrMalformed :: string where "ErrMalformed = ''malformed event''"

definition truncateError :: "string \<Rightarrow> string" where "truncateError s = cut s maxErrorRunes"

text \<open>The outcome of handling an event: done, given up, or to be retried.\<close>

definition outcome_row :: "consumer \<Rightarrow> claimed_event \<Rightarrow> int \<Rightarrow> unit result \<Rightarrow> attempt_row" where
  "outcome_row c e now handled =
     (let row = \<lparr>ar_EventID = qe_ID e, ar_Consumer = cn_name c, ar_Attempts = qe_Attempts e, ar_NextAttemptAt = now, ar_LastError = [],
        ar_DoneAt = None, ar_DeadAt = None, ar_UpdatedAt = now\<rparr> in
      case handled of
        Inr _ \<Rightarrow> row\<lparr>ar_DoneAt := Some now\<rparr>
      | Inl err \<Rightarrow>
          let failed = row\<lparr>ar_Attempts := qe_Attempts e + 1, ar_LastError := truncateError (error_text err)\<rparr> in
          if errors_Is err ErrMalformed \<or> qe_Attempts e + 1 \<ge> rp_attempts (cn_retry c) then failed\<lparr>ar_DeadAt := Some now\<rparr>
          else failed\<lparr>ar_NextAttemptAt := now + retry_delay (cn_retry c) (ar_Attempts failed)\<rparr>)"

text \<open>Decoding the envelope is \<^verbatim>\<open>json.Unmarshal\<close>, the parameter \<open>decode\<close>: its version and payload.\<close>

definition queue_handle ::
  "(string \<Rightarrow> (string \<times> string) result) \<Rightarrow> (nat \<Rightarrow> string \<Rightarrow> unit result run) \<Rightarrow> consumer \<Rightarrow> claimed_event \<Rightarrow> unit result" where
  "queue_handle decode handler c e =
     (case decode (qe_Envelope e) of
        Inl err \<Rightarrow> Inl (Wrapf (ErrMalformed @ '': envelope: '' @ error_text err) (Joined [Sentinel ErrMalformed, err]))
      | Inr (version, payload) \<Rightarrow>
          if version \<noteq> show_int (cn_version c) then
            Inl (sentinel_with ErrMalformed (''written as version '' @ go_quote version @ '' but consumer '' @ go_quote (cn_name c) @ '' handles version ''
              @ show_int (cn_version c) @ '': keep a consumer for each version still queued, or retry it once the payload is readable''))
          else case handler (qe_ID e) payload of
            Panics p \<Rightarrow> Inl (Plain (''handler panicked: '' @ p)) | Returns r \<Rightarrow> r)"

section \<open>A worker\<close>

text \<open>
  What happens around one event: whether the worker is being stopped before and after it, what the handler does, what the clock
  says when the handler is through, and whether recording the outcome fails.
\<close>

record happening =
  hp_stop_before :: bool
  hp_handler :: "nat \<Rightarrow> string \<Rightarrow> unit result run"
  hp_stop_after :: bool
  hp_now :: int
  hp_fault :: "go_error option"

definition consumer_run ::
  "(string \<Rightarrow> (string \<times> string) result) \<Rightarrow> consumer list \<Rightarrow> consumer \<Rightarrow> claimed_event \<Rightarrow> happening \<Rightarrow> queue_db \<Rightarrow> go_error option \<times> queue_db" where
  "consumer_run decode cs c e h q =
     (let handled = queue_handle decode (hp_handler h) c e;
          handleErr = (case handled of Inl err \<Rightarrow> Some err | Inr _ \<Rightarrow> None) in
      if handleErr \<noteq> None \<and> hp_stop_after h then (handleErr, q)
      else (handleErr, snd (queue_finish (hp_fault h) q (outcome_row c e (whole (hp_now h)) handled) (siblings cs (cn_event c)))))"

definition consumer_process ::
  "(string \<Rightarrow> (string \<times> string) result) \<Rightarrow> consumer list \<Rightarrow> consumer \<Rightarrow> claimed_event \<Rightarrow> happening \<Rightarrow> queue_db \<Rightarrow> go_error option \<times> queue_db" where
  "consumer_process decode cs c e h q =
     (case consumer_run decode cs c e h q of
        (None, q1) \<Rightarrow> (None, q1)
      | (Some err, q1) \<Rightarrow>
          (Some (Wrapf (''consumer '' @ go_quote (cn_name c) @ '', event '' @ show_nat (qe_ID e) @ '': '' @ error_text err) err), q1))"

text \<open>The loop of \<^verbatim>\<open>handleAll\<close>; \<open>hs k\<close> is what happens around the \<open>k\<close>-th event.\<close>

fun handle_events ::
  "(string \<Rightarrow> (string \<times> string) result) \<Rightarrow> consumer list \<Rightarrow> consumer \<Rightarrow> (nat \<Rightarrow> happening) \<Rightarrow> nat \<Rightarrow> claimed_event list \<Rightarrow>
   go_error option list \<Rightarrow> queue_db \<Rightarrow> go_error option list \<times> queue_db" where
  "handle_events decode cs c hs k [] errs q = (errs, q)"
| "handle_events decode cs c hs k (e # es) errs q =
     (if hp_stop_before (hs k) then (errs, q)
      else case consumer_process decode cs c e (hs k) q of (err, q1) \<Rightarrow> handle_events decode cs c hs (Suc k) es (errs @ [err]) q1)"

definition handleAll ::
  "(string \<Rightarrow> (string \<times> string) result) \<Rightarrow> consumer list \<Rightarrow> consumer \<Rightarrow> (nat \<Rightarrow> happening) \<Rightarrow> claimed_event list result \<Rightarrow>
   queue_db \<Rightarrow> (nat \<times> go_error option list) result \<times> queue_db" where
  "handleAll decode cs c hs due q =
     (case due of
        Inl claimErr \<Rightarrow> (Inl claimErr, q)
      | Inr es \<Rightarrow> (case handle_events decode cs c hs 0 es [] q of (errs, q1) \<Rightarrow> (Inr (length es, errs), q1)))"

definition queue_tick ::
  "(string \<Rightarrow> (string \<times> string) result) \<Rightarrow> consumer list \<Rightarrow> consumer \<Rightarrow> go_error option \<Rightarrow> go_error option \<Rightarrow> int \<Rightarrow>
   (nat \<Rightarrow> happening) \<Rightarrow> queue_db \<Rightarrow> (nat \<times> go_error option list) result \<times> queue_db" where
  "queue_tick decode cs c unread fault t hs q =
     (let now = whole t in
      case queue_claim unread fault q c now (now + claimLease) batchSize of
        (due, q1) \<Rightarrow> handleAll decode cs c hs due q1)"

section \<open>Dead letters\<close>

definition ErrDeadLetterNotFound :: string where "ErrDeadLetterNotFound = ''dead letter not found''"
definition ErrDeadLetterEventGone :: string where "ErrDeadLetterEventGone = ''the dead letter's event was pruned from the outbox''"

definition letter_of :: "nat \<Rightarrow> string \<Rightarrow> attempt_row \<Rightarrow> bool" where
  "letter_of i consumer a \<longleftrightarrow> ar_EventID a = i \<and> ar_Consumer a = consumer \<and> ar_DeadAt a \<noteq> None"

definition retry_failed :: "nat \<Rightarrow> string \<Rightarrow> go_error \<Rightarrow> go_error" where
  "retry_failed i consumer e = Wrapf (''retry dead letter '' @ show_nat i @ '' of '' @ go_quote consumer @ '': '' @ error_text e) e"

definition letter_Retry :: "go_error option \<Rightarrow> queue_db \<Rightarrow> int \<Rightarrow> nat \<Rightarrow> string \<Rightarrow> unit result \<times> queue_db" where
  "letter_Retry fault q t i consumer =
     (let now = whole t in
      case fault of
        Some e \<Rightarrow> (Inl (retry_failed i consumer e), q)
      | None \<Rightarrow>
          if \<not> list_ex (\<lambda>o'. ob_ID o' = i) (qd_outbox q) then (Inl (retry_failed i consumer (Sentinel ErrDeadLetterEventGone)), q)
          else if \<not> list_ex (letter_of i consumer) (qd_attempts q) then (Inl (retry_failed i consumer (Sentinel ErrDeadLetterNotFound)), q)
          else (Inr (), q\<lparr>qd_attempts := map (\<lambda>a. if letter_of i consumer a
                 then a\<lparr>ar_DeadAt := None, ar_Attempts := 0, ar_NextAttemptAt := now, ar_UpdatedAt := now\<rparr> else a) (qd_attempts q),
                qd_outbox := set_processed i None (qd_outbox q)\<rparr>))"

text \<open>Each retry reads the clock; \<open>ts\<close> are the readings, and \<open>faults\<close> the failures of the transactions.\<close>

fun retry_letters :: "(nat \<Rightarrow> go_error option) \<Rightarrow> (nat \<Rightarrow> int) \<Rightarrow> nat list \<Rightarrow> string \<Rightarrow> int \<Rightarrow> queue_db \<Rightarrow> (int \<times> go_error option) \<times> queue_db" where
  "retry_letters faults ts [] consumer retried q = ((retried, None), q)"
| "retry_letters faults ts (i # ids) consumer retried q =
     (case letter_Retry (faults i) q (ts i) i consumer of
        (Inr _, q1) \<Rightarrow> retry_letters faults ts ids consumer (retried + 1) q1
      | (Inl e, q1) \<Rightarrow>
          if errors_Is e ErrDeadLetterNotFound \<or> errors_Is e ErrDeadLetterEventGone then retry_letters faults ts ids consumer retried q1
          else ((retried, Some e), q1))"

definition letter_RetryAll :: "(nat \<Rightarrow> go_error option) \<Rightarrow> queue_db \<Rightarrow> (nat \<Rightarrow> int) \<Rightarrow> string \<Rightarrow> (int \<times> go_error option) \<times> queue_db" where
  "letter_RetryAll faults q ts consumer =
     retry_letters faults ts (sort (map ar_EventID (filter (\<lambda>a. ar_Consumer a = consumer \<and> ar_DeadAt a \<noteq> None) (qd_attempts q)))) consumer 0 q"

section \<open>Housekeeping\<close>

definition Retention :: int where "Retention = 30 * 24 * hour"

definition processed_before :: "int \<Rightarrow> outbox_event \<Rightarrow> bool" where
  "processed_before cutoff o' = (case ob_ProcessedAt o' of None \<Rightarrow> False | Some t \<Rightarrow> t < cutoff)"

definition has_letter :: "queue_db \<Rightarrow> nat \<Rightarrow> bool" where
  "has_letter q i \<longleftrightarrow> list_ex (\<lambda>a. ar_EventID a = i \<and> ar_DeadAt a \<noteq> None) (qd_attempts q)"

text \<open>The events among the candidates that are still processed and still without a dead letter, with their attempts.\<close>

definition hk_prune :: "queue_db \<Rightarrow> nat list \<Rightarrow> int \<Rightarrow> nat \<times> queue_db" where
  "hk_prune q ids cutoff =
     (let locked = map ob_ID (filter (\<lambda>o'. ob_ID o' \<in> set ids \<and> processed_before cutoff o') (qd_outbox q));
          doomed = filter (\<lambda>i. \<not> has_letter q i) locked in
      (length doomed, q\<lparr>qd_attempts := filter (\<lambda>a. ar_EventID a \<notin> set doomed) (qd_attempts q),
                        qd_outbox := filter (\<lambda>o'. ob_ID o' \<notin> set doomed) (qd_outbox q)\<rparr>))"

definition expired :: "int \<Rightarrow> attempt_row \<Rightarrow> bool" where
  "expired cutoff a = (case ar_DeadAt a of None \<Rightarrow> False | Some t \<Rightarrow> t < cutoff)"

definition deleteLetters :: "queue_db \<Rightarrow> nat list \<Rightarrow> int \<Rightarrow> nat \<times> queue_db" where
  "deleteLetters q ids cutoff =
     (let dead = (\<lambda>a. ar_EventID a \<in> set ids \<and> expired cutoff a) in
      (length (filter dead (qd_attempts q)), q\<lparr>qd_attempts := filter (\<lambda>a. \<not> dead a) (qd_attempts q)\<rparr>))"

section \<open>The queue at work\<close>

text \<open>
  The tables, the time, the events ever published, the claimed events being handled with their consumer, and the log of what
  was recorded: the event, the consumer and whether it was finished (done or given up), newest first. A dead letter that is
  retried is not finished any more: what was recorded of it before is struck from the log. (A retry that fails changes nothing.) The
  candidates of a lease were read before: all that is known of them is that they are events of the consumer's type.
\<close>

record queue_sys =
  qs_db :: queue_db
  qs_now :: int
  qs_published :: "(nat \<times> string) list"
  qs_jobs :: "(consumer \<times> claimed_event) list"
  qs_log :: "(nat \<times> string \<times> bool) list"

definition since_retry :: "nat \<Rightarrow> string \<Rightarrow> (nat \<times> string \<times> bool) list \<Rightarrow> (nat \<times> string \<times> bool) list" where
  "since_retry i consumer = filter (\<lambda>(j, name, _). (j, name) \<noteq> (i, consumer))"

inductive queue_step :: "consumer list \<Rightarrow> queue_sys \<Rightarrow> queue_sys \<Rightarrow> bool" for cs where
  queue_time: "qs_now s \<le> t \<Longrightarrow> queue_step cs s (s\<lparr>qs_now := t\<rparr>)"
| published: "i \<notin> fst ` set (qs_published s) \<Longrightarrow>
    queue_step cs s (s\<lparr>qs_db := (qs_db s)\<lparr>qd_outbox := qd_outbox (qs_db s) @
        [\<lparr>ob_ID = i, ob_EventType = name, ob_Envelope = env, ob_ProcessedAt = None\<rparr>]\<rparr>, qs_published := (i, name) # qs_published s\<rparr>)"
| leased: "c \<in> set cs \<Longrightarrow> t \<le> qs_now s \<Longrightarrow> (\<And>i. i \<in> set candidates \<Longrightarrow> (i, cn_event c) \<in> set (qs_published s)) \<Longrightarrow>
    queue_lease None (qs_db s) (cn_name c) candidates (whole t) (whole t + claimLease) = (Inr claimed, q) \<Longrightarrow>
    queue_step cs s (s\<lparr>qs_db := q, qs_jobs := map (Pair c) claimed @ qs_jobs s\<rparr>)"
| recorded: "(c, e) \<in> set (qs_jobs s) \<Longrightarrow> t \<le> qs_now s \<Longrightarrow>
    queue_finish None (qs_db s) (outcome_row c e (whole t) handled) (siblings cs (cn_event c)) = (Inr (), q) \<Longrightarrow>
    queue_step cs s (s\<lparr>qs_db := q, qs_jobs := remove1 (c, e) (qs_jobs s),
      qs_log := (qe_ID e, cn_name c, finished_row (outcome_row c e (whole t) handled)) # qs_log s\<rparr>)"
| stopped: "queue_step cs s (s\<lparr>qs_jobs := remove1 job (qs_jobs s)\<rparr>)"
| retried: "t \<le> qs_now s \<Longrightarrow> letter_Retry None (qs_db s) t i consumer = (Inr (), q) \<Longrightarrow>
    queue_step cs s (s\<lparr>qs_db := q, qs_log := since_retry i consumer (qs_log s)\<rparr>)"
| pruned: "queue_step cs s (s\<lparr>qs_db := snd (hk_prune (qs_db s) ids cutoff)\<rparr>)"
| letters_deleted: "queue_step cs s (s\<lparr>qs_db := snd (deleteLetters (qs_db s) ids cutoff)\<rparr>)"

section \<open>What the tables say\<close>

definition row_key :: "attempt_row \<Rightarrow> nat \<times> string" where
  "row_key a = (ar_EventID a, ar_Consumer a)"

text \<open>A row of the attempts: not done and dead at once; a finished one was recorded as such, any other comes due within \<open>D\<close>.\<close>

definition attempt_ok :: "int \<Rightarrow> int \<Rightarrow> (nat \<times> string \<times> bool) list \<Rightarrow> attempt_row \<Rightarrow> bool" where
  "attempt_ok D now hist a \<longleftrightarrow> (ar_DoneAt a = None \<or> ar_DeadAt a = None)
     \<and> (if finished_row a then (ar_EventID a, ar_Consumer a, True) \<in> set hist else ar_NextAttemptAt a \<le> now + D)"

definition attempts_ok :: "int \<Rightarrow> int \<Rightarrow> (nat \<times> string \<times> bool) list \<Rightarrow> attempt_row list \<Rightarrow> bool" where
  "attempts_ok D now hist as \<longleftrightarrow> distinct (map row_key as) \<and> (\<forall>a \<in> set as. attempt_ok D now hist a)"

text \<open>Every consumer of the event finished it.\<close>

definition all_finished :: "consumer list \<Rightarrow> (nat \<times> string \<times> bool) list \<Rightarrow> nat \<Rightarrow> string \<Rightarrow> bool" where
  "all_finished cs hist i name \<longleftrightarrow> (\<forall>c \<in> set cs. cn_event c = name \<longrightarrow> (i, cn_name c, True) \<in> set hist)"

definition outbox_ok :: "consumer list \<Rightarrow> (nat \<times> string \<times> bool) list \<Rightarrow> (nat \<times> string) list \<Rightarrow> outbox_event list \<Rightarrow> bool" where
  "outbox_ok cs hist pub os \<longleftrightarrow> distinct (map ob_ID os)
     \<and> (\<forall>o' \<in> set os. (ob_ID o', ob_EventType o') \<in> set pub \<and> (ob_ProcessedAt o' \<noteq> None \<longrightarrow> all_finished cs hist (ob_ID o') (ob_EventType o')))
     \<and> (\<forall>(i, name) \<in> set pub. all_finished cs hist i name \<or> (\<exists>o' \<in> set os. ob_ID o' = i \<and> ob_EventType o' = name))"

definition queue_ok :: "consumer list \<Rightarrow> int \<Rightarrow> queue_sys \<Rightarrow> bool" where
  "queue_ok cs D s \<longleftrightarrow> distinct (map fst (qs_published s))
     \<and> (\<forall>(c, e) \<in> set (qs_jobs s). c \<in> set cs \<and> (qe_ID e, cn_event c) \<in> set (qs_published s))
     \<and> attempts_ok D (qs_now s) (qs_log s) (qd_attempts (qs_db s))
     \<and> outbox_ok cs (qs_log s) (qs_published s) (qd_outbox (qs_db s))"

lemma whole_le: "whole t \<le> t" by (simp add: whole_def)

lemma attempt_ok_mono: "attempt_ok D now hist a \<Longrightarrow> now \<le> now' \<Longrightarrow> set hist \<subseteq> set hist' \<Longrightarrow> attempt_ok D now' hist' a"
  by (auto simp: attempt_ok_def split: if_splits)

lemma all_finished_mono: "all_finished cs hist i name \<Longrightarrow> set hist \<subseteq> set hist' \<Longrightarrow> all_finished cs hist' i name"
  by (auto simp: all_finished_def)

lemma outbox_ok_mono: "outbox_ok cs hist pub os \<Longrightarrow> set hist \<subseteq> set hist' \<Longrightarrow> outbox_ok cs hist' pub os"
  unfolding outbox_ok_def by (blast intro: all_finished_mono)

lemma keys_upsert:
  assumes "\<And>a. row_key a = row_key row \<Longrightarrow> row_key (assign a) = row_key row"
  shows "map row_key (upsert_rows assign row as) = (if row_key row \<in> row_key ` set as then map row_key as else map row_key as @ [row_key row])"
  using assms by (induction as) (auto simp: row_key_def)

lemma upsert_set: "a \<in> set (upsert_rows assign row as) \<Longrightarrow> a = row \<or> a \<in> set as \<or> (\<exists>b \<in> set as. row_key b = row_key row \<and> a = assign b)"
  by (induction as) (auto simp: row_key_def split: if_splits)

lemma attempts_ok_upsert:
  assumes "attempts_ok D now hist as" "attempt_ok D now hist row"
    and "\<And>a. row_key a = row_key row \<Longrightarrow> row_key (assign a) = row_key row"
    and "\<And>a. a \<in> set as \<Longrightarrow> row_key a = row_key row \<Longrightarrow> attempt_ok D now hist (assign a)"
  shows "attempts_ok D now hist (upsert_rows assign row as)"
  using assms(1,2,4) keys_upsert [OF assms(3)] by (auto simp: attempts_ok_def dest!: upsert_set)

lemma attempts_ok_filter: "attempts_ok D now hist as \<Longrightarrow> attempts_ok D now hist (filter P as)"
  by (auto simp: attempts_ok_def distinct_map_filter)

lemma attempts_ok_map:
  assumes "attempts_ok D now hist as" "\<And>a. row_key (f a) = row_key a"
    "\<And>a. a \<in> set as \<Longrightarrow> attempt_ok D now hist a \<Longrightarrow> attempt_ok D now hist' (f a)"
  shows "attempts_ok D now hist' (map f as)"
  using assms by (simp add: attempts_ok_def comp_def)

lemma lease_ok:
  assumes "attempts_ok D now hist (qd_attempts q)" "queue_lease None q consumer candidates t u = (Inr claimed, q')" "u \<le> now + D"
  shows "attempts_ok D now hist (qd_attempts q') \<and> qd_outbox q' = qd_outbox q \<and> qe_ID ` set claimed \<subseteq> set candidates"
proof -
  let ?assign = "\<lambda>a. a\<lparr>ar_NextAttemptAt := u, ar_UpdatedAt := t\<rparr>"
  have one: "attempts_ok D now hist (upsert_rows ?assign (lease_row_of consumer t u e) as)" if "attempts_ok D now hist as" for as e
    using that assms(3)
    by (intro attempts_ok_upsert) (auto simp: attempts_ok_def attempt_ok_def lease_row_of_def finished_row_def row_key_def)
  have "attempts_ok D now hist (foldl (\<lambda>rows e. upsert_rows ?assign (lease_row_of consumer t u e) rows) as es)"
    if "attempts_ok D now hist as" for as es
    using that by (induction es arbitrary: as) (simp_all add: one)
  then show ?thesis using assms(1,2)
    by (auto simp: queue_lease_def Let_def lease_claimed_def split: if_splits)
qed

lemma retry_delay_le: "retry_delay p k \<le> rp_maxDelay p" by (simp add: retry_delay_def)

lemma outcome_ok:
  assumes "t \<le> now" "rp_maxDelay (cn_retry c) \<le> D"
  shows "attempt_ok D now ((qe_ID e, cn_name c, finished_row (outcome_row c e (whole t) h)) # hist) (outcome_row c e (whole t) h)"
  using assms whole_le [of t] retry_delay_le [of "cn_retry c" "qe_Attempts e + 1"]
  by (auto simp: attempt_ok_def outcome_row_def finished_row_def Let_def split: sum.splits)

lemma outcome_sel [simp]: "ar_EventID (outcome_row c e t h) = qe_ID e" "ar_Consumer (outcome_row c e t h) = cn_name c"
  by (auto simp: outcome_row_def Let_def split: sum.splits)

text \<open>As many finished rows of an event as it has consumers are one of each.\<close>

lemma enough_finished:
  assumes "distinct (map row_key as)" "length ns \<le> length (filter (\<lambda>a. ar_EventID a = i \<and> ar_Consumer a \<in> set ns \<and> finished_row a) as)" "n \<in> set ns"
  shows "\<exists>a \<in> set as. ar_EventID a = i \<and> ar_Consumer a = n \<and> finished_row a"
proof -
  let ?rows = "filter (\<lambda>a. ar_EventID a = i \<and> ar_Consumer a \<in> set ns \<and> finished_row a) as"
  have "inj_on ar_Consumer (set ?rows)"
    using assms(1) by (auto simp: distinct_map inj_on_def row_key_def)
  moreover have "distinct ?rows" using assms(1) by (simp add: distinct_map)
  ultimately have "card (ar_Consumer ` set ?rows) = length ?rows" by (simp only: card_image distinct_card)
  then have "card (set ns) \<le> card (ar_Consumer ` set ?rows)" using assms(2) card_length [of ns] by linarith
  moreover have "ar_Consumer ` set ?rows \<subseteq> set ns" by auto
  ultimately have "ar_Consumer ` set ?rows = set ns" by (intro card_seteq) simp_all
  then have "n \<in> ar_Consumer ` set ?rows" using assms(3) by (simp only:)
  then obtain a where "n = ar_Consumer a" "a \<in> set ?rows" by (rule imageE)
  then show ?thesis by auto
qed

lemma outbox_ok_processed:
  assumes "outbox_ok cs hist pub os" "at' = None \<or> (\<forall>o' \<in> set os. ob_ID o' = i \<longrightarrow> all_finished cs hist i (ob_EventType o'))"
  shows "outbox_ok cs hist pub (set_processed i at' os)"
proof -
  have same: "\<exists>o'' \<in> set (set_processed i at' os). ob_ID o'' = ob_ID o' \<and> ob_EventType o'' = ob_EventType o'" if "o' \<in> set os" for o'
    using that by (intro bexI [of _ "if ob_ID o' = i then o'\<lparr>ob_ProcessedAt := at'\<rparr> else o'"]) (auto simp: set_processed_def)
  have ids: "map ob_ID (set_processed i at' os) = map ob_ID os" by (simp add: set_processed_def)
  show ?thesis unfolding outbox_ok_def
  proof (intro conjI ballI)
    show "distinct (map ob_ID (set_processed i at' os))" using assms(1) by (simp only: ids outbox_ok_def)
    show "(ob_ID o', ob_EventType o') \<in> set pub" if "o' \<in> set (set_processed i at' os)" for o'
      using that assms(1) by (auto simp: set_processed_def outbox_ok_def)
    show "ob_ProcessedAt o' \<noteq> None \<longrightarrow> all_finished cs hist (ob_ID o') (ob_EventType o')" if "o' \<in> set (set_processed i at' os)" for o'
      using that assms by (auto simp: set_processed_def outbox_ok_def split: if_splits)
    show "case x of (i', name) \<Rightarrow> all_finished cs hist i' name \<or> (\<exists>o' \<in> set (set_processed i at' os). ob_ID o' = i' \<and> ob_EventType o' = name)"
      if "x \<in> set pub" for x
      using that assms(1) same by (fastforce simp: outbox_ok_def)
  qed
qed

lemma finish_ok:
  assumes att: "attempts_ok D now hist (qd_attempts q)" and out: "outbox_ok cs hist pub (qd_outbox q)"
    and fin: "queue_finish None q row (siblings cs name) = (Inr (), q')" and row: "attempt_ok D now hist row"
    and type: "\<And>o'. o' \<in> set (qd_outbox q) \<Longrightarrow> ob_ID o' = ar_EventID row \<Longrightarrow> ob_EventType o' = name"
  shows "attempts_ok D now hist (qd_attempts q') \<and> outbox_ok cs hist pub (qd_outbox q')"
proof -
  let ?as = "upsert_rows (\<lambda>_. row) row (qd_attempts q)" and ?ns = "siblings cs name" and ?i = "ar_EventID row"
  have as: "attempts_ok D now hist ?as" by (rule attempts_ok_upsert [OF att row]) (simp_all add: row)
  have "all_finished cs hist ?i name"
    if "length ?ns \<le> length (filter (\<lambda>a. ar_EventID a = ?i \<and> ar_Consumer a \<in> set ?ns \<and> finished_row a) ?as)"
  proof -
    have "\<exists>a \<in> set ?as. ar_EventID a = ?i \<and> ar_Consumer a = cn_name c \<and> finished_row a" if "c \<in> set cs" "cn_event c = name" for c
      using enough_finished [OF _ \<open>length ?ns \<le> _\<close>, of "cn_name c"] as that by (auto simp: attempts_ok_def siblings_def)
    then show ?thesis using as by (fastforce simp: all_finished_def attempts_ok_def attempt_ok_def)
  qed
  then show ?thesis using fin as out type outbox_ok_processed [OF out, of _ ?i]
    by (auto simp: queue_finish_def Let_def split: if_splits)
qed


lemma outbox_ok_published:
  assumes "outbox_ok cs hist pub os" "ob_ProcessedAt o' = None" "ob_ID o' \<notin> fst ` set pub"
  shows "outbox_ok cs hist ((ob_ID o', ob_EventType o') # pub) (os @ [o'])"
proof -
  have "ob_ID o' \<notin> ob_ID ` set os" using assms(1,3) by (force simp: outbox_ok_def)
  then show ?thesis using assms(1,2) by (fastforce simp: outbox_ok_def)
qed

text \<open>Only events every consumer finished may go.\<close>

lemma outbox_ok_filter:
  assumes "outbox_ok cs hist pub os" "distinct (map fst pub)" "\<And>o'. o' \<in> set os \<Longrightarrow> \<not> P o' \<Longrightarrow> ob_ProcessedAt o' \<noteq> None"
  shows "outbox_ok cs hist pub (filter P os)"
proof -
  have "all_finished cs hist i name \<or> (\<exists>o' \<in> set (filter P os). ob_ID o' = i \<and> ob_EventType o' = name)" if "(i, name) \<in> set pub" for i name
    using that assms(1,3) by (fastforce simp: outbox_ok_def)
  then show ?thesis using assms(1) by (auto simp: outbox_ok_def distinct_map_filter)
qed

lemma prune_ok:
  assumes "attempts_ok D now hist (qd_attempts q)" "outbox_ok cs hist pub (qd_outbox q)" "distinct (map fst pub)"
  shows "attempts_ok D now hist (qd_attempts (snd (hk_prune q ids cutoff))) \<and> outbox_ok cs hist pub (qd_outbox (snd (hk_prune q ids cutoff)))"
proof -
  have one: "o1 = o2" if "o1 \<in> set (qd_outbox q)" "o2 \<in> set (qd_outbox q)" "ob_ID o1 = ob_ID o2" for o1 o2
    using that assms(2) by (auto simp: outbox_ok_def distinct_map dest: inj_onD)
  have "outbox_ok cs hist pub (qd_outbox (snd (hk_prune q ids cutoff)))"
    unfolding hk_prune_def Let_def using assms(2,3)
    by (auto intro!: outbox_ok_filter simp: processed_before_def split: option.splits dest: one)
  then show ?thesis using assms(1) by (simp add: hk_prune_def Let_def attempts_ok_filter)
qed

text \<open>
  A retried letter: its event is in the table, is not processed any more, and what was recorded of the others still stands; the row of
  the letter is the only one of its event and consumer, so nothing finished is left there.
\<close>

lemma since_retry_in: "(j, name, b) \<in> set (since_retry i consumer hist) \<longleftrightarrow> (j, name, b) \<in> set hist \<and> (j, name) \<noteq> (i, consumer)"
  by (auto simp: since_retry_def)

lemma outbox_ok_reopened:
  assumes "outbox_ok cs hist pub os" "distinct (map fst pub)" "i \<in> ob_ID ` set os"
  shows "outbox_ok cs (since_retry i consumer hist) pub (set_processed i None os)"
proof -
  have fin: "all_finished cs (since_retry i consumer hist) j name" if "all_finished cs hist j name" "j \<noteq> i" for j name
    using that by (auto simp: all_finished_def since_retry_in)
  have same: "\<exists>o'' \<in> set (set_processed i None os). ob_ID o'' = ob_ID o' \<and> ob_EventType o'' = ob_EventType o'" if "o' \<in> set os" for o'
    using that by (intro bexI [of _ "if ob_ID o' = i then o'\<lparr>ob_ProcessedAt := None\<rparr> else o'"]) (auto simp: set_processed_def)
  obtain o' where o': "o' \<in> set os" "ob_ID o' = i" "(i, ob_EventType o') \<in> set pub" using assms(1,3) by (auto simp: outbox_ok_def)
  have type: "name = ob_EventType o'" if "(i, name) \<in> set pub" for name using that o'(3) assms(2) by (auto dest: eq_key_imp_eq_value)
  show ?thesis unfolding outbox_ok_def
  proof (intro conjI ballI)
    show "distinct (map ob_ID (set_processed i None os))" using assms(1) by (simp add: set_processed_def outbox_ok_def comp_def if_distrib cong: if_cong)
    show "(ob_ID o', ob_EventType o') \<in> set pub" if "o' \<in> set (set_processed i None os)" for o'
      using that assms(1) by (auto simp: set_processed_def outbox_ok_def)
    show "ob_ProcessedAt o' \<noteq> None \<longrightarrow> all_finished cs (since_retry i consumer hist) (ob_ID o') (ob_EventType o')"
      if "o' \<in> set (set_processed i None os)" for o'
      using that assms(1) by (auto simp: set_processed_def outbox_ok_def intro: fin split: if_splits)
    show "case x of (j, name) \<Rightarrow> all_finished cs (since_retry i consumer hist) j name
        \<or> (\<exists>o' \<in> set (set_processed i None os). ob_ID o' = j \<and> ob_EventType o' = name)" if "x \<in> set pub" for x
    proof (cases x)
      case (Pair j name)
      show ?thesis
      proof (cases "j = i")
        case True
        then show ?thesis using same [OF o'(1)] o'(2) type that Pair by auto
      next
        case False
        then show ?thesis using that assms(1) Pair fin same unfolding outbox_ok_def by fastforce
      qed
    qed
  qed
qed

lemma letter_Retry_ok:
  assumes "attempts_ok D now hist (qd_attempts q)" "outbox_ok cs hist pub (qd_outbox q)" "distinct (map fst pub)" "0 \<le> D" "t \<le> now"
    "letter_Retry None q t i consumer = (Inr (), q')"
  shows "attempts_ok D now (since_retry i consumer hist) (qd_attempts q') \<and> outbox_ok cs (since_retry i consumer hist) pub (qd_outbox q')"
proof -
  let ?revive = "\<lambda>a. if letter_of i consumer a
    then a\<lparr>ar_DeadAt := None, ar_Attempts := 0, ar_NextAttemptAt := whole t, ar_UpdatedAt := whole t\<rparr> else a"
  from assms(6) obtain b where b: "b \<in> set (qd_attempts q)" "letter_of i consumer b" and found: "i \<in> ob_ID ` set (qd_outbox q)"
    and q': "q' = q\<lparr>qd_attempts := map ?revive (qd_attempts q), qd_outbox := set_processed i None (qd_outbox q)\<rparr>"
    by (auto simp: letter_Retry_def Let_def list_ex_iff split: if_splits)
  have key: "row_key (?revive a) = row_key a" for a by (simp add: row_key_def)
  have only: "a = b" if "a \<in> set (qd_attempts q)" "row_key a = (i, consumer)" for a
  proof (rule inj_onD [of row_key])
    show "inj_on row_key (set (qd_attempts q))" using assms(1) by (simp add: attempts_ok_def distinct_map)
    show "row_key a = row_key b" using that(2) b(2) by (simp add: letter_of_def row_key_def)
  qed (rule that(1), rule b(1))
  have ok: "attempt_ok D now (since_retry i consumer hist) (?revive a)" if "a \<in> set (qd_attempts q)" "attempt_ok D now hist a" for a
  proof (cases "row_key a = (i, consumer)")
    case True
    then have "letter_of i consumer a" using only [OF that(1)] b(2) by simp
    then show ?thesis using that(2) assms(4,5) whole_le [of t] by (auto simp: attempt_ok_def finished_row_def letter_of_def)
  next
    case False
    then have "\<not> letter_of i consumer a" by (auto simp: letter_of_def row_key_def)
    then show ?thesis using that(2) False by (auto simp: attempt_ok_def since_retry_in row_key_def)
  qed
  from attempts_ok_map [OF assms(1) key ok] outbox_ok_reopened [OF assms(2,3) found] show ?thesis by (simp add: q')
qed

text \<open>How long anything may wait: a lease, or the longest delay of a consumer.\<close>

definition longest_wait :: "consumer list \<Rightarrow> int" where
  "longest_wait cs = foldr (\<lambda>c. max (rp_maxDelay (cn_retry c))) cs claimLease"

lemma longest_wait_ge: "claimLease \<le> longest_wait cs" "c \<in> set cs \<Longrightarrow> rp_maxDelay (cn_retry c) \<le> longest_wait cs"
  by (induction cs) (auto simp: longest_wait_def)


lemma queue_ok_step:
  assumes "queue_step cs s s'" "queue_ok cs (longest_wait cs) s"
  shows "queue_ok cs (longest_wait cs) s'"
  using assms
proof (cases rule: queue_step.cases)
  case (queue_time t)
  then show ?thesis using assms(2) by (auto simp: queue_ok_def attempts_ok_def intro: attempt_ok_mono)
next
  case (published i name env)
  then show ?thesis using assms(2)
      outbox_ok_published [of cs "qs_log s" "qs_published s" "qd_outbox (qs_db s)" "\<lparr>ob_ID = i, ob_EventType = name, ob_Envelope = env, ob_ProcessedAt = None\<rparr>"]
    by (auto simp: queue_ok_def)
next
  case (leased c t candidates claimed q)
  have "whole t + claimLease \<le> qs_now s + longest_wait cs" using whole_le [of t] leased(3) longest_wait_ge(1) [of cs] by linarith
  then show ?thesis using assms(2) leased lease_ok [OF _ leased(5), of "longest_wait cs" "qs_now s" "qs_log s"]
    by (fastforce simp: queue_ok_def)
next
  case (recorded c e t handled q)
  let ?row = "outcome_row c e (whole t) handled"
  let ?hist = "(qe_ID e, cn_name c, finished_row ?row) # qs_log s"
  have job: "c \<in> set cs" "(qe_ID e, cn_event c) \<in> set (qs_published s)" using assms(2) recorded(2) by (auto simp: queue_ok_def)
  have att: "attempts_ok (longest_wait cs) (qs_now s) ?hist (qd_attempts (qs_db s))"
    using assms(2) by (auto simp: queue_ok_def attempts_ok_def intro: attempt_ok_mono)
  have out: "outbox_ok cs ?hist (qs_published s) (qd_outbox (qs_db s))"
    using assms(2) by (auto simp: queue_ok_def intro: outbox_ok_mono)
  have row: "attempt_ok (longest_wait cs) (qs_now s) ?hist ?row"
    by (rule outcome_ok [OF recorded(3) longest_wait_ge(2) [OF job(1)]])
  have "ob_EventType o' = cn_event c" if "o' \<in> set (qd_outbox (qs_db s))" "ob_ID o' = ar_EventID ?row" for o'
    using that assms(2) job(2) by (auto simp: queue_ok_def outbox_ok_def dest: eq_key_imp_eq_value)
  from finish_ok [OF att out recorded(4) row this] show ?thesis
    using assms(2) recorded(1) by (auto simp: queue_ok_def dest: set_remove1_subset [THEN subsetD])
next
  case (stopped job)
  then show ?thesis using assms(2) by (auto simp: queue_ok_def dest: set_remove1_subset [THEN subsetD])
next
  case (retried t i consumer q)
  have "0 \<le> longest_wait cs" using longest_wait_ge(1) [of cs] by (simp add: claimLease_def minute_def second_def)
  then show ?thesis using assms(2) retried letter_Retry_ok [OF _ _ _ _ retried(2,3)] by (auto simp: queue_ok_def)
next
  case (pruned ids cutoff)
  then show ?thesis using assms(2) prune_ok by (auto simp: queue_ok_def)
next
  case (letters_deleted ids cutoff)
  then show ?thesis using assms(2) by (auto simp: queue_ok_def deleteLetters_def Let_def attempts_ok_filter)
qed

definition empty_queue :: "int \<Rightarrow> queue_sys" where
  "empty_queue t = \<lparr>qs_db = \<lparr>qd_outbox = [], qd_attempts = []\<rparr>, qs_now = t, qs_published = [], qs_jobs = [], qs_log = []\<rparr>"

lemma queue_ok_empty: "queue_ok cs D (empty_queue t)"
  by (simp add: empty_queue_def queue_ok_def attempts_ok_def outbox_ok_def)

lemma queue_ok_run: "(queue_step cs)\<^sup>*\<^sup>* (empty_queue t) s \<Longrightarrow> queue_ok cs (longest_wait cs) s"
  by (induction rule: rtranclp_induct) (simp_all add: queue_ok_empty queue_ok_step)

text \<open>What is due, and that claiming takes it, the oldest first.\<close>

lemma event_due:
  assumes "queue_ok cs D s" "(i, cn_event c) \<in> set (qs_published s)" "c \<in> set cs" "(i, cn_name c, True) \<notin> set (qs_log s)" "qs_now s + D \<le> t"
  shows "\<exists>o' \<in> set (qd_outbox (qs_db s)). ob_ID o' = i \<and> ob_EventType o' = cn_event c \<and> ob_ProcessedAt o' = None \<and> open_attempt (qs_db s) i (cn_name c) t"
proof -
  have "\<not> all_finished cs (qs_log s) i (cn_event c)" using assms(3,4) by (auto simp: all_finished_def)
  then obtain o' where o': "o' \<in> set (qd_outbox (qs_db s))" "ob_ID o' = i" "ob_EventType o' = cn_event c" "ob_ProcessedAt o' = None"
    using assms(1,2) by (fastforce simp: queue_ok_def outbox_ok_def)
  have "ar_DoneAt a = None \<and> ar_DeadAt a = None \<and> ar_NextAttemptAt a \<le> t" if "find_attempt (qs_db s) i (cn_name c) = Some a" for a
  proof -
    have "a \<in> set (qd_attempts (qs_db s))" "ar_EventID a = i" "ar_Consumer a = cn_name c"
      using that by (auto simp: find_attempt_def find_Some_iff)
    then show ?thesis using assms(1,4,5) by (auto simp: queue_ok_def attempts_ok_def attempt_ok_def finished_row_def split: if_splits)
  qed
  then show ?thesis using o' by (auto simp: open_attempt_def split: option.splits)
qed

lemma claim_takes_due:
  assumes "distinct (map ob_ID (qd_outbox q))"
  shows "\<exists>q' claimed. queue_claim None None q c t u limit = (Inr claimed, q') \<and> map qe_ID claimed = due_ids q c t limit"
proof -
  let ?ids = "due_ids q c t limit"
  let ?rows = "filter (\<lambda>o'. open_attempt q (ob_ID o') (cn_name c) t) (sort_key ob_ID (filter (\<lambda>o'. ob_ID o' \<in> set ?ids \<and> ob_ProcessedAt o' = None) (qd_outbox q)))"
  have "sorted ?ids" "distinct ?ids" using assms by (auto simp: due_ids_def distinct_map_filter)
  moreover have "sorted (map ob_ID ?rows)" by (simp add: sorted_filter)
  moreover have "distinct (map ob_ID ?rows)" using assms by (auto simp: distinct_map intro: inj_on_subset)
  moreover have "set (map ob_ID ?rows) = set ?ids"
  proof -
    have "\<exists>o' \<in> set (qd_outbox q). ob_ID o' = i \<and> ob_ProcessedAt o' = None \<and> open_attempt q i (cn_name c) t" if "i \<in> set ?ids" for i
      using that by (auto simp: due_ids_def dest!: in_set_takeD)
    then show ?thesis by fastforce
  qed
  ultimately have "map ob_ID ?rows = ?ids" by (intro sorted_distinct_set_unique)
  then have "map qe_ID (lease_claimed q (cn_name c) ?ids t) = ?ids" by (simp add: lease_claimed_def Let_def comp_def)
  then show ?thesis by (auto simp: queue_claim_def queue_lease_def Let_def)
qed

text \<open>An element of a list is among the first \<open>n\<close> of its sorted copy, or those are \<open>n\<close> that are no larger.\<close>

lemma first_of_sorted:
  fixes xs :: "nat list"
  assumes "x \<in> set xs"
  shows "x \<in> set (take n (sort xs)) \<or> length (take n (sort xs)) = n \<and> (\<forall>y \<in> set (take n (sort xs)). y \<le> x)"
proof (cases "x \<in> set (take n (sort xs))")
  case False
  then have drop: "x \<in> set (drop n (sort xs))" using assms set_append [of "take n (sort xs)" "drop n (sort xs)"] by simp
  then have "n < length (sort xs)" by (metis drop_all empty_iff empty_set not_le_imp_less)
  moreover have "y \<le> x" if "y \<in> set (take n (sort xs))" for y
    using that drop sorted_append [of "take n (sort xs)" "drop n (sort xs)"] by simp
  ultimately show ?thesis by simp
qed simp


text \<open>
  C12: An event is not lost. In every run of the queue, with any number of workers, crashes, lost leases, retries of dead letters
  and housekeeping: once an event is published, each of its consumers either has finished it (done, or given up: a dead letter)
  since it was published, or since its dead letter was last retried, or, when the longest delay has passed, the next claim of that
  consumer takes it, unless the claim is already full of events that are no newer.
\<close>

theorem events_not_lost:
  assumes "(queue_step cs)\<^sup>*\<^sup>* (empty_queue start) s" "(i, cn_event c) \<in> set (qs_published s)" "c \<in> set cs"
    "(i, cn_name c, True) \<notin> set (qs_log s)" "qs_now s + longest_wait cs \<le> t"
  shows "\<exists>claimed q. queue_claim None None (qs_db s) c t u batchSize = (Inr claimed, q)
    \<and> (i \<in> qe_ID ` set claimed \<or> length claimed = batchSize \<and> (\<forall>e \<in> set claimed. qe_ID e \<le> i))"
proof -
  have ok: "queue_ok cs (longest_wait cs) s" by (rule queue_ok_run [OF assms(1)])
  then obtain claimed q where claimed: "queue_claim None None (qs_db s) c t u batchSize = (Inr claimed, q)"
      "map qe_ID claimed = due_ids (qs_db s) c t batchSize"
    using claim_takes_due [of "qs_db s" c t u batchSize] by (auto simp: queue_ok_def outbox_ok_def)
  let ?due = "map ob_ID (filter (\<lambda>o'. ob_ProcessedAt o' = None \<and> ob_EventType o' = cn_event c \<and> open_attempt (qs_db s) (ob_ID o') (cn_name c) t) (qd_outbox (qs_db s)))"
  have "i \<in> set ?due" using event_due [OF ok assms(2-5)] by auto
  from first_of_sorted [OF this, of batchSize]
  have "i \<in> set (map qe_ID claimed) \<or> length (map qe_ID claimed) = batchSize \<and> (\<forall>y \<in> set (map qe_ID claimed). y \<le> i)"
    unfolding claimed(2) due_ids_def .
  then show ?thesis using claimed(1) by auto
qed


text \<open>A crashed worker: the event it leased is claimed again when the lease is over.\<close>

definition ex_consumer :: consumer where
  "ex_consumer = \<lparr>cn_name = ''mail'', cn_event = ''paid'', cn_version = 1, cn_payload = 0, cn_retry = defaultRetry\<rparr>"

definition ex_leased :: queue_sys where
  "ex_leased = \<lparr>qs_db = \<lparr>qd_outbox = [\<lparr>ob_ID = 7, ob_EventType = ''paid'', ob_Envelope = [], ob_ProcessedAt = None\<rparr>],
     qd_attempts = [lease_row_of ''mail'' 0 claimLease \<lparr>qe_ID = 7, qe_EventType = ''paid'', qe_Envelope = [], qe_Attempts = 0\<rparr>]\<rparr>,
     qs_now = 0, qs_published = [(7, ''paid'')], qs_jobs = [], qs_log = []\<rparr>"

lemma ex_leased_run: "(queue_step [ex_consumer])\<^sup>*\<^sup>* (empty_queue 0) ex_leased"
proof -
  let ?e = "\<lparr>qe_ID = 7, qe_EventType = ''paid'', qe_Envelope = [], qe_Attempts = 0\<rparr>"
  let ?s1 = "ex_leased\<lparr>qs_db := (qs_db ex_leased)\<lparr>qd_attempts := []\<rparr>\<rparr>"
  let ?s2 = "ex_leased\<lparr>qs_jobs := [(ex_consumer, ?e)]\<rparr>"
  have step1: "queue_step [ex_consumer] (empty_queue 0) ?s1"
    using queue_step.published [of 7 "empty_queue 0" "[ex_consumer]" "''paid''" "[]"] by (simp add: empty_queue_def ex_leased_def)
  have "queue_lease None (qs_db ?s1) ''mail'' [7] (whole 0) (whole 0 + claimLease) = (Inr [?e], qs_db ex_leased)" by code_simp
  then have step2: "queue_step [ex_consumer] ?s1 ?s2"
    using queue_step.leased [of ex_consumer "[ex_consumer]" 0 ?s1 "[7]" "[?e]" "qs_db ex_leased"] by (simp add: ex_leased_def ex_consumer_def)
  have step3: "queue_step [ex_consumer] ?s2 ex_leased"
    using queue_step.stopped [of "[ex_consumer]" ?s2 "(ex_consumer, ?e)"] by (simp add: ex_leased_def)
  note more = rtranclp.rtrancl_into_rtrancl [where r = "queue_step [ex_consumer]" and a = "empty_queue 0"]
  show ?thesis by (rule more [OF more [OF more [OF rtranclp.rtrancl_refl step1] step2] step3])
qed

theorem events_not_lost_witness:
  "\<exists>claimed q. queue_claim None None (qs_db ex_leased) ex_consumer (30 * minute) 0 batchSize = (Inr claimed, q) \<and> 7 \<in> qe_ID ` set claimed"
proof -
  have "(7, cn_event ex_consumer) \<in> set (qs_published ex_leased)" "(7, cn_name ex_consumer, True) \<notin> set (qs_log ex_leased)"
    by (simp_all add: ex_leased_def ex_consumer_def)
  moreover have "qs_now ex_leased + longest_wait [ex_consumer] \<le> 30 * minute" by code_simp
  ultimately obtain claimed q where *: "queue_claim None None (qs_db ex_leased) ex_consumer (30 * minute) 0 batchSize = (Inr claimed, q)"
      "7 \<in> qe_ID ` set claimed \<or> length claimed = batchSize"
    using events_not_lost [OF ex_leased_run, of 7 ex_consumer "30 * minute" 0] by auto
  moreover have "length (due_ids (qs_db ex_leased) ex_consumer (30 * minute) batchSize) = 1" by code_simp
  moreover obtain claimed' q' where "queue_claim None None (qs_db ex_leased) ex_consumer (30 * minute) 0 batchSize = (Inr claimed', q')"
      "map qe_ID claimed' = due_ids (qs_db ex_leased) ex_consumer (30 * minute) batchSize"
    using claim_takes_due [of "qs_db ex_leased" ex_consumer "30 * minute" 0 batchSize] by (auto simp: ex_leased_def)
  ultimately have "length claimed = 1" by (metis Inr_inject Pair_inject length_map)
  then show ?thesis using * by (auto simp: batchSize_def)
qed

section \<open>A worker takes steps of the queue\<close>

lemma run_steps:
  assumes "(c, e) \<in> set (qs_jobs s)" "hp_now h \<le> qs_now s" "consumer_run decode cs c e h (qs_db s) = (err, q')"
  shows "\<exists>hist. queue_step cs s (s\<lparr>qs_db := q', qs_jobs := remove1 (c, e) (qs_jobs s), qs_log := hist\<rparr>)"
proof -
  let ?handled = "queue_handle decode (hp_handler h) c e"
  let ?row = "outcome_row c e (whole (hp_now h)) ?handled"
  have unchanged: "queue_step cs s (s\<lparr>qs_db := qs_db s, qs_jobs := remove1 (c, e) (qs_jobs s), qs_log := qs_log s\<rparr>)"
    using queue_step.stopped [of cs s "(c, e)"] by simp
  have "queue_step cs s (s\<lparr>qs_db := snd (queue_finish None (qs_db s) ?row (siblings cs (cn_event c))),
      qs_jobs := remove1 (c, e) (qs_jobs s), qs_log := (qe_ID e, cn_name c, finished_row ?row) # qs_log s\<rparr>)"
    by (rule queue_step.recorded [OF assms(1,2)]) (simp add: queue_finish_def Let_def prod_eq_iff)
  moreover have "q' = qs_db s \<or> q' = snd (queue_finish None (qs_db s) ?row (siblings cs (cn_event c)))"
    using assms(3) by (cases "hp_fault h") (auto simp: consumer_run_def Let_def queue_finish_def [of "Some e" for e] split: if_splits)
  ultimately show ?thesis using unchanged by (elim disjE) (simp only:, blast)+
qed

lemma handle_events_steps:
  assumes "distinct es" "Pair c ` set es \<subseteq> set (qs_jobs s)" "\<And>k. hp_now (hs k) \<le> qs_now s"
    "handle_events decode cs c hs k es errs (qs_db s) = (errs', q')"
  shows "\<exists>s'. (queue_step cs)\<^sup>*\<^sup>* s s' \<and> qs_db s' = q' \<and> qs_now s' = qs_now s \<and> qs_published s' = qs_published s"
  using assms
proof (induction es arbitrary: s k errs)
  case (Cons e es)
  show ?case
  proof (cases "hp_stop_before (hs k)")
    case False
    obtain err q1 where run: "consumer_run decode cs c e (hs k) (qs_db s) = (err, q1)" by (cases "consumer_run decode cs c e (hs k) (qs_db s)")
    obtain hist where step: "queue_step cs s (s\<lparr>qs_db := q1, qs_jobs := remove1 (c, e) (qs_jobs s), qs_log := hist\<rparr>)" (is "queue_step cs s ?s")
      using run_steps [OF _ Cons.prems(3) run] Cons.prems(2) by auto
    have "(c, e') \<in> set (qs_jobs ?s)" if "e' \<in> set es" for e'
    proof -
      have "e' \<noteq> e" "(c, e') \<in> set (qs_jobs s)" using that Cons.prems(1,2) by auto
      then show ?thesis by simp
    qed
    then have jobs: "Pair c ` set es \<subseteq> set (qs_jobs ?s)" by blast
    obtain errs1 where rest: "handle_events decode cs c hs (Suc k) es errs1 (qs_db ?s) = (errs', q')"
      using Cons.prems(4) False run by (auto simp: consumer_process_def split: option.splits)
    have "distinct es" "\<And>k. hp_now (hs k) \<le> qs_now ?s" using Cons.prems(1,3) by simp_all
    from Cons.IH [OF this(1) jobs this(2) rest] obtain s' where s': "(queue_step cs)\<^sup>*\<^sup>* ?s s'" "qs_db s' = q'"
        "qs_now s' = qs_now s" "qs_published s' = qs_published s" by auto
    have "(queue_step cs)\<^sup>*\<^sup>* s s'" by (rule converse_rtranclp_into_rtranclp [where r = "queue_step cs", OF step s'(1)])
    then show ?thesis using s'(2-) by (intro exI [of _ s'] conjI)
  qed (use Cons.prems(4) in auto)
qed auto

text \<open>
  C13: A worker of the code refines the steps of the queue: one tick (claim a batch, hand each event to the handler, record each
  outcome, stopping when told to, with every database failure) is a sequence of them, so what holds of every run holds of the code.
\<close>

theorem tick_refines:
  assumes "(queue_step cs)\<^sup>*\<^sup>* (empty_queue start) s" "c \<in> set cs" "t \<le> qs_now s" "\<And>k. hp_now (hs k) \<le> qs_now s"
    "queue_tick decode cs c unread fault t hs (qs_db s) = (r, q')"
  shows "\<exists>s'. (queue_step cs)\<^sup>*\<^sup>* s s' \<and> qs_db s' = q' \<and> qs_now s' = qs_now s \<and> qs_published s' = qs_published s"
proof (cases "unread = None \<and> fault = None")
  case True
  have ok: "queue_ok cs (longest_wait cs) s" by (rule queue_ok_run [OF assms(1)])
  let ?now = "whole t"
  obtain claimed q1 where claimed: "queue_claim None None (qs_db s) c ?now (?now + claimLease) batchSize = (Inr claimed, q1)"
      "map qe_ID claimed = due_ids (qs_db s) c ?now batchSize"
    using ok claim_takes_due [of "qs_db s" c ?now "?now + claimLease" batchSize] by (auto simp: queue_ok_def outbox_ok_def)
  let ?s = "s\<lparr>qs_db := q1, qs_jobs := map (Pair c) claimed @ qs_jobs s\<rparr>"
  have "distinct (map qe_ID claimed)" using ok by (simp only: claimed(2)) (auto simp: due_ids_def queue_ok_def outbox_ok_def distinct_map_filter)
  then have dist: "distinct claimed" by (simp add: distinct_map)
  have "(i, cn_event c) \<in> set (qs_published s)" if "i \<in> set (due_ids (qs_db s) c ?now batchSize)" for i
    using that ok unfolding due_ids_def queue_ok_def outbox_ok_def by (fastforce dest!: in_set_takeD)
  then have step: "queue_step cs s ?s"
    using queue_step.leased [OF assms(2,3), of "due_ids (qs_db s) c ?now batchSize" claimed q1] claimed(1) by (auto simp: queue_claim_def)
  obtain errs where "handle_events decode cs c hs 0 claimed [] q1 = (errs, q')"
    using assms(5) True claimed(1) by (auto simp: queue_tick_def Let_def handleAll_def split: prod.splits)
  then obtain s' where s': "(queue_step cs)\<^sup>*\<^sup>* ?s s'" "qs_db s' = q'" "qs_now s' = qs_now s" "qs_published s' = qs_published s"
    using handle_events_steps [OF dist, of c ?s hs decode cs 0 "[]" errs q'] assms(4) by auto
  have "(queue_step cs)\<^sup>*\<^sup>* s s'" by (rule converse_rtranclp_into_rtranclp [where r = "queue_step cs", OF step s'(1)])
  then show ?thesis using s'(2-) by (intro exI [of _ s'] conjI)
next
  case False
  then have "q' = qs_db s"
    using assms(5) by (auto simp: queue_tick_def Let_def handleAll_def queue_claim_def queue_lease_def split: option.splits if_splits)
  then show ?thesis by blast
qed

text \<open>The worker that takes over from the crashed one, its handler succeeding.\<close>

definition ex_happening :: "nat \<Rightarrow> happening" where
  "ex_happening k = \<lparr>hp_stop_before = False, hp_handler = (\<lambda>_ _. Returns (Inr ())), hp_stop_after = False, hp_now = hour, hp_fault = None\<rparr>"

definition ex_decode :: "string \<Rightarrow> (string \<times> string) result" where
  "ex_decode s = Inr (''1'', s)"

theorem tick_refines_witness:
  "\<exists>s'. (queue_step [ex_consumer])\<^sup>*\<^sup>* (ex_leased\<lparr>qs_now := hour\<rparr>) s'
     \<and> map ob_ProcessedAt (qd_outbox (qs_db s')) = [Some hour] \<and> qs_now s' = hour \<and> qs_published s' = [(7, ''paid'')]"
proof -
  let ?s = "ex_leased\<lparr>qs_now := hour\<rparr>"
  have "queue_step [ex_consumer] ex_leased ?s"
    by (rule queue_step.queue_time) (simp add: ex_leased_def hour_def minute_def second_def)
  then have run: "(queue_step [ex_consumer])\<^sup>*\<^sup>* (empty_queue 0) ?s"
    using rtranclp.rtrancl_into_rtrancl [where r = "queue_step [ex_consumer]", OF ex_leased_run] by blast
  obtain r q' where tick: "queue_tick ex_decode [ex_consumer] ex_consumer None None hour ex_happening (qs_db ?s) = (r, q')"
    by (cases "queue_tick ex_decode [ex_consumer] ex_consumer None None hour ex_happening (qs_db ?s)")
  moreover have "map ob_ProcessedAt (qd_outbox (snd (queue_tick ex_decode [ex_consumer] ex_consumer None None hour ex_happening (qs_db ?s)))) = [Some hour]"
    by code_simp
  ultimately have "map ob_ProcessedAt (qd_outbox q') = [Some hour]" by simp
  then show ?thesis
    using tick_refines [OF run _ _ _ tick] by (auto simp: ex_happening_def ex_leased_def)
qed

section \<open>The delays, and what a late worker does\<close>

text \<open>The wait doubles with every failure up to the longest one.\<close>

lemma delay_loop_eq: "0 < d \<Longrightarrow> min (delay_loop p n d) (rp_maxDelay p) = min (d * 2 ^ n) (rp_maxDelay p)"
proof (induction n arbitrary: d)
  case (Suc n)
  have "d \<le> d * 2 ^ Suc n" using Suc.prems one_le_power [of "2 :: int" "Suc n"] by (simp add: mult_le_cancel_left1)
  moreover have "min (delay_loop p n (d * 2)) (rp_maxDelay p) = min (d * 2 ^ Suc n) (rp_maxDelay p)"
    using Suc.IH [of "d * 2"] Suc.prems by (simp add: mult.assoc)
  ultimately show ?case by (cases "d < rp_maxDelay p") auto
qed simp

theorem retry_delay_doubles:
  "0 < rp_firstDelay p \<Longrightarrow> retry_delay p k = min (rp_firstDelay p * 2 ^ nat (k - 1)) (rp_maxDelay p)"
  by (simp add: retry_delay_def delay_loop_eq)

text \<open>
  Recording an outcome overwrites the row whatever it says: a worker whose lease ran out and whose handler failed takes back
  the outcome of the worker that finished the event meanwhile.
\<close>

theorem late_failure_reopens:
  "\<exists>(q :: queue_db) q1 q2 c e e'. let cs = [c] in
     queue_finish None q (outcome_row c e 1 (Inr ())) (siblings cs (cn_event c)) = (Inr (), q1)
     \<and> \<not> open_attempt q1 (qe_ID e) (cn_name c) (1000 * hour)
     \<and> queue_finish None q1 (outcome_row c e 2 (Inl (Plain e'))) (siblings cs (cn_event c)) = (Inr (), q2)
     \<and> open_attempt q2 (qe_ID e) (cn_name c) (1000 * hour)"
proof -
  let ?e = "\<lparr>qe_ID = 7, qe_EventType = ''paid'', qe_Envelope = [], qe_Attempts = 0\<rparr>"
  let ?q1 = "snd (queue_finish None (qs_db ex_leased) (outcome_row ex_consumer ?e 1 (Inr ())) [''mail''])"
  have sib: "siblings [ex_consumer] (cn_event ex_consumer) = [''mail'']" by code_simp
  have fst: "fst (queue_finish None q row ns) = Inr ()" for q row ns by (simp add: queue_finish_def Let_def)
  have "\<not> open_attempt ?q1 7 ''mail'' (1000 * hour)" by code_simp
  moreover have "open_attempt (snd (queue_finish None ?q1 (outcome_row ex_consumer ?e 2 (Inl (Plain []))) [''mail''])) 7 ''mail'' (1000 * hour)"
    by code_simp
  ultimately show ?thesis
    unfolding Let_def
    by (intro exI [of _ "qs_db ex_leased"] exI [of _ ?q1] exI [of _ "snd (queue_finish None ?q1 (outcome_row ex_consumer ?e 2 (Inl (Plain []))) [''mail''])"]
          exI [of _ ex_consumer] exI [of _ ?e] exI [of _ "[]"] conjI)
      (simp_all add: sib prod_eq_iff fst, simp_all add: ex_consumer_def)
qed

text \<open>
  A dead letter that expires while its event is still open (another consumer has not finished it) is not dropped: without its row
  the event is due for the consumer that gave up on it, from the first attempt on.
\<close>

theorem expired_letter_returns:
  "\<exists>(q :: queue_db) c cutoff. \<not> open_attempt q 7 (cn_name c) (1000 * hour) \<and> open_attempt (snd (deleteLetters q [7] cutoff)) 7 (cn_name c) 0
     \<and> 7 \<in> set (due_ids (snd (deleteLetters q [7] cutoff)) c 0 batchSize)"
proof -
  let ?q = "(qs_db ex_leased)\<lparr>qd_attempts := [\<lparr>ar_EventID = 7, ar_Consumer = ''mail'', ar_Attempts = 5, ar_NextAttemptAt = 0, ar_LastError = [],
    ar_DoneAt = None, ar_DeadAt = Some 0, ar_UpdatedAt = 0\<rparr>]\<rparr>"
  have "\<not> open_attempt ?q 7 (cn_name ex_consumer) (1000 * hour)" "open_attempt (snd (deleteLetters ?q [7] 1)) 7 (cn_name ex_consumer) 0"
    "7 \<in> set (due_ids (snd (deleteLetters ?q [7] 1)) ex_consumer 0 batchSize)"
    by code_simp+
  then show ?thesis by blast
qed

end
