(* ===== verification/Housekeeper.thy ===== *)
theory Housekeeper
  imports Outbox
begin

text \<open>
  The sweeps of \<^verbatim>\<open>event/housekeeping.go\<close>, which delete in batches by primary key, the check of the consumers
  (\<^verbatim>\<open>Problems\<close> in \<^verbatim>\<open>event/typed.go\<close>) and the list of dead letters (\<^verbatim>\<open>event/deadletter.go\<close>). A sweep is the
  loop of the code run alone; each of its batches is one of the steps of the queue in \<^verbatim>\<open>Outbox\<close>, so workers may come in
  between. The database answers: the error returns of \<^verbatim>\<open>Sweep\<close>, \<^verbatim>\<open>prune\<close> and \<^verbatim>\<open>deleteLetters\<close>, which end a sweep
  between two of its batches, are not modelled.
\<close>

section \<open>Sweeping\<close>

definition pruneBatch :: nat where "pruneBatch = 500"

record housekeeper =
  hk_deadFor :: int

definition KeepDeadLetters :: "int \<Rightarrow> housekeeper \<Rightarrow> housekeeper" where
  "KeepDeadLetters d h = h\<lparr>hk_deadFor := max d 0\<rparr>"

text \<open>The first \<open>pruneBatch\<close> ids above \<open>after\<close>, ascending.\<close>

definition next_ids :: "nat \<Rightarrow> nat list \<Rightarrow> nat list" where
  "next_ids after ids = take pruneBatch (sort (remdups (filter (\<lambda>i. after < i) ids)))"

definition prunable :: "queue_db \<Rightarrow> int \<Rightarrow> outbox_event \<Rightarrow> bool" where
  "prunable q cutoff o' \<longleftrightarrow> processed_before cutoff o' \<and> \<not> has_letter q (ob_ID o')"

definition sweep_ids :: "queue_db \<Rightarrow> nat \<Rightarrow> int \<Rightarrow> nat list" where
  "sweep_ids q after cutoff = next_ids after (map ob_ID (filter (prunable q cutoff) (qd_outbox q)))"

definition expire_ids :: "queue_db \<Rightarrow> nat \<Rightarrow> int \<Rightarrow> nat list" where
  "expire_ids q after cutoff = next_ids after (map ar_EventID (filter (expired cutoff) (qd_attempts q)))"

lemma next_ids_set: "i \<in> set (next_ids after ids) \<Longrightarrow> i \<in> set ids \<and> after < i"
  by (auto simp: next_ids_def dest!: in_set_takeD)

lemma next_ids_last: "next_ids after ids \<noteq> [] \<Longrightarrow> last (next_ids after ids) \<in> set ids \<and> after < last (next_ids after ids)"
  using next_ids_set last_in_set by blast

text \<open>A batch moves the mark past a row, so fewer rows are above it.\<close>

lemma fewer_above:
  assumes "after < (m :: nat)" "y \<in> set ys" "f y = m"
  shows "length (filter (\<lambda>x. m < f x) (filter P ys)) < length (filter (\<lambda>x. after < f x) ys)"
proof -
  have "length (filter (\<lambda>x. m < f x) (filter P ys)) = length (filter (\<lambda>x. P x \<and> m < f x) (filter (\<lambda>x. after < f x) ys))"
    using assms(1) by (auto intro!: arg_cong [where f = length] filter_cong)
  also have "\<dots> < length (filter (\<lambda>x. after < f x) ys)"
    using assms by (intro length_filter_less [of y]) auto
  finally show ?thesis .
qed

function sweep_loop :: "int \<Rightarrow> nat \<Rightarrow> nat \<Rightarrow> queue_db \<Rightarrow> nat \<times> queue_db" where
  "sweep_loop cutoff after deleted q =
     (let ids = sweep_ids q after cutoff in
      if ids = [] then (deleted, q)
      else let (n, q1) = hk_prune q ids cutoff in sweep_loop cutoff (last ids) (deleted + n) q1)"
  by pat_completeness auto
termination
proof (relation "measure (\<lambda>(cutoff, after, deleted, q). length (filter (\<lambda>o'. after < ob_ID o') (qd_outbox q)))", goal_cases)
  case (2 cutoff after deleted q ids x n q1)
  then have "last ids \<in> ob_ID ` set (qd_outbox q)" "after < last ids"
    using next_ids_last [of after "map ob_ID (filter (prunable q cutoff) (qd_outbox q))"] by (auto simp: sweep_ids_def)
  then obtain y where y: "y \<in> set (qd_outbox q)" "ob_ID y = last ids" by auto
  have q1: "q1 = snd (hk_prune q ids cutoff)" using 2(3,4) by (metis snd_conv)
  show ?case unfolding q1 using fewer_above [where f = ob_ID, OF \<open>after < last ids\<close> y] by (simp add: hk_prune_def Let_def)
qed simp

function expire_loop :: "int \<Rightarrow> nat \<Rightarrow> nat \<Rightarrow> queue_db \<Rightarrow> nat \<times> queue_db" where
  "expire_loop cutoff after letters q =
     (let ids = expire_ids q after cutoff in
      if ids = [] then (letters, q)
      else let (n, q1) = deleteLetters q ids cutoff in expire_loop cutoff (last ids) (letters + n) q1)"
  by pat_completeness auto
termination
proof (relation "measure (\<lambda>(cutoff, after, letters, q). length (filter (\<lambda>a. after < ar_EventID a) (qd_attempts q)))", goal_cases)
  case (2 cutoff after letters q ids x n q1)
  then have "last ids \<in> ar_EventID ` set (qd_attempts q)" "after < last ids"
    using next_ids_last [of after "map ar_EventID (filter (expired cutoff) (qd_attempts q))"] by (auto simp: expire_ids_def)
  then obtain y where y: "y \<in> set (qd_attempts q)" "ar_EventID y = last ids" by auto
  have q1: "q1 = snd (deleteLetters q ids cutoff)" using 2(3,4) by (metis snd_conv)
  show ?case unfolding q1 using fewer_above [where f = ar_EventID, OF \<open>after < last ids\<close> y] by (simp add: deleteLetters_def Let_def)
qed simp

declare sweep_loop.simps [simp del] expire_loop.simps [simp del]

definition expireDeadLetters :: "housekeeper \<Rightarrow> int \<Rightarrow> queue_db \<Rightarrow> queue_db" where
  "expireDeadLetters h t q = (if hk_deadFor h \<le> 0 then q else snd (expire_loop (whole t - hk_deadFor h) 0 0 q))"

text \<open>The clock is read again after the letters are done.\<close>

definition Sweep :: "housekeeper \<Rightarrow> int \<Rightarrow> int \<Rightarrow> queue_db \<Rightarrow> nat \<times> queue_db" where
  "Sweep h t t' q = sweep_loop (whole t' - Retention) 0 0 (expireDeadLetters h t q)"

section \<open>A sweep deletes what it should in one go\<close>

definition remove_events :: "nat set \<Rightarrow> queue_db \<Rightarrow> queue_db" where
  "remove_events I q = q\<lparr>qd_attempts := filter (\<lambda>a. ar_EventID a \<notin> I) (qd_attempts q), qd_outbox := filter (\<lambda>o'. ob_ID o' \<notin> I) (qd_outbox q)\<rparr>"

definition prunable_ids :: "queue_db \<Rightarrow> int \<Rightarrow> nat set" where
  "prunable_ids q cutoff = ob_ID ` set (filter (prunable q cutoff) (qd_outbox q))"

lemma remove_events_empty [simp]: "remove_events {} q = q" by (simp add: remove_events_def)

lemma remove_events_twice: "remove_events I (remove_events J q) = remove_events (J \<union> I) q"
  by (simp add: remove_events_def conj_commute)

lemma has_letter_remove: "has_letter (remove_events J q) i \<longleftrightarrow> has_letter q i \<and> i \<notin> J"
  by (auto simp: has_letter_def remove_events_def list_ex_iff)

lemma prunable_ids_remove: "prunable_ids (remove_events J q) cutoff = prunable_ids q cutoff - J"
  by (auto simp: prunable_ids_def prunable_def has_letter_remove) (auto simp: remove_events_def)

lemma distinct_remove: "distinct (map ob_ID (qd_outbox q)) \<Longrightarrow> distinct (map ob_ID (qd_outbox (remove_events J q)))"
  by (simp add: remove_events_def distinct_map_filter)

lemma prune_prunable:
  assumes "set ids \<subseteq> prunable_ids q cutoff" "distinct ids" "distinct (map ob_ID (qd_outbox q))"
  shows "hk_prune q ids cutoff = (length ids, remove_events (set ids) q)"
proof -
  let ?rows = "filter (\<lambda>o'. ob_ID o' \<in> set ids \<and> processed_before cutoff o') (qd_outbox q)"
  let ?doomed = "filter (\<lambda>i. \<not> has_letter q i) (map ob_ID ?rows)"
  have set: "set ?doomed = set ids" using assms(1) by (auto simp: prunable_ids_def prunable_def image_iff)
  have "distinct ?doomed" using assms(3) by (intro distinct_filter) (simp add: distinct_map_filter)
  then have "length ?doomed = length ids" using set assms(2) distinct_card by metis
  then show ?thesis unfolding hk_prune_def Let_def set remove_events_def by simp
qed

text \<open>The batch holds the smallest ids that are left.\<close>

lemma next_ids_covers:
  assumes "i \<in> set ids" "after < i" "i \<notin> set (next_ids after ids)"
  shows "next_ids after ids \<noteq> [] \<and> last (next_ids after ids) < i"
proof -
  have "i \<in> set (remdups (filter (\<lambda>i. after < i) ids))" using assms by simp
  from first_of_sorted [OF this, of pruneBatch] have "length (next_ids after ids) = pruneBatch" "\<forall>y \<in> set (next_ids after ids). y \<le> i"
    using assms(3) unfolding next_ids_def by blast+
  moreover have "next_ids after ids \<noteq> []" using calculation(1) by (auto simp: pruneBatch_def)
  ultimately show ?thesis using assms(3) last_in_set [of "next_ids after ids"] by (metis le_neq_implies_less)
qed

lemma next_ids_Nil: "next_ids after ids = [] \<longleftrightarrow> (\<forall>i \<in> set ids. i \<le> after)"
  using next_ids_covers [of _ ids after] next_ids_set [of _ after ids] by (metis empty_iff empty_set list.set_intros(1) neq_Nil_conv not_le)

lemma distinct_next_ids: "distinct (next_ids after ids)" by (simp add: next_ids_def)


lemma sweep_loop_eq:
  assumes "distinct (map ob_ID (qd_outbox q))" "\<And>i. i \<in> prunable_ids q cutoff \<Longrightarrow> after < i"
  shows "sweep_loop cutoff after n q = (n + card (prunable_ids q cutoff), remove_events (prunable_ids q cutoff) q)"
  using assms
proof (induction cutoff after n q rule: sweep_loop.induct)
  case (1 cutoff after n q)
  let ?all = "map ob_ID (filter (prunable q cutoff) (qd_outbox q))" and ?ids = "sweep_ids q after cutoff" and ?P = "prunable_ids q cutoff"
  have P: "?P = set ?all" by (simp add: prunable_ids_def)
  show ?case
  proof (cases "?ids = []")
    case True
    then have "?P = {}" using 1(3) next_ids_Nil [of after ?all] P by (fastforce simp: sweep_ids_def)
    then show ?thesis using True by (simp add: sweep_loop.simps [of cutoff after n q])
  next
    case False
    have sub: "set ?ids \<subseteq> ?P" using next_ids_set [of _ after ?all] P by (auto simp: sweep_ids_def)
    have prune: "hk_prune q ?ids cutoff = (length ?ids, remove_events (set ?ids) q)"
      by (rule prune_prunable [OF sub _ 1(2)]) (simp add: sweep_ids_def distinct_next_ids)
    have above: "last ?ids < i" if "i \<in> prunable_ids (remove_events (set ?ids) q) cutoff" for i
      using that 1(3) next_ids_covers [of i ?all after] P by (auto simp: prunable_ids_remove sweep_ids_def)
    have "sweep_loop cutoff after n q = sweep_loop cutoff (last ?ids) (n + length ?ids) (remove_events (set ?ids) q)"
      using False by (simp add: sweep_loop.simps [of cutoff after n q] prune Let_def)
    also have "\<dots> = (n + length ?ids + card (?P - set ?ids), remove_events ?P q)"
      using 1(1) [OF refl False prune [symmetric] refl distinct_remove [OF 1(2)] above] sub
      by (simp add: prunable_ids_remove remove_events_twice Un_absorb1)
    also have "n + length ?ids + card (?P - set ?ids) = n + card ?P"
      using card_Diff_subset [of "set ?ids" ?P] card_mono [of ?P "set ?ids"] sub distinct_card [of ?ids]
      by (simp add: P sweep_ids_def distinct_next_ids)
    finally show ?thesis .
  qed
qed

lemma expire_loop_eq:
  assumes "\<And>a. a \<in> set (qd_attempts q) \<Longrightarrow> expired cutoff a \<Longrightarrow> after < ar_EventID a"
  shows "snd (expire_loop cutoff after n q) = q\<lparr>qd_attempts := filter (\<lambda>a. \<not> expired cutoff a) (qd_attempts q)\<rparr>"
  using assms
proof (induction cutoff after n q rule: expire_loop.induct)
  case (1 cutoff after n q)
  let ?all = "map ar_EventID (filter (expired cutoff) (qd_attempts q))" and ?ids = "expire_ids q after cutoff"
  show ?case
  proof (cases "?ids = []")
    case True
    then have "\<not> expired cutoff a" if "a \<in> set (qd_attempts q)" for a
      using 1(2) [OF that] next_ids_Nil [of after ?all] that by (fastforce simp: expire_ids_def)
    then have "filter (\<lambda>a. \<not> expired cutoff a) (qd_attempts q) = qd_attempts q" by (simp add: filter_id_conv)
    then show ?thesis using True by (simp add: expire_loop.simps [of cutoff after n q])
  next
    case False
    let ?q = "snd (deleteLetters q ?ids cutoff)"
    have rest: "qd_attempts ?q = filter (\<lambda>a. \<not> (ar_EventID a \<in> set ?ids \<and> expired cutoff a)) (qd_attempts q)"
      by (simp add: deleteLetters_def Let_def)
    have above: "last ?ids < ar_EventID a" if "a \<in> set (qd_attempts ?q)" "expired cutoff a" for a
    proof -
      have "a \<in> set (qd_attempts q)" "ar_EventID a \<notin> set ?ids" using that unfolding rest by auto
      then show ?thesis using that(2) 1(2) [of a] next_ids_covers [of "ar_EventID a" ?all after] by (auto simp: expire_ids_def)
    qed
    have twice: "filter (\<lambda>a. \<not> expired cutoff a) (filter (\<lambda>a. \<not> (P a \<and> expired cutoff a)) as)
        = filter (\<lambda>a. \<not> expired cutoff a) as" for P as by (induction as) auto
    have "snd (expire_loop cutoff after n q) = snd (expire_loop cutoff (last ?ids) (n + fst (deleteLetters q ?ids cutoff)) ?q)"
      using False by (simp add: expire_loop.simps [of cutoff after n q] case_prod_unfold Let_def)
    also have "\<dots> = ?q\<lparr>qd_attempts := filter (\<lambda>a. \<not> expired cutoff a) (qd_attempts ?q)\<rparr>"
      by (rule 1(1) [OF refl False _ _ above]) simp_all
    also have "\<dots> = q\<lparr>qd_attempts := filter (\<lambda>a. \<not> expired cutoff a) (qd_attempts q)\<rparr>"
      unfolding rest twice by (simp add: deleteLetters_def Let_def)
    finally show ?thesis .
  qed
qed


text \<open>What a sweep is for, written as two deletes over the whole tables.\<close>

definition without_expired :: "housekeeper \<Rightarrow> int \<Rightarrow> queue_db \<Rightarrow> queue_db" where
  "without_expired h t q = (if hk_deadFor h \<le> 0 then q
     else q\<lparr>qd_attempts := filter (\<lambda>a. \<not> expired (whole t - hk_deadFor h) a) (qd_attempts q)\<rparr>)"

text \<open>
  C34: When the database answers, the batches of a sweep delete exactly the dead letters that are too old, then exactly the events every consumer
  finished longer ago than the retention and that no dead letter keeps, with all attempts of those events and of no
  other; the count is the number of events deleted. The loops end on every queue.
\<close>

theorem Sweep_deletes:
  assumes "distinct (map ob_ID (qd_outbox q))" "0 \<notin> ob_ID ` set (qd_outbox q)" "0 \<notin> ar_EventID ` set (qd_attempts q)"
  shows "Sweep h t t' q =
    (let q1 = without_expired h t q; gone = prunable_ids q1 (whole t' - Retention) in (card gone, remove_events gone q1))"
proof -
  have pos: "0 < ar_EventID a" if "a \<in> set (qd_attempts q)" for a using that assms(3) by (metis gr0I image_eqI)
  have "expireDeadLetters h t q = without_expired h t q"
    using expire_loop_eq [of q "whole t - hk_deadFor h" 0 0] pos by (simp add: expireDeadLetters_def without_expired_def)
  moreover have "qd_outbox (without_expired h t q) = qd_outbox q" by (simp add: without_expired_def)
  moreover have "0 < i" if "i \<in> prunable_ids (without_expired h t q) cutoff" for i cutoff
    using that assms(2) calculation(2) by (auto simp: prunable_ids_def intro: gr0I)
  ultimately show ?thesis using assms(1) sweep_loop_eq [of "without_expired h t q" "whole t' - Retention" 0 0]
    by (simp add: Sweep_def Let_def)
qed

text \<open>An event done long ago goes with its attempt; one with a letter that is kept stays, one whose letter expired goes.\<close>

definition ex_swept :: queue_db where
  "ex_swept = \<lparr>qd_outbox = map (\<lambda>i. \<lparr>ob_ID = i, ob_EventType = ''paid'', ob_Envelope = [], ob_ProcessedAt = Some 0\<rparr>) [1, 2, 3],
     qd_attempts = map (\<lambda>(i, dead). \<lparr>ar_EventID = i, ar_Consumer = ''mail'', ar_Attempts = 1, ar_NextAttemptAt = 0, ar_LastError = [],
       ar_DoneAt = None, ar_DeadAt = dead, ar_UpdatedAt = 0\<rparr>) [(1, None), (2, Some (50 * 24 * hour)), (3, Some 0)]\<rparr>"

theorem Sweep_deletes_witness:
  "map ob_ID (qd_outbox (snd (Sweep \<lparr>hk_deadFor = 40 * 24 * hour\<rparr> (60 * 24 * hour) (60 * 24 * hour) ex_swept))) = [2]"
proof -
  have q1: "without_expired \<lparr>hk_deadFor = 40 * 24 * hour\<rparr> (60 * 24 * hour) ex_swept = ex_swept\<lparr>qd_attempts := take 2 (qd_attempts ex_swept)\<rparr>"
    by code_simp
  have gone: "prunable_ids (ex_swept\<lparr>qd_attempts := take 2 (qd_attempts ex_swept)\<rparr>) (whole (60 * 24 * hour) - Retention) = {1, 3}" by code_simp
  have "distinct (map ob_ID (qd_outbox ex_swept))" "0 \<notin> ob_ID ` set (qd_outbox ex_swept)" "0 \<notin> ar_EventID ` set (qd_attempts ex_swept)"
    by (simp_all add: ex_swept_def)
  note swept = Sweep_deletes [OF this, of "\<lparr>hk_deadFor = 40 * 24 * hour\<rparr>" "60 * 24 * hour" "60 * 24 * hour", unfolded Let_def q1 gone]
  show ?thesis unfolding swept snd_conv by (simp add: remove_events_def ex_swept_def)
qed

section \<open>Checking the consumers\<close>

type_synonym event_problem = "string \<times> string"

text \<open>\<^verbatim>\<open>^[a-z][a-z0-9]*([.-][a-z0-9]+)*$\<close>; \<open>need\<close>: a separator was read and a character must follow.\<close>

fun name_rest :: "bool \<Rightarrow> string \<Rightarrow> bool" where
  "name_rest need [] \<longleftrightarrow> \<not> need"
| "name_rest need (ch # s) \<longleftrightarrow>
     (if lower_char ch \<or> digit_char ch then name_rest False s
      else (ch = CHR ''.'' \<or> ch = CHR ''-'') \<and> \<not> need \<and> name_rest True s)"

definition namePattern :: "string \<Rightarrow> bool" where
  "namePattern s = (case s of [] \<Rightarrow> False | ch # rest \<Rightarrow> lower_char ch \<and> name_rest False rest)"

definition consumer_problems :: "consumer \<Rightarrow> event_problem list" where
  "consumer_problems c =
     (if \<not> namePattern (cn_event c)
      then [(''event name '' @ go_quote (cn_event c) @ '' is not lower-case words joined by dots or dashes'',
             ''rename it in event.Define, for example \"tickets.assigned\"'')] else [])
     @ (if \<not> namePattern (cn_name c) \<or> length (cn_name c) > 100
      then [(''consumer name '' @ go_quote (cn_name c) @ '' is not lower-case words joined by dots or dashes, at most 100 characters'',
             ''fix the first argument of To, for example \"notifications.assignee\"'')] else [])
     @ (if cn_version c < 1
      then [(''event '' @ go_quote (cn_event c) @ '' has version '' @ show_int (cn_version c),
             ''versions start at 1: drop the Version call or pass 2 or more'')] else [])
     @ (if rp_attempts (cn_retry c) < 1 \<or> rp_firstDelay (cn_retry c) \<le> 0 \<or> rp_maxDelay (cn_retry c) < rp_firstDelay (cn_retry c)
      then [(''consumer '' @ go_quote (cn_name c) @ '' has a retry policy that cannot work'',
             ''Attempts needs at least 1, and Backoff a positive first delay not above the longest'')] else [])"

text \<open>\<open>first\<close> holds the first consumer of each event; \<open>type_text\<close> prints a Go type.\<close>

fun problems_loop :: "(nat \<Rightarrow> string) \<Rightarrow> string list \<Rightarrow> (string \<times> consumer) list \<Rightarrow> consumer list \<Rightarrow> event_problem list" where
  "problems_loop type_text byName first [] = []"
| "problems_loop type_text byName first (c # cs) =
     consumer_problems c
     @ (if cn_name c \<in> set byName
        then [(''two consumers are named '' @ go_quote (cn_name c), ''the queue keeps attempts per consumer name, so give each its own'')] else [])
     @ (case map_of first (cn_event c) of
          Some f \<Rightarrow>
            (if cn_version f \<noteq> cn_version c \<or> cn_payload f \<noteq> cn_payload c
             then [(''event '' @ go_quote (cn_event c) @ '' is defined twice, as '' @ type_text (cn_payload f) @ '' v'' @ show_int (cn_version f)
                    @ '' and as '' @ type_text (cn_payload c) @ '' v'' @ show_int (cn_version c),
                    ''declare it once and share the value, or give the second its own name'')] else [])
            @ problems_loop type_text (cn_name c # byName) first cs
        | None \<Rightarrow> problems_loop type_text (cn_name c # byName) ((cn_event c, c) # first) cs)"

definition event_Problems :: "(nat \<Rightarrow> string) \<Rightarrow> consumer list \<Rightarrow> event_problem list" where
  "event_Problems type_text cs = problems_loop type_text [] [] cs"

definition same_shape :: "consumer \<Rightarrow> consumer \<Rightarrow> bool" where
  "same_shape c d \<longleftrightarrow> (cn_event c = cn_event d \<longrightarrow> cn_version c = cn_version d \<and> cn_payload c = cn_payload d)"

lemma same_shape_refl [simp]: "same_shape c c" by (simp add: same_shape_def)

lemma same_shape_sym: "same_shape c d \<Longrightarrow> same_shape d c" by (auto simp: same_shape_def)

lemma problems_loop_none:
  assumes "\<And>e f. map_of first e = Some f \<Longrightarrow> cn_event f = e"
  shows "problems_loop tt byName first cs = [] \<longleftrightarrow>
    (\<forall>c \<in> set cs. consumer_problems c = []) \<and> distinct (map cn_name cs) \<and> set (map cn_name cs) \<inter> set byName = {}
    \<and> (\<forall>c \<in> set cs. \<forall>d \<in> set cs. same_shape c d) \<and> (\<forall>c \<in> set cs. \<forall>f. map_of first (cn_event c) = Some f \<longrightarrow> same_shape f c)"
  using assms
proof (induction cs arbitrary: byName first)
  case (Cons c cs)
  let ?kept = "\<lambda>first. \<forall>d \<in> set cs. \<forall>f. map_of first (cn_event d) = Some f \<longrightarrow> same_shape f d"
  have pairs: "(\<forall>x \<in> set (c # cs). \<forall>d \<in> set (c # cs). same_shape x d) \<longleftrightarrow>
      (\<forall>d \<in> set cs. same_shape c d) \<and> (\<forall>x \<in> set cs. \<forall>d \<in> set cs. same_shape x d)"
    using same_shape_sym [of _ c] same_shape_sym [of c] by auto
  let ?all = "\<lambda>byName first. (\<forall>c \<in> set cs. consumer_problems c = []) \<and> distinct (map cn_name cs) \<and> set (map cn_name cs) \<inter> set byName = {}
    \<and> (\<forall>c \<in> set cs. \<forall>d \<in> set cs. same_shape c d) \<and> ?kept first"
  have names: "set (map cn_name (c # cs)) \<inter> set byName = {} \<longleftrightarrow> cn_name c \<notin> set byName \<and> set (map cn_name cs) \<inter> set byName = {}"
    "set (map cn_name cs) \<inter> set (cn_name c # byName) = {} \<longleftrightarrow> cn_name c \<notin> set (map cn_name cs) \<and> set (map cn_name cs) \<inter> set byName = {}"
    by auto
  show ?case
  proof (cases "map_of first (cn_event c)")
    case None
    let ?first = "(cn_event c, c) # first"
    have first: "\<And>e f. map_of ?first e = Some f \<Longrightarrow> cn_event f = e" using Cons.prems by (auto split: if_splits)
    have "?kept ?first \<longleftrightarrow> (\<forall>d \<in> set cs. same_shape c d) \<and> ?kept first"
      using None by (auto simp: same_shape_def split: if_splits)
    moreover have "problems_loop tt byName first (c # cs) = [] \<longleftrightarrow> consumer_problems c = [] \<and> cn_name c \<notin> set byName \<and> ?all (cn_name c # byName) ?first"
      using None Cons.IH [where byName = "cn_name c # byName" and first = ?first, OF first] by simp
    ultimately show ?thesis unfolding pairs names using None by auto
  next
    case (Some f)
    have f: "cn_event f = cn_event c" using Cons.prems [OF Some] .
    have "same_shape f c \<Longrightarrow> ?kept first \<Longrightarrow> \<forall>d \<in> set cs. same_shape c d" using Some f by (auto simp: same_shape_def)
    moreover have "problems_loop tt byName first (c # cs) = [] \<longleftrightarrow>
        consumer_problems c = [] \<and> cn_name c \<notin> set byName \<and> same_shape f c \<and> ?all (cn_name c # byName) first"
      using Some f Cons.IH [where byName = "cn_name c # byName" and first = first, OF Cons.prems] by (auto simp: same_shape_def [of f c])
    ultimately show ?thesis unfolding pairs names using Some by auto
  qed
qed simp

text \<open>The check finds nothing exactly when every consumer is well formed, no two share a name and an event has one version and one payload.\<close>

theorem Problems_none:
  "event_Problems tt cs = [] \<longleftrightarrow> (\<forall>c \<in> set cs. consumer_problems c = []) \<and> distinct (map cn_name cs) \<and> (\<forall>c \<in> set cs. \<forall>d \<in> set cs. same_shape c d)"
  using problems_loop_none [of "[]" tt "[]" cs] by (simp add: event_Problems_def)

end
