(* ===== verification/Transactor.thy ===== *)
theory Transactor
  imports Housekeeper
begin

text \<open>
  Transactions carried by a context (\<^verbatim>\<open>database/transactor.go\<close>), publishing an event in one (\<^verbatim>\<open>Publish\<close> in
  \<^verbatim>\<open>event/typed.go\<close>) and the store of processed keys (\<^verbatim>\<open>event/idempotency.go\<close>).

  A connection is named by its pool, a number. What is committed on each is a database; a transaction works on a copy,
  which the commit puts in its place. The context is the chain of open transactions, the innermost first. A function run
  in a transaction may return, fail or panic. Failures of BEGIN, COMMIT and INSERT are parameters.
\<close>

section \<open>Transactions in a context\<close>

record tx_entry =
  te_pool :: nat
  te_tx :: nat
  te_sqlTx :: "nat option"

type_synonym tx_ctx = "tx_entry list"

record 'd db_world =
  dw_committed :: "nat \<Rightarrow> 'd"
  dw_open :: "nat \<Rightarrow> 'd"
  dw_next :: nat

definition entry_find :: "tx_ctx \<Rightarrow> nat \<Rightarrow> tx_entry option" where
  "entry_find ctx pool = List.find (\<lambda>e. te_pool e = pool) ctx"

definition InTransaction :: "tx_ctx \<Rightarrow> bool" where "InTransaction ctx \<longleftrightarrow> ctx \<noteq> []"

definition TxOn :: "tx_ctx \<Rightarrow> (nat \<Rightarrow> bool) \<Rightarrow> nat option" where
  "TxOn ctx match = map_option te_tx (List.find (\<lambda>e. match (te_pool e)) ctx)"

definition TxFor :: "tx_ctx \<Rightarrow> nat \<Rightarrow> nat option" where
  "TxFor ctx conn = map_option te_tx (entry_find ctx conn)"

definition SQLTxFor :: "tx_ctx \<Rightarrow> nat \<Rightarrow> nat option" where
  "SQLTxFor ctx conn = (case entry_find ctx conn of None \<Rightarrow> None | Some e \<Rightarrow> te_sqlTx e)"

text \<open>\<open>sqlTx\<close>: the driver transaction under the handle, when it exposes one.\<close>

definition ContextWithTx :: "tx_ctx \<Rightarrow> nat \<Rightarrow> nat \<Rightarrow> nat option \<Rightarrow> tx_ctx" where
  "ContextWithTx ctx conn tx sqlTx = \<lparr>te_pool = conn, te_tx = tx, te_sqlTx = sqlTx\<rparr> # ctx"

text \<open>BEGIN: a transaction with the next number works on a copy of what is committed.\<close>

definition begin_tx :: "nat \<Rightarrow> 'd db_world \<Rightarrow> 'd db_world" where
  "begin_tx conn w = w\<lparr>dw_open := (dw_open w)(dw_next w := dw_committed w conn), dw_next := Suc (dw_next w)\<rparr>"

definition WithinTransaction ::
  "go_error option \<Rightarrow> go_error option \<Rightarrow> nat \<Rightarrow> tx_ctx \<Rightarrow> (tx_ctx \<Rightarrow> 'd db_world \<Rightarrow> unit result run \<times> 'd db_world) \<Rightarrow>
   'd db_world \<Rightarrow> unit result run \<times> 'd db_world" where
  "WithinTransaction unbegun uncommitted conn ctx fn w =
     (if TxFor ctx conn \<noteq> None then fn ctx w
      else case unbegun of
        Some e \<Rightarrow> (Returns (Inl (Wrapf (''begin transaction: '' @ error_text e) e)), w)
      | None \<Rightarrow>
          let tx = dw_next w in
          case fn (ContextWithTx ctx conn tx (Some tx)) (begin_tx conn w) of
            (Panics p, w1) \<Rightarrow> (Panics p, w1)
          | (Returns (Inl e), w1) \<Rightarrow> (Returns (Inl e), w1)
          | (Returns (Inr _), w1) \<Rightarrow>
              (case uncommitted of
                 Some e \<Rightarrow> (Returns (Inl (Wrapf (''commit transaction: '' @ error_text e) e)), w1)
               | None \<Rightarrow> (Returns (Inr ()), w1\<lparr>dw_committed := (dw_committed w1)(conn := dw_open w1 tx)\<rparr>)))"

text \<open>One step after the other, as far as they return.\<close>

definition and_then :: "(tx_ctx \<Rightarrow> 'd db_world \<Rightarrow> unit result run \<times> 'd db_world) \<Rightarrow> (tx_ctx \<Rightarrow> 'd db_world \<Rightarrow> unit result run \<times> 'd db_world) \<Rightarrow>
   tx_ctx \<Rightarrow> 'd db_world \<Rightarrow> unit result run \<times> 'd db_world" where
  "and_then f g ctx w = (case f ctx w of (Returns (Inr _), w1) \<Rightarrow> g ctx w1 | r \<Rightarrow> r)"

section \<open>Publishing\<close>

record 'w app_db =
  ad_rows :: 'w
  ad_outbox :: "outbox_event list"

definition errForeignTx :: string where
  "errForeignTx = ''Publish needs a transaction on the events' database; ctx only has one on another connection''"

text \<open>\<open>raw\<close> and \<open>body\<close> are what \<^verbatim>\<open>json.Marshal\<close> makes of the payload and of the envelope around it, \<open>i\<close> the key the row gets.\<close>

definition publishOn ::
  "string \<Rightarrow> string result \<Rightarrow> (string \<Rightarrow> string result) \<Rightarrow> go_error option \<Rightarrow> nat \<Rightarrow> nat \<Rightarrow> 'w app_db db_world \<Rightarrow>
   unit result run \<times> 'w app_db db_world" where
  "publishOn name raw body fault i tx w =
     (case raw of
        Inl e \<Rightarrow> (Returns (Inl (Wrapf (''event '' @ go_quote name @ '': the payload cannot be encoded as JSON: '' @ error_text e) e)), w)
      | Inr payload \<Rightarrow>
        (case body payload of
           Inl e \<Rightarrow> (Returns (Inl (Wrapf (''event '' @ go_quote name @ '': '' @ error_text e) e)), w)
         | Inr env \<Rightarrow>
           (case fault of
              Some e \<Rightarrow> (Returns (Inl (Wrapf (''event '' @ go_quote name @ '': queue it: '' @ error_text e) e)), w)
            | None \<Rightarrow>
                let d = dw_open w tx; row = \<lparr>ob_ID = i, ob_EventType = name, ob_Envelope = env, ob_ProcessedAt = None\<rparr> in
                (Returns (Inr ()), w\<lparr>dw_open := (dw_open w)(tx := d\<lparr>ad_outbox := ad_outbox d @ [row]\<rparr>)\<rparr>))))"

definition event_Publish ::
  "(nat \<Rightarrow> bool) \<Rightarrow> string \<Rightarrow> string result \<Rightarrow> (string \<Rightarrow> string result) \<Rightarrow> go_error option \<Rightarrow> nat \<Rightarrow> tx_ctx \<Rightarrow> 'w app_db db_world \<Rightarrow>
   unit result run \<times> 'w app_db db_world" where
  "event_Publish isOutbox name raw body fault i ctx w =
     (case TxOn ctx isOutbox of
        None \<Rightarrow>
          (if InTransaction ctx then (Returns (Inl (Wrapf (''event '' @ go_quote name @ '': '' @ errForeignTx) (Sentinel errForeignTx))), w)
           else (Returns (Inl (Plain (''event '' @ go_quote name @ '': Publish needs the transaction of the write it reports in ctx: ''
             @ ''call it inside database.Transactor.WithinTransaction''))), w))
      | Some tx \<Rightarrow> publishOn name raw body fault i tx w)"

section \<open>The store of processed keys\<close>

record idem_record =
  id_Key :: string
  id_Response :: "string option"
  id_CreatedAt :: int
  id_ProcessedAt :: "int option"

definition reserveKey :: "go_error option \<Rightarrow> int \<Rightarrow> string \<Rightarrow> idem_record list \<Rightarrow> bool result \<times> idem_record list" where
  "reserveKey fault now key rows =
     (if key = [] then (Inr False, rows)
      else case fault of
        Some e \<Rightarrow> (Inl e, rows)
      | None \<Rightarrow>
          if key \<in> id_Key ` set rows then (Inr False, rows)
          else (Inr True, rows @ [\<lparr>id_Key = key, id_Response = None, id_CreatedAt = now, id_ProcessedAt = None\<rparr>]))"

definition confirmKey :: "go_error option \<Rightarrow> int \<Rightarrow> string \<Rightarrow> string option \<Rightarrow> idem_record list \<Rightarrow> unit result \<times> idem_record list" where
  "confirmKey fault now key resp rows =
     (case fault of
        Some e \<Rightarrow> (Inl e, rows)
      | None \<Rightarrow> (Inr (), map (\<lambda>r. if id_Key r = key
          then r\<lparr>id_ProcessedAt := Some now, id_Response := (case resp of None \<Rightarrow> id_Response r | Some b \<Rightarrow> Some b)\<rparr> else r) rows))"

definition GetResponse :: "go_error option \<Rightarrow> string \<Rightarrow> idem_record list \<Rightarrow> (string option \<times> bool) result" where
  "GetResponse fault key rows =
     (case fault of
        Some e \<Rightarrow> Inl e
      | None \<Rightarrow> (case List.find (\<lambda>r. id_Key r = key) rows of None \<Rightarrow> Inr (None, False) | Some r \<Rightarrow> Inr (id_Response r, True)))"

definition store_Release :: "go_error option \<Rightarrow> string \<Rightarrow> idem_record list \<Rightarrow> unit result \<times> idem_record list" where
  "store_Release fault key rows =
     (if key = [] then (Inr (), rows)
      else case fault of Some e \<Rightarrow> (Inl e, rows) | None \<Rightarrow> (Inr (), filter (\<lambda>r. id_Key r \<noteq> key) rows))"

definition PurgeStaleReservations :: "go_error option \<Rightarrow> int \<Rightarrow> int \<Rightarrow> idem_record list \<Rightarrow> unit result \<times> idem_record list" where
  "PurgeStaleReservations fault now olderThan rows =
     (case fault of
        Some e \<Rightarrow> (Inl e, rows)
      | None \<Rightarrow> (Inr (), filter (\<lambda>r. \<not> (id_ProcessedAt r = None \<and> id_CreatedAt r < now - olderThan)) rows))"

section \<open>Nested transactions join, and an event goes with its write\<close>

lemma TxFor_inner [simp]: "TxFor (ContextWithTx ctx conn tx s) conn = Some tx"
  by (simp add: TxFor_def entry_find_def ContextWithTx_def)

text \<open>A transaction opened inside one on the same connection is no transaction of its own, wherever its code stands.\<close>

theorem nested_joins:
  "WithinTransaction b c conn ctx (and_then f (\<lambda>ctx'. WithinTransaction b' c' conn ctx' g)) w = WithinTransaction b c conn ctx (and_then f g) w"
  if "TxFor ctx conn = None"
proof -
  have "WithinTransaction b' c' conn (ContextWithTx ctx conn tx s) g = g (ContextWithTx ctx conn tx s)" for tx s
    by (rule ext) (simp add: WithinTransaction_def)
  then have "and_then f (\<lambda>ctx'. WithinTransaction b' c' conn ctx' g) (ContextWithTx ctx conn tx s) = and_then f g (ContextWithTx ctx conn tx s)" for tx s
    by (intro ext) (simp add: and_then_def split: prod.splits run.splits sum.splits)
  then show ?thesis using that by (simp add: WithinTransaction_def [where conn = conn and ctx = ctx] Let_def split: option.splits)
qed

lemma TxOn_inner: "isOutbox conn \<Longrightarrow> TxOn (ContextWithTx ctx conn tx s) isOutbox = Some tx"
  by (simp add: TxOn_def ContextWithTx_def)

text \<open>
  What a function run in a transaction on a connection may do: it commits nothing there itself. Statements on the transaction in the
  context are such functions, and so is what opens a transaction again around one, on the same connection (it joins) or on another
  (that one commits by itself, elsewhere), and one after the other.
\<close>

definition commits_nothing :: "nat \<Rightarrow> (tx_ctx \<Rightarrow> 'd db_world \<Rightarrow> unit result run \<times> 'd db_world) \<Rightarrow> bool" where
  "commits_nothing conn f \<longleftrightarrow> (\<forall>ctx w. TxFor ctx conn \<noteq> None \<longrightarrow> dw_committed (snd (f ctx w)) conn = dw_committed w conn)"

lemma begin_tx_committed [simp]: "dw_committed (begin_tx conn w) = dw_committed w" by (simp add: begin_tx_def)

lemma commits_nothing_within:
  assumes "commits_nothing conn f"
  shows "commits_nothing conn (\<lambda>ctx. WithinTransaction b c conn' ctx f)"
  unfolding commits_nothing_def
proof (intro allI impI)
  fix ctx and w :: "'a db_world"
  assume tx: "TxFor ctx conn \<noteq> None"
  show "dw_committed (snd (WithinTransaction b c conn' ctx f w)) conn = dw_committed w conn"
  proof (cases "TxFor ctx conn' \<noteq> None \<or> b \<noteq> None")
    case True
    then show ?thesis using assms tx by (auto simp: WithinTransaction_def commits_nothing_def)
  next
    case False
    let ?ctx = "ContextWithTx ctx conn' (dw_next w) (Some (dw_next w))"
    obtain r1 w1 where ran: "f ?ctx (begin_tx conn' w) = (r1, w1)" by (cases "f ?ctx (begin_tx conn' w)")
    have ne: "conn' \<noteq> conn" using False tx by auto
    then have "TxFor ?ctx conn \<noteq> None" using tx by (simp add: TxFor_def entry_find_def ContextWithTx_def)
    then have "dw_committed w1 conn = dw_committed w conn" using assms ran unfolding commits_nothing_def by (metis begin_tx_committed snd_conv)
    then show ?thesis using False ran ne
      by (auto simp: WithinTransaction_def Let_def split: run.splits sum.splits option.splits)
  qed
qed

lemma commits_nothing_then:
  assumes "commits_nothing conn f" "commits_nothing conn g"
  shows "commits_nothing conn (and_then f g)"
  unfolding commits_nothing_def
proof (intro allI impI)
  fix ctx and w :: "'a db_world"
  assume tx: "TxFor ctx conn \<noteq> None"
  obtain r1 w1 where ran: "f ctx w = (r1, w1)" by (cases "f ctx w")
  have "dw_committed w1 conn = dw_committed w conn" using assms(1) tx ran unfolding commits_nothing_def by (metis snd_conv)
  moreover have "dw_committed (snd (g ctx w1)) conn = dw_committed w1 conn" using assms(2) tx unfolding commits_nothing_def by blast
  ultimately show "dw_committed (snd (and_then f g ctx w)) conn = dw_committed w conn"
    using ran by (simp add: and_then_def split: run.splits sum.splits)
qed

lemma commits_nothingD:
  "commits_nothing conn f \<Longrightarrow> f (ContextWithTx ctx conn tx s) w = (r, w1) \<Longrightarrow> dw_committed w1 conn = dw_committed w conn"
  unfolding commits_nothing_def by (metis TxFor_inner option.discI snd_conv)

text \<open>
  C14: An event is queued exactly when the write it reports commits. The write does what it wants on its transaction, but for
  committing it, and opening transactions on the same or on other connections around it does not make it another kind of write (the
  last conjunct). Whatever fails: either all returned well and what is committed is what the write left in its transaction, with one
  more event in the outbox, or the call failed or panicked and the database is as it was before.
\<close>

theorem publish_with_write:
  fixes w :: "'w app_db db_world"
  assumes "TxFor ctx conn = None" "isOutbox conn" "commits_nothing conn write"
    and "WithinTransaction unbegun uncommitted conn ctx (and_then write (event_Publish isOutbox name raw body fault i)) w = (r, w')"
  shows "((\<exists>d env w1. r = Returns (Inr ()) \<and> write (ContextWithTx ctx conn (dw_next w) (Some (dw_next w))) (begin_tx conn w) = (Returns (Inr ()), w1)
        \<and> d = dw_open w1 (dw_next w)
        \<and> dw_committed w' conn = d\<lparr>ad_outbox := ad_outbox d @ [\<lparr>ob_ID = i, ob_EventType = name, ob_Envelope = env, ob_ProcessedAt = None\<rparr>]\<rparr>)
      \<or> r \<noteq> Returns (Inr ()) \<and> dw_committed w' conn = dw_committed w conn)
    \<and> (\<forall>b c conn'. commits_nothing conn (\<lambda>ctx. WithinTransaction b c conn' ctx write))"
proof -
  let ?tx = "dw_next w"
  let ?ctx = "ContextWithTx ctx conn ?tx (Some ?tx)"
  obtain r1 w1 where wrote: "write ?ctx (begin_tx conn w) = (r1, w1)" by (cases "write ?ctx (begin_tx conn w)")
  have kept: "dw_committed w1 conn = dw_committed w conn" using commits_nothingD [OF assms(3) wrote] by simp
  have published: "event_Publish isOutbox name raw body fault i ?ctx w1 = publishOn name raw body fault i ?tx w1"
    using TxOn_inner [of isOutbox conn ctx ?tx] assms(2) by (simp add: event_Publish_def)
  note run = assms(4) [unfolded WithinTransaction_def and_then_def Let_def, symmetric]
  consider "unbegun \<noteq> None \<or> r1 \<noteq> Returns (Inr ())"
    | (all) payload env where "unbegun = None" "r1 = Returns (Inr ())" "raw = Inr payload" "body payload = Inr env" "fault = None" "uncommitted = None"
    | (late) "unbegun = None" "r1 = Returns (Inr ())" "\<nexists>payload env. raw = Inr payload \<and> body payload = Inr env \<and> fault = None \<and> uncommitted = None"
    by blast
  then have "(\<exists>d env w1. r = Returns (Inr ()) \<and> write ?ctx (begin_tx conn w) = (Returns (Inr ()), w1) \<and> d = dw_open w1 ?tx
        \<and> dw_committed w' conn = d\<lparr>ad_outbox := ad_outbox d @ [\<lparr>ob_ID = i, ob_EventType = name, ob_Envelope = env, ob_ProcessedAt = None\<rparr>]\<rparr>)
      \<or> r \<noteq> Returns (Inr ()) \<and> dw_committed w' conn = dw_committed w conn"
  proof cases
    case 1
    then show ?thesis using run assms(1) wrote kept by (auto split: option.splits run.splits sum.splits)
  next
    case all
    then have "r = Returns (Inr ())"
        "dw_committed w' conn = (dw_open w1 ?tx)\<lparr>ad_outbox := ad_outbox (dw_open w1 ?tx) @ [\<lparr>ob_ID = i, ob_EventType = name, ob_Envelope = env, ob_ProcessedAt = None\<rparr>]\<rparr>"
      using run assms(1) wrote published by (simp_all add: publishOn_def Let_def)
    then show ?thesis using wrote all(2) by blast
  next
    case late
    then have "r \<noteq> Returns (Inr ())" "dw_committed w' conn = dw_committed w conn"
      using run assms(1) wrote published kept by (auto simp: publishOn_def Let_def split: sum.splits option.splits)
    then show ?thesis by blast
  qed
  then show ?thesis using commits_nothing_within [OF assms(3)] by blast
qed

text \<open>A write of one row by a repository that opens a transaction of its own on the connection, and the event that reports it.\<close>

definition ex_row :: "tx_ctx \<Rightarrow> nat app_db db_world \<Rightarrow> unit result run \<times> nat app_db db_world" where
  "ex_row ctx w = (case TxFor ctx 0 of None \<Rightarrow> (Returns (Inl (Plain [])), w)
     | Some tx \<Rightarrow> (Returns (Inr ()), w\<lparr>dw_open := (dw_open w)(tx := (dw_open w tx)\<lparr>ad_rows := 5\<rparr>)\<rparr>))"

definition ex_write :: "tx_ctx \<Rightarrow> nat app_db db_world \<Rightarrow> unit result run \<times> nat app_db db_world" where
  "ex_write ctx = WithinTransaction None None 0 ctx ex_row"

definition ex_world :: "nat app_db db_world" where
  "ex_world = \<lparr>dw_committed = (\<lambda>_. \<lparr>ad_rows = 0, ad_outbox = []\<rparr>), dw_open = (\<lambda>_. \<lparr>ad_rows = 0, ad_outbox = []\<rparr>), dw_next = 0\<rparr>"

theorem publish_with_write_witness:
  "ad_rows (dw_committed (snd (WithinTransaction None None 0 [] (and_then ex_write (event_Publish (\<lambda>p. p = 0) ''paid'' (Inr []) Inr None 7)) ex_world)) 0) = 5
   \<and> map ob_ID (ad_outbox (dw_committed (snd (WithinTransaction None None 0 [] (and_then ex_write (event_Publish (\<lambda>p. p = 0) ''paid'' (Inr []) Inr None 7)) ex_world)) 0)) = [7]"
proof -
  let ?run = "WithinTransaction None None 0 [] (and_then ex_write (event_Publish (\<lambda>p. p = 0) ''paid'' (Inr []) Inr None 7)) ex_world"
  have ran: "fst ?run = Returns (Inr ())" by code_simp
  have none: "TxFor [] 0 = None" by (simp add: TxFor_def entry_find_def)
  have "commits_nothing 0 ex_row" by (simp add: commits_nothing_def ex_row_def split: option.splits)
  then have writes: "commits_nothing 0 ex_write" unfolding ex_write_def [abs_def] by (rule commits_nothing_within)
  from publish_with_write [where r = "fst ?run" and w' = "snd ?run" and isOutbox = "\<lambda>p. p = 0", OF none refl writes prod.collapse [symmetric]] ran
  obtain d env w1 where
    w1: "ex_write (ContextWithTx [] 0 (dw_next ex_world) (Some (dw_next ex_world))) (begin_tx 0 ex_world) = (Returns (Inr ()), w1)"
      "d = dw_open w1 (dw_next ex_world)"
    and d: "dw_committed (snd ?run) 0 = d\<lparr>ad_outbox := ad_outbox d @ [\<lparr>ob_ID = 7, ob_EventType = ''paid'', ob_Envelope = env, ob_ProcessedAt = None\<rparr>]\<rparr>"
    by auto
  have "ad_outbox d = []" "ad_rows d = 5" using w1 by (auto simp: ex_write_def ex_row_def ex_world_def begin_tx_def WithinTransaction_def)
  then show ?thesis unfolding d by simp
qed

section \<open>A key is reserved once\<close>

datatype store_op = Reserving string | Confirming string "string option" | Releasing string | Purging int

definition store_step :: "(go_error option \<times> int \<times> store_op) \<Rightarrow> idem_record list \<Rightarrow> idem_record list" where
  "store_step x rows =
     (case x of (fault, now, opn) \<Rightarrow>
       (case opn of Reserving k \<Rightarrow> snd (reserveKey fault now k rows) | Confirming k resp \<Rightarrow> snd (confirmKey fault now k resp rows)
        | Releasing k \<Rightarrow> snd (store_Release fault k rows) | Purging d \<Rightarrow> snd (PurgeStaleReservations fault now d rows)))"

text \<open>What would free a confirmed key.\<close>

definition frees :: "string \<Rightarrow> store_op \<Rightarrow> bool" where
  "frees key opn = (case opn of Releasing k \<Rightarrow> k = key | _ \<Rightarrow> False)"

definition confirmed :: "string \<Rightarrow> idem_record list \<Rightarrow> bool" where
  "confirmed key rows = list_ex (\<lambda>r. id_Key r = key \<and> id_ProcessedAt r \<noteq> None) rows"

lemma confirmed_confirm: "key \<in> id_Key ` set rows \<Longrightarrow> confirmed key (snd (confirmKey None now key resp rows))"
  by (induction rows) (auto simp: confirmed_def confirmKey_def)

lemma confirmed_kept:
  assumes "confirmed key rows"
  shows "confirmed key (snd (reserveKey fault now k rows))" "confirmed key (snd (confirmKey fault now k resp rows))"
    "k \<noteq> key \<Longrightarrow> confirmed key (snd (store_Release fault k rows))" "confirmed key (snd (PurgeStaleReservations fault now d rows))"
proof -
  show "confirmed key (snd (confirmKey fault now k resp rows))"
    using assms by (cases fault; induction rows) (auto simp: confirmed_def confirmKey_def)
qed (use assms in \<open>auto simp: confirmed_def reserveKey_def store_Release_def PurgeStaleReservations_def list_ex_iff split: option.splits\<close>)

lemma confirmed_step: "confirmed key rows \<Longrightarrow> \<not> frees key (snd (snd x)) \<Longrightarrow> confirmed key (store_step x rows)"
  by (auto simp: store_step_def frees_def confirmed_kept split: prod.splits store_op.splits)

text \<open>A key that was reserved and confirmed stays taken through every operation but its own release.\<close>

theorem confirmed_stays:
  assumes "key \<in> id_Key ` set rows" "\<forall>x \<in> set xs. \<not> frees key (snd (snd x))"
  shows "fst (reserveKey None now' key (foldl (\<lambda>rows x. store_step x rows) (snd (confirmKey None now key resp rows)) xs)) = Inr False"
proof -
  have "confirmed key (foldl (\<lambda>rows x. store_step x rows) rows' xs)" if "confirmed key rows'" for rows'
    using that assms(2) by (induction xs arbitrary: rows') (auto simp: confirmed_step)
  moreover have "confirmed key (snd (confirmKey None now key resp rows))"
    using assms(1) by (rule confirmed_confirm)
  ultimately have "confirmed key (foldl (\<lambda>rows x. store_step x rows) (snd (confirmKey None now key resp rows)) xs)" by blast
  then show ?thesis by (auto simp: reserveKey_def confirmed_def list_ex_iff)
qed

end
