(* ===== verification/Breaker.thy ===== *)
theory Breaker
  imports Account
begin

text \<open>
  The circuit breaker and the retry of the HTTP client (\<^verbatim>\<open>httpclient/internal/resilience\<close>).

  A call of the breaker is a sequence of sections under its mutex: entering (admitted as a call, admitted as a trial, or
  refused), recording the outcome, and for a trial the deferred reset of the flag, which runs in a section of its own
  after the outcome, or alone when the operation panicked. The sections of all calls interleave.
\<close>

section \<open>The breaker\<close>

datatype breaker_state = StateClosed | StateOpen | StateHalfOpen

record breaker =
  cb_state :: breaker_state
  cb_failures :: int
  cb_openedAt :: int
  cb_trialInProgress :: bool
  cb_failureThreshold :: int
  cb_openTimeout :: int

definition ErrOpen :: string where "ErrOpen = ''circuit breaker open''"

text \<open>\<^verbatim>\<open>openedAt\<close> starts as the zero time, the parameter \<open>zero_time\<close>.\<close>

definition NewCircuitBreaker :: "int \<Rightarrow> int \<Rightarrow> int \<Rightarrow> breaker" where
  "NewCircuitBreaker zero_time failureThreshold openTimeout =
     \<lparr>cb_state = StateClosed, cb_failures = 0, cb_openedAt = zero_time, cb_trialInProgress = False,
      cb_failureThreshold = (if failureThreshold < 1 then 1 else failureThreshold),
      cb_openTimeout = (if openTimeout \<le> 0 then second else openTimeout)\<rparr>"

datatype admission = Refused | Called | Trialled

text \<open>The first section of \<^verbatim>\<open>Execute\<close>.\<close>

definition execute_enter :: "int \<Rightarrow> breaker \<Rightarrow> admission \<times> breaker" where
  "execute_enter now cb =
     (case cb_state cb of
        StateOpen \<Rightarrow>
          (if now - cb_openedAt cb < cb_openTimeout cb then (Refused, cb)
           else (Trialled, cb\<lparr>cb_state := StateHalfOpen, cb_trialInProgress := True\<rparr>))
      | StateHalfOpen \<Rightarrow>
          (if cb_trialInProgress cb then (Refused, cb) else (Trialled, cb\<lparr>cb_trialInProgress := True\<rparr>))
      | StateClosed \<Rightarrow> (Called, cb))"

text \<open>The section after a call that was admitted while the breaker was closed; a panic counts as a failure.\<close>

definition call_finished :: "int \<Rightarrow> bool \<Rightarrow> breaker \<Rightarrow> breaker" where
  "call_finished now ok cb =
     (if ok then cb\<lparr>cb_failures := 0\<rparr>
      else let counted = cb\<lparr>cb_failures := cb_failures cb + 1\<rparr> in
           if cb_failures counted \<ge> cb_failureThreshold cb then counted\<lparr>cb_state := StateOpen, cb_openedAt := now\<rparr> else counted)"

text \<open>The two sections of \<^verbatim>\<open>runTrial\<close>.\<close>

definition trial_settled :: "int \<Rightarrow> bool \<Rightarrow> breaker \<Rightarrow> breaker" where
  "trial_settled now ok cb =
     (if ok then cb\<lparr>cb_state := StateClosed, cb_failures := 0\<rparr>
      else cb\<lparr>cb_state := StateOpen, cb_openedAt := now, cb_failures := 0\<rparr>)"

definition trial_released :: "breaker \<Rightarrow> breaker" where
  "trial_released cb = cb\<lparr>cb_trialInProgress := False\<rparr>"

text \<open>
  A whole call alone: the operation returns or panics, the clock read at the start and at the end. The result is what the caller
  sees.
\<close>

definition breaker_Execute :: "go_error option \<Rightarrow> int \<Rightarrow> int \<Rightarrow> (unit result run) \<Rightarrow> breaker \<Rightarrow> unit result run \<times> breaker" where
  "breaker_Execute ctxErr t0 t1 answer cb =
     (case ctxErr of
        Some e \<Rightarrow> (Returns (Inl e), cb)
      | None \<Rightarrow>
        (case execute_enter t0 cb of
           (Refused, cb1) \<Rightarrow> (Returns (Inl (Sentinel ErrOpen)), cb1)
         | (Called, cb1) \<Rightarrow> (answer, call_finished t1 (answer = Returns (Inr ())) cb1)
         | (Trialled, cb1) \<Rightarrow>
             (case answer of
                Panics p \<Rightarrow> (Panics p, trial_released cb1)
              | Returns r \<Rightarrow> (Returns r, trial_released (trial_settled t1 (is_ok r) cb1)))))"

section \<open>Retrying\<close>

definition ErrInvalidAttempts :: string where "ErrInvalidAttempts = ''attempts must be >= 1''"

definition maxBackoff :: int where "maxBackoff = 30 * second"

text \<open>
  \<open>initial * 2^i\<close> in floating point, converted back and capped: products up to the cap are below \<open>2^53\<close> and exact, and every larger
  one is capped, also where the conversion overflows.
\<close>

definition backoff_at :: "int \<Rightarrow> nat \<Rightarrow> int" where
  "backoff_at initial i = min (initial * 2 ^ i) maxBackoff"

text \<open>
  The loop from the \<open>i\<close>-th attempt on, \<open>left\<close> attempts to go. \<open>stopped i\<close> is the context's error before attempt \<open>i\<close>,
  \<open>cancelled i\<close> its error while waiting after it, \<open>answers i\<close> what the operation returns. The result comes with the waits made
  and the number of times the operation ran.
\<close>

fun retry_loop :: "(nat \<Rightarrow> go_error option) \<Rightarrow> (nat \<Rightarrow> go_error option) \<Rightarrow> (nat \<Rightarrow> unit result) \<Rightarrow> int \<Rightarrow> nat \<Rightarrow> nat \<Rightarrow> unit result \<times> int list \<times> nat" where
  "retry_loop stopped cancelled answers initial i 0 = (Inr (), [], 0)"
| "retry_loop stopped cancelled answers initial i (Suc left) =
     (case stopped i of
        Some e \<Rightarrow> (Inl e, [], 0)
      | None \<Rightarrow>
        (case answers i of
           Inr _ \<Rightarrow> (Inr (), [], 1)
         | Inl e \<Rightarrow>
             if left = 0 then (Inl e, [], 1)
             else (case cancelled i of
                     Some c \<Rightarrow> (Inl c, [backoff_at initial i], 1)
                   | None \<Rightarrow>
                     (case retry_loop stopped cancelled answers initial (Suc i) left of
                        (r, waits, calls) \<Rightarrow> (r, backoff_at initial i # waits, Suc calls)))))"

definition Retry :: "(nat \<Rightarrow> go_error option) \<Rightarrow> (nat \<Rightarrow> go_error option) \<Rightarrow> (nat \<Rightarrow> unit result) \<Rightarrow> int \<Rightarrow> int \<Rightarrow> unit result \<times> int list \<times> nat" where
  "Retry stopped cancelled answers attempts initial =
     (if attempts < 1 then (Inl (Sentinel ErrInvalidAttempts), [], 0)
      else retry_loop stopped cancelled answers (if initial \<le> 0 then second div 10 else initial) 0 (nat attempts))"

section \<open>Calls side by side\<close>

text \<open>
  The calls in flight: admitted while closed, trials whose operation runs, and trials that recorded their outcome but did not
  reset the flag. The history holds the outcomes recorded, newest first: whether it was a trial's, and whether it was a success. \<open>bs_overlaps\<close> counts the trials that were
  admitted from OPEN although the flag was still set.
\<close>

record breaker_sys =
  bs_cb :: breaker
  bs_now :: int
  bs_calls :: nat
  bs_trials :: nat
  bs_settled :: nat
  bs_history :: "(bool \<times> bool) list"
  bs_overlaps :: nat

inductive breaker_step :: "breaker_sys \<Rightarrow> breaker_sys \<Rightarrow> bool" where
  clock: "bs_now s \<le> t \<Longrightarrow> breaker_step s (s\<lparr>bs_now := t\<rparr>)"
| refused: "execute_enter t (bs_cb s) = (Refused, cb) \<Longrightarrow> t \<le> bs_now s \<Longrightarrow> breaker_step s (s\<lparr>bs_cb := cb\<rparr>)"
| called: "execute_enter t (bs_cb s) = (Called, cb) \<Longrightarrow> t \<le> bs_now s \<Longrightarrow> breaker_step s (s\<lparr>bs_cb := cb, bs_calls := Suc (bs_calls s)\<rparr>)"
| trialled: "execute_enter t (bs_cb s) = (Trialled, cb) \<Longrightarrow> t \<le> bs_now s \<Longrightarrow>
    breaker_step s (s\<lparr>bs_cb := cb, bs_trials := Suc (bs_trials s),
      bs_overlaps := bs_overlaps s + (if cb_state (bs_cb s) = StateOpen \<and> cb_trialInProgress (bs_cb s) then 1 else 0)\<rparr>)"
| finished: "0 < bs_calls s \<Longrightarrow> t \<le> bs_now s \<Longrightarrow>
    breaker_step s (s\<lparr>bs_cb := call_finished t ok (bs_cb s), bs_calls := bs_calls s - 1, bs_history := (False, ok) # bs_history s\<rparr>)"
| settled: "0 < bs_trials s \<Longrightarrow> t \<le> bs_now s \<Longrightarrow>
    breaker_step s (s\<lparr>bs_cb := trial_settled t ok (bs_cb s), bs_trials := bs_trials s - 1, bs_settled := Suc (bs_settled s),
      bs_history := (True, ok) # bs_history s\<rparr>)"
| released: "0 < bs_settled s \<Longrightarrow> breaker_step s (s\<lparr>bs_cb := trial_released (bs_cb s), bs_settled := bs_settled s - 1\<rparr>)"
| panicked: "0 < bs_trials s \<Longrightarrow> breaker_step s (s\<lparr>bs_cb := trial_released (bs_cb s), bs_trials := bs_trials s - 1\<rparr>)"

definition fresh_breaker :: "int \<Rightarrow> int \<Rightarrow> int \<Rightarrow> int \<Rightarrow> breaker_sys" where
  "fresh_breaker zero_time threshold timeout now =
     \<lparr>bs_cb = NewCircuitBreaker zero_time threshold timeout, bs_now = now, bs_calls = 0, bs_trials = 0, bs_settled = 0, bs_history = [], bs_overlaps = 0\<rparr>"

text \<open>The failures counted are the newest outcomes; a closed breaker is below its threshold; the flag belongs to a trial in flight.\<close>

definition breaker_ok :: "breaker_sys \<Rightarrow> bool" where
  "breaker_ok s \<longleftrightarrow> 1 \<le> cb_failureThreshold (bs_cb s) \<and> 0 < cb_openTimeout (bs_cb s)
     \<and> 0 \<le> cb_failures (bs_cb s) \<and> cb_failures (bs_cb s) \<le> int (length (takeWhile (\<lambda>x. \<not> snd x) (bs_history s)))
     \<and> (cb_state (bs_cb s) = StateClosed \<longrightarrow> cb_failures (bs_cb s) < cb_failureThreshold (bs_cb s))
     \<and> (cb_trialInProgress (bs_cb s) \<longrightarrow> 0 < bs_trials s + bs_settled s)
     \<and> bs_trials s + bs_settled s \<le> (if cb_trialInProgress (bs_cb s) then 1 else 0) + bs_overlaps s"

lemmas breaker_defs = execute_enter_def call_finished_def trial_settled_def trial_released_def

lemma breaker_ok_step: "breaker_step s s' \<Longrightarrow> breaker_ok s \<Longrightarrow> breaker_ok s'"
  by (induction rule: breaker_step.induct)
    (auto simp: breaker_ok_def breaker_defs Let_def split: breaker_state.splits if_splits)

lemma breaker_ok_run: "breaker_step\<^sup>*\<^sup>* (fresh_breaker z n d now) s \<Longrightarrow> breaker_ok s"
  by (induction rule: rtranclp_induct)
    (simp_all add: breaker_ok_step, simp add: breaker_ok_def fresh_breaker_def NewCircuitBreaker_def second_def)


section \<open>What the breaker promises\<close>

text \<open>
  C33: Trials do not pile up: in every interleaving of calls, late outcomes and panics, the trials in flight are at most one
  more than the trials that were let through from OPEN while the flag of an earlier one was still set. If that never
  happened there is at most one.
\<close>

theorem breaker_trials:
  assumes "breaker_step\<^sup>*\<^sup>* (fresh_breaker z threshold timeout now) s"
  shows "bs_trials s + bs_settled s \<le> 1 + bs_overlaps s"
  using breaker_ok_run [OF assms] by (auto simp: breaker_ok_def split: if_splits)

text \<open>
  C17: The breaker never stays shut for good: once the timeout since it last opened is over, the next call is admitted, unless
  a trial is in flight; a trial that panicked, returned or failed blocks nobody. And it opens only for cause: a closed or half-open
  breaker that opens has just recorded a failure, and that was the failure of a trial, or the newest \<open>threshold\<close> outcomes are all
  failures.
\<close>

theorem breaker_recovers:
  assumes "breaker_step\<^sup>*\<^sup>* (fresh_breaker z threshold timeout now) s"
  shows "(\<forall>t. cb_openedAt (bs_cb s) + cb_openTimeout (bs_cb s) \<le> t \<longrightarrow> bs_trials s + bs_settled s = 0 \<longrightarrow> fst (execute_enter t (bs_cb s)) \<noteq> Refused)
    \<and> (\<forall>s'. cb_state (bs_cb s) \<noteq> StateOpen \<longrightarrow> breaker_step s s' \<longrightarrow> cb_state (bs_cb s') = StateOpen \<longrightarrow>
      (\<exists>trial. bs_history s' = (trial, False) # bs_history s
        \<and> (trial \<or> cb_failureThreshold (bs_cb s) \<le> int (length (takeWhile (\<lambda>x. \<not> snd x) (bs_history s'))))))"
proof (intro conjI allI impI)
  note ok = breaker_ok_run [OF assms]
  show "fst (execute_enter t (bs_cb s)) \<noteq> Refused" if "cb_openedAt (bs_cb s) + cb_openTimeout (bs_cb s) \<le> t" "bs_trials s + bs_settled s = 0" for t
    using ok that by (auto simp: breaker_ok_def execute_enter_def split: breaker_state.splits)
  fix s' assume opens: "cb_state (bs_cb s) \<noteq> StateOpen" "breaker_step s s'" "cb_state (bs_cb s') = StateOpen"
  show "\<exists>trial. bs_history s' = (trial, False) # bs_history s
      \<and> (trial \<or> cb_failureThreshold (bs_cb s) \<le> int (length (takeWhile (\<lambda>x. \<not> snd x) (bs_history s'))))"
    using opens(2,1,3) ok
    by (cases rule: breaker_step.cases) (auto simp: breaker_ok_def breaker_defs Let_def split: if_splits breaker_state.splits)
qed

text \<open>A run of steps, each given by a function, for the examples.\<close>

definition ex_call :: "int \<Rightarrow> breaker_sys \<Rightarrow> breaker_sys" where
  "ex_call t s = (case execute_enter t (bs_cb s) of
     (Refused, cb) \<Rightarrow> s\<lparr>bs_cb := cb\<rparr>
   | (Called, cb) \<Rightarrow> s\<lparr>bs_cb := cb, bs_calls := Suc (bs_calls s)\<rparr>
   | (Trialled, cb) \<Rightarrow> s\<lparr>bs_cb := cb, bs_trials := Suc (bs_trials s), bs_overlaps := bs_overlaps s + (if cb_state (bs_cb s) = StateOpen \<and> cb_trialInProgress (bs_cb s) then 1 else 0)\<rparr>)"

lemma ex_call_step: "t \<le> bs_now s \<Longrightarrow> breaker_step s (ex_call t s)"
proof (cases "execute_enter t (bs_cb s)")
  case (Pair adm cb)
  then show "t \<le> bs_now s \<Longrightarrow> ?thesis"
    using breaker_step.refused [of t s cb] breaker_step.called [of t s cb] breaker_step.trialled [of t s cb]
    by (cases adm; cases "cb_state (bs_cb s)"; cases "cb_trialInProgress (bs_cb s)") (simp_all add: ex_call_def)
qed

definition ex_fail :: "int \<Rightarrow> breaker_sys \<Rightarrow> breaker_sys" where
  "ex_fail t s = s\<lparr>bs_cb := call_finished t False (bs_cb s), bs_calls := bs_calls s - 1, bs_history := (False, False) # bs_history s\<rparr>"

lemma ex_fail_step: "0 < bs_calls s \<Longrightarrow> t \<le> bs_now s \<Longrightarrow> breaker_step s (ex_fail t s)"
  unfolding ex_fail_def by (rule breaker_step.finished)

text \<open>Two calls are in flight when the first failure opens the breaker; a trial follows.\<close>

definition ex_trial :: breaker_sys where
  "ex_trial = ex_call 10 (ex_fail 0 (ex_call 0 (ex_call 0 (fresh_breaker 0 1 10 100))))"

lemma ex_trial_run: "breaker_step\<^sup>*\<^sup>* (fresh_breaker 0 1 10 100) ex_trial"
proof -
  let ?s0 = "fresh_breaker 0 1 10 100"
  let ?s1 = "ex_call 0 ?s0" let ?s2 = "ex_call 0 ?s1" let ?s3 = "ex_fail 0 ?s2"
  have "0 < bs_calls ?s2" "bs_now ?s0 = 100" "bs_now ?s1 = 100" "bs_now ?s2 = 100" "bs_now ?s3 = 100" by code_simp+
  then have steps: "breaker_step ?s0 ?s1" "breaker_step ?s1 ?s2" "breaker_step ?s2 ?s3" "breaker_step ?s3 ex_trial"
    unfolding ex_trial_def by (simp_all add: ex_call_step ex_fail_step)
  note more = rtranclp.rtrancl_into_rtrancl [where r = breaker_step and a = ?s0]
  show ?thesis by (rule more [OF more [OF more [OF more [OF rtranclp.rtrancl_refl steps(1)] steps(2)] steps(3)] steps(4)])
qed

theorem breaker_trials_witness: "bs_trials ex_trial + bs_settled ex_trial \<le> 1 \<and> bs_trials ex_trial = 1"
proof -
  have "bs_overlaps ex_trial = 0" "bs_trials ex_trial = 1" by code_simp+
  then show ?thesis using breaker_trials [OF ex_trial_run] by simp
qed

theorem breaker_recovers_witness:
  "fst (execute_enter 10 (bs_cb (ex_fail 0 (ex_call 0 (fresh_breaker 0 1 10 100))))) \<noteq> Refused"
proof -
  let ?s0 = "fresh_breaker 0 1 10 100" let ?s1 = "ex_call 0 ?s0" let ?s2 = "ex_fail 0 ?s1"
  have "0 < bs_calls ?s1" "bs_now ?s0 = 100" "bs_now ?s1 = 100" by code_simp+
  then have steps: "breaker_step ?s0 ?s1" "breaker_step ?s1 ?s2" by (simp_all add: ex_call_step ex_fail_step)
  have run: "breaker_step\<^sup>*\<^sup>* ?s0 ?s2"
    by (rule rtranclp.rtrancl_into_rtrancl [where r = breaker_step, OF r_into_rtranclp [where r = breaker_step, OF steps(1)] steps(2)])
  have due: "cb_openedAt (bs_cb ?s2) + cb_openTimeout (bs_cb ?s2) \<le> 10" and idle: "bs_trials ?s2 + bs_settled ?s2 = 0" by code_simp+
  show ?thesis by (rule conjunct1 [OF breaker_recovers [OF run], rule_format, OF due idle])
qed

text \<open>
  The flag does not keep trials apart when a call from before the breaker opened fails during a trial: it opens the breaker again,
  and when the timeout is over the next call is a second trial beside the first.
\<close>

theorem breaker_two_trials: "\<exists>s. breaker_step\<^sup>*\<^sup>* (fresh_breaker 0 1 10 100) s \<and> bs_trials s = 2"
proof (intro exI conjI)
  let ?s = "ex_call 30 (ex_fail 20 ex_trial)"
  have "0 < bs_calls ex_trial" "bs_now ex_trial = 100" "bs_now (ex_fail 20 ex_trial) = 100" by code_simp+
  then have steps: "breaker_step ex_trial (ex_fail 20 ex_trial)" "breaker_step (ex_fail 20 ex_trial) ?s"
    by (simp_all add: ex_call_step ex_fail_step)
  show "breaker_step\<^sup>*\<^sup>* (fresh_breaker 0 1 10 100) ?s"
    by (rule rtranclp.rtrancl_into_rtrancl [where r = breaker_step, OF rtranclp.rtrancl_into_rtrancl [where r = breaker_step, OF ex_trial_run steps(1)] steps(2)])
  show "bs_trials ?s = 2" by code_simp
qed

section \<open>What a retry does\<close>

lemma retry_loop_calls: "retry_loop st ca an initial i n = (r, waits, calls) \<Longrightarrow> calls \<le> n \<and> length waits \<le> calls"
  by (induction st ca an initial i n arbitrary: r waits calls rule: retry_loop.induct)
    (fastforce split: option.splits sum.splits if_splits prod.splits)+

lemma retry_loop_gives_up:
  assumes "\<And>k. st k = None" "\<And>k. ca k = None" "\<And>k. i \<le> k \<Longrightarrow> k < i + n \<Longrightarrow> an k = Inl (e k)" "0 < n"
  shows "retry_loop st ca an initial i n = (Inl (e (i + n - 1)), map (backoff_at initial) [i ..< i + n - 1], n)"
  using assms(3,4)
proof (induction n arbitrary: i)
  case (Suc n)
  have now: "an i = Inl (e i)" using Suc.prems by simp
  show ?case
  proof (cases "n = 0")
    case False
    then have "[i ..< i + n] = i # [Suc i ..< i + n]" by (simp add: upt_conv_Cons)
    moreover have "retry_loop st ca an initial (Suc i) n = (Inl (e (i + n)), map (backoff_at initial) [Suc i ..< i + n], n)"
      using Suc.IH [of "Suc i"] Suc.prems(1) False by simp
    ultimately show ?thesis using False now assms(1) [of i] assms(2) [of i] by simp
  qed (use assms(1) now in simp)
qed simp

text \<open>
  An operation that keeps failing is called as often as asked, with the waits doubling up to the cap, and its last
  error is returned; one that succeeds at attempt \<open>k\<close> is called \<open>k + 1\<close> times and no more.
\<close>

theorem Retry_gives_up:
  assumes "\<And>k. st k = None" "\<And>k. ca k = None" "\<And>k. int k < attempts \<Longrightarrow> an k = Inl (e k)" "1 \<le> attempts" "0 < initial"
  shows "Retry st ca an attempts initial = (Inl (e (nat attempts - 1)), map (\<lambda>k. min (initial * 2 ^ k) maxBackoff) [0 ..< nat attempts - 1], nat attempts)"
  using assms retry_loop_gives_up [of st ca 0 "nat attempts" an e initial]
  by (simp add: Retry_def backoff_at_def [abs_def] zless_nat_eq_int_zless)

end
