(* ===== verification/Spec2Isabelle.thy ===== *)
theory Spec2Isabelle
  imports RoleReplace SqlFilter Money Limiter ProfileFlow Navigation Lease Transactor Breaker
begin

text \<open>
  \<^bold>\<open>What this is.\<close> A model of the core logic of go-core, a Go framework for business applications, with the theorems
  that make it correct. The program decides who may do what (\<^verbatim>\<open>authz\<close>), who somebody is
  (\<^verbatim>\<open>identity\<close>), what menu they see (\<^verbatim>\<open>navigation\<close>), counts and throttles
  (\<^verbatim>\<open>ratelimit\<close>), lets one run of a job go at a time (\<^verbatim>\<open>lock\<close>), delivers events
  (\<^verbatim>\<open>event\<close>, \<^verbatim>\<open>database\<close>), calls other systems (\<^verbatim>\<open>httpclient\<close>), reports failures
  (\<^verbatim>\<open>apperr\<close>) and computes with money (\<^verbatim>\<open>money\<close>). Paths below are under
  \<^verbatim>\<open>src/\<close>. Go's errors are the datatype \<open>go_error\<close>, a fallible function returns
  \<open>go_error + 'a\<close>, a function that changes state takes and returns it, and a Go map is a finite map read in the
  order of its keys. Times and durations are integers in nanoseconds; the clock is a sequence of answers, one for each
  reading the code makes.

  \<^bold>\<open>Authorization\<close> (\<^verbatim>\<open>authz/\<close>).
  \<^item> \<open>Apperr\<close>: application errors and their classification (\<^verbatim>\<open>apperr/\<close>), the sentinels and
    denials of \<^verbatim>\<open>authz/errors.go\<close>.
  \<^item> \<open>Catalogue\<close>: permissions, options, requirements and their cycles (\<^verbatim>\<open>permission.go\<close>,
    \<^verbatim>\<open>catalogue.go\<close>, \<^verbatim>\<open>computed.go\<close>). The search for cycles is equivalent to the absence of
    a path from a permission to itself.
  \<^item> \<open>Hierarchy\<close>: levels, scopes and chains through the host's resolver (\<^verbatim>\<open>hierarchy.go\<close>).
  \<^item> \<open>Roles\<close>: qualifiers, principals, roles and bindings. \<open>Effective\<close>: what a subject holds, and the
    pruning of clauses that others cover (\<^verbatim>\<open>effective.go\<close>, \<^verbatim>\<open>access.go\<close>).
  \<^item> \<open>Store\<close>: the port \<^verbatim>\<open>Store\<close> as a record of operations, its contract as the locale
    \<open>authz_store\<close>, and the memory store that keeps it (\<^verbatim>\<open>authztest/memstore.go\<close>).
    \<open>Cache\<close>: entries, epochs and evictions, with loads and evictions interleaved in a step relation.
  \<^item> \<open>Engine\<close> (definitions), \<open>Decisions\<close> (lemmas), \<open>Authorize\<close> (properties): the decisions
    themselves, \<^verbatim>\<open>Require\<close>, \<^verbatim>\<open>RequireOn\<close>, \<^verbatim>\<open>Access\<close> and their variants. A decision
    is characterised by the bindings and grants that give it; the cache never changes an answer and never serves what an
    eviction made stale; a principal reaches no other tenant.
  \<^item> \<open>Admin\<close>: delegation and the four handlers that change roles and bindings (\<^verbatim>\<open>delegation.go\<close>,
    \<^verbatim>\<open>admin.go\<close>). Nobody grants what they do not hold, or locks the administrators out.
  \<^item> \<open>AccessAdmin\<close>: the services \<^verbatim>\<open>Roles\<close> and \<^verbatim>\<open>Bindings\<close> of \<^verbatim>\<open>access/admin/\<close> on
    top of it: each kind of subject has its own permission, unknown subjects and subjects out of reach are not told apart, and the
    hooks of the application are asked. A role is given only where all of that holds, and to nobody else. \<open>RoleReplace\<close>: replacing
    a custom role by a predefined one moves every holder or none, and a replacement that fails leaves no stale access in the cache.
  \<^item> \<open>SqlFilter\<close>: the row filter of \<^verbatim>\<open>authzgorm/filter.go\<close> as SQL text and arguments. The text with its
    arguments bound selects the rows that a clause selects, and those of the records on which \<^verbatim>\<open>RequireOn\<close> passes.

  \<^bold>\<open>Identity\<close> (\<^verbatim>\<open>identity/account/\<close>, with the memory stores of
  \<^verbatim>\<open>identity/identitytest/stores.go\<close>).
  \<^item> \<open>GoText\<close>: runes, trimming, lower case. \<open>Account\<close>: accounts, field checks, refusals, the lock
    read off the sign-in history, sessions, configuration.
  \<^item> \<open>Limiter\<close>: the limiter of \<^verbatim>\<open>ratelimit/\<close> and the counter of sign-in attempts, two
    interpretations of one contract (\<open>fixed_window\<close>), and the bound both keep.
  \<^item> \<open>IdentityStore\<close>: the ports as the record \<open>id_ops\<close>, their contract as the locale
    \<open>id_store\<close>, and the memory stores that keep it.
  \<^item> \<open>SignIn\<close>: the sign-in service (\<^verbatim>\<open>signin_service.go\<close>) and the ending of sessions
    (\<^verbatim>\<open>users.go\<close>). \<open>UserAdmin\<close>: the users module (\<^verbatim>\<open>admin.go\<close>,
    \<^verbatim>\<open>history.go\<close>).
  \<^item> \<open>Services\<close>: all of it as one step relation, and the locale \<open>kept\<close>: what every port keeps, every
    run keeps. \<open>Sessions\<close>: ended sessions stay ended, a refresh token works once, a deactivated account stays
    out, the lock throttles guesses that come one after another, a refused sign-in tells a stranger nothing. An operation of these
    services is one step: the runs are those whose requests do not overlap within an operation.
  \<^item> \<open>Rounds\<close>: the retry loop of an optimistic write, and the locale \<open>enough_rounds\<close>, which its users
    interpret. \<open>Codes\<close>: one-time codes (\<^verbatim>\<open>codes.go\<close>), and \<open>Reauth\<close>: re-confirming a
    password (\<^verbatim>\<open>reauth.go\<close>), both while other requests interfere. A code is used once and guessed no
    more often than the rules allow; no more passwords are checked per lock than the rule says, in whatever order
    parallel requests read and write; and the loops answer within their rounds.
  \<^item> \<open>Profile\<close> and \<open>ProfileFlow\<close>: what a person does with their own account (\<^verbatim>\<open>profile.go\<close>), first
    the part that writes the account and its sessions, which is among the steps of \<open>Services\<close>, then the whole operations
    with the re-confirmation and the codes. A password changes only for who knows it and ends the other sessions; an
    address changes by its code alone.

  \<^bold>\<open>Menus and leases.\<close>
  \<^item> \<open>Navigation\<close>: the menu tree, its check and its filter (\<^verbatim>\<open>navigation/navigation.go\<close>). The filtered
    menu is exactly what a person may reach.
  \<^item> \<open>Lease\<close>: \<^verbatim>\<open>lock/lock.go\<close> over the statements of
    \<^verbatim>\<open>lock/gormstore/gormstore.go\<close>, with acquiring, functions, heartbeats and releases of all holders interleaved and
    statements that fail with or without having written. While a function runs and the lease its call was last told of has not run out,
    the row is its own and no other function for the key runs on such a lease.

  \<^bold>\<open>Events and calls.\<close>
  \<^item> \<open>Outbox\<close>: the queue of \<^verbatim>\<open>event/\<close>: claiming under leases, handling, recording, retries and dead
    letters, with all workers, crashes and housekeeping interleaved. An event is not lost, nor is a dead letter that is retried; a worker of the code takes steps of
    the queue. Two theorems show where the code does less than its comments say: a late worker undoes an outcome, an
    expired letter comes back.
  \<^item> \<open>Housekeeper\<close>: the sweeps in batches, which on a database that answers delete what two statements over the whole tables
    would, and the check of the consumers. \<open>Transactor\<close>: transactions carried by a context (\<^verbatim>\<open>database/transactor.go\<close>),
    \<^verbatim>\<open>Publish\<close>, and the store of processed keys. An event is queued exactly when its write commits.
  \<^item> \<open>Breaker\<close>: the circuit breaker and the retry of \<^verbatim>\<open>httpclient/internal/resilience\<close>. Trials do not pile
    up beyond the overlaps the code lets through, and the breaker never stays shut.

  \<^bold>\<open>Money\<close> (\<^verbatim>\<open>money/\<close>): cents at 64 bits with every overflow test, exact fractions, rates, and
  the decimal text, which reads back as it was written.

  \<^bold>\<open>Parameters.\<close> What is not in the repository is an argument with its documented behaviour as a hypothesis: the
  host's scope resolver and attribute functions, a database's rows, password hashes and HMACs, random tokens, lower case
  outside ASCII, \<^verbatim>\<open>mail.ParseAddress\<close>, \<^verbatim>\<open>url.Parse\<close>, hooks and extensions of the application. A mutex held for a whole
  method makes the method one step. In \<open>Cache\<close>, \<open>Codes\<close>, \<open>Reauth\<close>, \<open>Lease\<close>, \<open>Outbox\<close>, \<open>Limiter\<close> and \<open>Breaker\<close>
  requests interleave between the single reads and writes, as the code lets them; the sign-in, users and profile services and
  the delegation run whole operations one after another.

  \<^bold>\<open>Bounds.\<close> Recursions are structural or have a measure: the search for requirement cycles by the permissions not
  yet finished, a scope chain by the levels of the hierarchy, retry loops by their number of rounds, a sweep by the rows above its mark. No
  definition has fuel of its own.

  \<^bold>\<open>Not modelled.\<close> The SQL stores (\<^verbatim>\<open>authz/gormstore\<close>, \<^verbatim>\<open>identity/gormstore\<close>:
  statements built through GORM, whose contracts are the locales above), HTTP handlers and middleware, rendering, mail,
  code generation and everything that is driven by reflection or by goroutines in real time; logging and stack capture;
  the conversions of money to and from floating point.
\<close>

end
